(* ===== verification/Prelude.thy ===== *)
theory Prelude
  imports Main "HOL-Library.Word"
begin

text \<open>
  Shared vocabulary of the development: the machine types of the Go sources, the
  error-or-value result of a Go function that returns \<open>(T, error)\<close>, the lemma
  collections the component theories extend, the contract of an encoder and its
  decoder as a locale, and the generic facts on words and lists that several
  components use.
\<close>

section \<open>Machine types\<close>

type_synonym u8 = "8 word"
type_synonym u16 = "16 word"
type_synonym u32 = "32 word"
type_synonym u64 = "64 word"
type_synonym byte = "8 word"
type_synonym bytes = "8 word list"

section \<open>Lemma collections\<close>

named_theorems wf_intros \<open>introduction rules that re-establish a component's invariant\<close>
named_theorems wf_dests \<open>consequences of a component's invariant\<close>
named_theorems op_simps \<open>characteristic equations of operations\<close>

section \<open>Results of fallible operations\<close>

text \<open>
  \<open>'e + 'a\<close> is the result of a function that returns an error or a value; the error is on
  the left. \<open>ebind\<close> is the early return \<open>if err != nil { return ..., err }\<close>, and
  \<open>echeck\<close> a guard that returns an error.
\<close>

definition ebind :: "'e + 'a \<Rightarrow> ('a \<Rightarrow> 'e + 'b) \<Rightarrow> 'e + 'b" where
  "ebind m f = (case m of Inl e \<Rightarrow> Inl e | Inr x \<Rightarrow> f x)"

definition echeck :: "bool \<Rightarrow> 'e \<Rightarrow> 'e + unit" where
  "echeck bad e = (if bad then Inl e else Inr ())"

text \<open>Wrapping an inner error, as \<open>fmt.Errorf("...: %w", err)\<close> does.\<close>

definition emap :: "('e \<Rightarrow> 'f) \<Rightarrow> 'e + 'a \<Rightarrow> 'f + 'a" where
  "emap w m = (case m of Inl e \<Rightarrow> Inl (w e) | Inr x \<Rightarrow> Inr x)"

lemma ebind_simps [simp]:
  "ebind (Inl e) f = Inl e" "ebind (Inr x) f = f x"
  by (simp_all add: ebind_def)

lemma ebind_Inr_iff: "ebind m f = Inr y \<longleftrightarrow> (\<exists>x. m = Inr x \<and> f x = Inr y)"
  by (cases m) auto

lemma ebind_Inl_iff: "ebind m f = Inl e \<longleftrightarrow> m = Inl e \<or> (\<exists>x. m = Inr x \<and> f x = Inl e)"
  by (cases m) auto

lemma echeck_Inr [simp]: "echeck b e = Inr u \<longleftrightarrow> \<not> b"
  by (simp add: echeck_def)

lemma echeck_Inl [simp]: "echeck b e = Inl e' \<longleftrightarrow> b \<and> e' = e"
  by (auto simp: echeck_def)

lemma ebind_echeck: "ebind (echeck b e) f = (if b then Inl e else f ())"
  by (simp add: echeck_def)

lemma emap_simps [simp]:
  "emap w (Inl e) = Inl (w e)" "emap w (Inr x) = Inr x"
  by (simp_all add: emap_def)

lemma emap_Inr_iff [simp]: "emap w m = Inr y \<longleftrightarrow> m = Inr y"
  by (cases m) auto

lemma emap_Inl_iff: "emap w m = Inl e \<longleftrightarrow> (\<exists>e'. m = Inl e' \<and> e = w e')"
  by (cases m) auto

definition is_ok :: "'e + 'a \<Rightarrow> bool" where
  "is_ok m \<longleftrightarrow> (case m of Inl _ \<Rightarrow> False | Inr _ \<Rightarrow> True)"

lemma is_ok_simps [simp]: "is_ok (Inr x)" "\<not> is_ok (Inl e)"
  by (simp_all add: is_ok_def)

lemma is_ok_iff: "is_ok m \<longleftrightarrow> (\<exists>x. m = Inr x)"
  by (cases m) auto

text \<open>Running a fallible step over a list, and collecting what a fallible filter keeps.\<close>

fun efold :: "('x \<Rightarrow> 's \<Rightarrow> 'e + 's) \<Rightarrow> 'x list \<Rightarrow> 's \<Rightarrow> 'e + 's" where
  "efold f [] s = Inr s"
| "efold f (x # xs) s = ebind (f x s) (efold f xs)"

fun ecollect :: "('x \<Rightarrow> 'e + 'a option) \<Rightarrow> 'x list \<Rightarrow> 'e + 'a list" where
  "ecollect f [] = Inr []"
| "ecollect f (x # xs) = ebind (f x) (\<lambda>r. ebind (ecollect f xs) (\<lambda>rs.
     Inr (case r of None \<Rightarrow> rs | Some y \<Rightarrow> y # rs)))"

fun emapM :: "('x \<Rightarrow> 'e + 'a) \<Rightarrow> 'x list \<Rightarrow> 'e + 'a list" where
  "emapM f [] = Inr []"
| "emapM f (x # xs) = ebind (f x) (\<lambda>y. ebind (emapM f xs) (\<lambda>ys. Inr (y # ys)))"

lemma efold_append: "efold f (xs @ ys) s = ebind (efold f xs s) (efold f ys)"
  by (induction xs arbitrary: s) (auto simp: ebind_def split: sum.splits)

lemma ecollect_map_filter:
  "(\<And>x. x \<in> set xs \<Longrightarrow> f x = Inr (g x)) \<Longrightarrow> ecollect f xs = Inr (List.map_filter g xs)"
  by (induction xs) (auto simp: List.map_filter_def split: option.splits)

lemma ecollect_append:
  "ecollect f (xs @ ys) = ebind (ecollect f xs) (\<lambda>as. ebind (ecollect f ys) (\<lambda>bs. Inr (as @ bs)))"
  by (induction xs) (auto simp: ebind_def split: sum.splits option.splits)

lemma emapM_map: "(\<And>x. x \<in> set xs \<Longrightarrow> f x = Inr (g x)) \<Longrightarrow> emapM f xs = Inr (map g xs)"
  by (induction xs) auto

lemma emapM_length: "emapM f xs = Inr ys \<Longrightarrow> length ys = length xs"
  by (induction xs arbitrary: ys) (auto simp: ebind_Inr_iff)

section \<open>The contract of an encoder and its decoder\<close>

text \<open>
  Several parts of the program come as a pair of functions that must be inverse to each
  other on the values one side accepts: identifiers, separation times, byte strings,
  integers of a given width, stored records. The locale states the contract once; each
  provider interprets it, and its clients get injectivity and the exact range of the
  encoder from it.
\<close>

locale partial_codec =
  fixes enc :: "'a \<Rightarrow> 'e + 'b"
    and dec :: "'b \<Rightarrow> 'f + 'a"
  assumes dec_enc: "enc a = Inr b \<Longrightarrow> dec b = Inr a"
begin

lemma enc_inj:
  assumes "enc a = Inr b" and "enc a' = Inr b"
  shows "a = a'"
proof -
  from assms have "Inr a = (Inr a' :: 'f + 'a)"
    using dec_enc by metis
  then show ?thesis by simp
qed

lemma enc_distinct: "enc a = Inr b \<Longrightarrow> enc a' = Inr b' \<Longrightarrow> a \<noteq> a' \<Longrightarrow> b \<noteq> b'"
  using enc_inj by blast

lemma dec_error_not_encoded: "dec b = Inl f \<Longrightarrow> enc a \<noteq> Inr b"
  using dec_enc by force

end

text \<open>A codec whose decoder accepts nothing but the encoder's output.\<close>

locale exact_codec = partial_codec +
  assumes enc_dec: "dec b = Inr a \<Longrightarrow> enc a = Inr b"
begin

lemma enc_iff_dec: "enc a = Inr b \<longleftrightarrow> dec b = Inr a"
  using dec_enc enc_dec by blast

lemma dec_inj: "dec b = Inr a \<Longrightarrow> dec b' = Inr a \<Longrightarrow> b = b'"
  using enc_dec [of b a] enc_dec [of b' a] by simp

end

section \<open>Facts on words and lists\<close>

lemma find_append: "List.find P (xs @ ys) = (case List.find P xs of None \<Rightarrow> List.find P ys | Some x \<Rightarrow> Some x)"
  by (induction xs) auto

lemma unat_le_mask8: "unat (b :: 8 word) < 256"
  using unsigned_less [of b] by simp

lemma unat_lt_u16: "unat (b :: 16 word) < 65536"
  using unsigned_less [of b] by simp

lemma unat_lt_u32: "unat (b :: 32 word) < 4294967296"
  using unsigned_less [of b] by simp

lemma u8_le_cases:
  assumes "(d :: u8) \<le> 15"
  obtains k where "d = word_of_nat k" "k < 16"
proof -
  from assms have "unat d < 16"
    by (simp add: word_le_nat_alt)
  then show ?thesis
    using that [of "unat d"] by simp
qed

lemma less_16_cases:
  assumes "(k :: nat) < 16"
  shows "k = 0 \<or> k = 1 \<or> k = 2 \<or> k = 3 \<or> k = 4 \<or> k = 5 \<or> k = 6 \<or> k = 7 \<or> k = 8 \<or> k = 9 \<or>
    k = 10 \<or> k = 11 \<or> k = 12 \<or> k = 13 \<or> k = 14 \<or> k = 15"
  using assms by presburger

end
