(* ===== verification/Frame.thy ===== *)
theory Frame
  imports Prelude
begin

unbundle bit_operations_syntax

text \<open>
  The raw CAN vocabulary of the root package: \<open>frame.go\<close> and \<open>event.go\<close>. Flags are the
  bits of a \<open>uint8\<close>, a frame is a record with its 64-byte array as a list, and a time is
  its distance from the Unix epoch in nanoseconds (an unbounded integer, as Go's
  \<open>time.Time\<close> reaches beyond the range of \<open>UnixNano\<close>). Each error return is a
  constructor of its own.
\<close>

section \<open>Constants and flags\<close>

definition MaxStandardID :: u32 where "MaxStandardID = 0x7ff"
definition MaxExtendedID :: u32 where "MaxExtendedID = 0x1fffffff"
definition MaxDataLength :: nat where "MaxDataLength = 64"

definition FrameExtended :: u8 where "FrameExtended = 1"
definition FrameRemote :: u8 where "FrameRemote = 2"
definition FrameFD :: u8 where "FrameFD = 4"
definition FrameBitRateSwitch :: u8 where "FrameBitRateSwitch = 8"
definition FrameErrorStateIndicator :: u8 where "FrameErrorStateIndicator = 16"

definition allFrameFlags :: u8 where
  "allFrameFlags = FrameExtended OR FrameRemote OR FrameFD OR FrameBitRateSwitch OR
     FrameErrorStateIndicator"

lemmas flag_defs = FrameExtended_def FrameRemote_def FrameFD_def FrameBitRateSwitch_def
  FrameErrorStateIndicator_def

definition Has :: "u8 \<Rightarrow> u8 \<Rightarrow> bool" where
  "Has flags flag \<longleftrightarrow> flags AND flag \<noteq> 0"

section \<open>Data length codes\<close>

datatype dlc_error = DLCExceeds15 u8

definition fd_lengths :: "nat list" where
  "fd_lengths = [12, 16, 20, 24, 32, 48, 64]"

definition DLCToLength :: "u8 \<Rightarrow> bool \<Rightarrow> dlc_error + nat" where
  "DLCToLength dlc fd =
     (if dlc > 15 then Inl (DLCExceeds15 dlc)
      else if dlc \<le> 8 then Inr (unat dlc)
      else if \<not> fd then Inr 8
      else Inr (fd_lengths ! unat (dlc - 9)))"

datatype frame_error =
    UseNewRemoteFrame
  | NegativeLength int
  | ClassicalLengthExceeds8 int
  | NoFDLength int
  | UnknownFlags u8
  | ExtendedIDExceeds u32
  | StandardIDExceeds u32
  | FrameDLCExceeds15 u8
  | RemoteFDFrame
  | BRSRequiresFD
  | ESIRequiresFD
  | FrameDLC dlc_error

definition LengthToDLC :: "int \<Rightarrow> bool \<Rightarrow> frame_error + u8" where
  "LengthToDLC len fd =
     (if len < 0 then Inl (NegativeLength len)
      else if len \<le> 8 then Inr (word_of_int len)
      else if \<not> fd then Inl (ClassicalLengthExceeds8 len)
      else if len = 12 then Inr 9
      else if len = 16 then Inr 10
      else if len = 20 then Inr 11
      else if len = 24 then Inr 12
      else if len = 32 then Inr 13
      else if len = 48 then Inr 14
      else if len = 64 then Inr 15
      else Inl (NoFDLength len))"

section \<open>Frames\<close>

record frame =
  f_id :: u32
  f_data :: bytes
  f_dlc :: u8
  f_flags :: u8

text \<open>The array of a Go frame has exactly 64 bytes; every constructor keeps it so.\<close>

definition wf_frame :: "frame \<Rightarrow> bool" where
  "wf_frame f \<longleftrightarrow> length (f_data f) = MaxDataLength"

definition zero_frame :: frame where
  "zero_frame = \<lparr>f_id = 0, f_data = replicate MaxDataLength 0, f_dlc = 0, f_flags = 0\<rparr>"

definition Validate :: "frame \<Rightarrow> frame_error + unit" where
  "Validate f =
     (if f_flags f AND NOT allFrameFlags \<noteq> 0 then Inl (UnknownFlags (f_flags f AND NOT allFrameFlags))
      else if Has (f_flags f) FrameExtended \<and> f_id f > MaxExtendedID then Inl (ExtendedIDExceeds (f_id f))
      else if \<not> Has (f_flags f) FrameExtended \<and> f_id f > MaxStandardID then Inl (StandardIDExceeds (f_id f))
      else if f_dlc f > 15 then Inl (FrameDLCExceeds15 (f_dlc f))
      else if Has (f_flags f) FrameRemote \<and> Has (f_flags f) FrameFD then Inl RemoteFDFrame
      else if Has (f_flags f) FrameBitRateSwitch \<and> \<not> Has (f_flags f) FrameFD then Inl BRSRequiresFD
      else if Has (f_flags f) FrameErrorStateIndicator \<and> \<not> Has (f_flags f) FrameFD then Inl ESIRequiresFD
      else (case DLCToLength (f_dlc f) (Has (f_flags f) FrameFD) of
              Inl e \<Rightarrow> Inl (FrameDLC e)
            | Inr _ \<Rightarrow> Inr ()))"

text \<open>Go's \<open>copy(dst[:], src)\<close> into a fixed array: the common prefix is overwritten.\<close>

definition copy_into :: "'a list \<Rightarrow> 'a list \<Rightarrow> 'a list" where
  "copy_into dst src = take (length dst) src @ drop (length src) dst"

definition NewFrame :: "u32 \<Rightarrow> bytes \<Rightarrow> u8 \<Rightarrow> frame_error + frame" where
  "NewFrame ident data flags =
     (if Has flags FrameRemote then Inl UseNewRemoteFrame
      else ebind (LengthToDLC (int (length data)) (Has flags FrameFD)) (\<lambda>dlc.
        let f = \<lparr>f_id = ident, f_data = copy_into (replicate MaxDataLength 0) data,
                 f_dlc = dlc, f_flags = flags\<rparr>
        in ebind (Validate f) (\<lambda>_. Inr f)))"

definition NewRemoteFrame :: "u32 \<Rightarrow> u8 \<Rightarrow> bool \<Rightarrow> frame_error + frame" where
  "NewRemoteFrame ident dlc extended =
     (let flags = (if extended then FrameRemote OR FrameExtended else FrameRemote);
          f = \<lparr>f_id = ident, f_data = replicate MaxDataLength 0, f_dlc = dlc, f_flags = flags\<rparr>
      in ebind (Validate f) (\<lambda>_. Inr f))"

definition DataLength :: "frame \<Rightarrow> nat" where
  "DataLength f =
     (if Has (f_flags f) FrameRemote then 0
      else case DLCToLength (f_dlc f) (Has (f_flags f) FrameFD) of Inl _ \<Rightarrow> 0 | Inr n \<Rightarrow> n)"

text \<open>The slice \<open>frame.Data[:frame.DataLength()]\<close>.\<close>

definition payload_of :: "frame \<Rightarrow> bytes" where
  "payload_of f = take (DataLength f) (f_data f)"

section \<open>Frame events and keys\<close>

type_synonym time = int

text \<open>Go's zero time, January 1 of year 1, in nanoseconds from the Unix epoch.\<close>

definition zero_time :: time where
  "zero_time = - 62135596800000000000"

definition DirectionReceive :: u8 where "DirectionReceive = 1"
definition DirectionTransmit :: u8 where "DirectionTransmit = 2"

record frame_key =
  k_id :: u32
  k_bus :: u16
  k_direction :: u8
  k_extended :: bool

record frame_event =
  fe_bus :: u16
  fe_timestamp :: time
  fe_direction :: u8
  fe_frame :: frame

definition Key :: "frame_event \<Rightarrow> frame_key" where
  "Key event = \<lparr>k_id = f_id (fe_frame event), k_bus = fe_bus event,
     k_direction = fe_direction event,
     k_extended = Has (f_flags (fe_frame event)) FrameExtended\<rparr>"

datatype frame_event_error =
    NoBus
  | NoTimestamp
  | InvalidDirection u8
  | EventFrame frame_error

definition frame_event_Validate :: "frame_event \<Rightarrow> frame_event_error + unit" where
  "frame_event_Validate event =
     (if fe_bus event = 0 then Inl NoBus
      else if fe_timestamp event = zero_time then Inl NoTimestamp
      else if fe_direction event \<noteq> DirectionReceive \<and> fe_direction event \<noteq> DirectionTransmit
        then Inl (InvalidDirection (fe_direction event))
      else emap EventFrame (Validate (fe_frame event)))"

section \<open>Non-frame events\<close>

definition EventControllerState :: u8 where "EventControllerState = 1"
definition EventErrorFrame :: u8 where "EventErrorFrame = 2"
definition EventReceiveOverrun :: u8 where "EventReceiveOverrun = 3"

definition ControllerActive :: u8 where "ControllerActive = 1"
definition ControllerWarning :: u8 where "ControllerWarning = 2"
definition ControllerPassive :: u8 where "ControllerPassive = 3"
definition ControllerBusOff :: u8 where "ControllerBusOff = 4"

record event =
  e_bus :: u16
  e_timestamp :: time
  e_kind :: u8
  e_state :: u8
  e_tx :: u8
  e_rx :: u8
  e_known :: bool

datatype event_error =
    EventNoBus
  | EventNoTimestamp
  | InvalidControllerState u8
  | CountsUnavailable
  | UnexpectedDetails u8
  | InvalidKind u8

definition event_Validate :: "event \<Rightarrow> event_error + unit" where
  "event_Validate ev =
     (if e_bus ev = 0 then Inl EventNoBus
      else if e_timestamp ev = zero_time then Inl EventNoTimestamp
      else if e_kind ev = EventControllerState then
        (if e_state ev < ControllerActive \<or> e_state ev > ControllerBusOff
           then Inl (InvalidControllerState (e_state ev))
         else if \<not> e_known ev \<and> (e_tx ev \<noteq> 0 \<or> e_rx ev \<noteq> 0) then Inl CountsUnavailable
         else Inr ())
      else if e_kind ev = EventErrorFrame \<or> e_kind ev = EventReceiveOverrun then
        (if e_state ev \<noteq> 0 \<or> e_tx ev \<noteq> 0 \<or> e_rx ev \<noteq> 0 \<or> e_known ev
           then Inl (UnexpectedDetails (e_kind ev))
         else Inr ())
      else Inl (InvalidKind (e_kind ev)))"

text \<open>The constructors return the event together with the result of its validation.\<close>

definition NewControllerStateEvent ::
    "u16 \<Rightarrow> time \<Rightarrow> u8 \<Rightarrow> u8 \<Rightarrow> u8 \<Rightarrow> bool \<Rightarrow> event \<times> (event_error + unit)" where
  "NewControllerStateEvent bus timestamp state tx rx known =
     (let ev = \<lparr>e_bus = bus, e_timestamp = timestamp, e_kind = EventControllerState,
                e_state = state, e_tx = tx, e_rx = rx, e_known = known\<rparr>
      in (ev, event_Validate ev))"

definition NewErrorFrameEvent :: "u16 \<Rightarrow> time \<Rightarrow> event \<times> (event_error + unit)" where
  "NewErrorFrameEvent bus timestamp =
     (let ev = \<lparr>e_bus = bus, e_timestamp = timestamp, e_kind = EventErrorFrame,
                e_state = 0, e_tx = 0, e_rx = 0, e_known = False\<rparr>
      in (ev, event_Validate ev))"

definition NewReceiveOverrunEvent :: "u16 \<Rightarrow> time \<Rightarrow> event \<times> (event_error + unit)" where
  "NewReceiveOverrunEvent bus timestamp =
     (let ev = \<lparr>e_bus = bus, e_timestamp = timestamp, e_kind = EventReceiveOverrun,
                e_state = 0, e_tx = 0, e_rx = 0, e_known = False\<rparr>
      in (ev, event_Validate ev))"

section \<open>Data length codes: the two conversions are inverse\<close>

lemma DLCToLength_cases:
  "DLCToLength d fd = Inr n \<Longrightarrow> d \<le> 15"
  by (auto simp: DLCToLength_def split: if_splits)

lemma DLCToLength_ok_iff: "is_ok (DLCToLength d fd) \<longleftrightarrow> d \<le> 15"
  by (auto simp: DLCToLength_def)

lemma DLCToLength_table:
  assumes "k < 16"
  shows "DLCToLength (word_of_nat k) fd =
    Inr (if k \<le> 8 then k else if fd then fd_lengths ! (k - 9) else 8)"
  using less_16_cases [OF assms] by (auto simp: DLCToLength_def fd_lengths_def)

lemma DLCToLength_InrE:
  assumes "DLCToLength d fd = Inr n"
  obtains k where "k < 16" "d = word_of_nat k"
    "n = (if k \<le> 8 then k else if fd then fd_lengths ! (k - 9) else 8)"
proof -
  obtain k where k: "d = word_of_nat k" "k < 16"
    using u8_le_cases DLCToLength_cases [OF assms] by blast
  then show ?thesis
    using that assms by (auto simp: DLCToLength_table)
qed

lemma DLCToLength_bound: "DLCToLength d fd = Inr n \<Longrightarrow> n \<le> (if fd then 64 else 8)"
  by (elim DLCToLength_InrE, drule less_16_cases) (auto simp: fd_lengths_def split: if_splits)

lemma LengthToDLC_DLCToLength:
  "LengthToDLC len fd = Inr d \<Longrightarrow> map_sum id int (DLCToLength d fd) = Inr len"
  by (auto simp: LengthToDLC_def DLCToLength_def fd_lengths_def word_le_nat_alt word_less_nat_alt
      unsigned_of_int take_bit_int_eq_self split: if_splits)

lemma DLCToLength_LengthToDLC_fd:
  assumes "DLCToLength d True = Inr n"
  shows "LengthToDLC (int n) True = Inr d"
  using assms by (elim DLCToLength_InrE, drule_tac less_16_cases)
    (auto simp: LengthToDLC_def fd_lengths_def)

text \<open>For CAN FD the table is exact: every code has one length and every length it has one code.\<close>

interpretation dlc: partial_codec "\<lambda>n. LengthToDLC n fd" "\<lambda>d. map_sum id int (DLCToLength d fd)" for fd
  by unfold_locales (rule LengthToDLC_DLCToLength)

interpretation dlc_fd: exact_codec "\<lambda>n. LengthToDLC n True" "\<lambda>d. map_sum id int (DLCToLength d True)"
proof unfold_locales
  fix d len
  assume "map_sum id int (DLCToLength d True) = Inr len"
  then obtain n where "DLCToLength d True = Inr n" "len = int n"
    by (cases "DLCToLength d True") auto
  then show "LengthToDLC len True = Inr d"
    by (simp add: DLCToLength_LengthToDLC_fd)
qed

text \<open>The lengths that have a code, declaratively.\<close>

definition legal_length :: "bool \<Rightarrow> int \<Rightarrow> bool" where
  "legal_length fd len \<longleftrightarrow> 0 \<le> len \<and> (len \<le> 8 \<or> fd \<and> len \<in> int ` set fd_lengths)"

lemma LengthToDLC_ok_iff: "is_ok (LengthToDLC len fd) \<longleftrightarrow> legal_length fd len"
  by (auto simp: LengthToDLC_def legal_length_def fd_lengths_def)

lemma LengthToDLC_le_15: "LengthToDLC len fd = Inr d \<Longrightarrow> d \<le> 15"
  using LengthToDLC_DLCToLength [of len fd d] DLCToLength_cases [of d fd]
  by (cases "DLCToLength d fd") auto

section \<open>Validation and construction of frames\<close>

lemma Has_simps [simp]: "\<not> Has 0 f" "\<not> Has f 0"
  by (simp_all add: Has_def)

text \<open>The frames \<open>Validate\<close> accepts, as one condition.\<close>

definition valid_frame :: "frame \<Rightarrow> bool" where
  "valid_frame f \<longleftrightarrow>
     f_flags f AND NOT allFrameFlags = 0 \<and>
     f_id f \<le> (if Has (f_flags f) FrameExtended then MaxExtendedID else MaxStandardID) \<and>
     f_dlc f \<le> 15 \<and>
     \<not> (Has (f_flags f) FrameRemote \<and> Has (f_flags f) FrameFD) \<and>
     (Has (f_flags f) FrameBitRateSwitch \<longrightarrow> Has (f_flags f) FrameFD) \<and>
     (Has (f_flags f) FrameErrorStateIndicator \<longrightarrow> Has (f_flags f) FrameFD)"

lemma Validate_Inr_iff [op_simps]: "Validate f = Inr u \<longleftrightarrow> valid_frame f"
  by (auto simp: Validate_def valid_frame_def not_le DLCToLength_def split: sum.splits)

lemma valid_frame_dlc [wf_dests]: "valid_frame f \<Longrightarrow> f_dlc f \<le> 15"
  by (simp add: valid_frame_def)

lemma DataLength_le_64: "DataLength f \<le> 64"
proof (cases "DLCToLength (f_dlc f) (Has (f_flags f) FrameFD)")
  case (Inr n)
  with DLCToLength_bound [OF Inr] show ?thesis
    by (simp add: DataLength_def split: if_splits)
qed (simp add: DataLength_def)

lemma DataLength_classical:
  assumes "\<not> Has (f_flags f) FrameFD"
  shows "DataLength f \<le> 8"
proof (cases "DLCToLength (f_dlc f) (Has (f_flags f) FrameFD)")
  case (Inr n)
  with DLCToLength_bound [OF Inr] assms show ?thesis
    by (simp add: DataLength_def)
qed (simp add: DataLength_def)

lemma length_payload_of [simp]: "wf_frame f \<Longrightarrow> length (payload_of f) = DataLength f"
  using DataLength_le_64 [of f] by (simp add: payload_of_def wf_frame_def MaxDataLength_def)

lemma length_copy_into [simp]: "length (copy_into dst src) = length dst"
  by (simp add: copy_into_def)

lemma take_copy_into: "n \<le> length src \<Longrightarrow> length src \<le> length dst \<Longrightarrow>
    take n (copy_into dst src) = take n src"
  by (simp add: copy_into_def)

lemma NewFrame_wf [wf_intros]: "NewFrame i data flags = Inr f \<Longrightarrow> wf_frame f"
  by (auto simp: NewFrame_def Let_def ebind_Inr_iff wf_frame_def split: if_splits)

lemma NewFrame_valid: "NewFrame i data flags = Inr f \<Longrightarrow> valid_frame f"
  by (auto simp: NewFrame_def Let_def ebind_Inr_iff Validate_Inr_iff split: if_splits)

lemma NewFrame_fields:
  assumes "NewFrame i data flags = Inr f"
  shows "f_id f = i" "f_flags f = flags" "\<not> Has flags FrameRemote"
    "LengthToDLC (int (length data)) (Has flags FrameFD) = Inr (f_dlc f)"
    "f_data f = copy_into (replicate 64 0) data"
  using assms by (auto simp: NewFrame_def Let_def ebind_Inr_iff MaxDataLength_def split: if_splits)

lemma NewFrame_length: "NewFrame i data flags = Inr f \<Longrightarrow> length data \<le> 64"
  by (drule NewFrame_fields(4)) (auto simp: LengthToDLC_def split: if_splits)

lemma NewFrame_DataLength:
  assumes "NewFrame i data flags = Inr f"
  shows "DataLength f = length data"
  using LengthToDLC_DLCToLength [OF NewFrame_fields(4) [OF assms]] NewFrame_fields(2,3) [OF assms]
  by (auto simp: DataLength_def split: sum.splits)

text \<open>A constructed frame carries exactly the bytes it was given.\<close>

lemma NewFrame_payload:
  assumes "NewFrame i data flags = Inr f"
  shows "payload_of f = data"
  using NewFrame_length [OF assms]
  by (simp add: payload_of_def NewFrame_DataLength [OF assms] NewFrame_fields(5) [OF assms] take_copy_into)

text \<open>When the constructor succeeds.\<close>

lemma NewFrame_ok_iff:
  "is_ok (NewFrame i data flags) \<longleftrightarrow>
     \<not> Has flags FrameRemote \<and> legal_length (Has flags FrameFD) (int (length data)) \<and>
     flags AND NOT allFrameFlags = 0 \<and>
     i \<le> (if Has flags FrameExtended then MaxExtendedID else MaxStandardID) \<and>
     (Has flags FrameBitRateSwitch \<longrightarrow> Has flags FrameFD) \<and>
     (Has flags FrameErrorStateIndicator \<longrightarrow> Has flags FrameFD)"
proof (cases "LengthToDLC (int (length data)) (Has flags FrameFD)")
  case (Inl e)
  then show ?thesis
    using LengthToDLC_ok_iff [of "int (length data)" "Has flags FrameFD"] by (simp add: NewFrame_def)
next
  case (Inr d)
  then have "legal_length (Has flags FrameFD) (int (length data))" "d \<le> 15"
    using LengthToDLC_ok_iff [of "int (length data)" "Has flags FrameFD"] LengthToDLC_le_15 by auto
  with Inr show ?thesis
    by (auto simp: NewFrame_def Let_def is_ok_iff ebind_Inr_iff Validate_Inr_iff valid_frame_def)
qed

lemma NewRemoteFrame_spec:
  "NewRemoteFrame i dlc extended = Inr f \<longleftrightarrow>
     f = \<lparr>f_id = i, f_data = replicate 64 0, f_dlc = dlc,
          f_flags = (if extended then FrameRemote OR FrameExtended else FrameRemote)\<rparr> \<and>
     i \<le> (if extended then MaxExtendedID else MaxStandardID) \<and> dlc \<le> 15"
  by (auto simp: NewRemoteFrame_def Let_def ebind_Inr_iff Validate_Inr_iff valid_frame_def
      MaxDataLength_def Has_def flag_defs allFrameFlags_def)

text \<open>Two frames of the same shape with the same payload have the same code.\<close>

lemma payload_of_id_less: "wf_frame f \<Longrightarrow> n < DataLength f \<Longrightarrow> payload_of f ! n = f_data f ! n"
  by (simp add: payload_of_def)

section \<open>Validation of events\<close>

lemma frame_event_Validate_Inr_iff [op_simps]:
  "frame_event_Validate ev = Inr u \<longleftrightarrow>
     fe_bus ev \<noteq> 0 \<and> fe_timestamp ev \<noteq> zero_time \<and>
     (fe_direction ev = DirectionReceive \<or> fe_direction ev = DirectionTransmit) \<and>
     valid_frame (fe_frame ev)"
  by (auto simp: frame_event_Validate_def Validate_Inr_iff)

lemma event_Validate_Inr_iff [op_simps]:
  "event_Validate ev = Inr u \<longleftrightarrow>
     e_bus ev \<noteq> 0 \<and> e_timestamp ev \<noteq> zero_time \<and>
     (e_kind ev = EventControllerState \<and> e_state ev \<noteq> 0 \<and> e_state ev \<le> 4 \<and>
        (e_known ev \<or> e_tx ev = 0 \<and> e_rx ev = 0) \<or>
      (e_kind ev = EventErrorFrame \<or> e_kind ev = EventReceiveOverrun) \<and>
        e_state ev = 0 \<and> e_tx ev = 0 \<and> e_rx ev = 0 \<and> \<not> e_known ev)"
  by (auto simp: event_Validate_def EventControllerState_def EventErrorFrame_def
      EventReceiveOverrun_def ControllerActive_def ControllerBusOff_def not_less)

end
