(* ===== verification/Capture_Record.thy ===== *)
theory Capture_Record
  imports Frame
begin

text \<open>
  The storage envelope of a capture (\<open>capture.go\<close>): the 24-byte record shared by frames
  and events, its two typed views, and cursors. A Go panic of a typed view that reads the
  wrong kind of record is the error \<open>Panic\<close>, and a chain walk that does not end is \<open>Diverges\<close>, so
  that "no operation panics or hangs" is a theorem.
\<close>

section \<open>Cursors\<close>

record cursor =
  cu_generation :: u64
  cu_chunk :: u32
  cu_record :: u32

definition zero_cursor :: cursor where
  "zero_cursor = \<lparr>cu_generation = 0, cu_chunk = 0, cu_record = 0\<rparr>"

text \<open>
  The errors of the capture's operations. \<open>CursorOutOfRange\<close> is
  \<open>*CursorOutOfRangeError\<close>, the constructors that wrap it name the wrapping message of
  a range read; \<open>RangeReversed\<close> is the bare \<open>ErrCursorOutOfRange\<close> of a range whose end
  precedes its start.
\<close>

datatype capture_error =
    InvalidFrameEvent frame_event_error
  | InvalidEvent event_error
  | CursorOutOfRange cursor
  | RangeEnd cursor
  | RangeStart cursor
  | RangeReversed
  | Diverges
  | Panic

text \<open>\<open>errors.Is(err, ErrCursorOutOfRange)\<close>.\<close>

fun is_out_of_range :: "capture_error \<Rightarrow> bool" where
  "is_out_of_range (CursorOutOfRange _) = True"
| "is_out_of_range (RangeEnd _) = True"
| "is_out_of_range (RangeStart _) = True"
| "is_out_of_range RangeReversed = True"
| "is_out_of_range _ = False"

section \<open>Records\<close>

definition captureRecordFrame :: u8 where "captureRecordFrame = 1"
definition captureRecordEvent :: u8 where "captureRecordEvent = 2"

definition noCaptureRecord :: u32 where "noCaptureRecord = NOT 0"

record capture_record =
  cr_timestamp :: u64
  cr_word0 :: u32
  cr_word1 :: u32
  cr_previous :: u32
  cr_kind :: u8
  cr_detail0 :: u8
  cr_detail1 :: u8
  cr_detail2 :: u8

record frame_record_data =
  frd_payloadOffset :: u32
  frd_keyIndex :: u32
  frd_previous :: u32
  frd_dlc :: u8
  frd_flags :: u8

record event_record_data =
  erd_bus :: u16
  erd_previous :: u32
  erd_kind :: u8
  erd_state :: u8
  erd_tx :: u8
  erd_rx :: u8
  erd_known :: bool

definition makeFrameRecord :: "u64 \<Rightarrow> frame_record_data \<Rightarrow> capture_record" where
  "makeFrameRecord timestamp d =
     \<lparr>cr_timestamp = timestamp, cr_word0 = frd_payloadOffset d, cr_word1 = frd_keyIndex d,
      cr_previous = frd_previous d, cr_kind = captureRecordFrame, cr_detail0 = frd_dlc d,
      cr_detail1 = frd_flags d, cr_detail2 = 0\<rparr>"

definition frameData :: "capture_record \<Rightarrow> capture_error + frame_record_data" where
  "frameData r =
     (if cr_kind r \<noteq> captureRecordFrame then Inl Panic
      else Inr \<lparr>frd_payloadOffset = cr_word0 r, frd_keyIndex = cr_word1 r,
                frd_previous = cr_previous r, frd_dlc = cr_detail0 r, frd_flags = cr_detail1 r\<rparr>)"

definition makeEventRecord :: "u64 \<Rightarrow> event_record_data \<Rightarrow> capture_record" where
  "makeEventRecord timestamp d =
     \<lparr>cr_timestamp = timestamp, cr_word0 = 0,
      cr_word1 = ucast (erd_bus d) OR push_bit 16 (ucast (erd_kind d)) OR
                 push_bit 24 (ucast (erd_state d)),
      cr_previous = erd_previous d, cr_kind = captureRecordEvent, cr_detail0 = erd_tx d,
      cr_detail1 = erd_rx d, cr_detail2 = (if erd_known d then 1 else 0)\<rparr>"

definition eventData :: "capture_record \<Rightarrow> capture_error + event_record_data" where
  "eventData r =
     (if cr_kind r \<noteq> captureRecordEvent then Inl Panic
      else Inr \<lparr>erd_bus = ucast (cr_word1 r), erd_previous = cr_previous r,
                erd_kind = ucast (drop_bit 16 (cr_word1 r)),
                erd_state = ucast (drop_bit 24 (cr_word1 r)),
                erd_tx = cr_detail0 r, erd_rx = cr_detail1 r,
                erd_known = (cr_detail2 r AND 1 \<noteq> 0)\<rparr>)"

section \<open>The typed views invert the constructors\<close>

lemma frameData_make [simp]: "frameData (makeFrameRecord t d) = Inr d"
  by (simp add: frameData_def makeFrameRecord_def)

lemma pack_bus: "ucast (ucast b OR push_bit 16 (ucast k) OR push_bit 24 (ucast s) :: u32) = (b :: u16)"
  for k :: u8 and s :: u8
  by (rule bit_word_eqI) (simp add: bit_simps)

lemma pack_kind: "ucast (drop_bit 16 (ucast b OR push_bit 16 (ucast k) OR push_bit 24 (ucast s) :: u32)) = (k :: u8)"
  for b :: u16 and s :: u8
  by (rule bit_word_eqI) (auto simp: bit_simps dest: bit_imp_le_length)

lemma pack_state: "ucast (drop_bit 24 (ucast b OR push_bit 16 (ucast k) OR push_bit 24 (ucast s) :: u32)) = (s :: u8)"
  for b :: u16 and k :: u8
  by (rule bit_word_eqI) (auto simp: bit_simps dest: bit_imp_le_length)

lemma eventData_make [simp]: "eventData (makeEventRecord t d) = Inr d"
  by (simp add: eventData_def makeEventRecord_def pack_bus pack_kind pack_state del: drop_bit_or)

lemma makeFrameRecord_fields [simp]:
  "cr_kind (makeFrameRecord t d) = captureRecordFrame"
  "cr_timestamp (makeFrameRecord t d) = t"
  "cr_previous (makeFrameRecord t d) = frd_previous d"
  by (simp_all add: makeFrameRecord_def)

lemma makeEventRecord_fields [simp]:
  "cr_kind (makeEventRecord t d) = captureRecordEvent"
  "cr_timestamp (makeEventRecord t d) = t"
  "cr_previous (makeEventRecord t d) = erd_previous d"
  by (simp_all add: makeEventRecord_def)

lemma record_kinds_differ [simp]:
  "captureRecordFrame \<noteq> captureRecordEvent" "captureRecordEvent \<noteq> captureRecordFrame"
  by (simp_all add: captureRecordFrame_def captureRecordEvent_def)

text \<open>Both encodings are instances of the codec contract, so stored records are never confused.\<close>

interpretation frame_record: partial_codec
  "\<lambda>d. Inr (makeFrameRecord t d) :: capture_error + capture_record" frameData for t
  by unfold_locales auto

interpretation event_record: partial_codec
  "\<lambda>d. Inr (makeEventRecord t d) :: capture_error + capture_record" eventData for t
  by unfold_locales auto

text \<open>The stored time: \<open>UnixNano\<close> keeps the low 64 bits, \<open>time.Unix(0, ns)\<close> reads them as signed.\<close>

definition UnixNano :: "time \<Rightarrow> u64" where
  "UnixNano t = word_of_int t"

definition time_Unix :: "u64 \<Rightarrow> time" where
  "time_Unix ns = sint ns"

definition in_UnixNano_range :: "time \<Rightarrow> bool" where
  "in_UnixNano_range t \<longleftrightarrow> - (2 ^ 63) \<le> t \<and> t < 2 ^ 63"

lemma time_Unix_UnixNano: "in_UnixNano_range t \<Longrightarrow> time_Unix (UnixNano t) = t"
  by (simp add: time_Unix_def UnixNano_def in_UnixNano_range_def signed_of_int
      signed_take_bit_int_eq_self)

end
