(* ===== verification/Capture_Chunk.thy ===== *)
theory Capture_Chunk
  imports Capture_Record
begin

text \<open>
  One chunk of a capture (\<open>capture.go\<close>): its key table, its records with the per-key and
  per-bus chains through \<open>previous\<close>, its payload bytes, and the views that decode them.
  The invariant \<open>wf_chunk\<close> says what every chain, table entry and counter means in
  terms of the records; appending keeps it, and a walk along a chain visits exactly the
  records of its series, newest first.
\<close>

section \<open>State and views\<close>

record key_state =
  ks_index :: u32
  ks_lastRecord :: u32
  ks_count :: u32

record event_state =
  es_lastRecord :: u32
  es_count :: u32

text \<open>The zero values a Go map lookup returns for a missing key.\<close>

definition zero_key_state :: key_state where
  "zero_key_state = \<lparr>ks_index = 0, ks_lastRecord = 0, ks_count = 0\<rparr>"

definition zero_event_state :: event_state where
  "zero_event_state = \<lparr>es_lastRecord = 0, es_count = 0\<rparr>"

record chunk =
  c_sequence :: u32
  c_keys :: "frame_key list"
  c_keyStates :: "frame_key \<rightharpoonup> key_state"
  c_eventStates :: "u16 \<rightharpoonup> event_state"
  c_records :: "capture_record list"
  c_recordCap :: nat
  c_payload :: bytes
  c_payloadCap :: nat

definition newCaptureChunk :: "nat \<Rightarrow> nat \<Rightarrow> chunk" where
  "newCaptureChunk recordCapacity payloadCapacity =
     \<lparr>c_sequence = 0, c_keys = [], c_keyStates = Map.empty, c_eventStates = Map.empty,
      c_records = [], c_recordCap = recordCapacity, c_payload = [],
      c_payloadCap = payloadCapacity\<rparr>"

lemma newCaptureChunk_fields [simp]:
  "c_sequence (newCaptureChunk rc pc) = 0" "c_keys (newCaptureChunk rc pc) = []"
  "c_keyStates (newCaptureChunk rc pc) = Map.empty" "c_eventStates (newCaptureChunk rc pc) = Map.empty"
  "c_records (newCaptureChunk rc pc) = []" "c_payload (newCaptureChunk rc pc) = []"
  "c_recordCap (newCaptureChunk rc pc) = rc" "c_payloadCap (newCaptureChunk rc pc) = pc"
  by (simp_all add: newCaptureChunk_def)

definition keyStates_at :: "chunk \<Rightarrow> frame_key \<Rightarrow> key_state" where
  "keyStates_at ch k = (case c_keyStates ch k of None \<Rightarrow> zero_key_state | Some s \<Rightarrow> s)"

definition eventStates_at :: "chunk \<Rightarrow> u16 \<Rightarrow> event_state" where
  "eventStates_at ch b = (case c_eventStates ch b of None \<Rightarrow> zero_event_state | Some s \<Rightarrow> s)"

record capture_view =
  v_sequence :: u32
  v_records :: "capture_record list"
  v_keys :: "frame_key list"
  v_payload :: bytes

definition view :: "chunk \<Rightarrow> capture_view" where
  "view ch = \<lparr>v_sequence = c_sequence ch, v_records = c_records ch, v_keys = c_keys ch,
              v_payload = c_payload ch\<rparr>"

lemma view_simps [simp]:
  "v_sequence (view ch) = c_sequence ch" "v_records (view ch) = c_records ch"
  "v_keys (view ch) = c_keys ch" "v_payload (view ch) = c_payload ch"
  by (simp_all add: view_def)

text \<open>
  Decoding a record of a view. An index past the records, a key index past the table or a
  payload range past the bytes is a run-time panic of the Go code.
\<close>

definition frameAt :: "capture_view \<Rightarrow> u32 \<Rightarrow> capture_error + frame_event" where
  "frameAt v i =
     (if length (v_records v) \<le> unat i then Inl Panic
      else let r = v_records v ! unat i in
      ebind (frameData r) (\<lambda>d.
        if length (v_keys v) \<le> unat (frd_keyIndex d) then Inl Panic
        else
          let key = v_keys v ! unat (frd_keyIndex d);
              f = \<lparr>f_id = k_id key, f_data = replicate MaxDataLength 0, f_dlc = frd_dlc d,
                   f_flags = frd_flags d\<rparr>;
              lo = frd_payloadOffset d;
              hi = lo + word_of_nat (DataLength f)
          in if unat hi < unat lo \<or> length (v_payload v) < unat hi then Inl Panic
             else Inr \<lparr>fe_bus = k_bus key, fe_timestamp = time_Unix (cr_timestamp r),
                       fe_direction = k_direction key,
                       fe_frame = f\<lparr>f_data := copy_into (f_data f)
                         (take (unat hi - unat lo) (drop (unat lo) (v_payload v)))\<rparr>\<rparr>))"

definition eventAt :: "capture_view \<Rightarrow> u32 \<Rightarrow> capture_error + event" where
  "eventAt v i =
     (if length (v_records v) \<le> unat i then Inl Panic
      else let r = v_records v ! unat i in
      ebind (eventData r) (\<lambda>d.
        Inr \<lparr>e_bus = erd_bus d, e_timestamp = time_Unix (cr_timestamp r), e_kind = erd_kind d,
             e_state = erd_state d, e_tx = erd_tx d, e_rx = erd_rx d, e_known = erd_known d\<rparr>))"

section \<open>Appending to a chunk\<close>

text \<open>The part of \<open>appendFrame\<close> that writes the active chunk: key table, payload, record, key state.\<close>

definition appendPayload :: "chunk \<Rightarrow> bytes \<Rightarrow> u32 \<times> chunk" where
  "appendPayload ch data =
     (word_of_nat (length (c_payload ch)), ch\<lparr>c_payload := c_payload ch @ data\<rparr>)"

definition chunk_append_frame :: "u64 \<Rightarrow> frame_event \<Rightarrow> chunk \<Rightarrow> chunk" where
  "chunk_append_frame timestamp ev ch =
     (let key = Key ev;
          (keyState, ch1) = (case c_keyStates ch key of
             Some s \<Rightarrow> (s, ch)
           | None \<Rightarrow> (\<lparr>ks_index = word_of_nat (length (c_keys ch)),
                       ks_lastRecord = noCaptureRecord, ks_count = 0\<rparr>,
                     ch\<lparr>c_keys := c_keys ch @ [key]\<rparr>));
          (payloadOffset, ch2) = appendPayload ch1 (payload_of (fe_frame ev));
          recordIndex = word_of_nat (length (c_records ch2));
          ch3 = ch2\<lparr>c_records := c_records ch2 @ [makeFrameRecord timestamp
                  \<lparr>frd_payloadOffset = payloadOffset, frd_keyIndex = ks_index keyState,
                   frd_previous = ks_lastRecord keyState, frd_dlc = f_dlc (fe_frame ev),
                   frd_flags = f_flags (fe_frame ev)\<rparr>]\<rparr>
      in ch3\<lparr>c_keyStates := (c_keyStates ch3)(key \<mapsto>
           keyState\<lparr>ks_lastRecord := recordIndex, ks_count := ks_count keyState + 1\<rparr>)\<rparr>)"

text \<open>The part of \<open>appendEvent\<close> that writes the active chunk.\<close>

definition chunk_append_event :: "u64 \<Rightarrow> event \<Rightarrow> chunk \<Rightarrow> chunk" where
  "chunk_append_event timestamp ev ch =
     (let eventState = (case c_eventStates ch (e_bus ev) of
             Some s \<Rightarrow> s
           | None \<Rightarrow> zero_event_state\<lparr>es_lastRecord := noCaptureRecord\<rparr>);
          recordIndex = word_of_nat (length (c_records ch));
          ch1 = ch\<lparr>c_records := c_records ch @ [makeEventRecord timestamp
                  \<lparr>erd_bus = e_bus ev, erd_previous = es_lastRecord eventState,
                   erd_kind = e_kind ev, erd_state = e_state ev, erd_tx = e_tx ev,
                   erd_rx = e_rx ev, erd_known = e_known ev\<rparr>]\<rparr>
      in ch1\<lparr>c_eventStates := (c_eventStates ch1)(e_bus ev \<mapsto>
           eventState\<lparr>es_lastRecord := recordIndex, es_count := es_count eventState + 1\<rparr>)\<rparr>)"

section \<open>Walking a chain\<close>

text \<open>
  The loop \<open>for r := last; r != noCaptureRecord && int(r) > stop; r = previous(r)\<close> of the
  series reads, as the list of record indices it visits. Running out of fuel is
  \<open>Diverges\<close>; the callers give one unit per record of the chunk.
\<close>

fun walk :: "(capture_record \<Rightarrow> capture_error + u32) \<Rightarrow> capture_record list \<Rightarrow> int \<Rightarrow>
    nat \<Rightarrow> u32 \<Rightarrow> capture_error + u32 list" where
  "walk prev rs stop 0 r =
     (if r = noCaptureRecord \<or> int (unat r) \<le> stop then Inr [] else Inl Diverges)"
| "walk prev rs stop (Suc fuel) r =
     (if r = noCaptureRecord \<or> int (unat r) \<le> stop then Inr []
      else if length rs \<le> unat r then Inl Panic
      else ebind (prev (rs ! unat r)) (\<lambda>p.
           ebind (walk prev rs stop fuel p) (\<lambda>visited. Inr (r # visited))))"

definition frame_previous :: "capture_record \<Rightarrow> capture_error + u32" where
  "frame_previous r = ebind (frameData r) (\<lambda>d. Inr (frd_previous d))"

definition event_previous :: "capture_record \<Rightarrow> capture_error + u32" where
  "event_previous r = ebind (eventData r) (\<lambda>d. Inr (erd_previous d))"

section \<open>Entries, series and the invariant\<close>

text \<open>What one record means: a frame event or a bus event.\<close>

datatype entry = FrameEntry frame_event | EventEntry event

definition entryAt :: "capture_view \<Rightarrow> u32 \<Rightarrow> capture_error + entry" where
  "entryAt v i =
     (if length (v_records v) \<le> unat i then Inl Panic
      else if cr_kind (v_records v ! unat i) = captureRecordFrame
        then ebind (frameAt v i) (\<lambda>e. Inr (FrameEntry e))
      else if cr_kind (v_records v ! unat i) = captureRecordEvent
        then ebind (eventAt v i) (\<lambda>e. Inr (EventEntry e))
      else Inl Panic)"

text \<open>The series a record belongs to: the key of a frame record, the bus of an event record.\<close>

definition record_key :: "chunk \<Rightarrow> nat \<Rightarrow> frame_key option" where
  "record_key ch i =
     (if i < length (c_records ch) \<and> cr_kind (c_records ch ! i) = captureRecordFrame \<and>
         unat (cr_word1 (c_records ch ! i)) < length (c_keys ch)
      then Some (c_keys ch ! unat (cr_word1 (c_records ch ! i))) else None)"

definition record_bus :: "chunk \<Rightarrow> nat \<Rightarrow> u16 option" where
  "record_bus ch i =
     (if i < length (c_records ch) \<and> cr_kind (c_records ch ! i) = captureRecordEvent
      then Some (ucast (cr_word1 (c_records ch ! i))) else None)"

lemma record_key_less: "record_key ch i = Some k \<Longrightarrow> i < length (c_records ch)"
  by (simp add: record_key_def split: if_splits)

lemma record_bus_less: "record_bus ch i = Some b \<Longrightarrow> i < length (c_records ch)"
  by (simp add: record_bus_def split: if_splits)

text \<open>The last index below \<open>n\<close> that satisfies \<open>P\<close>, in the code's encoding.\<close>

fun last_index :: "(nat \<Rightarrow> bool) \<Rightarrow> nat \<Rightarrow> u32" where
  "last_index P 0 = noCaptureRecord"
| "last_index P (Suc n) = (if P n then word_of_nat n else last_index P n)"

definition count_index :: "(nat \<Rightarrow> bool) \<Rightarrow> nat \<Rightarrow> nat" where
  "count_index P n = length (filter P [0..<n])"

lemma last_index_cong [cong]:
  "n = m \<Longrightarrow> (\<And>j. j < m \<Longrightarrow> P j = Q j) \<Longrightarrow> last_index P n = last_index Q m"
  by (induction n arbitrary: m) auto

lemma count_index_cong [cong]:
  "n = m \<Longrightarrow> (\<And>j. j < m \<Longrightarrow> P j = Q j) \<Longrightarrow> count_index P n = count_index Q m"
  unfolding count_index_def by (rule arg_cong [where f = length], rule filter_cong) auto

lemma count_index_simps [simp]:
  "count_index P 0 = 0" "count_index P (Suc n) = count_index P n + (if P n then 1 else 0)"
  by (simp_all add: count_index_def)

lemma last_index_none: "(\<And>j. j < n \<Longrightarrow> \<not> P j) \<Longrightarrow> last_index P n = noCaptureRecord"
  by (induction n) auto

lemma count_index_none: "(\<And>j. j < n \<Longrightarrow> \<not> P j) \<Longrightarrow> count_index P n = 0"
  by (induction n) auto

definition initialCaptureChunkPayloadCapacity :: nat where
  "initialCaptureChunkPayloadCapacity = 8 * 2 ^ 20"
definition initialCaptureChunkRecordCapacity :: nat where
  "initialCaptureChunkRecordCapacity = initialCaptureChunkPayloadCapacity div MaxDataLength"
definition minimumCaptureChunkPayloadCapacity :: nat where
  "minimumCaptureChunkPayloadCapacity = initialCaptureChunkPayloadCapacity div 16"
definition minimumCaptureChunkRecordCapacity :: nat where
  "minimumCaptureChunkRecordCapacity = initialCaptureChunkRecordCapacity div 16"

lemma capacity_values [simp]:
  "initialCaptureChunkPayloadCapacity = 8388608" "initialCaptureChunkRecordCapacity = 131072"
  "minimumCaptureChunkPayloadCapacity = 524288" "minimumCaptureChunkRecordCapacity = 8192"
  by (simp_all add: initialCaptureChunkPayloadCapacity_def initialCaptureChunkRecordCapacity_def
      minimumCaptureChunkPayloadCapacity_def minimumCaptureChunkRecordCapacity_def MaxDataLength_def)

definition caps_range :: "nat \<Rightarrow> nat \<Rightarrow> bool" where
  "caps_range rc pc \<longleftrightarrow>
     minimumCaptureChunkRecordCapacity \<le> rc \<and> rc \<le> initialCaptureChunkRecordCapacity \<and>
     minimumCaptureChunkPayloadCapacity \<le> pc \<and> pc \<le> initialCaptureChunkPayloadCapacity"

definition caps_ok :: "chunk \<Rightarrow> bool" where
  "caps_ok ch \<longleftrightarrow> caps_range (c_recordCap ch) (c_payloadCap ch) \<and>
     length (c_records ch) \<le> c_recordCap ch \<and> length (c_payload ch) \<le> c_payloadCap ch \<and>
     length (c_payload ch) \<le> 64 * length (c_records ch)"

definition keys_ok :: "chunk \<Rightarrow> bool" where
  "keys_ok ch \<longleftrightarrow> distinct (c_keys ch) \<and> length (c_keys ch) \<le> length (c_records ch) \<and>
     dom (c_keyStates ch) = set (c_keys ch) \<and>
     (\<forall>k s. c_keyStates ch k = Some s \<longrightarrow>
        unat (ks_index s) < length (c_keys ch) \<and> c_keys ch ! unat (ks_index s) = k)"

definition frame_chains_ok :: "chunk \<Rightarrow> bool" where
  "frame_chains_ok ch \<longleftrightarrow>
     (\<forall>i k. record_key ch i = Some k \<longrightarrow>
        cr_previous (c_records ch ! i) = last_index (\<lambda>j. record_key ch j = Some k) i) \<and>
     (\<forall>k s. c_keyStates ch k = Some s \<longrightarrow>
        ks_lastRecord s = last_index (\<lambda>j. record_key ch j = Some k) (length (c_records ch)) \<and>
        ks_count s = word_of_nat (count_index (\<lambda>j. record_key ch j = Some k) (length (c_records ch)))) \<and>
     (\<forall>k. c_keyStates ch k = None \<longrightarrow> (\<forall>i. record_key ch i \<noteq> Some k))"

definition event_chains_ok :: "chunk \<Rightarrow> bool" where
  "event_chains_ok ch \<longleftrightarrow>
     (\<forall>i b. record_bus ch i = Some b \<longrightarrow>
        cr_previous (c_records ch ! i) = last_index (\<lambda>j. record_bus ch j = Some b) i) \<and>
     (\<forall>b s. c_eventStates ch b = Some s \<longrightarrow>
        es_lastRecord s = last_index (\<lambda>j. record_bus ch j = Some b) (length (c_records ch)) \<and>
        es_count s = word_of_nat (count_index (\<lambda>j. record_bus ch j = Some b) (length (c_records ch)))) \<and>
     (\<forall>b. c_eventStates ch b = None \<longrightarrow> (\<forall>i. record_bus ch i \<noteq> Some b))"

definition decodable_at :: "chunk \<Rightarrow> nat \<Rightarrow> bool" where
  "decodable_at ch i \<longleftrightarrow>
     (\<exists>e. entryAt (view ch) (word_of_nat i) = Inr (FrameEntry e) \<and>
        frameAt (view ch) (word_of_nat i) = Inr e \<and>
        record_key ch i = Some (Key e) \<and> record_bus ch i = None) \<or>
     (\<exists>e. entryAt (view ch) (word_of_nat i) = Inr (EventEntry e) \<and>
        eventAt (view ch) (word_of_nat i) = Inr e \<and>
        record_bus ch i = Some (e_bus e) \<and> record_key ch i = None)"

definition decodable :: "chunk \<Rightarrow> bool" where
  "decodable ch \<longleftrightarrow> (\<forall>i < length (c_records ch). decodable_at ch i)"

definition wf_chunk :: "chunk \<Rightarrow> bool" where
  "wf_chunk ch \<longleftrightarrow> caps_ok ch \<and> keys_ok ch \<and> frame_chains_ok ch \<and> event_chains_ok ch \<and> decodable ch"

lemma wf_chunkD [wf_dests]:
  assumes "wf_chunk ch"
  shows "caps_ok ch" "keys_ok ch" "frame_chains_ok ch" "event_chains_ok ch" "decodable ch"
    "length (c_records ch) \<le> 131072" "length (c_payload ch) \<le> 8388608"
    "length (c_keys ch) \<le> 131072"
  using assms by (auto simp: wf_chunk_def caps_ok_def caps_range_def keys_ok_def)

lemma wf_newCaptureChunk [wf_intros]: "caps_range rc pc \<Longrightarrow> wf_chunk (newCaptureChunk rc pc)"
  by (auto simp: wf_chunk_def caps_ok_def keys_ok_def frame_chains_ok_def event_chains_ok_def
      decodable_def newCaptureChunk_def record_key_def record_bus_def)

lemma unat_index [simp]: "i < 4294967296 \<Longrightarrow> unat (word_of_nat i :: u32) = i"
  by (simp add: unat_of_nat)

lemma noCaptureRecord_value: "unat noCaptureRecord = 4294967295"
  by (simp add: noCaptureRecord_def unsigned_minus_1_eq_mask mask_eq_exp_minus_1)

lemma index_not_noCaptureRecord: "i < 4294967295 \<Longrightarrow> (word_of_nat i :: u32) \<noteq> noCaptureRecord"
proof
  assume i: "i < 4294967295" and "(word_of_nat i :: u32) = noCaptureRecord"
  then have "unat (word_of_nat i :: u32) = 4294967295"
    by (simp only: noCaptureRecord_value)
  with i show False by simp
qed

section \<open>Views are stable under later appends\<close>

definition extends :: "chunk \<Rightarrow> chunk \<Rightarrow> bool" where
  "extends ch ch' \<longleftrightarrow> c_sequence ch' = c_sequence ch \<and>
     (\<exists>rs. c_records ch' = c_records ch @ rs) \<and> (\<exists>ks. c_keys ch' = c_keys ch @ ks) \<and>
     (\<exists>p. c_payload ch' = c_payload ch @ p)"

lemma extends_frameAt:
  assumes "extends ch ch'" "frameAt (view ch) i = Inr e"
  shows "frameAt (view ch') i = Inr e"
proof -
  from assms(1) obtain rs ks p where ch': "c_records ch' = c_records ch @ rs"
    "c_keys ch' = c_keys ch @ ks" "c_payload ch' = c_payload ch @ p"
    by (auto simp: extends_def)
  from assms(2) obtain d where d: "unat i < length (c_records ch)"
    "frameData (c_records ch ! unat i) = Inr d" "unat (frd_keyIndex d) < length (c_keys ch)"
    by (auto simp: frameAt_def view_def Let_def ebind_Inr_iff split: if_splits)
  show ?thesis
    using assms(2) d by (auto simp: frameAt_def view_def Let_def ch' nth_append split: if_splits)
qed

lemma extends_eventAt:
  assumes "extends ch ch'" "eventAt (view ch) i = Inr e"
  shows "eventAt (view ch') i = Inr e"
  using assms
  by (auto simp: extends_def eventAt_def view_def Let_def nth_append split: if_splits)

lemma extends_entryAt:
  assumes "extends ch ch'" "entryAt (view ch) i = Inr e"
  shows "entryAt (view ch') i = Inr e"
proof -
  from assms have i: "unat i < length (c_records ch)"
    by (auto simp: entryAt_def view_def split: if_splits)
  with assms(1) have "c_records ch' ! unat i = c_records ch ! unat i"
    "unat i < length (c_records ch')"
    by (auto simp: extends_def nth_append)
  then show ?thesis
    using assms i extends_frameAt [OF assms(1)] extends_eventAt [OF assms(1)]
    by (auto simp: entryAt_def view_def ebind_Inr_iff split: if_splits)
qed

section \<open>Appending keeps the invariant\<close>

definition room :: "chunk \<Rightarrow> nat \<Rightarrow> bool" where
  "room ch n \<longleftrightarrow> length (c_payload ch) + n \<le> c_payloadCap ch \<and>
     length (c_records ch) < c_recordCap ch"

text \<open>What a stored frame event decodes to: its wall-clock reading and its payload bytes.\<close>

definition stored_frame :: "u64 \<Rightarrow> frame_event \<Rightarrow> frame_event" where
  "stored_frame timestamp ev = ev\<lparr>fe_timestamp := time_Unix timestamp,
     fe_frame := (fe_frame ev)\<lparr>f_data :=
       copy_into (replicate MaxDataLength 0) (payload_of (fe_frame ev))\<rparr>\<rparr>"

definition stored_event :: "u64 \<Rightarrow> event \<Rightarrow> event" where
  "stored_event timestamp ev = ev\<lparr>e_timestamp := time_Unix timestamp\<rparr>"

lemma chunk_append_frame_fields:
  fixes ch ev ts
  defines "ch' \<equiv> chunk_append_frame ts ev ch"
  shows "c_sequence ch' = c_sequence ch" "c_recordCap ch' = c_recordCap ch"
    "c_payloadCap ch' = c_payloadCap ch" "c_eventStates ch' = c_eventStates ch"
    "c_payload ch' = c_payload ch @ payload_of (fe_frame ev)"
    "c_keys ch' = (if c_keyStates ch (Key ev) = None then c_keys ch @ [Key ev] else c_keys ch)"
    "\<exists>r. c_records ch' = c_records ch @ [r]"
  unfolding ch'_def
  by (auto simp: chunk_append_frame_def appendPayload_def Let_def split: option.splits)

lemma chunk_append_event_fields:
  fixes ch ev ts
  defines "ch' \<equiv> chunk_append_event ts ev ch"
  shows "c_sequence ch' = c_sequence ch" "c_recordCap ch' = c_recordCap ch"
    "c_payloadCap ch' = c_payloadCap ch" "c_keyStates ch' = c_keyStates ch"
    "c_payload ch' = c_payload ch" "c_keys ch' = c_keys ch"
    "\<exists>r. c_records ch' = c_records ch @ [r]"
  unfolding ch'_def by (auto simp: chunk_append_event_def Let_def)

lemma length_append_records [simp]:
  "length (c_records (chunk_append_frame ts ev ch)) = Suc (length (c_records ch))"
  "length (c_records (chunk_append_event ts ev' ch)) = Suc (length (c_records ch))"
  using chunk_append_frame_fields(7) [of ts ev ch] chunk_append_event_fields(7) [of ts ev' ch] by auto

lemma extends_append [simp]:
  "extends ch (chunk_append_frame ts ev ch)" "extends ch (chunk_append_event ts ev' ch)"
  using chunk_append_frame_fields(7) [of ts ev ch] chunk_append_event_fields(7) [of ts ev' ch]
  by (auto simp: extends_def chunk_append_frame_fields(1-6) chunk_append_event_fields(1-6))

lemma extends_nth: "extends ch ch' \<Longrightarrow> i < length (c_records ch) \<Longrightarrow> c_records ch' ! i = c_records ch ! i"
  by (auto simp: extends_def nth_append)

lemma extends_record_bus: "extends ch ch' \<Longrightarrow> i < length (c_records ch) \<Longrightarrow> record_bus ch' i = record_bus ch i"
  by (auto simp: extends_def record_bus_def nth_append)

text \<open>A decodable frame record has a key, so later appends do not change its series.\<close>

lemma decodable_key:
  assumes "decodable ch" "i < length (c_records ch)"
    "cr_kind (c_records ch ! i) = captureRecordFrame"
  shows "unat (cr_word1 (c_records ch ! i)) < length (c_keys ch)"
proof -
  have "decodable_at ch i"
    using assms by (simp add: decodable_def)
  with assms(2,3) show ?thesis
    by (auto simp: decodable_at_def record_key_def record_bus_def split: if_splits)
qed

lemma decodable_entry: "decodable ch \<Longrightarrow> i < length (c_records ch) \<Longrightarrow>
    \<exists>e. entryAt (view ch) (word_of_nat i) = Inr e"
  by (auto simp: decodable_def decodable_at_def)

lemma extends_record_key:
  assumes "extends ch ch'" "wf_chunk ch" "i < length (c_records ch)"
  shows "record_key ch' i = record_key ch i"
  using assms decodable_key [of ch i] wf_chunkD [OF assms(2)]
  by (auto simp: extends_def record_key_def nth_append)

text \<open>The new frame record.\<close>

lemma append_frame_record:
  assumes wf: "wf_chunk ch"
  shows "\<exists>d. c_records (chunk_append_frame ts ev ch) = c_records ch @ [makeFrameRecord ts d] \<and>
    frd_payloadOffset d = word_of_nat (length (c_payload ch)) \<and>
    frd_dlc d = f_dlc (fe_frame ev) \<and> frd_flags d = f_flags (fe_frame ev) \<and>
    unat (frd_keyIndex d) < length (c_keys (chunk_append_frame ts ev ch)) \<and>
    c_keys (chunk_append_frame ts ev ch) ! unat (frd_keyIndex d) = Key ev \<and>
    frd_previous d = last_index (\<lambda>j. record_key ch j = Some (Key ev)) (length (c_records ch))"
proof (cases "c_keyStates ch (Key ev)")
  case None
  then have "last_index (\<lambda>j. record_key ch j = Some (Key ev)) (length (c_records ch)) = noCaptureRecord"
    using wf by (intro last_index_none) (auto simp: wf_chunk_def frame_chains_ok_def)
  with None wf_chunkD(8) [OF wf] show ?thesis
    by (auto simp: chunk_append_frame_def appendPayload_def Let_def nth_append)
next
  case (Some s)
  with wf show ?thesis
    by (fastforce simp: chunk_append_frame_def appendPayload_def Let_def wf_chunk_def keys_ok_def
        frame_chains_ok_def)
qed

lemma record_key_append_frame:
  assumes wf: "wf_chunk ch"
  shows "record_key (chunk_append_frame ts ev ch) i =
    (if i = length (c_records ch) then Some (Key ev) else record_key ch i)"
proof -
  obtain d where d: "c_records (chunk_append_frame ts ev ch) = c_records ch @ [makeFrameRecord ts d]"
    "unat (frd_keyIndex d) < length (c_keys (chunk_append_frame ts ev ch))"
    "c_keys (chunk_append_frame ts ev ch) ! unat (frd_keyIndex d) = Key ev"
    using append_frame_record [OF wf] by blast
  consider "i < length (c_records ch)" | "i = length (c_records ch)" | "i > length (c_records ch)"
    by linarith
  then show ?thesis
  proof cases
    case 1
    then show ?thesis using extends_record_key [OF extends_append(1) wf] by simp
  next
    case 2
    then show ?thesis using d by (simp add: record_key_def makeFrameRecord_def)
  next
    case 3
    then show ?thesis by (simp add: record_key_def)
  qed
qed

lemma record_bus_append_frame:
  assumes wf: "wf_chunk ch"
  shows "record_bus (chunk_append_frame ts ev ch) i = record_bus ch i"
proof -
  obtain d where "c_records (chunk_append_frame ts ev ch) = c_records ch @ [makeFrameRecord ts d]"
    using append_frame_record [OF wf] by blast
  then show ?thesis
    by (auto simp: record_bus_def nth_append)
qed

lemma record_key_append_event:
  assumes wf: "wf_chunk ch"
  shows "record_key (chunk_append_event ts ev ch) i = record_key ch i"
proof (cases "i < length (c_records ch)")
  case True
  then show ?thesis using extends_record_key [OF extends_append(2) wf] by simp
next
  case False
  then show ?thesis
    by (auto simp: record_key_def chunk_append_event_def Let_def nth_append)
qed

lemma record_bus_append_event:
  "record_bus (chunk_append_event ts ev ch) i =
    (if i = length (c_records ch) then Some (e_bus ev) else record_bus ch i)"
  by (auto simp: record_bus_def chunk_append_event_def Let_def nth_append makeEventRecord_def pack_bus)

text \<open>Decoding the new records gives the event that was appended.\<close>

lemma frameAt_append_frame:
  assumes wf: "wf_chunk ch" and room: "room ch (DataLength (fe_frame ev))"
    and fr: "wf_frame (fe_frame ev)"
  shows "frameAt (view (chunk_append_frame ts ev ch)) (word_of_nat (length (c_records ch))) =
    Inr (stored_frame ts ev)"
proof -
  let ?n = "DataLength (fe_frame ev)" and ?p = "length (c_payload ch)"
  obtain d where d: "c_records (chunk_append_frame ts ev ch) = c_records ch @ [makeFrameRecord ts d]"
    "frd_payloadOffset d = word_of_nat ?p"
    "frd_dlc d = f_dlc (fe_frame ev)" "frd_flags d = f_flags (fe_frame ev)"
    "unat (frd_keyIndex d) < length (c_keys (chunk_append_frame ts ev ch))"
    "c_keys (chunk_append_frame ts ev ch) ! unat (frd_keyIndex d) = Key ev"
    using append_frame_record [OF wf] by blast
  have len: "length (c_records ch) < 4294967296" "?p + ?n < 4294967296"
    using wf_chunkD(6,7) [OF wf] DataLength_le_64 [of "fe_frame ev"] by auto
  have off: "unat (word_of_nat ?p :: u32) = ?p"
      "unat (word_of_nat ?p + word_of_nat ?n :: u32) = ?p + ?n"
    using len(2) unat_index [of "?p + ?n"] by (simp_all flip: of_nat_add)
  have dl: "DataLength \<lparr>f_id = i, f_data = x, f_dlc = f_dlc (fe_frame ev),
      f_flags = f_flags (fe_frame ev)\<rparr> = ?n" for i x
    by (simp add: DataLength_def)
  show ?thesis
    using d len fr
    by (simp add: frameAt_def view_def Let_def off dl chunk_append_frame_fields(5) Key_def
        stored_frame_def frame_event.equality)
qed

lemma eventAt_append_event:
  assumes wf: "wf_chunk ch"
  shows "eventAt (view (chunk_append_event ts ev ch)) (word_of_nat (length (c_records ch))) =
    Inr (stored_event ts ev)"
  using wf_chunkD(6) [OF wf]
  by (simp add: eventAt_def view_def chunk_append_event_def Let_def stored_event_def event.equality)

lemma entryAt_append_frame:
  assumes "wf_chunk ch" "room ch (DataLength (fe_frame ev))" "wf_frame (fe_frame ev)"
  shows "entryAt (view (chunk_append_frame ts ev ch)) (word_of_nat (length (c_records ch))) =
    Inr (FrameEntry (stored_frame ts ev))"
proof -
  obtain d where "c_records (chunk_append_frame ts ev ch) = c_records ch @ [makeFrameRecord ts d]"
    using append_frame_record [OF assms(1)] by blast
  then show ?thesis
    using wf_chunkD(6) [OF assms(1)] frameAt_append_frame [OF assms]
    by (simp add: entryAt_def)
qed

lemma entryAt_append_event:
  assumes "wf_chunk ch"
  shows "entryAt (view (chunk_append_event ts ev ch)) (word_of_nat (length (c_records ch))) =
    Inr (EventEntry (stored_event ts ev))"
proof -
  have "cr_kind (c_records (chunk_append_event ts ev ch) ! length (c_records ch)) = captureRecordEvent"
    by (simp add: chunk_append_event_def Let_def)
  then show ?thesis
    using wf_chunkD(6) [OF assms] eventAt_append_event [OF assms]
    by (simp add: entryAt_def)
qed

lemma entryAt_append_old:
  assumes "decodable ch" "i < length (c_records ch)"
  shows "entryAt (view (chunk_append_frame ts ev ch)) (word_of_nat i) = entryAt (view ch) (word_of_nat i)"
    and "entryAt (view (chunk_append_event ts ev' ch)) (word_of_nat i) = entryAt (view ch) (word_of_nat i)"
  using decodable_entry [OF assms] extends_entryAt [OF extends_append(1)] extends_entryAt [OF extends_append(2)]
  by auto

lemma decodable_extends:
  assumes "decodable_at ch i" "extends ch ch'" "record_key ch' i = record_key ch i"
    "record_bus ch' i = record_bus ch i"
  shows "decodable_at ch' i"
  using assms extends_entryAt [OF assms(2)] extends_frameAt [OF assms(2)] extends_eventAt [OF assms(2)]
  by (auto simp: decodable_at_def)

lemma keyStates_append_frame:
  assumes wf: "wf_chunk ch"
  defines "n \<equiv> length (c_records ch)"
  shows "\<exists>s. c_keyStates (chunk_append_frame ts ev ch) = (c_keyStates ch)(Key ev \<mapsto> s) \<and>
    ks_lastRecord s = word_of_nat n \<and>
    ks_count s = word_of_nat (Suc (count_index (\<lambda>j. record_key ch j = Some (Key ev)) n)) \<and>
    unat (ks_index s) < length (c_keys (chunk_append_frame ts ev ch)) \<and>
    c_keys (chunk_append_frame ts ev ch) ! unat (ks_index s) = Key ev"
proof (cases "c_keyStates ch (Key ev)")
  case None
  then have "count_index (\<lambda>j. record_key ch j = Some (Key ev)) n = 0"
    using wf by (intro count_index_none) (auto simp: wf_chunk_def frame_chains_ok_def)
  with None wf_chunkD(8) [OF wf] show ?thesis
    by (intro exI [of _ "\<lparr>ks_index = word_of_nat (length (c_keys ch)),
          ks_lastRecord = word_of_nat n, ks_count = 1\<rparr>"])
      (simp add: chunk_append_frame_def appendPayload_def Let_def n_def)
next
  case (Some s)
  with wf show ?thesis
    by (intro exI [of _ "s\<lparr>ks_lastRecord := word_of_nat n, ks_count := ks_count s + 1\<rparr>"])
      (simp add: chunk_append_frame_def appendPayload_def Let_def wf_chunk_def keys_ok_def
        frame_chains_ok_def n_def add.commute)
qed

lemma keys_ok_append_frame:
  assumes wf: "wf_chunk ch"
  shows "keys_ok (chunk_append_frame ts ev ch)"
proof -
  let ?ch = "chunk_append_frame ts ev ch"
  have ok: "keys_ok ch" using wf by (simp add: wf_chunk_def)
  obtain s where s: "c_keyStates ?ch = (c_keyStates ch)(Key ev \<mapsto> s)"
    "unat (ks_index s) < length (c_keys ?ch)" "c_keys ?ch ! unat (ks_index s) = Key ev"
    using keyStates_append_frame [OF wf, of ts ev] by blast
  have mem: "Key ev \<in> set (c_keys ch) \<longleftrightarrow> c_keyStates ch (Key ev) \<noteq> None"
    using ok unfolding keys_ok_def by (metis domIff)
  have keys: "c_keys ?ch = (if Key ev \<in> set (c_keys ch) then c_keys ch else c_keys ch @ [Key ev])"
    by (simp add: chunk_append_frame_fields(6) mem)
  have "unat (ks_index t) < length (c_keys ?ch) \<and> c_keys ?ch ! unat (ks_index t) = k"
    if "c_keyStates ?ch k = Some t" for k t
  proof (cases "k = Key ev")
    case True
    with that s show ?thesis by simp
  next
    case False
    with that s(1) ok have "unat (ks_index t) < length (c_keys ch)" "c_keys ch ! unat (ks_index t) = k"
      by (auto simp: keys_ok_def)
    then show ?thesis by (auto simp: keys nth_append)
  qed
  moreover have "dom (c_keyStates ?ch) = set (c_keys ?ch)"
    using ok by (auto simp: s(1) keys keys_ok_def)
  moreover have "distinct (c_keys ?ch)" "length (c_keys ?ch) \<le> length (c_records ?ch)"
    using ok by (auto simp: keys keys_ok_def)
  ultimately show ?thesis
    by (simp add: keys_ok_def)
qed

lemma frame_chains_append_frame:
  assumes wf: "wf_chunk ch"
  shows "frame_chains_ok (chunk_append_frame ts ev ch)"
proof -
  let ?ch = "chunk_append_frame ts ev ch" and ?n = "length (c_records ch)"
  let ?P = "\<lambda>c k j. record_key c j = Some k"
  have ok: "frame_chains_ok ch" using wf by (simp add: wf_chunk_def)
  have key: "record_key ?ch i = (if i = ?n then Some (Key ev) else record_key ch i)" for i
    by (rule record_key_append_frame [OF wf])
  have last: "last_index (?P ?ch k) i = last_index (?P ch k) i" if "i \<le> ?n" for i k
    using that by (simp add: key)
  have count: "count_index (?P ?ch k) ?n = count_index (?P ch k) ?n" for k
    by (simp add: key)
  obtain d where d: "c_records ?ch = c_records ch @ [makeFrameRecord ts d]"
    "frd_previous d = last_index (?P ch (Key ev)) ?n"
    using append_frame_record [OF wf, of ts ev] by blast
  obtain s where s: "c_keyStates ?ch = (c_keyStates ch)(Key ev \<mapsto> s)"
    "ks_lastRecord s = word_of_nat ?n"
    "ks_count s = word_of_nat (Suc (count_index (?P ch (Key ev)) ?n))"
    using keyStates_append_frame [OF wf, of ts ev] by blast
  have "cr_previous (c_records ?ch ! i) = last_index (?P ?ch k) i" if i: "?P ?ch k i" for i k
  proof (cases "i = ?n")
    case True
    with i show ?thesis by (simp add: key d last)
  next
    case False
    with i have "record_key ch i = Some k" "i < ?n"
      by (auto simp: key dest: record_key_less)
    then show ?thesis
      using ok by (simp add: d nth_append last frame_chains_ok_def)
  qed
  moreover have "ks_lastRecord t = last_index (?P ?ch k) (length (c_records ?ch)) \<and>
      ks_count t = word_of_nat (count_index (?P ?ch k) (length (c_records ?ch)))"
    if "c_keyStates ?ch k = Some t" for k t
    using that ok s by (auto simp: key last count frame_chains_ok_def split: if_splits)
  moreover have "\<forall>i. record_key ?ch i \<noteq> Some k" if "c_keyStates ?ch k = None" for k
    using that ok s by (auto simp: key frame_chains_ok_def split: if_splits)
  ultimately show ?thesis
    by (simp add: frame_chains_ok_def)
qed

lemma event_chains_append_frame:
  assumes wf: "wf_chunk ch"
  shows "event_chains_ok (chunk_append_frame ts ev ch)"
proof -
  let ?ch = "chunk_append_frame ts ev ch" and ?n = "length (c_records ch)"
  have ok: "event_chains_ok ch" using wf by (simp add: wf_chunk_def)
  have none: "record_bus ch ?n = None"
    by (simp add: record_bus_def)
  have nth: "c_records ?ch ! i = c_records ch ! i" if "record_bus ch i \<noteq> None" for i
    using that by (intro extends_nth [OF extends_append(1)]) (simp add: record_bus_def split: if_splits)
  then show ?thesis
    using ok none
    by (auto simp: event_chains_ok_def record_bus_append_frame [OF wf] chunk_append_frame_fields(4))
qed

lemma Key_stored_frame [simp]: "Key (stored_frame ts ev) = Key ev"
  by (simp add: Key_def stored_frame_def)

lemma decodable_append_frame:
  assumes wf: "wf_chunk ch" and "room ch (DataLength (fe_frame ev))" "wf_frame (fe_frame ev)"
  shows "decodable (chunk_append_frame ts ev ch)"
proof -
  have "decodable_at (chunk_append_frame ts ev ch) i" if "i < length (c_records ch)" for i
    using that wf_chunkD(5) [OF wf]
    by (intro decodable_extends [OF _ extends_append(1)])
      (simp_all add: decodable_def record_key_append_frame [OF wf] record_bus_append_frame [OF wf])
  moreover have "decodable_at (chunk_append_frame ts ev ch) (length (c_records ch))"
    using entryAt_append_frame [OF assms] frameAt_append_frame [OF assms]
    by (simp add: decodable_at_def record_key_append_frame [OF wf] record_bus_append_frame [OF wf])
      (simp add: record_bus_def)
  ultimately show ?thesis
    by (auto simp: decodable_def less_Suc_eq)
qed

lemma decodable_append_event:
  assumes wf: "wf_chunk ch"
  shows "decodable (chunk_append_event ts ev ch)"
proof -
  have "decodable_at (chunk_append_event ts ev ch) i" if "i < length (c_records ch)" for i
    using that wf_chunkD(5) [OF wf]
    by (intro decodable_extends [OF _ extends_append(2)])
      (simp_all add: decodable_def record_key_append_event [OF wf] record_bus_append_event)
  moreover have "decodable_at (chunk_append_event ts ev ch) (length (c_records ch))"
    using entryAt_append_event [OF assms] eventAt_append_event [OF assms]
    by (simp add: decodable_at_def record_key_append_event [OF wf] record_bus_append_event)
      (simp add: record_key_def stored_event_def)
  ultimately show ?thesis
    by (auto simp: decodable_def less_Suc_eq)
qed

lemma wf_chunk_append_frame [wf_intros]:
  assumes wf: "wf_chunk ch" and room: "room ch (DataLength (fe_frame ev))"
    and fr: "wf_frame (fe_frame ev)"
  shows "wf_chunk (chunk_append_frame ts ev ch)"
proof -
  have "caps_ok (chunk_append_frame ts ev ch)"
    using wf room fr DataLength_le_64 [of "fe_frame ev"]
    by (auto simp: wf_chunk_def caps_ok_def room_def chunk_append_frame_fields(1-6))
  then show ?thesis
    using keys_ok_append_frame [OF wf] frame_chains_append_frame [OF wf]
      event_chains_append_frame [OF wf] decodable_append_frame [OF assms]
    by (simp add: wf_chunk_def)
qed

text \<open>The same for a bus event.\<close>

lemma event_chains_append_event:
  assumes wf: "wf_chunk ch"
  shows "event_chains_ok (chunk_append_event ts ev ch)"
proof -
  let ?ch = "chunk_append_event ts ev ch" and ?n = "length (c_records ch)"
  let ?P = "\<lambda>c b j. record_bus c j = Some b"
  have ok: "event_chains_ok ch" using wf by (simp add: wf_chunk_def)
  have bus: "record_bus ?ch i = (if i = ?n then Some (e_bus ev) else record_bus ch i)" for i
    by (rule record_bus_append_event)
  have last: "last_index (?P ?ch b) i = last_index (?P ch b) i" if "i \<le> ?n" for i b
    using that by (simp add: bus)
  have count: "count_index (?P ?ch b) ?n = count_index (?P ch b) ?n" for b
    by (simp add: bus)
  have fresh: "last_index (?P ch (e_bus ev)) ?n = noCaptureRecord \<and> count_index (?P ch (e_bus ev)) ?n = 0"
    if "c_eventStates ch (e_bus ev) = None"
    using that ok by (auto simp: event_chains_ok_def intro: last_index_none count_index_none)
  have prev: "cr_previous (c_records ?ch ! ?n) = last_index (?P ch (e_bus ev)) ?n"
    using fresh ok by (auto simp: chunk_append_event_def Let_def event_chains_ok_def split: option.splits)
  have st: "\<exists>s. c_eventStates ?ch = (c_eventStates ch)(e_bus ev \<mapsto> s) \<and>
      es_lastRecord s = word_of_nat ?n \<and>
      es_count s = word_of_nat (Suc (count_index (?P ch (e_bus ev)) ?n))"
    using fresh ok
    by (auto simp: chunk_append_event_def Let_def event_chains_ok_def zero_event_state_def
        add.commute split: option.splits)
  then obtain s where s: "c_eventStates ?ch = (c_eventStates ch)(e_bus ev \<mapsto> s)"
    "es_lastRecord s = word_of_nat ?n"
    "es_count s = word_of_nat (Suc (count_index (?P ch (e_bus ev)) ?n))"
    by blast
  have "cr_previous (c_records ?ch ! i) = last_index (?P ?ch b) i" if i: "?P ?ch b i" for i b
  proof (cases "i = ?n")
    case True
    with i show ?thesis by (simp add: bus prev last)
  next
    case False
    with i have "record_bus ch i = Some b" "i < ?n"
      by (auto simp: bus dest: record_bus_less)
    then show ?thesis
      using ok by (simp add: extends_nth [OF extends_append(2)] last event_chains_ok_def)
  qed
  moreover have "es_lastRecord t = last_index (?P ?ch b) (length (c_records ?ch)) \<and>
      es_count t = word_of_nat (count_index (?P ?ch b) (length (c_records ?ch)))"
    if "c_eventStates ?ch b = Some t" for b t
    using that ok s by (auto simp: bus last count event_chains_ok_def split: if_splits)
  moreover have "\<forall>i. record_bus ?ch i \<noteq> Some b" if "c_eventStates ?ch b = None" for b
    using that ok s by (auto simp: bus event_chains_ok_def split: if_splits)
  ultimately show ?thesis
    by (simp add: event_chains_ok_def)
qed

lemma frame_chains_append_event:
  assumes wf: "wf_chunk ch"
  shows "frame_chains_ok (chunk_append_event ts ev ch)"
proof -
  let ?ch = "chunk_append_event ts ev ch" and ?n = "length (c_records ch)"
  have ok: "frame_chains_ok ch" using wf by (simp add: wf_chunk_def)
  have none: "record_key ch ?n = None"
    by (simp add: record_key_def)
  have nth: "c_records ?ch ! i = c_records ch ! i" if "record_key ch i \<noteq> None" for i
    using that by (intro extends_nth [OF extends_append(2)]) (simp add: record_key_def split: if_splits)
  then show ?thesis
    using ok none
    by (auto simp: frame_chains_ok_def record_key_append_event [OF wf] chunk_append_event_fields(4))
qed

lemma wf_chunk_append_event [wf_intros]:
  assumes wf: "wf_chunk ch" and room: "room ch 0"
  shows "wf_chunk (chunk_append_event ts ev ch)"
proof -
  have "caps_ok (chunk_append_event ts ev ch)" "keys_ok (chunk_append_event ts ev ch)"
    using wf room
    by (auto simp: wf_chunk_def caps_ok_def keys_ok_def room_def chunk_append_event_fields(1-6))
  then show ?thesis
    using frame_chains_append_event [OF wf] event_chains_append_event [OF wf] decodable_append_event [OF wf]
    by (simp add: wf_chunk_def)
qed

section \<open>A walk visits its series, newest first\<close>

text \<open>The indices below \<open>n\<close> and after \<open>stop\<close> that belong to a series, oldest first.\<close>

definition series_indices :: "(nat \<Rightarrow> bool) \<Rightarrow> int \<Rightarrow> nat \<Rightarrow> nat list" where
  "series_indices P stop n = filter (\<lambda>i. P i \<and> stop < int i) [0..<n]"

lemma series_indices_simps [simp]:
  "series_indices P stop 0 = []"
  "series_indices P stop (Suc n) = series_indices P stop n @ (if P n \<and> stop < int n then [n] else [])"
  by (simp_all add: series_indices_def)

lemma series_indices_stop: "int n \<le> stop + 1 \<Longrightarrow> series_indices P stop n = []"
  by (induction n) auto

lemma series_indices_count: "stop < 0 \<Longrightarrow> length (series_indices P stop n) = count_index P n"
  by (induction n) auto

lemma set_series_indices: "set (series_indices P stop n) = {i. i < n \<and> P i \<and> stop < int i}"
  by (auto simp: series_indices_def)

lemma walk_stops: "r = noCaptureRecord \<Longrightarrow> walk prev rs stop fuel r = Inr []"
  "int (unat r) \<le> stop \<Longrightarrow> walk prev rs stop fuel r = Inr []"
  by (cases fuel; simp)+

lemma walk_last_index:
  assumes chain: "\<And>i. i < length rs \<Longrightarrow> P i \<Longrightarrow> prev (rs ! i) = Inr (last_index P i)"
    and small: "length rs < 4294967295"
  shows "m \<le> length rs \<Longrightarrow> m \<le> fuel \<Longrightarrow>
    walk prev rs stop fuel (last_index P m) = Inr (map word_of_nat (rev (series_indices P stop m)))"
proof (induction m arbitrary: fuel)
  case 0
  then show ?case by (simp add: walk_stops)
next
  case (Suc m)
  show ?case
  proof (cases "P m")
    case False
    with Suc show ?thesis by simp
  next
    case P: True
    from Suc.prems obtain f where fuel: "fuel = Suc f" "m \<le> f"
      by (cases fuel) auto
    have idx: "unat (word_of_nat m :: u32) = m" "(word_of_nat m :: u32) \<noteq> noCaptureRecord"
      using Suc.prems small index_not_noCaptureRecord [of m] by auto
    show ?thesis
    proof (cases "int m \<le> stop")
      case True
      with P idx show ?thesis
        by (simp add: walk_stops series_indices_stop)
    next
      case False
      with P idx Suc.prems Suc.IH [of f] fuel chain [of m] show ?thesis
        by simp
    qed
  qed
qed

lemma frame_previous_eq: "record_key ch i = Some k \<Longrightarrow> frame_previous (c_records ch ! i) = Inr (cr_previous (c_records ch ! i))"
  by (auto simp: frame_previous_def frameData_def record_key_def split: if_splits)

lemma event_previous_eq: "record_bus ch i = Some b \<Longrightarrow> event_previous (c_records ch ! i) = Inr (cr_previous (c_records ch ! i))"
  by (auto simp: event_previous_def eventData_def record_bus_def split: if_splits)

abbreviation key_series :: "chunk \<Rightarrow> frame_key \<Rightarrow> int \<Rightarrow> nat list" where
  "key_series ch k stop \<equiv> series_indices (\<lambda>i. record_key ch i = Some k) stop (length (c_records ch))"

abbreviation bus_series :: "chunk \<Rightarrow> u16 \<Rightarrow> int \<Rightarrow> nat list" where
  "bus_series ch b stop \<equiv> series_indices (\<lambda>i. record_bus ch i = Some b) stop (length (c_records ch))"

lemma count_index_le: "count_index P n \<le> n"
  by (induction n) auto

lemma keyStates_at_count:
  assumes wf: "wf_chunk ch"
  shows "unat (ks_count (keyStates_at ch k)) = length (key_series ch k (-1))"
proof (cases "c_keyStates ch k")
  case None
  with wf have "\<And>i. record_key ch i \<noteq> Some k"
    by (auto simp: wf_chunk_def frame_chains_ok_def)
  then show ?thesis
    by (simp add: keyStates_at_def None zero_key_state_def series_indices_def)
next
  case (Some s)
  with wf wf_chunkD(6) [OF wf] count_index_le [of "\<lambda>i. record_key ch i = Some k" "length (c_records ch)"]
  show ?thesis
    by (simp add: keyStates_at_def wf_chunk_def frame_chains_ok_def series_indices_count)
qed

lemma walk_keyStates_at:
  assumes wf: "wf_chunk ch" and nz: "ks_count (keyStates_at ch k) \<noteq> 0"
  shows "walk frame_previous (c_records ch) stop (length (c_records ch)) (ks_lastRecord (keyStates_at ch k)) =
    Inr (map word_of_nat (rev (key_series ch k stop)))"
proof -
  obtain s where s: "c_keyStates ch k = Some s"
    using nz by (auto simp: keyStates_at_def zero_key_state_def split: option.splits)
  have chains: "frame_chains_ok ch" using wf by (simp add: wf_chunk_def)
  with s have "ks_lastRecord (keyStates_at ch k) =
      last_index (\<lambda>i. record_key ch i = Some k) (length (c_records ch))"
    by (simp add: keyStates_at_def frame_chains_ok_def)
  moreover have "frame_previous (c_records ch ! i) = Inr (last_index (\<lambda>i. record_key ch i = Some k) i)"
    if "record_key ch i = Some k" for i
    using that chains by (simp add: frame_previous_eq frame_chains_ok_def)
  ultimately show ?thesis
    using wf_chunkD(6) [OF wf] by (simp add: walk_last_index)
qed

lemma eventStates_at_count:
  assumes wf: "wf_chunk ch"
  shows "unat (es_count (eventStates_at ch b)) = length (bus_series ch b (-1))"
proof (cases "c_eventStates ch b")
  case None
  with wf have "\<And>i. record_bus ch i \<noteq> Some b"
    by (auto simp: wf_chunk_def event_chains_ok_def)
  then show ?thesis
    by (simp add: eventStates_at_def None zero_event_state_def series_indices_def)
next
  case (Some s)
  with wf wf_chunkD(6) [OF wf] count_index_le [of "\<lambda>i. record_bus ch i = Some b" "length (c_records ch)"]
  show ?thesis
    by (simp add: eventStates_at_def wf_chunk_def event_chains_ok_def series_indices_count)
qed

lemma walk_eventStates_at:
  assumes wf: "wf_chunk ch" and nz: "es_count (eventStates_at ch b) \<noteq> 0"
  shows "walk event_previous (c_records ch) stop (length (c_records ch)) (es_lastRecord (eventStates_at ch b)) =
    Inr (map word_of_nat (rev (bus_series ch b stop)))"
proof -
  obtain s where s: "c_eventStates ch b = Some s"
    using nz by (auto simp: eventStates_at_def zero_event_state_def split: option.splits)
  have chains: "event_chains_ok ch" using wf by (simp add: wf_chunk_def)
  with s have "es_lastRecord (eventStates_at ch b) =
      last_index (\<lambda>i. record_bus ch i = Some b) (length (c_records ch))"
    by (simp add: eventStates_at_def event_chains_ok_def)
  moreover have "event_previous (c_records ch ! i) = Inr (last_index (\<lambda>i. record_bus ch i = Some b) i)"
    if "record_bus ch i = Some b" for i
    using that chains by (simp add: event_previous_eq event_chains_ok_def)
  ultimately show ?thesis
    using wf_chunkD(6) [OF wf] by (simp add: walk_last_index)
qed

end
