(* ===== verification/Capture.thy ===== *)
theory Capture
  imports Capture_Chunk
begin

text \<open>
  The capture store (\<open>capture.go\<close>): the state behind the mutex, and every operation that
  changes it. The Go struct keeps the active chunk both as a field and as the last element
  of \<open>chunks\<close>; the model keeps the sealed chunks and the active one apart, and \<open>chunks\<close> is
  their list. The preallocation goroutine is the operation \<open>finishAllocation\<close>, which may
  run between any two others. Waiters are heap objects that several blocked readers share,
  so the model has a store of them and the key table holds their addresses.

  The abstract state is the log: the entries in append order, each with its cursor.
\<close>

section \<open>State\<close>

record waiter =
  w_ready :: bool
  w_count :: int
  w_event :: frame_event
  w_cursor :: cursor

record capture =
  cp_origin :: time
  cp_generation :: u64
  cp_sealed :: "chunk list"
  cp_active :: chunk
  cp_next :: "chunk option"
  cp_allocating :: "(nat \<times> nat) option"
  cp_latest :: "frame_key \<rightharpoonup> frame_event"
  cp_latestStates :: "u16 \<rightharpoonup> event"
  cp_waiters :: "frame_key \<rightharpoonup> nat"
  cp_store :: "nat \<rightharpoonup> waiter"
  cp_length :: int
  cp_pruneSeam :: cursor

definition chunks :: "capture \<Rightarrow> chunk list" where
  "chunks c = cp_sealed c @ [cp_active c]"

text \<open>
  The global counter \<open>captureEpochs\<close> is passed in and returned; \<open>now\<close> is \<open>time.Now()\<close>.
\<close>

definition NewCapture :: "time \<Rightarrow> u64 \<Rightarrow> u64 \<times> capture" where
  "NewCapture now epochs =
     (epochs + 1,
      \<lparr>cp_origin = now, cp_generation = epochs + 1, cp_sealed = [],
       cp_active = newCaptureChunk initialCaptureChunkRecordCapacity initialCaptureChunkPayloadCapacity,
       cp_next = Some (newCaptureChunk initialCaptureChunkRecordCapacity initialCaptureChunkPayloadCapacity),
       cp_allocating = None, cp_latest = Map.empty, cp_latestStates = Map.empty,
       cp_waiters = Map.empty, cp_store = Map.empty, cp_length = 0, cp_pruneSeam = zero_cursor\<rparr>)"

section \<open>Rotation\<close>

definition prepareNextLocked :: "nat \<Rightarrow> nat \<Rightarrow> capture \<Rightarrow> capture" where
  "prepareNextLocked recordCapacity payloadCapacity c =
     (if cp_next c \<noteq> None \<or> cp_allocating c \<noteq> None then c
      else c\<lparr>cp_allocating := Some (recordCapacity, payloadCapacity)\<rparr>)"

text \<open>The body of the goroutine, once it holds the mutex.\<close>

definition finishAllocation :: "capture \<Rightarrow> capture" where
  "finishAllocation c = (case cp_allocating c of
       None \<Rightarrow> c
     | Some (rc, pc) \<Rightarrow>
         c\<lparr>cp_next := (case cp_next c of None \<Rightarrow> Some (newCaptureChunk rc pc) | Some n \<Rightarrow> Some n),
           cp_allocating := None\<rparr>)"

text \<open>A division by zero is a run-time panic.\<close>

definition replacementCapacities :: "nat \<Rightarrow> nat \<Rightarrow> capture_error + nat \<times> nat" where
  "replacementCapacities records payloadBytes =
     (if payloadBytes * initialCaptureChunkRecordCapacity \<ge> records * initialCaptureChunkPayloadCapacity
      then (if payloadBytes = 0 then Inl Panic
            else Inr (max (records * initialCaptureChunkPayloadCapacity div payloadBytes)
                          minimumCaptureChunkRecordCapacity,
                      max initialCaptureChunkPayloadCapacity minimumCaptureChunkPayloadCapacity))
      else (if records = 0 then Inl Panic
            else Inr (max initialCaptureChunkRecordCapacity minimumCaptureChunkRecordCapacity,
                      max (payloadBytes * initialCaptureChunkRecordCapacity div records)
                          minimumCaptureChunkPayloadCapacity)))"

definition rotate :: "nat \<Rightarrow> capture \<Rightarrow> capture_error + capture" where
  "rotate payloadLength c =
     (let active = cp_active c;
          payloadFits = length (c_payload active) + payloadLength \<le> c_payloadCap active;
          recordFits = length (c_records active) < c_recordCap active
      in if payloadFits \<and> recordFits then Inr c
         else ebind (replacementCapacities (length (c_records active)) (length (c_payload active)))
           (\<lambda>(recordCapacity, payloadCapacity).
             let next = (case cp_next c of
                   None \<Rightarrow> newCaptureChunk recordCapacity payloadCapacity | Some n \<Rightarrow> n)
             in Inr (prepareNextLocked recordCapacity payloadCapacity
                  (c\<lparr>cp_sealed := cp_sealed c @ [active],
                     cp_active := next\<lparr>c_sequence := c_sequence active + 1\<rparr>,
                     cp_next := None\<rparr>))))"

section \<open>Appending\<close>

definition wakeWaitersLocked :: "frame_key \<Rightarrow> frame_event \<Rightarrow> cursor \<Rightarrow> capture \<Rightarrow> capture" where
  "wakeWaitersLocked key ev cur c = (case cp_waiters c key of
       None \<Rightarrow> c
     | Some w \<Rightarrow> c\<lparr>cp_waiters := (cp_waiters c)(key := None),
         cp_store := (cp_store c)(w := map_option
           (\<lambda>x. x\<lparr>w_event := ev, w_cursor := cur, w_ready := True\<rparr>) (cp_store c w))\<rparr>)"

text \<open>
  The timestamp to store: the wall-clock reading of the event, or for a live record the
  capture clock, \<open>elapsed\<close> being \<open>time.Since(capture.origin)\<close> at the append.
\<close>

definition record_timestamp :: "time \<Rightarrow> bool \<Rightarrow> int \<Rightarrow> capture \<Rightarrow> u64" where
  "record_timestamp t live elapsed c =
     (if live then UnixNano (cp_origin c) + word_of_int elapsed else UnixNano t)"

definition appendFrame :: "frame_event \<Rightarrow> bool \<Rightarrow> int \<Rightarrow> capture \<Rightarrow> capture_error + capture" where
  "appendFrame ev live elapsed c =
     ebind (emap InvalidFrameEvent (frame_event_Validate ev)) (\<lambda>_.
     let payloadLength = DataLength (fe_frame ev);
         key = Key ev;
         timestamp = record_timestamp (fe_timestamp ev) live elapsed c
     in ebind (rotate payloadLength c) (\<lambda>c.
     let recordIndex = word_of_nat (length (c_records (cp_active c)));
         chunk = chunk_append_frame timestamp ev (cp_active c)
     in ebind (frameAt (view chunk) recordIndex) (\<lambda>stored.
     Inr (wakeWaitersLocked key stored
            \<lparr>cu_generation = cp_generation c, cu_chunk = c_sequence chunk, cu_record = recordIndex\<rparr>
            (c\<lparr>cp_active := chunk, cp_latest := (cp_latest c)(key \<mapsto> stored),
               cp_length := cp_length c + 1\<rparr>)))))"

definition Append :: "frame_event \<Rightarrow> capture \<Rightarrow> capture_error + capture" where
  "Append ev c = appendFrame ev False 0 c"

definition RecordFrame :: "int \<Rightarrow> frame_event \<Rightarrow> capture \<Rightarrow> capture_error + capture" where
  "RecordFrame elapsed ev c = appendFrame (ev\<lparr>fe_timestamp := cp_origin c\<rparr>) True elapsed c"

definition appendEvent :: "event \<Rightarrow> bool \<Rightarrow> int \<Rightarrow> capture \<Rightarrow> capture_error + capture" where
  "appendEvent ev live elapsed c =
     ebind (emap InvalidEvent (event_Validate ev)) (\<lambda>_.
     let timestamp = record_timestamp (e_timestamp ev) live elapsed c
     in ebind (rotate 0 c) (\<lambda>c.
     let recordIndex = word_of_nat (length (c_records (cp_active c)));
         chunk = chunk_append_event timestamp ev (cp_active c);
         c1 = c\<lparr>cp_active := chunk\<rparr>
     in ebind (if e_kind ev = EventControllerState
               then ebind (eventAt (view chunk) recordIndex) (\<lambda>stored.
                 Inr (c1\<lparr>cp_latestStates := (cp_latestStates c1)(e_bus ev \<mapsto> stored)\<rparr>))
               else Inr c1) (\<lambda>c2.
     Inr (c2\<lparr>cp_length := cp_length c2 + 1\<rparr>))))"

definition AppendEvent :: "event \<Rightarrow> capture \<Rightarrow> capture_error + capture" where
  "AppendEvent ev c = appendEvent ev False 0 c"

definition RecordEvent :: "int \<Rightarrow> event \<Rightarrow> capture \<Rightarrow> capture_error + capture" where
  "RecordEvent elapsed ev c = appendEvent (ev\<lparr>e_timestamp := cp_origin c\<rparr>) True elapsed c"

definition Latest :: "frame_key \<Rightarrow> capture \<Rightarrow> frame_event option" where
  "Latest key c = cp_latest c key"

definition LatestControllerState :: "u16 \<Rightarrow> capture \<Rightarrow> event option" where
  "LatestControllerState bus c = cp_latestStates c bus"

definition Len :: "capture \<Rightarrow> int" where
  "Len c = cp_length c"

section \<open>Cursors, pruning and clearing\<close>

fun last_cursor :: "u64 \<Rightarrow> chunk list \<Rightarrow> cursor option" where
  "last_cursor gen [] = None"
| "last_cursor gen (ch # chs) = (case last_cursor gen chs of
       Some cu \<Rightarrow> Some cu
     | None \<Rightarrow> (if c_records ch = [] then None
               else Some \<lparr>cu_generation = gen, cu_chunk = c_sequence ch,
                         cu_record = word_of_nat (length (c_records ch) - 1)\<rparr>))"

definition endLocked :: "capture \<Rightarrow> cursor" where
  "endLocked c = (case last_cursor (cp_generation c) (chunks c) of
     None \<Rightarrow> zero_cursor | Some cu \<Rightarrow> cu)"

text \<open>
  Placing a cursor: the index of its chunk among \<open>chs\<close> and the record it follows, \<open>-1\<close>
  for the position before every record.
\<close>

definition locateCursor :: "cursor \<Rightarrow> u64 \<Rightarrow> chunk list \<Rightarrow> cursor \<Rightarrow> capture_error + nat \<times> int" where
  "locateCursor cur generation chs pruneSeam =
     (if cur = zero_cursor then Inr (0, -1)
      else if cu_generation cur \<noteq> generation then Inl (CursorOutOfRange cur)
      else let index = int (unat (cu_chunk cur)) - int (unat (c_sequence (hd chs))) in
        if index < 0 \<or> index \<ge> int (length chs)
        then (if cur = pruneSeam then Inr (0, -1) else Inl (CursorOutOfRange cur))
        else Inr (nat index, int (unat (cu_record cur))))"

definition locate :: "capture \<Rightarrow> cursor \<Rightarrow> capture_error + nat \<times> int" where
  "locate c cur = locateCursor cur (cp_generation c) (chunks c) (cp_pruneSeam c)"

text \<open>The loop of \<open>Prune\<close> that places every cursor and keeps the earliest place.\<close>

fun earliest :: "capture \<Rightarrow> (nat \<times> int) option \<Rightarrow> cursor list \<Rightarrow> capture_error + (nat \<times> int) option" where
  "earliest c best [] = Inr best"
| "earliest c best (cur # curs) = ebind (locate c cur) (\<lambda>(placedChunk, placedBoundary).
     earliest c (case best of
         None \<Rightarrow> Some (placedChunk, placedBoundary)
       | Some (chunk, boundary) \<Rightarrow>
           if placedChunk < chunk \<or> placedChunk = chunk \<and> placedBoundary < boundary
           then Some (placedChunk, placedBoundary) else Some (chunk, boundary)) curs)"

definition Prune :: "cursor list \<Rightarrow> capture \<Rightarrow> capture_error + capture" where
  "Prune cursors c =
     (if cursors = [] then Inr c
      else ebind (earliest c None cursors) (\<lambda>best. case best of
          None \<Rightarrow> Inr c
        | Some (chunk, boundary) \<Rightarrow>
          let discard = (if chunk < length (chunks c) - 1 \<and>
                            boundary = int (length (c_records (chunks c ! chunk))) - 1
                         then chunk + 1 else chunk)
          in if discard > 0 then
               Inr (c\<lparr>cp_pruneSeam := (case last_cursor (cp_generation c) (take discard (chunks c)) of
                          Some cu \<Rightarrow> cu | None \<Rightarrow> cp_pruneSeam c),
                      cp_length := cp_length c -
                        int (sum_list (map (\<lambda>ch. length (c_records ch)) (take discard (chunks c)))),
                      cp_sealed := drop discard (cp_sealed c)\<rparr>)
             else Inr c))"

definition Clear :: "u64 \<Rightarrow> capture \<Rightarrow> u64 \<times> capture" where
  "Clear epochs c =
     (let fresh = (case cp_next c of
            None \<Rightarrow> newCaptureChunk (c_recordCap (cp_active c)) (c_payloadCap (cp_active c))
          | Some n \<Rightarrow> n)
      in (epochs + 1,
          prepareNextLocked (c_recordCap fresh) (c_payloadCap fresh)
            (c\<lparr>cp_generation := epochs + 1, cp_next := None, cp_active := fresh, cp_sealed := [],
               cp_latest := Map.empty, cp_latestStates := Map.empty, cp_length := 0,
               cp_pruneSeam := zero_cursor\<rparr>)))"

end
