(* ===== verification/Capture_Log.thy ===== *)
theory Capture_Log
  imports Capture
begin

text \<open>
  The abstract specification of the capture: a log of entries with their cursors. The
  invariant \<open>wf_capture\<close> relates the stored chunks to the log, and every operation of
  \<open>Capture\<close> keeps it: an append extends the log by one entry, rotation and the
  preallocation goroutine do not touch it, \<open>Prune\<close> drops a prefix, \<open>Clear\<close> empties it.
\<close>

section \<open>The log\<close>

definition cursor_at :: "u64 \<Rightarrow> chunk \<Rightarrow> nat \<Rightarrow> cursor" where
  "cursor_at gen ch i = \<lparr>cu_generation = gen, cu_chunk = c_sequence ch, cu_record = word_of_nat i\<rparr>"

definition entry_of :: "chunk \<Rightarrow> nat \<Rightarrow> entry" where
  "entry_of ch i = projr (entryAt (view ch) (word_of_nat i))"

definition chunk_log :: "u64 \<Rightarrow> chunk \<Rightarrow> (cursor \<times> entry) list" where
  "chunk_log gen ch = map (\<lambda>i. (cursor_at gen ch i, entry_of ch i)) [0..<length (c_records ch)]"

definition log :: "capture \<Rightarrow> (cursor \<times> entry) list" where
  "log c = concat (map (chunk_log (cp_generation c)) (chunks c))"

fun as_frame :: "entry \<Rightarrow> frame_event option" where
  "as_frame (FrameEntry e) = Some e"
| "as_frame (EventEntry e) = None"

fun as_event :: "entry \<Rightarrow> event option" where
  "as_event (FrameEntry e) = None"
| "as_event (EventEntry e) = Some e"

definition frames_in :: "('c \<times> entry) list \<Rightarrow> frame_event list" where
  "frames_in l = List.map_filter (\<lambda>(_, e). as_frame e) l"

definition events_in :: "('c \<times> entry) list \<Rightarrow> event list" where
  "events_in l = List.map_filter (\<lambda>(_, e). as_event e) l"

definition series_in :: "frame_key \<Rightarrow> ('c \<times> entry) list \<Rightarrow> frame_event list" where
  "series_in k l = filter (\<lambda>e. Key e = k) (frames_in l)"

definition bus_events_in :: "u16 \<Rightarrow> ('c \<times> entry) list \<Rightarrow> event list" where
  "bus_events_in b l = filter (\<lambda>e. e_bus e = b) (events_in l)"

definition states_in :: "u16 \<Rightarrow> ('c \<times> entry) list \<Rightarrow> event list" where
  "states_in b l = filter (\<lambda>e. e_bus e = b \<and> e_kind e = EventControllerState) (events_in l)"

lemma frames_in_append [simp]: "frames_in (l @ m) = frames_in l @ frames_in m"
  by (simp add: frames_in_def List.map_filter_def)

lemma events_in_append [simp]: "events_in (l @ m) = events_in l @ events_in m"
  by (simp add: events_in_def List.map_filter_def)

lemma frames_in_simps [simp]:
  "frames_in [] = []" "frames_in ((cu, FrameEntry e) # l) = e # frames_in l"
  "frames_in ((cu, EventEntry v) # l) = frames_in l"
  by (simp_all add: frames_in_def List.map_filter_def)

lemma events_in_simps [simp]:
  "events_in [] = []" "events_in ((cu, FrameEntry e) # l) = events_in l"
  "events_in ((cu, EventEntry v) # l) = v # events_in l"
  by (simp_all add: events_in_def List.map_filter_def)

lemma series_in_simps [simp]:
  "series_in k [] = []" "series_in k (l @ m) = series_in k l @ series_in k m"
  "series_in k ((cu, FrameEntry e) # l) = (if Key e = k then [e] else []) @ series_in k l"
  "series_in k ((cu, EventEntry v) # l) = series_in k l"
  by (simp_all add: series_in_def)

lemma bus_events_in_simps [simp]:
  "bus_events_in b [] = []" "bus_events_in b (l @ m) = bus_events_in b l @ bus_events_in b m"
  "bus_events_in b ((cu, FrameEntry e) # l) = bus_events_in b l"
  "bus_events_in b ((cu, EventEntry v) # l) = (if e_bus v = b then [v] else []) @ bus_events_in b l"
  by (simp_all add: bus_events_in_def)

lemma states_in_simps [simp]:
  "states_in b [] = []" "states_in b (l @ m) = states_in b l @ states_in b m"
  "states_in b ((cu, FrameEntry e) # l) = states_in b l"
  "states_in b ((cu, EventEntry v) # l) =
     (if e_bus v = b \<and> e_kind v = EventControllerState then [v] else []) @ states_in b l"
  by (simp_all add: states_in_def)

section \<open>The invariant\<close>

definition fresh_chunk :: "chunk \<Rightarrow> bool" where
  "fresh_chunk n \<longleftrightarrow> (\<exists>rc pc. n = newCaptureChunk rc pc \<and> caps_range rc pc)"

definition first_sequence :: "capture \<Rightarrow> nat" where
  "first_sequence c = unat (c_sequence (hd (chunks c)))"

definition sequences_ok :: "capture \<Rightarrow> bool" where
  "sequences_ok c \<longleftrightarrow>
     map (\<lambda>ch. unat (c_sequence ch)) (chunks c) = [first_sequence c..<first_sequence c + length (chunks c)]"

definition latest_ok :: "capture \<Rightarrow> bool" where
  "latest_ok c \<longleftrightarrow>
     (\<forall>k. series_in k (log c) \<noteq> [] \<longrightarrow> cp_latest c k = Some (last (series_in k (log c)))) \<and>
     (\<forall>b. states_in b (log c) \<noteq> [] \<longrightarrow> cp_latestStates c b = Some (last (states_in b (log c))))"

definition waiters_ok :: "capture \<Rightarrow> bool" where
  "waiters_ok c \<longleftrightarrow> (\<forall>k w. cp_waiters c k = Some w \<longrightarrow>
     (\<exists>x. cp_store c w = Some x \<and> \<not> w_ready x \<and> w_count x > 0)) \<and>
     (\<forall>k k' w. cp_waiters c k = Some w \<longrightarrow> cp_waiters c k' = Some w \<longrightarrow> k = k')"

definition wf_base :: "capture \<Rightarrow> bool" where
  "wf_base c \<longleftrightarrow>
     (\<forall>ch \<in> set (chunks c). wf_chunk ch) \<and> (\<forall>ch \<in> set (cp_sealed c). c_records ch \<noteq> []) \<and>
     sequences_ok c \<and> cp_generation c \<noteq> 0 \<and> cp_length c = int (length (log c)) \<and>
     (\<forall>n. cp_next c = Some n \<longrightarrow> fresh_chunk n) \<and>
     (\<forall>rc pc. cp_allocating c = Some (rc, pc) \<longrightarrow> caps_range rc pc) \<and>
     (cp_pruneSeam c = zero_cursor \<or>
        cu_generation (cp_pruneSeam c) = cp_generation c \<and>
        unat (cu_chunk (cp_pruneSeam c)) < first_sequence c) \<and>
     latest_ok c \<and> waiters_ok c"

definition wf_capture :: "capture \<Rightarrow> bool" where
  "wf_capture c \<longleftrightarrow> wf_base c \<and> (cp_sealed c \<noteq> [] \<longrightarrow> c_records (cp_active c) \<noteq> [])"

text \<open>The chunk counter is 32 bits wide; a capture stays within it for 2^32 rotations.\<close>

definition slots :: "capture \<Rightarrow> nat" where
  "slots c = 4294967295 - unat (c_sequence (cp_active c))"

definition sequence_room :: "capture \<Rightarrow> bool" where
  "sequence_room c \<longleftrightarrow> unat (c_sequence (cp_active c)) < 4294967295"

lemma wf_captureD [wf_dests]: "wf_capture c \<Longrightarrow> wf_base c"
  by (simp add: wf_capture_def)

lemma chunk_log_new [simp]: "chunk_log gen (newCaptureChunk rc pc) = []"
  by (simp add: chunk_log_def newCaptureChunk_def)

lemma length_chunk_log [simp]: "length (chunk_log gen ch) = length (c_records ch)"
  by (simp add: chunk_log_def)

lemma log_split: "log c = concat (map (chunk_log (cp_generation c)) (cp_sealed c)) @
    chunk_log (cp_generation c) (cp_active c)"
  by (simp add: log_def chunks_def)

lemma wf_base_active: "wf_base c \<Longrightarrow> wf_chunk (cp_active c)"
  by (simp add: wf_base_def chunks_def)

lemma sequences_nth:
  assumes "sequences_ok c" "i < length (chunks c)"
  shows "unat (c_sequence (chunks c ! i)) = first_sequence c + i"
proof -
  have "map (\<lambda>ch. unat (c_sequence ch)) (chunks c) ! i = [first_sequence c..<first_sequence c + length (chunks c)] ! i"
    using assms(1) by (simp add: sequences_ok_def)
  with assms(2) show ?thesis by simp
qed

lemma sequence_active: "sequences_ok c \<Longrightarrow> unat (c_sequence (cp_active c)) = first_sequence c + length (cp_sealed c)"
  using sequences_nth [of c "length (cp_sealed c)"] by (simp add: chunks_def nth_append)

lemma sequences_okI:
  assumes "\<And>i. i < length (chunks c) \<Longrightarrow> unat (c_sequence (chunks c ! i)) = first_sequence c + i"
  shows "sequences_ok c"
  unfolding sequences_ok_def by (rule nth_equalityI) (simp_all add: assms)

theorem NewCapture_wf:
  assumes "NewCapture now epochs = (epochs', c)" "epochs + 1 \<noteq> 0"
  shows "wf_capture c \<and> log c = [] \<and> cp_generation c = epochs' \<and> epochs' = epochs + 1"
proof -
  have "wf_chunk (newCaptureChunk initialCaptureChunkRecordCapacity initialCaptureChunkPayloadCapacity)"
    by (rule wf_newCaptureChunk) (simp add: caps_range_def)
  moreover have "fresh_chunk (newCaptureChunk initialCaptureChunkRecordCapacity initialCaptureChunkPayloadCapacity)"
    by (fastforce simp: fresh_chunk_def caps_range_def)
  ultimately show ?thesis
    using assms
    by (auto simp: NewCapture_def wf_capture_def wf_base_def chunks_def sequences_ok_def
        first_sequence_def latest_ok_def log_def waiters_ok_def simp del: capacity_values)
qed

section \<open>Rotation\<close>

text \<open>
  A full chunk has records and bytes, so the division is never by zero, and the capacities
  chosen stay between the minimum and the initial ones.
\<close>

lemma replacementCapacities_range:
  assumes "records \<noteq> 0 \<or> payloadBytes \<noteq> 0"
    "records \<le> initialCaptureChunkRecordCapacity" "payloadBytes \<le> initialCaptureChunkPayloadCapacity"
  shows "\<exists>rc pc. replacementCapacities records payloadBytes = Inr (rc, pc) \<and> caps_range rc pc"
proof (cases "payloadBytes * 131072 \<ge> records * 8388608")
  case True
  with assms(1) have p: "payloadBytes > 0" by auto
  from True have "records * 8388608 div payloadBytes \<le> payloadBytes * 131072 div payloadBytes"
    by (rule div_le_mono)
  also have "\<dots> = 131072" using p by simp
  finally show ?thesis
    using True p by (simp add: replacementCapacities_def caps_range_def)
next
  case False
  then have r: "records > 0" by auto
  from False have "payloadBytes * 131072 div records \<le> records * 8388608 div records"
    by (intro div_le_mono) simp
  also have "\<dots> = 8388608" using r by simp
  finally show ?thesis
    using False r by (simp add: replacementCapacities_def caps_range_def)
qed

lemma fresh_wf: "fresh_chunk n \<Longrightarrow> wf_chunk (n\<lparr>c_sequence := s\<rparr>)"
proof -
  assume "fresh_chunk n"
  then obtain rc pc where n: "n = newCaptureChunk rc pc" and "caps_range rc pc"
    by (auto simp: fresh_chunk_def)
  then have "wf_chunk n" by (simp add: wf_newCaptureChunk)
  then show ?thesis
    by (auto simp: n wf_chunk_def caps_ok_def keys_ok_def frame_chains_ok_def event_chains_ok_def
        decodable_def newCaptureChunk_def record_key_def record_bus_def)
qed

lemma fresh_room: "fresh_chunk n \<Longrightarrow> m \<le> 64 \<Longrightarrow> room (n\<lparr>c_sequence := s\<rparr>) m"
  by (auto simp: fresh_chunk_def room_def newCaptureChunk_def caps_range_def)

lemma fresh_records: "fresh_chunk n \<Longrightarrow> c_records n = [] \<and> c_payload n = []"
  by (auto simp: fresh_chunk_def newCaptureChunk_def)

lemma chunk_log_fresh: "fresh_chunk n \<Longrightarrow> chunk_log gen (n\<lparr>c_sequence := s\<rparr>) = []"
  by (simp add: chunk_log_def fresh_records)

text \<open>What rotation leaves alone; everything but the chunks and the preallocation.\<close>

definition same_registers :: "capture \<Rightarrow> capture \<Rightarrow> bool" where
  "same_registers c c' \<longleftrightarrow> cp_origin c' = cp_origin c \<and> cp_generation c' = cp_generation c \<and>
     cp_latest c' = cp_latest c \<and> cp_latestStates c' = cp_latestStates c \<and>
     cp_waiters c' = cp_waiters c \<and> cp_store c' = cp_store c \<and> cp_length c' = cp_length c \<and>
     cp_pruneSeam c' = cp_pruneSeam c"

lemma prepareNextLocked_fields [simp]:
  "chunks (prepareNextLocked rc pc c) = chunks c" "cp_sealed (prepareNextLocked rc pc c) = cp_sealed c"
  "cp_active (prepareNextLocked rc pc c) = cp_active c" "cp_next (prepareNextLocked rc pc c) = cp_next c"
  "same_registers c (prepareNextLocked rc pc c)" "log (prepareNextLocked rc pc c) = log c"
  by (simp_all add: prepareNextLocked_def chunks_def same_registers_def log_def)

lemma latest_ok_cong: "log c' = log c \<Longrightarrow> same_registers c c' \<Longrightarrow> latest_ok c' = latest_ok c"
  by (simp add: latest_ok_def same_registers_def)

lemma waiters_ok_cong: "same_registers c c' \<Longrightarrow> waiters_ok c' = waiters_ok c"
  by (simp add: waiters_ok_def same_registers_def)

lemma wf_prepareNextLocked [wf_intros]:
  assumes "wf_base c" "caps_range rc pc"
  shows "wf_base (prepareNextLocked rc pc c)"
proof -
  let ?c = "prepareNextLocked rc pc c"
  have "same_registers c ?c" by simp
  moreover have "first_sequence ?c = first_sequence c" "sequences_ok ?c = sequences_ok c"
    by (simp_all add: first_sequence_def sequences_ok_def)
  moreover have "cp_allocating ?c = Some (a, b) \<Longrightarrow> caps_range a b" for a b
    using assms by (auto simp: prepareNextLocked_def wf_base_def split: if_splits)
  ultimately show ?thesis
    using assms(1) latest_ok_cong [of ?c c] waiters_ok_cong [of c ?c]
    unfolding wf_base_def by (simp add: same_registers_def)
qed

theorem finishAllocation_wf:
  assumes "wf_capture c"
  shows "wf_capture (finishAllocation c) \<and> log (finishAllocation c) = log c"
proof (cases "cp_allocating c")
  case None
  with assms show ?thesis by (simp add: finishAllocation_def)
next
  case (Some a)
  obtain rc pc where a: "a = (rc, pc)" by (cases a) auto
  have "fresh_chunk (newCaptureChunk rc pc)"
    using assms Some a by (auto simp: wf_capture_def wf_base_def fresh_chunk_def)
  with assms Some a show ?thesis
    by (auto simp: finishAllocation_def wf_capture_def wf_base_def chunks_def log_def
        sequences_ok_def first_sequence_def latest_ok_def waiters_ok_def split: option.splits)
qed

lemma hd_chunks_snoc: "hd ((cp_sealed c @ [cp_active c]) @ [x]) = hd (chunks c)"
  by (simp add: chunks_def hd_append)

text \<open>Sealing the active chunk and taking a fresh one.\<close>

lemma seal_wf:
  assumes wf: "wf_base c" and full: "c_records (cp_active c) \<noteq> []" and n: "fresh_chunk n"
    and seq: "sequence_room c"
  defines "c' \<equiv> c\<lparr>cp_sealed := cp_sealed c @ [cp_active c],
    cp_active := n\<lparr>c_sequence := c_sequence (cp_active c) + 1\<rparr>, cp_next := None\<rparr>"
  shows "wf_base c'" "log c' = log c" "same_registers c c'"
proof -
  show log: "log c' = log c"
    by (simp add: log_split c'_def chunk_log_fresh [OF n])
  show same: "same_registers c c'"
    by (simp add: same_registers_def c'_def)
  have chunks: "chunks c' = chunks c @ [n\<lparr>c_sequence := c_sequence (cp_active c) + 1\<rparr>]"
    by (simp add: chunks_def c'_def)
  have first: "first_sequence c' = first_sequence c"
    by (simp add: first_sequence_def chunks hd_append) (simp add: chunks_def)
  have seqs: "sequences_ok c"
    using wf by (simp add: wf_base_def)
  have "unat (c_sequence (cp_active c) + 1) = first_sequence c + length (chunks c)"
    using seq sequence_active [OF seqs]
    by (simp add: sequence_room_def unat_word_ariths chunks_def)
  then have "sequences_ok c'"
    using seqs by (simp add: sequences_ok_def chunks first)
  moreover have "cp_sealed c' = cp_sealed c @ [cp_active c]" "cp_next c' = None"
      "cp_allocating c' = cp_allocating c"
    by (simp_all add: c'_def)
  ultimately show "wf_base c'"
    using wf full fresh_wf [OF n] latest_ok_cong [OF log same] waiters_ok_cong [OF same] log same
    by (auto simp: wf_base_def chunks first same_registers_def)
qed

lemma rotate_spec:
  assumes wf: "wf_base c" and seq: "sequence_room c" and m: "m \<le> 64"
  shows "\<exists>c'. rotate m c = Inr c' \<and> wf_base c' \<and> room (cp_active c') m \<and> log c' = log c \<and>
    same_registers c c' \<and> slots c \<le> Suc (slots c')"
proof (cases "room (cp_active c) m")
  case True
  with wf show ?thesis
    by (auto simp: rotate_def room_def Let_def same_registers_def)
next
  case False
  have "caps_ok (cp_active c)"
    using wf_base_active [OF wf] by (simp add: wf_chunk_def)
  then have bounds: "length (c_records (cp_active c)) \<le> initialCaptureChunkRecordCapacity"
      "length (c_payload (cp_active c)) \<le> initialCaptureChunkPayloadCapacity"
      and full: "c_records (cp_active c) \<noteq> []"
    using False m by (auto simp: caps_ok_def caps_range_def room_def)
  obtain rc pc where caps: "replacementCapacities (length (c_records (cp_active c)))
      (length (c_payload (cp_active c))) = Inr (rc, pc)" "caps_range rc pc"
    using replacementCapacities_range bounds full by (metis length_0_conv)
  define n where "n = (case cp_next c of None \<Rightarrow> newCaptureChunk rc pc | Some n \<Rightarrow> n)"
  have n: "fresh_chunk n"
    using wf caps by (auto simp: n_def wf_base_def fresh_chunk_def split: option.splits)
  note seal = seal_wf [OF wf full n seq]
  have "unat (c_sequence (cp_active c) + 1) = Suc (unat (c_sequence (cp_active c)))"
    using seq by (simp add: sequence_room_def unat_word_ariths)
  then have slots: "slots c \<le> Suc (slots (prepareNextLocked rc pc (c\<lparr>cp_sealed := cp_sealed c @ [cp_active c],
      cp_active := n\<lparr>c_sequence := c_sequence (cp_active c) + 1\<rparr>, cp_next := None\<rparr>)))"
    by (simp add: slots_def)
  show ?thesis
    using False seal slots wf_prepareNextLocked [OF seal(1) caps(2)] fresh_room [OF n m]
    by (simp add: rotate_def Let_def caps room_def n_def [symmetric])
      (auto simp: same_registers_def prepareNextLocked_def log_def chunks_def)
qed

section \<open>Appending\<close>

lemma entry_of_append_frame:
  assumes wf: "wf_chunk ch" and "room ch (DataLength (fe_frame ev))" "wf_frame (fe_frame ev)"
  shows "chunk_log gen (chunk_append_frame ts ev ch) =
    chunk_log gen ch @ [(cursor_at gen ch (length (c_records ch)), FrameEntry (stored_frame ts ev))]"
  using entryAt_append_old(1) [OF wf_chunkD(5) [OF wf]] entryAt_append_frame [OF assms]
  by (simp add: chunk_log_def cursor_at_def entry_of_def chunk_append_frame_fields(1))

lemma entry_of_append_event:
  assumes wf: "wf_chunk ch"
  shows "chunk_log gen (chunk_append_event ts ev ch) =
    chunk_log gen ch @ [(cursor_at gen ch (length (c_records ch)), EventEntry (stored_event ts ev))]"
  using entryAt_append_old(2) [OF wf_chunkD(5) [OF wf]] entryAt_append_event [OF assms]
  by (simp add: chunk_log_def cursor_at_def entry_of_def chunk_append_event_fields(1))

text \<open>Replacing the active chunk by one that continues it.\<close>

lemma log_replace_active: "log (c\<lparr>cp_active := ch\<rparr>) =
    concat (map (chunk_log (cp_generation c)) (cp_sealed c)) @ chunk_log (cp_generation c) ch"
  by (simp add: log_split)

lemma sequences_replace_active:
  assumes "sequences_ok c" "c_sequence ch = c_sequence (cp_active c)"
  shows "sequences_ok (c\<lparr>cp_active := ch\<rparr>)" "first_sequence (c\<lparr>cp_active := ch\<rparr>) = first_sequence c"
proof -
  show first: "first_sequence (c\<lparr>cp_active := ch\<rparr>) = first_sequence c"
    using assms(2) by (cases "cp_sealed c") (simp_all add: first_sequence_def chunks_def)
  show "sequences_ok (c\<lparr>cp_active := ch\<rparr>)"
    using assms unfolding sequences_ok_def first by (simp add: chunks_def)
qed

lemma wakeWaitersLocked_fields [simp]:
  "chunks (wakeWaitersLocked k e cu c) = chunks c" "cp_sealed (wakeWaitersLocked k e cu c) = cp_sealed c"
  "cp_active (wakeWaitersLocked k e cu c) = cp_active c" "cp_next (wakeWaitersLocked k e cu c) = cp_next c"
  "cp_generation (wakeWaitersLocked k e cu c) = cp_generation c"
  "cp_allocating (wakeWaitersLocked k e cu c) = cp_allocating c"
  "cp_latest (wakeWaitersLocked k e cu c) = cp_latest c"
  "cp_latestStates (wakeWaitersLocked k e cu c) = cp_latestStates c"
  "cp_length (wakeWaitersLocked k e cu c) = cp_length c"
  "cp_pruneSeam (wakeWaitersLocked k e cu c) = cp_pruneSeam c"
  "cp_origin (wakeWaitersLocked k e cu c) = cp_origin c"
  "log (wakeWaitersLocked k e cu c) = log c"
  by (simp_all add: wakeWaitersLocked_def chunks_def log_def split: option.splits)

lemma waiters_ok_wake: "waiters_ok c \<Longrightarrow> waiters_ok (wakeWaitersLocked k e cu c)"
  unfolding waiters_ok_def wakeWaitersLocked_def
  by (auto split: option.splits if_splits)

lemma wf_wakeWaitersLocked [wf_intros]: "wf_capture c \<Longrightarrow> wf_capture (wakeWaitersLocked k e cu c)"
  using waiters_ok_wake [of c k e cu]
  by (simp add: wf_capture_def wf_base_def sequences_ok_def first_sequence_def latest_ok_def)

text \<open>
  One append: the stored entry and its cursor extend the log. \<open>put_ok\<close> collects what an
  append to the active chunk must provide; both append operations are instances.
\<close>

lemma put_wf:
  assumes wf: "wf_base c" and ch: "wf_chunk ch" "c_sequence ch = c_sequence (cp_active c)"
    and cl: "\<And>gen. chunk_log gen ch = chunk_log gen (cp_active c) @ [(cursor_at gen (cp_active c) n, e)]"
    and upd: "cp_length c' = cp_length c + 1" "cp_active c' = ch" "cp_sealed c' = cp_sealed c"
      "cp_generation c' = cp_generation c" "cp_next c' = cp_next c" "cp_allocating c' = cp_allocating c"
      "cp_pruneSeam c' = cp_pruneSeam c" "cp_waiters c' = cp_waiters c" "cp_store c' = cp_store c"
      "cp_latest c' = (case as_frame e of None \<Rightarrow> cp_latest c | Some f \<Rightarrow> (cp_latest c)(Key f \<mapsto> f))"
      "cp_latestStates c' = (case as_event e of None \<Rightarrow> cp_latestStates c
        | Some v \<Rightarrow> if e_kind v = EventControllerState then (cp_latestStates c)(e_bus v \<mapsto> v)
                    else cp_latestStates c)"
  shows "wf_capture c'" "log c' = log c @ [(cursor_at (cp_generation c) (cp_active c) n, e)]"
proof -
  have chunks: "chunks c' = chunks (c\<lparr>cp_active := ch\<rparr>)"
    by (simp add: chunks_def upd)
  show log: "log c' = log c @ [(cursor_at (cp_generation c) (cp_active c) n, e)]"
    by (simp add: log_split upd cl)
  have "c_records ch \<noteq> []"
    using arg_cong [OF cl [of 0], of length] by auto
  moreover have "sequences_ok c'" "first_sequence c' = first_sequence c"
    using sequences_replace_active [OF _ ch(2)] wf
    by (simp_all add: wf_base_def sequences_ok_def first_sequence_def chunks)
  moreover have "latest_ok c'"
    using wf unfolding wf_base_def latest_ok_def log
    by (cases e) (auto simp: upd)
  moreover have "waiters_ok c'"
    using wf by (simp add: wf_base_def waiters_ok_def upd)
  ultimately show "wf_capture c'"
    using wf ch(1) by (auto simp: wf_capture_def wf_base_def upd chunks chunks_def log)
qed

lemma record_timestamp_cong: "same_registers c c' \<Longrightarrow> record_timestamp t live el c' = record_timestamp t live el c"
  by (simp add: record_timestamp_def same_registers_def)

text \<open>Two captures with the same registered waiters.\<close>

definition same_waiters :: "capture \<Rightarrow> capture \<Rightarrow> bool" where
  "same_waiters c c' \<longleftrightarrow> cp_waiters c' = cp_waiters c \<and> cp_store c' = cp_store c"

lemma same_waiters_wake: "cp_waiters c = cp_waiters c' \<Longrightarrow> cp_store c = cp_store c' \<Longrightarrow>
    same_waiters (wakeWaitersLocked k e cu c) (wakeWaitersLocked k e cu c')"
  by (simp add: same_waiters_def wakeWaitersLocked_def split: option.splits)

lemma appendFrame_spec:
  assumes wf: "wf_capture c" and seq: "sequence_room c" and fr: "wf_frame (fe_frame ev)"
    and ok: "frame_event_Validate ev = Inr ()"
  shows "\<exists>c' cu. appendFrame ev live el c = Inr c' \<and> wf_capture c' \<and>
    cu_generation cu = cp_generation c \<and> cp_generation c' = cp_generation c \<and>
    cp_origin c' = cp_origin c \<and> slots c \<le> Suc (slots c') \<and>
    same_waiters (wakeWaitersLocked (Key ev) (stored_frame (record_timestamp (fe_timestamp ev) live el c) ev) cu c) c' \<and>
    log c' = log c @ [(cu, FrameEntry (stored_frame (record_timestamp (fe_timestamp ev) live el c) ev))]"
proof -
  let ?m = "DataLength (fe_frame ev)" and ?ts = "record_timestamp (fe_timestamp ev) live el c"
  obtain c1 where c1: "rotate ?m c = Inr c1" "wf_base c1" "room (cp_active c1) ?m" "log c1 = log c"
      "same_registers c c1" "slots c \<le> Suc (slots c1)"
    using rotate_spec [OF wf_captureD [OF wf] seq] DataLength_le_64 by blast
  let ?n = "length (c_records (cp_active c1))"
  define ch where "ch = chunk_append_frame ?ts ev (cp_active c1)"
  define stored where "stored = stored_frame ?ts ev"
  define c2 where "c2 = c1\<lparr>cp_active := ch, cp_latest := (cp_latest c1)(Key ev \<mapsto> stored),
      cp_length := cp_length c1 + 1\<rparr>"
  have wfa: "wf_chunk (cp_active c1)" by (rule wf_base_active [OF c1(2)])
  note put = put_wf [where c = c1 and c' = c2 and ch = ch and e = "FrameEntry stored" and n = ?n]
  have "wf_capture c2" "log c2 = log c1 @ [(cursor_at (cp_generation c1) (cp_active c1) ?n, FrameEntry stored)]"
    by (rule put; simp add: c1 ch_def c2_def stored_def wf_chunk_append_frame [OF wfa c1(3) fr]
        entry_of_append_frame [OF wfa c1(3) fr] chunk_append_frame_fields(1))+
  moreover have "appendFrame ev live el c =
      Inr (wakeWaitersLocked (Key ev) stored (cursor_at (cp_generation c1) (cp_active c1) ?n) c2)"
    using c1 frameAt_append_frame [OF wfa c1(3) fr, of ?ts]
    by (simp add: appendFrame_def ok Let_def c2_def ch_def stored_def cursor_at_def
        chunk_append_frame_fields(1))
  ultimately show ?thesis
    using wf_wakeWaitersLocked c1(4-6)
    by (auto simp: stored_def cursor_at_def same_registers_def c2_def slots_def ch_def
        chunk_append_frame_fields(1) same_waiters_wake)
qed

lemma appendFrame_error:
  "frame_event_Validate ev = Inl e \<Longrightarrow> appendFrame ev live el c = Inl (InvalidFrameEvent e)"
  by (simp add: appendFrame_def)

lemma appendEvent_spec:
  assumes wf: "wf_capture c" and seq: "sequence_room c" and ok: "event_Validate ev = Inr ()"
  shows "\<exists>c' cu. appendEvent ev live el c = Inr c' \<and> wf_capture c' \<and>
    cu_generation cu = cp_generation c \<and> cp_generation c' = cp_generation c \<and>
    cp_origin c' = cp_origin c \<and> slots c \<le> Suc (slots c') \<and>
    same_waiters c c' \<and>
    log c' = log c @ [(cu, EventEntry (stored_event (record_timestamp (e_timestamp ev) live el c) ev))]"
proof -
  let ?ts = "record_timestamp (e_timestamp ev) live el c"
  obtain c1 where c1: "rotate 0 c = Inr c1" "wf_base c1" "room (cp_active c1) 0" "log c1 = log c"
      "same_registers c c1" "slots c \<le> Suc (slots c1)"
    using rotate_spec [OF wf_captureD [OF wf] seq, of 0] by auto
  let ?n = "length (c_records (cp_active c1))"
  define ch where "ch = chunk_append_event ?ts ev (cp_active c1)"
  define stored where "stored = stored_event ?ts ev"
  have fields: "e_bus stored = e_bus ev" "e_kind stored = e_kind ev"
    by (simp_all add: stored_def stored_event_def)
  define c2 where "c2 = c1\<lparr>cp_active := ch,
      cp_latestStates := (if e_kind ev = EventControllerState
        then (cp_latestStates c1)(e_bus ev \<mapsto> stored) else cp_latestStates c1),
      cp_length := cp_length c1 + 1\<rparr>"
  have wfa: "wf_chunk (cp_active c1)" by (rule wf_base_active [OF c1(2)])
  note put = put_wf [where c = c1 and c' = c2 and ch = ch and e = "EventEntry stored" and n = ?n]
  have "wf_capture c2" "log c2 = log c1 @ [(cursor_at (cp_generation c1) (cp_active c1) ?n, EventEntry stored)]"
    by (rule put; simp add: c1 ch_def c2_def fields wf_chunk_append_event [OF wfa c1(3)]
        entry_of_append_event [OF wfa] chunk_append_event_fields(1); simp add: stored_def)+
  moreover have "appendEvent ev live el c = Inr c2"
    using c1 eventAt_append_event [OF wfa, of ?ts ev]
    by (simp add: appendEvent_def ok Let_def c2_def ch_def stored_def)
  ultimately show ?thesis
    using c1(4-6) by (auto simp: stored_def cursor_at_def same_registers_def c2_def slots_def ch_def
        chunk_append_event_fields(1) same_waiters_def)
qed

lemma appendEvent_error:
  "event_Validate ev = Inl e \<Longrightarrow> appendEvent ev live el c = Inl (InvalidEvent e)"
  by (simp add: appendEvent_def)

section \<open>The end of the capture\<close>

lemma last_cursor_log:
  "last_cursor gen chs = (if concat (map (chunk_log gen) chs) = [] then None
     else Some (fst (last (concat (map (chunk_log gen) chs)))))"
proof (induction chs)
  case Nil
  then show ?case by simp
next
  case (Cons ch chs)
  have last: "fst (last (chunk_log gen ch)) = cursor_at gen ch (length (c_records ch) - 1)"
    if "c_records ch \<noteq> []"
    using that by (simp add: chunk_log_def last_map last_conv_nth)
  have nil: "chunk_log gen ch = [] \<longleftrightarrow> c_records ch = []"
    by (simp add: chunk_log_def)
  show ?case
    using Cons last by (auto simp: nil cursor_at_def last_append split: option.splits)
qed

lemma endLocked_log: "endLocked c = (if log c = [] then zero_cursor else fst (last (log c)))"
  by (simp add: endLocked_def last_cursor_log log_def)

lemma endLocked_append: "log c' = log c @ [(cu, e)] \<Longrightarrow> endLocked c' = cu"
  by (simp add: endLocked_log)

section \<open>Positions\<close>

text \<open>The order of positions of one generation, and the entries after a cursor.\<close>

definition before :: "cursor \<Rightarrow> cursor \<Rightarrow> bool" where
  "before a b \<longleftrightarrow> unat (cu_chunk a) < unat (cu_chunk b) \<or>
     unat (cu_chunk a) = unat (cu_chunk b) \<and> unat (cu_record a) < unat (cu_record b)"

definition after :: "capture \<Rightarrow> cursor \<Rightarrow> (cursor \<times> entry) list" where
  "after c cur = (if cur = zero_cursor then log c else filter (\<lambda>(cu, _). before cur cu) (log c))"

lemma cursor_at_fields [simp]:
  "cu_generation (cursor_at gen ch i) = gen" "cu_chunk (cursor_at gen ch i) = c_sequence ch"
  "cu_record (cursor_at gen ch i) = word_of_nat i"
  by (simp_all add: cursor_at_def)

lemma log_generation: "(cu, e) \<in> set (log c) \<Longrightarrow> cu_generation cu = cp_generation c"
  by (auto simp: log_def chunk_log_def)

text \<open>The log from a place on: what a read that starts at \<open>(i, boundary)\<close> scans.\<close>

definition log_from :: "capture \<Rightarrow> nat \<times> int \<Rightarrow> (cursor \<times> entry) list" where
  "log_from c place = (case place of (i, boundary) \<Rightarrow>
     drop (nat (boundary + 1)) (chunk_log (cp_generation c) (chunks c ! i)) @
     concat (map (chunk_log (cp_generation c)) (drop (Suc i) (chunks c))))"

lemma log_chunks_split:
  assumes "i < length (chunks c)"
  shows "log c = concat (map (chunk_log (cp_generation c)) (take i (chunks c))) @
    chunk_log (cp_generation c) (chunks c ! i) @
    concat (map (chunk_log (cp_generation c)) (drop (Suc i) (chunks c)))"
proof -
  have "chunks c = take i (chunks c) @ (chunks c ! i) # drop (Suc i) (chunks c)"
    using assms by (rule id_take_nth_drop)
  then have "log c = concat (map (chunk_log (cp_generation c))
      (take i (chunks c) @ (chunks c ! i) # drop (Suc i) (chunks c)))"
    by (simp add: log_def)
  then show ?thesis by simp
qed

lemma filter_chunk_log:
  assumes "length (c_records ch) \<le> 131072" "cu_chunk cur = c_sequence ch"
  shows "filter (\<lambda>(cu, _). before cur cu) (chunk_log gen ch) =
    drop (Suc (unat (cu_record cur))) (chunk_log gen ch)"
proof -
  let ?f = "\<lambda>i. (cursor_at gen ch i, entry_of ch i)" and ?n = "length (c_records ch)"
  have "filter (\<lambda>(cu, _). before cur cu) (map ?f [0..<?n]) =
      map ?f (filter (\<lambda>i. unat (cu_record cur) < i) [0..<?n])"
    using assms by (auto simp: filter_map before_def o_def intro!: arg_cong [where f = "map ?f"] filter_cong)
  also have "filter (\<lambda>i. unat (cu_record cur) < i) [0..<?n] = drop (Suc (unat (cu_record cur))) [0..<?n]"
  proof (induction "length (c_records ch)")
    case 0
    then show ?case by simp
  next
    case (Suc x)
    have "filter (\<lambda>i. k < i) [0..<m] = [Suc k..<m]" for k m :: nat
      by (induction m) (auto simp: less_Suc_eq_le le_Suc_eq)
    then show ?case by (simp add: drop_upt)
  qed
  finally show ?thesis
    by (simp add: chunk_log_def drop_map)
qed

lemma chunks_ne [simp]: "chunks c \<noteq> []"
  by (simp add: chunks_def)

lemma wf_chunks_small: "wf_base c \<Longrightarrow> ch \<in> set (chunks c) \<Longrightarrow> length (c_records ch) \<le> 131072"
  by (auto simp: wf_base_def dest: wf_chunkD(6))

lemma locate_eq:
  "locate c cur =
     (if cur = zero_cursor then Inr (0, -1)
      else if cu_generation cur \<noteq> cp_generation c then Inl (CursorOutOfRange cur)
      else if first_sequence c \<le> unat (cu_chunk cur) \<and>
              unat (cu_chunk cur) < first_sequence c + length (chunks c)
        then Inr (unat (cu_chunk cur) - first_sequence c, int (unat (cu_record cur)))
      else if cur = cp_pruneSeam c then Inr (0, -1) else Inl (CursorOutOfRange cur))"
proof -
  define k f where "k = unat (cu_chunk cur)" and "f = first_sequence c"
  show ?thesis
    unfolding locate_def locateCursor_def first_sequence_def [symmetric] Let_def
      k_def [symmetric] f_def [symmetric]
    by (auto simp: nat_diff_distrib')
qed

lemma filter_chunks:
  "(\<And>ch. ch \<in> set chs \<Longrightarrow> unat (cu_chunk cur) < unat (c_sequence ch)) \<Longrightarrow>
    filter (\<lambda>(cu, _). before cur cu) (concat (map (chunk_log gen) chs)) = concat (map (chunk_log gen) chs)"
  "(\<And>ch. ch \<in> set chs \<Longrightarrow> unat (c_sequence ch) < unat (cu_chunk cur)) \<Longrightarrow>
    filter (\<lambda>(cu, _). before cur cu) (concat (map (chunk_log gen) chs)) = []"
  by (fastforce simp: filter_id_conv filter_empty_conv chunk_log_def before_def)+

lemma sequence_in_chunks:
  assumes "sequences_ok c"
  shows "ch \<in> set (take i (chunks c)) \<Longrightarrow> unat (c_sequence ch) < first_sequence c + i"
    "ch \<in> set (drop i (chunks c)) \<Longrightarrow> first_sequence c + i \<le> unat (c_sequence ch)"
  using sequences_nth [OF assms] by (fastforce simp: in_set_conv_nth)+

text \<open>A cursor that is placed names exactly the entries after it.\<close>

lemma locate_after:
  assumes wf: "wf_base c" and place: "locate c cur = Inr (i, boundary)"
  shows "i < length (chunks c)" "-1 \<le> boundary" "after c cur = log_from c (i, boundary)"
proof -
  let ?g = "cp_generation c"
  have seqs: "sequences_ok c" using wf by (simp add: wf_base_def)
  have len: "0 < length (chunks c)" by simp
  consider (zero) "cur = zero_cursor" "i = 0" "boundary = -1"
    | (seam) "cur \<noteq> zero_cursor" "cur = cp_pruneSeam c" "i = 0" "boundary = -1"
    | (inside) "cur \<noteq> zero_cursor" "i < length (chunks c)"
      "unat (cu_chunk cur) = first_sequence c + i" "boundary = int (unat (cu_record cur))"
    using place unfolding locate_eq by (auto split: if_splits)
  then have "i < length (chunks c) \<and> -1 \<le> boundary \<and> after c cur = log_from c (i, boundary)"
  proof cases
    case zero
    then show ?thesis
      using log_chunks_split [OF len] by (simp add: after_def log_from_def)
  next
    case seam
    then have "unat (cu_chunk cur) < first_sequence c"
      using wf by (auto simp: wf_base_def)
    then have "after c cur = log c"
      using seam(1) sequence_in_chunks(2) [OF seqs, of _ 0]
      by (fastforce simp: after_def log_def intro!: filter_chunks(1))
    then show ?thesis
      using seam log_chunks_split [OF len] by (simp add: log_from_def)
  next
    case inside
    let ?ch = "chunks c ! i"
    have "unat (c_sequence ?ch) = unat (cu_chunk cur)"
      using sequences_nth [OF seqs inside(2)] inside(3) by simp
    then have "cu_chunk cur = c_sequence ?ch" by (simp add: word_unat_eq_iff)
    then have "filter (\<lambda>(cu, _). before cur cu) (chunk_log ?g ?ch) =
        drop (Suc (unat (cu_record cur))) (chunk_log ?g ?ch)"
      using wf_chunks_small [OF wf] inside(2) by (intro filter_chunk_log) auto
    moreover have "filter (\<lambda>(cu, _). before cur cu) (concat (map (chunk_log ?g) (take i (chunks c)))) = []"
      using sequence_in_chunks(1) [OF seqs] inside(3) by (intro filter_chunks(2)) auto
    moreover have "filter (\<lambda>(cu, _). before cur cu) (concat (map (chunk_log ?g) (drop (Suc i) (chunks c)))) =
        concat (map (chunk_log ?g) (drop (Suc i) (chunks c)))"
      using sequence_in_chunks(2) [OF seqs, of _ "Suc i"] inside(3) by (intro filter_chunks(1)) fastforce
    ultimately have "after c cur = log_from c (i, boundary)"
      using inside log_chunks_split [OF inside(2)]
      by (simp add: after_def log_from_def nat_add_distrib)
    moreover have "0 \<le> boundary"
      unfolding inside(4) by (rule of_nat_0_le_iff)
    ultimately show ?thesis
      using inside(2) by linarith
  qed
  then show "i < length (chunks c)" "-1 \<le> boundary" "after c cur = log_from c (i, boundary)"
    by blast+
qed

section \<open>Pruning\<close>

text \<open>The place kept by the loop is a place of one of the cursors, and none is earlier.\<close>

definition earlier_eq :: "nat \<times> int \<Rightarrow> nat \<times> int \<Rightarrow> bool" where
  "earlier_eq p q \<longleftrightarrow> fst p < fst q \<or> fst p = fst q \<and> snd p \<le> snd q"

lemma earliest_spec:
  "earliest c best curs = Inr r \<Longrightarrow>
     (\<forall>cur \<in> set curs. \<exists>p. locate c cur = Inr p \<and> (\<exists>q. r = Some q \<and> earlier_eq q p)) \<and>
     (\<forall>b. best = Some b \<longrightarrow> (\<exists>q. r = Some q \<and> earlier_eq q b)) \<and>
     (r = best \<or> (\<exists>cur \<in> set curs. \<exists>q. r = Some q \<and> locate c cur = Inr q))"
proof (induction curs arbitrary: best)
  case Nil
  then show ?case by (auto simp: earlier_eq_def)
next
  case (Cons cur curs)
  then obtain pc pb where p: "locate c cur = Inr (pc, pb)"
    and rest: "earliest c (case best of None \<Rightarrow> Some (pc, pb) | Some (ch, bd) \<Rightarrow>
       if pc < ch \<or> pc = ch \<and> pb < bd then Some (pc, pb) else Some (ch, bd)) curs = Inr r"
    by (auto simp: ebind_Inr_iff)
  show ?case
    using Cons.IH [OF rest] p
    by (auto simp: earlier_eq_def split: option.splits if_splits prod.splits)
qed

lemma earliest_error:
  "earliest c best curs = Inl e \<Longrightarrow> \<exists>cur \<in> set curs. locate c cur = Inl e"
proof (induction curs arbitrary: best)
  case (Cons cur curs)
  then show ?case
    by (cases "locate c cur") (force simp: split_beta)+
qed simp

lemma earliest_ok:
  "(\<And>cur. cur \<in> set curs \<Longrightarrow> is_ok (locate c cur)) \<Longrightarrow> is_ok (earliest c best curs)"
proof (induction curs arbitrary: best)
  case (Cons cur curs)
  then have "is_ok (locate c cur)" by simp
  with Cons show ?case
    by (cases "locate c cur") (auto simp: split_beta)
qed simp

text \<open>Dropping the first \<open>d\<close> chunks, with the seam at the last record dropped.\<close>

definition drop_chunks :: "nat \<Rightarrow> capture \<Rightarrow> capture" where
  "drop_chunks d c = c\<lparr>cp_pruneSeam := (case last_cursor (cp_generation c) (take d (chunks c)) of
        Some cu \<Rightarrow> cu | None \<Rightarrow> cp_pruneSeam c),
      cp_length := cp_length c - int (sum_list (map (\<lambda>ch. length (c_records ch)) (take d (chunks c)))),
      cp_sealed := drop d (cp_sealed c)\<rparr>"

lemma drop_chunks_chunks: "d \<le> length (cp_sealed c) \<Longrightarrow> chunks (drop_chunks d c) = drop d (chunks c)"
  by (simp add: chunks_def drop_chunks_def)

lemma drop_chunks_log:
  assumes "d \<le> length (cp_sealed c)"
  shows "log c = concat (map (chunk_log (cp_generation c)) (take d (chunks c))) @ log (drop_chunks d c)"
proof -
  have "log c = concat (map (chunk_log (cp_generation c)) (take d (chunks c) @ drop d (chunks c)))"
    by (simp add: log_def)
  then show ?thesis
    by (simp only: map_append concat_append)
      (simp add: log_def [of "drop_chunks d c"] drop_chunks_chunks [OF assms], simp add: drop_chunks_def)
qed

lemma length_concat_chunk_log:
  "length (concat (map (chunk_log gen) chs)) = sum_list (map (\<lambda>ch. length (c_records ch)) chs)"
  by (induction chs) auto

lemma drop_chunks_wf:
  assumes wf: "wf_capture c" and d: "0 < d" "d \<le> length (cp_sealed c)"
  shows "wf_capture (drop_chunks d c)"
    "first_sequence (drop_chunks d c) = first_sequence c + d"
    "cu_generation (cp_pruneSeam (drop_chunks d c)) = cp_generation c"
    "unat (cu_chunk (cp_pruneSeam (drop_chunks d c))) = first_sequence c + d - 1"
    "cp_pruneSeam (drop_chunks d c) =
       cursor_at (cp_generation c) (chunks c ! (d - 1)) (length (c_records (chunks c ! (d - 1))) - 1)"
proof -
  let ?c = "drop_chunks d c"
  have base: "wf_base c" using wf by (rule wf_captureD)
  have seqs: "sequences_ok c" using base by (simp add: wf_base_def)
  have chunks: "chunks ?c = drop d (chunks c)" by (rule drop_chunks_chunks [OF d(2)])
  have dlen: "d < length (chunks c)" using d by (simp add: chunks_def)
  have "hd (chunks ?c) = chunks c ! d"
    using dlen by (simp add: chunks hd_drop_conv_nth)
  then show first: "first_sequence ?c = first_sequence c + d"
    using sequences_nth [OF seqs dlen] by (simp add: first_sequence_def)
  have "sequences_ok ?c"
    using sequences_nth [OF seqs] by (intro sequences_okI) (simp add: chunks first)
  define ch where "ch = chunks c ! (d - 1)"
  have ch: "ch = cp_sealed c ! (d - 1)" "d - 1 < length (chunks c)"
    using d by (auto simp: ch_def chunks_def nth_append)
  then have ne: "c_records ch \<noteq> []"
    using base d by (auto simp: wf_base_def)
  have "take d (chunks c) = take (d - 1) (chunks c) @ [ch]"
    using d ch take_Suc_conv_app_nth [of "d - 1" "chunks c"] by (simp add: ch_def)
  then have seam: "cp_pruneSeam ?c = cursor_at (cp_generation c) ch (length (c_records ch) - 1)"
    using ne by (simp add: drop_chunks_def last_cursor_log last_append chunk_log_def last_map)
  then show "cp_pruneSeam ?c =
      cursor_at (cp_generation c) (chunks c ! (d - 1)) (length (c_records (chunks c ! (d - 1))) - 1)"
    by (simp add: ch_def)
  show gen: "cu_generation (cp_pruneSeam ?c) = cp_generation c"
    by (simp add: seam)
  show seq: "unat (cu_chunk (cp_pruneSeam ?c)) = first_sequence c + d - 1"
    using sequences_nth [OF seqs ch(2)] d by (simp add: seam ch_def)
  have log: "log c = concat (map (chunk_log (cp_generation c)) (take d (chunks c))) @ log ?c"
    by (rule drop_chunks_log [OF d(2)])
  have "cp_length ?c = int (length (log ?c))"
    using base arg_cong [OF log, of length]
    by (simp add: wf_base_def drop_chunks_def length_concat_chunk_log)
  moreover have "latest_ok ?c"
    using base unfolding wf_base_def latest_ok_def
    by (simp add: log) (simp add: drop_chunks_def)
  moreover have "waiters_ok ?c"
    using base by (simp add: wf_base_def waiters_ok_def drop_chunks_def)
  moreover have "set (chunks ?c) \<subseteq> set (chunks c)" "set (cp_sealed ?c) \<subseteq> set (cp_sealed c)"
    by (simp_all add: chunks set_drop_subset) (simp add: drop_chunks_def set_drop_subset)
  ultimately show "wf_capture ?c"
    using wf \<open>sequences_ok ?c\<close> gen seq d first
    unfolding wf_capture_def wf_base_def
    by (auto simp: drop_chunks_def)
qed

text \<open>The cursors a caller can hold: the zero cursor, the seam, and those of retained records.\<close>

definition valid_cursor :: "capture \<Rightarrow> cursor \<Rightarrow> bool" where
  "valid_cursor c cur \<longleftrightarrow> cur = zero_cursor \<or> cur = cp_pruneSeam c \<or> cur \<in> fst ` set (log c)"

lemma log_cursorE:
  assumes "cur \<in> fst ` set (log c)"
  obtains i r where "i < length (chunks c)" "r < length (c_records (chunks c ! i))"
    "cur = cursor_at (cp_generation c) (chunks c ! i) r"
  using assms by (fastforce simp: log_def chunk_log_def in_set_conv_nth)

lemma cursor_at_not_zero: "wf_base c \<Longrightarrow> cursor_at (cp_generation c) ch i \<noteq> zero_cursor"
  by (auto simp: cursor_at_def zero_cursor_def wf_base_def)

lemma locate_cursor_at:
  assumes wf: "wf_base c" and i: "i < length (chunks c)" "r < length (c_records (chunks c ! i))"
  shows "locate c (cursor_at (cp_generation c) (chunks c ! i) r) = Inr (i, int r)"
proof -
  have "unat (c_sequence (chunks c ! i)) = first_sequence c + i"
    using wf i by (intro sequences_nth) (simp_all add: wf_base_def)
  moreover have "unat (word_of_nat r :: u32) = r"
    using wf_chunks_small [OF wf, of "chunks c ! i"] i by simp
  ultimately show ?thesis
    unfolding locate_eq using i cursor_at_not_zero [OF wf] by (simp del: of_nat_unat)
qed

lemma locate_seam: "wf_base c \<Longrightarrow> locate c (cp_pruneSeam c) = Inr (0, -1)"
  unfolding locate_eq by (auto simp: wf_base_def)

lemma valid_cursorE:
  assumes "valid_cursor c cur"
  obtains (zero) "cur = zero_cursor"
    | (seam) "cur = cp_pruneSeam c"
    | (stored) i r where "i < length (chunks c)" "r < length (c_records (chunks c ! i))"
        "cur = cursor_at (cp_generation c) (chunks c ! i) r"
  using assms log_cursorE [of cur c] unfolding valid_cursor_def by metis

lemma locate_zero [simp]: "locate c zero_cursor = Inr (0, -1)"
  by (simp add: locate_eq)

lemma valid_cursor_ok: "wf_base c \<Longrightarrow> valid_cursor c cur \<Longrightarrow> is_ok (locate c cur)"
  by (erule valid_cursorE) (simp_all add: locate_seam locate_cursor_at)

lemma endLocked_valid: "valid_cursor c (endLocked c)"
  by (auto simp: valid_cursor_def endLocked_log)

text \<open>The cursors of the log increase strictly, so a cursor splits it in two.\<close>

lemma before_trans: "before a b \<Longrightarrow> before b d \<Longrightarrow> before a d"
  by (auto simp: before_def)

lemma before_irrefl [simp]: "\<not> before a a"
  by (simp add: before_def)

lemma chunk_log_sorted:
  "length (c_records ch) \<le> 131072 \<Longrightarrow> sorted_wrt (\<lambda>x y. before (fst x) (fst y)) (chunk_log gen ch)"
  by (simp add: chunk_log_def sorted_wrt_map before_def)
    (rule sorted_wrt_mono_rel [of _ "(<)"]; simp)

lemma chunk_logs_sorted:
  assumes "map (\<lambda>ch. unat (c_sequence ch)) chs = [s..<s + length chs]"
    and "\<And>ch. ch \<in> set chs \<Longrightarrow> length (c_records ch) \<le> 131072"
  shows "sorted_wrt (\<lambda>x y. before (fst x) (fst y)) (concat (map (chunk_log gen) chs))"
  using assms
proof (induction chs arbitrary: s)
  case Nil
  then show ?case by simp
next
  case (Cons ch chs)
  have upt: "[s..<s + length (ch # chs)] = s # [Suc s..<Suc s + length chs]"
    by (simp add: upt_conv_Cons del: upt_Suc)
  have s: "unat (c_sequence ch) = s" and rest: "map (\<lambda>ch. unat (c_sequence ch)) chs = [Suc s..<Suc s + length chs]"
    using Cons.prems(1) unfolding upt by simp_all
  have "s < unat (c_sequence ch')" if "ch' \<in> set chs" for ch'
  proof -
    have "unat (c_sequence ch') \<in> set [Suc s..<Suc s + length chs]"
      unfolding rest [symmetric] using that by simp
    then show ?thesis by (simp del: upt_Suc)
  qed
  then show ?case
    using Cons.IH [OF rest] Cons.prems(2) chunk_log_sorted [of ch] s
    by (auto simp: sorted_wrt_append chunk_log_def before_def)
qed

lemma log_sorted: "wf_base c \<Longrightarrow> sorted_wrt (\<lambda>x y. before (fst x) (fst y)) (log c)"
  unfolding log_def using wf_chunks_small
  by (intro chunk_logs_sorted [where s = "first_sequence c"]) (auto simp: wf_base_def sequences_ok_def)

lemma after_end: assumes wf: "wf_base c" shows "after c (endLocked c) = []"
proof (cases "log c" rule: rev_cases)
  case Nil
  then show ?thesis by (simp add: after_def endLocked_log)
next
  case (snoc l x)
  have "sorted_wrt (\<lambda>x y. before (fst x) (fst y)) (l @ [x])"
    using log_sorted [OF wf] by (simp add: snoc)
  then have "\<not> before (fst x) (fst y)" if "y \<in> set (l @ [x])" for y
    using that before_trans [of "fst y" "fst x" "fst y"] by (auto simp: sorted_wrt_append)
  then have "filter (\<lambda>p. before (fst x) (fst p)) (log c) = []"
    unfolding snoc filter_empty_conv by blast
  moreover have "fst x \<noteq> zero_cursor"
    using wf log_generation [of "fst x" "snd x" c] by (auto simp: snoc wf_base_def zero_cursor_def)
  ultimately show ?thesis
    by (simp add: after_def endLocked_log snoc case_prod_unfold)
qed

text \<open>
  The chunks that \<open>Prune\<close> drops when the earliest cursor is at \<open>(i, b)\<close>: those before
  chunk \<open>i\<close>, and \<open>i\<close> too when it is sealed and the cursor is at its last record.
\<close>

definition prune_count :: "capture \<Rightarrow> nat \<Rightarrow> int \<Rightarrow> nat" where
  "prune_count c i b = (if i < length (cp_sealed c) \<and> b = int (length (c_records (chunks c ! i))) - 1
     then i + 1 else i)"

lemma drop_chunks_0 [simp]: "drop_chunks 0 c = c"
  by (simp add: drop_chunks_def)

lemma Prune_place:
  assumes wf: "wf_base c" and valid: "\<And>cur. cur \<in> set curs \<Longrightarrow> valid_cursor c cur" and ne: "curs \<noteq> []"
  obtains cur i b where "cur \<in> set curs" "locate c cur = Inr (i, b)"
    "\<forall>cur' \<in> set curs. \<exists>p. locate c cur' = Inr p \<and> earlier_eq (i, b) p"
    "Prune curs c = Inr (drop_chunks (prune_count c i b) c)"
proof -
  have "is_ok (earliest c None curs)"
    using valid_cursor_ok [OF wf valid] by (rule earliest_ok)
  then obtain r where r: "earliest c None curs = Inr r"
    by (auto simp: is_ok_iff)
  note spec = earliest_spec [OF r]
  obtain i b where ib: "r = Some (i, b)"
    using spec ne by (cases curs) auto
  have "Prune curs c = Inr (drop_chunks (prune_count c i b) c)"
    using ne r by (simp add: Prune_def drop_chunks_def Let_def chunks_def ib prune_count_def)
  moreover obtain cur where "cur \<in> set curs" "locate c cur = Inr (i, b)"
    using spec ib by auto
  ultimately show ?thesis
    using that spec ib by auto
qed

text \<open>No chunk before a cursor's place holds an entry after it.\<close>

lemma after_drop_chunks:
  assumes wf: "wf_base c" and i: "i < length (chunks c)" "r < length (c_records (chunks c ! i))"
    and d: "d \<le> length (cp_sealed c)" "d \<le> i \<or> d = Suc i \<and> Suc r = length (c_records (chunks c ! i))"
  defines "cur \<equiv> cursor_at (cp_generation c) (chunks c ! i) r"
  shows "after (drop_chunks d c) cur = after c cur"
proof -
  have seqs: "sequences_ok c" using wf by (simp add: wf_base_def)
  have small: "\<And>j. j < length (chunks c) \<Longrightarrow> length (c_records (chunks c ! j)) \<le> 131072"
    using wf_chunks_small [OF wf] by simp
  have "\<not> before cur (cursor_at (cp_generation c) (chunks c ! j) k)"
    if "j < d" "j < length (chunks c)" "k < length (c_records (chunks c ! j))" for j k
    using that d(2) i small [of i] small [of j] sequences_nth [OF seqs i(1)]
      sequences_nth [OF seqs, of j] by (auto simp: cur_def before_def)
  then have "filter (\<lambda>(cu, _). before cur cu) (concat (map (chunk_log (cp_generation c)) (take d (chunks c)))) = []"
    by (fastforce simp: filter_empty_conv chunk_log_def in_set_conv_nth)
  then show ?thesis
    using cursor_at_not_zero [OF wf] by (simp add: after_def cur_def drop_chunks_log [OF d(1)])
qed

text \<open>
  Pruning up to valid cursors drops a prefix of the log, keeps every given cursor valid
  with the same entries after it, and leaves no sealed chunk in front that every cursor
  has passed.
\<close>

lemma chunk_log_nonempty: "k < length (c_records ch) \<Longrightarrow> (cursor_at gen ch k, entry_of ch k) \<in> set (chunk_log gen ch)"
  by (simp add: chunk_log_def)

lemma in_log: "i < length (chunks c) \<Longrightarrow> x \<in> set (chunk_log (cp_generation c) (chunks c ! i)) \<Longrightarrow> x \<in> set (log c)"
  by (auto simp: log_def)

lemma valid_place:
  assumes wf: "wf_base c" and "valid_cursor c cur"
  obtains (start) "locate c cur = Inr (0, -1)" "cur = zero_cursor \<or> cur = cp_pruneSeam c"
  | (inside) i r where "i < length (chunks c)" "r < length (c_records (chunks c ! i))"
      "cur = cursor_at (cp_generation c) (chunks c ! i) r" "locate c cur = Inr (i, int r)"
  using assms(2)
proof (cases rule: valid_cursorE)
  case (stored i r)
  with locate_cursor_at [OF wf stored(1,2)] show ?thesis by (intro inside) auto
qed (use start locate_seam [OF wf] in auto)

lemma prune_count_le: "i < length (chunks c) \<Longrightarrow> prune_count c i b \<le> length (cp_sealed c)"
  by (auto simp: prune_count_def chunks_def)

lemma prune_count_start: "wf_base c \<Longrightarrow> prune_count c 0 (-1) = 0"
  by (cases "cp_sealed c") (auto simp: prune_count_def wf_base_def chunks_def nth_append)

lemma drop_chunks_keeps_cursor:
  assumes wf: "wf_capture c" and p: "locate c cur' = Inr (i, b)" "valid_cursor c cur'"
    and q: "valid_cursor c cur" "locate c cur = Inr q" "earlier_eq (i, b) q"
  defines "c' \<equiv> drop_chunks (prune_count c i b) c"
  shows "valid_cursor c' cur \<and> after c' cur = after c cur"
proof (cases "prune_count c i b = 0")
  case True
  with q(1) show ?thesis by (simp add: c'_def)
next
  case False
  have base: "wf_base c" using wf by (rule wf_captureD)
  let ?d = "prune_count c i b" and ?n = "\<lambda>i. length (c_records (chunks c ! i))"
  show ?thesis
    using base q(1)
  proof (cases rule: valid_place)
    case start
    then have "i = 0" "b \<le> -1" using q by (auto simp: earlier_eq_def)
    moreover have "b \<ge> -1" using base p(2) by (cases rule: valid_place) (use p(1) in auto)
    ultimately show ?thesis using False prune_count_start [OF base] by simp
  next
    case (inside j r)
    have ij: "i < j \<or> i = j \<and> b \<le> int r" "i < length (chunks c)"
      using inside q by (auto simp: earlier_eq_def)
    then have d: "?d \<le> j \<or> ?d = Suc j \<and> Suc r = ?n j"
      using inside(2) by (auto simp: prune_count_def)
    have le: "?d \<le> length (cp_sealed c)" using prune_count_le ij(2) .
    have "valid_cursor c' cur"
    proof (cases "?d \<le> j")
      case True
      then have "cur = cursor_at (cp_generation c') (chunks c' ! (j - ?d)) r"
        "j - ?d < length (chunks c')" "r < length (c_records (chunks c' ! (j - ?d)))"
        using inside drop_chunks_chunks [OF le] by (auto simp: c'_def drop_chunks_def)
      then show ?thesis
        using in_log [OF _ chunk_log_nonempty] unfolding valid_cursor_def image_iff by (metis fst_conv)
    next
      case False
      with d have "?d = Suc j" and r: "r = ?n j - 1" by auto
      then have "cur = cp_pruneSeam c'"
        using drop_chunks_wf(5) [OF wf _ le] inside(3) by (simp add: c'_def r [symmetric])
      then show ?thesis by (simp add: valid_cursor_def)
    qed
    then show ?thesis
      using after_drop_chunks [OF base inside(1,2) le d] inside(3) by (simp add: c'_def)
  qed
qed

lemma Prune_front:
  assumes wf: "wf_capture c" and p: "locate c cur = Inr (i, b)" "valid_cursor c cur"
  defines "c' \<equiv> drop_chunks (prune_count c i b) c"
  assumes sealed: "cp_sealed c' \<noteq> []"
  shows "\<exists>x \<in> set (chunk_log (cp_generation c) (hd (chunks c'))). x \<in> set (after c cur)"
proof -
  have base: "wf_base c" using wf by (rule wf_captureD)
  let ?d = "prune_count c i b"
  have i: "i < length (chunks c)" and after: "after c cur = log_from c (i, b)"
    using locate_after [OF base p(1)] by blast+
  have le: "?d \<le> length (cp_sealed c)" using prune_count_le i .
  have d: "?d < length (cp_sealed c)" using sealed by (simp add: c'_def drop_chunks_def)
  have hd: "hd (chunks c') = chunks c ! ?d"
    unfolding c'_def drop_chunks_chunks [OF le] using d by (intro hd_drop_conv_nth) (simp add: chunks_def)
  have "chunks c ! ?d \<in> set (cp_sealed c)" using d by (simp add: chunks_def nth_append)
  then have ne: "c_records (chunks c ! ?d) \<noteq> []" using base by (auto simp: wf_base_def)
  have b: "b < int (length (c_records (chunks c ! i)))"
    using base p(2) by (cases rule: valid_place) (use p(1) in auto)
  let ?l = "chunk_log (cp_generation c) (chunks c ! ?d)"
  show ?thesis
  proof (cases "?d = i")
    case True
    then have "b + 1 < int (length (c_records (chunks c ! i)))" "c_records (chunks c ! i) \<noteq> []"
      using b d ne by (auto simp: prune_count_def split: if_splits)
    then have "nat (b + 1) < length ?l"
      using True by (cases "b + 1 \<le> 0") (auto simp: nat_less_iff)
    then have "?l ! nat (b + 1) \<in> set ?l" "?l ! nat (b + 1) \<in> set (drop (nat (b + 1)) ?l)"
      using Cons_nth_drop_Suc [of "nat (b + 1)" ?l] by (simp_all add: eq_commute) (metis list.set_intros(1))?
    then show ?thesis
      using True by (auto simp: hd after log_from_def)
  next
    case False
    then have "?d = Suc i" by (auto simp: prune_count_def split: if_splits)
    moreover have "chunks c ! Suc i \<in> set (drop (Suc i) (chunks c))"
      using d calculation Cons_nth_drop_Suc [of "Suc i" "chunks c", symmetric] by (simp add: chunks_def)
    ultimately have "set ?l \<subseteq> set (after c cur)" by (auto simp: after log_from_def)
    moreover have "last ?l \<in> set ?l" using ne by (intro last_in_set) (simp add: chunk_log_def)
    ultimately show ?thesis unfolding hd by blast
  qed
qed

theorem Prune_spec:
  assumes wf: "wf_capture c" and valid: "\<And>cur. cur \<in> set curs \<Longrightarrow> valid_cursor c cur" and ne: "curs \<noteq> []"
  obtains c' where "Prune curs c = Inr c'" "wf_capture c'" "\<exists>dropped. log c = dropped @ log c'"
    "cp_generation c' = cp_generation c"
    "cp_latest c' = cp_latest c" "cp_latestStates c' = cp_latestStates c"
    "\<And>cur. cur \<in> set curs \<Longrightarrow> valid_cursor c' cur \<and> after c' cur = after c cur"
    "cp_sealed c' \<noteq> [] \<Longrightarrow> \<exists>cur \<in> set curs.
       \<exists>x \<in> set (chunk_log (cp_generation c) (hd (chunks c'))). x \<in> set (after c cur)"
proof -
  have base: "wf_base c" using wf by (rule wf_captureD)
  obtain cur i b where p: "cur \<in> set curs" "locate c cur = Inr (i, b)"
    "\<forall>cur' \<in> set curs. \<exists>p. locate c cur' = Inr p \<and> earlier_eq (i, b) p"
    "Prune curs c = Inr (drop_chunks (prune_count c i b) c)"
    by (rule Prune_place [OF base valid ne])
  let ?d = "prune_count c i b" and ?c = "drop_chunks (prune_count c i b) c"
  have le: "?d \<le> length (cp_sealed c)"
    using prune_count_le locate_after(1) [OF base p(2)] by blast
  have "wf_capture ?c"
    using wf drop_chunks_wf(1) [OF wf _ le] by (cases "?d = 0") auto
  moreover have "valid_cursor ?c cur' \<and> after ?c cur' = after c cur'" if "cur' \<in> set curs" for cur'
    using bspec [OF p(3) that] drop_chunks_keeps_cursor [OF wf p(2) valid [OF p(1)] valid [OF that]] by blast
  moreover have "cp_generation ?c = cp_generation c" "cp_latest ?c = cp_latest c"
      "cp_latestStates ?c = cp_latestStates c"
    by (simp_all add: drop_chunks_def)
  ultimately show ?thesis
    using that [OF p(4)] drop_chunks_log [OF le] Prune_front [OF wf p(2) valid [OF p(1)]] p(1) by blast
qed

lemma Prune_error:
  assumes "Prune curs c = Inl e"
  shows "\<exists>cur \<in> set curs. locate c cur = Inl e"
proof -
  have "earliest c None curs = Inl e"
    using assms by (auto simp: Prune_def ebind_Inl_iff Let_def split: if_splits option.splits)
  then show ?thesis by (rule earliest_error)
qed

section \<open>Clearing\<close>

text \<open>
  \<open>Clear\<close> starts a new generation: the log is empty, the registered waiters stay, and a
  cursor of the old generation is out of range from then on.
\<close>

theorem Clear_spec:
  assumes wf: "wf_capture c" and fresh: "epochs + 1 \<noteq> 0" and c': "Clear epochs c = (epochs', c')"
  shows "wf_capture c'" "log c' = []" "epochs' = epochs + 1" "cp_generation c' = epochs + 1"
    "cp_waiters c' = cp_waiters c" "cp_store c' = cp_store c"
proof -
  define n where "n = (case cp_next c of
      None \<Rightarrow> newCaptureChunk (c_recordCap (cp_active c)) (c_payloadCap (cp_active c)) | Some n \<Rightarrow> n)"
  define d where "d = c\<lparr>cp_generation := epochs + 1, cp_next := None, cp_active := n, cp_sealed := [],
      cp_latest := Map.empty, cp_latestStates := Map.empty, cp_length := 0, cp_pruneSeam := zero_cursor\<rparr>"
  have eq: "epochs' = epochs + 1" "c' = prepareNextLocked (c_recordCap n) (c_payloadCap n) d"
    using c' unfolding Clear_def Let_def d_def n_def prod.inject by blast+
  have caps: "caps_range (c_recordCap (cp_active c)) (c_payloadCap (cp_active c))"
    using wf wf_base_active by (auto simp: wf_capture_def wf_chunk_def caps_ok_def)
  then have n: "fresh_chunk n"
    using wf by (auto simp: n_def wf_capture_def wf_base_def fresh_chunk_def split: option.splits)
  then have nc: "caps_range (c_recordCap n) (c_payloadCap n)" "c_records n = []"
    by (auto simp: fresh_chunk_def newCaptureChunk_def)
  have wn: "wf_chunk n"
    using fresh_wf [OF n, of "c_sequence n"] by simp
  have log: "log d = []"
    using nc by (simp add: d_def log_def chunks_def chunk_log_def)
  have "waiters_ok d"
    using wf by (simp add: d_def wf_capture_def wf_base_def waiters_ok_def)
  then have "wf_base d"
    using wf wn fresh unfolding wf_base_def log
    by (simp add: d_def wf_capture_def wf_base_def chunks_def sequences_ok_def first_sequence_def
        latest_ok_def log [unfolded d_def])
  then have "wf_base c'" "log c' = []"
    using wf_prepareNextLocked nc(1) log by (simp_all add: eq)
  moreover have "cp_sealed c' = []"
    by (simp add: eq d_def)
  ultimately show "wf_capture c'" "log c' = []" "epochs' = epochs + 1"
    using eq by (simp_all add: wf_capture_def)
  have "same_registers d c'" by (simp add: eq)
  then show "cp_generation c' = epochs + 1" "cp_waiters c' = cp_waiters c" "cp_store c' = cp_store c"
    by (simp_all add: same_registers_def d_def)
qed

lemma locate_other_generation:
  assumes "cu_generation cur \<noteq> cp_generation c" "cur \<noteq> zero_cursor"
  shows "locate c cur = Inl (CursorOutOfRange cur)"
  using assms by (simp add: locate_eq)

end
