(* ===== verification/Capture_Store.thy ===== *)
theory Capture_Store
  imports Capture_Log
begin

text \<open>
  The contract of an append-only store, and the capture as its provider. Recorders, bus
  readers and replay tools call \<open>Append\<close>, \<open>AppendEvent\<close>, \<open>RecordFrame\<close> and \<open>RecordEvent\<close>
  and rely on nothing else: an accepted write adds one entry at the end, a rejected one
  changes nothing, and the entries already there keep their cursors.
\<close>

section \<open>The contract\<close>

locale append_store =
  fixes invar :: "'s \<Rightarrow> bool"
    and free :: "'s \<Rightarrow> nat"
    and contents :: "'s \<Rightarrow> ('k \<times> 'v) list"
    and put :: "'x \<Rightarrow> 's \<Rightarrow> 'e + 's"
    and accepts :: "'x \<Rightarrow> bool"
    and kept :: "'s \<Rightarrow> 'x \<Rightarrow> 'v"
  assumes put_accepted: "invar s \<Longrightarrow> 0 < free s \<Longrightarrow> accepts x \<Longrightarrow>
      \<exists>s' k. put x s = Inr s' \<and> invar s' \<and> free s \<le> Suc (free s') \<and> kept s' = kept s \<and>
        contents s' = contents s @ [(k, kept s x)]"
    and put_rejected: "\<not> accepts x \<Longrightarrow> \<not> is_ok (put x s)"
begin

text \<open>A sequence of accepted writes appends its entries in order.\<close>

lemma puts_accepted:
  assumes "invar s" "length xs \<le> free s" "\<forall>x \<in> set xs. accepts x"
  shows "\<exists>s' new. efold put xs s = Inr s' \<and> invar s' \<and> contents s' = contents s @ new \<and>
    map snd new = map (kept s) xs \<and> free s \<le> free s' + length xs"
  using assms
proof (induction xs arbitrary: s)
  case Nil
  then show ?case by simp
next
  case (Cons x xs)
  obtain s1 k where s1: "put x s = Inr s1" "invar s1" "free s \<le> Suc (free s1)" "kept s1 = kept s"
      "contents s1 = contents s @ [(k, kept s x)]"
    using put_accepted [of s x] Cons.prems by auto
  obtain s' new where s': "efold put xs s1 = Inr s'" "invar s'" "contents s' = contents s1 @ new"
      "map snd new = map (kept s1) xs" "free s1 \<le> free s' + length xs"
    using Cons.IH [of s1] Cons.prems s1 by auto
  show ?case
    using s1(3) s'(5) by (intro exI [of _ s'] exI [of _ "(k, kept s x) # new"]) (simp add: s1(1,4,5) s'(1-4))
qed

lemma puts_rejected:
  assumes "efold put xs s = Inr s'"
  shows "\<forall>x \<in> set xs. accepts x"
  using assms
proof (induction xs arbitrary: s)
  case (Cons x xs)
  then obtain s1 where "put x s = Inr s1" "efold put xs s1 = Inr s'"
    by (auto simp: ebind_Inr_iff)
  with Cons.IH put_rejected [of x s] show ?case by auto
qed simp

end

section \<open>The capture as a store\<close>

text \<open>One write: a frame or an event, with its own time stamp or stamped at the append.\<close>

datatype store_write =
    WriteFrame frame_event bool int
  | WriteEvent event bool int

fun put_write :: "store_write \<Rightarrow> capture \<Rightarrow> capture_error + capture" where
  "put_write (WriteFrame ev live elapsed) c = appendFrame ev live elapsed c"
| "put_write (WriteEvent ev live elapsed) c = appendEvent ev live elapsed c"

fun accepts_write :: "store_write \<Rightarrow> bool" where
  "accepts_write (WriteFrame ev _ _) \<longleftrightarrow> frame_event_Validate ev = Inr ()"
| "accepts_write (WriteEvent ev _ _) \<longleftrightarrow> event_Validate ev = Inr ()"

text \<open>A frame value of the program has a 64 byte array and at most its 16 lengths.\<close>

fun typed_write :: "store_write \<Rightarrow> bool" where
  "typed_write (WriteFrame ev _ _) \<longleftrightarrow> wf_frame (fe_frame ev)"
| "typed_write (WriteEvent ev _ _) \<longleftrightarrow> True"

fun kept_entry :: "capture \<Rightarrow> store_write \<Rightarrow> entry" where
  "kept_entry c (WriteFrame ev live elapsed) =
     FrameEntry (stored_frame (record_timestamp (fe_timestamp ev) live elapsed c) ev)"
| "kept_entry c (WriteEvent ev live elapsed) =
     EventEntry (stored_event (record_timestamp (e_timestamp ev) live elapsed c) ev)"

lemma slots_room: "0 < slots c \<Longrightarrow> sequence_room c"
  by (simp add: slots_def sequence_room_def)

lemma kept_entry_cong: "cp_origin c' = cp_origin c \<Longrightarrow> kept_entry c' = kept_entry c"
  by (rule ext, rename_tac w, case_tac w) (simp_all add: record_timestamp_def)

lemma put_write_accepted:
  assumes "wf_capture c" "0 < slots c" "accepts_write w" "typed_write w"
  shows "\<exists>c' cu. put_write w c = Inr c' \<and> wf_capture c' \<and> slots c \<le> Suc (slots c') \<and>
    kept_entry c' = kept_entry c \<and> log c' = log c @ [(cu, kept_entry c w)]"
proof (cases w)
  case (WriteFrame ev live elapsed)
  then have ok: "wf_frame (fe_frame ev)" "frame_event_Validate ev = Inr ()"
    using assms(3,4) by simp_all
  show ?thesis
    using appendFrame_spec [OF assms(1) slots_room [OF assms(2)] ok, of live elapsed]
    unfolding WriteFrame put_write.simps kept_entry.simps using kept_entry_cong by metis
next
  case (WriteEvent ev live elapsed)
  then have ok: "event_Validate ev = Inr ()"
    using assms(3) by simp
  show ?thesis
    using appendEvent_spec [OF assms(1) slots_room [OF assms(2)] ok, of live elapsed]
    unfolding WriteEvent put_write.simps kept_entry.simps using kept_entry_cong by metis
qed

lemma put_write_rejected: "\<not> accepts_write w \<Longrightarrow> \<not> is_ok (put_write w c)"
proof (cases w)
  case (WriteFrame ev live elapsed)
  then show "\<not> accepts_write w \<Longrightarrow> ?thesis"
    by (cases "frame_event_Validate ev") (auto simp: appendFrame_error)
next
  case (WriteEvent ev live elapsed)
  then show "\<not> accepts_write w \<Longrightarrow> ?thesis"
    by (cases "event_Validate ev") (auto simp: appendEvent_error)
qed

text \<open>The type of a frame value is part of what a write is, so the provider checks it too.\<close>

definition typed_put :: "store_write \<Rightarrow> capture \<Rightarrow> capture_error + capture" where
  "typed_put w c = (if typed_write w then put_write w c else Inl Panic)"

interpretation capture_store: append_store wf_capture slots log typed_put
  "\<lambda>w. accepts_write w \<and> typed_write w" kept_entry
proof unfold_locales
  fix c w
  assume "wf_capture c" "0 < slots c" "accepts_write w \<and> typed_write w"
  then show "\<exists>c' k. typed_put w c = Inr c' \<and> wf_capture c' \<and> slots c \<le> Suc (slots c') \<and>
      kept_entry c' = kept_entry c \<and> log c' = log c @ [(k, kept_entry c w)]"
    using put_write_accepted [of c w] by (simp add: typed_put_def)
qed (auto simp: typed_put_def put_write_rejected)

lemma efold_typed_put: "\<forall>w \<in> set ws. typed_write w \<Longrightarrow> efold typed_put ws c = efold put_write ws c"
  by (induction ws arbitrary: c) (auto simp: typed_put_def intro!: arg_cong2 [where f = ebind])

theorem put_writes:
  assumes "wf_capture c" "length ws \<le> slots c" "\<forall>w \<in> set ws. accepts_write w \<and> typed_write w"
  shows "\<exists>c' new. efold put_write ws c = Inr c' \<and> wf_capture c' \<and> log c' = log c @ new \<and>
    map snd new = map (kept_entry c) ws \<and> slots c \<le> slots c' + length ws"
  using capture_store.puts_accepted [OF assms] assms(3) efold_typed_put [of ws c] by auto

lemma NewCapture_slots: "NewCapture now epochs = (epochs', c) \<Longrightarrow> slots c = 4294967295"
  by (auto simp: NewCapture_def slots_def newCaptureChunk_def)

end
