(* ===== verification/Capture_Read.thy ===== *)
theory Capture_Read
  imports Capture_Store
begin

text \<open>
  The bulk reads of the capture (\<open>capture.go\<close> and \<open>capture_range.go\<close>): everything after a
  cursor or between two, of every kind, of one kind, of one key or of one bus, and the
  writer that streams the records. A read takes views of the chunks under the mutex and
  works on them afterwards; the series reads follow the chains of the key states backwards
  and fill a slice of the counted size from its end. Each read is shown to return what the
  log says.
\<close>

section \<open>Views and the records a read visits\<close>

definition newestCursor :: "cursor \<Rightarrow> u64 \<Rightarrow> capture_view list \<Rightarrow> cursor" where
  "newestCursor cur generation views =
     (case List.find (\<lambda>v. length (v_records v) > 0) (rev views) of
        None \<Rightarrow> cur
      | Some v \<Rightarrow> \<lparr>cu_generation = generation, cu_chunk = v_sequence v,
                  cu_record = word_of_nat (length (v_records v) - 1)\<rparr>)"

definition viewsSince :: "cursor \<Rightarrow> capture \<Rightarrow> capture_error + capture_view list \<times> nat \<times> cursor" where
  "viewsSince cur c = ebind (locate c cur) (\<lambda>(start, boundary).
     let views = map view (drop start (chunks c))
     in Inr (views, nat (boundary + 1), newestCursor cur (cp_generation c) views))"

text \<open>
  The nested loop of the reads: every record of every view in order, the first view from
  \<open>skip\<close> on.
\<close>

fun visits :: "capture_view list \<Rightarrow> nat \<Rightarrow> (capture_view \<times> nat) list" where
  "visits [] skip = []"
| "visits (v # vs) skip = map (Pair v) [skip..<length (v_records v)] @ visits vs 0"

definition recordKindCount :: "capture_view list \<Rightarrow> nat \<Rightarrow> u8 \<Rightarrow> nat" where
  "recordKindCount views skip kind =
     length (filter (\<lambda>(v, r). cr_kind (v_records v ! r) = kind) (visits views skip))"

definition framesFromViews :: "capture_view list \<Rightarrow> nat \<Rightarrow> capture_error + frame_event list" where
  "framesFromViews views skip =
     (if recordKindCount views skip captureRecordFrame = 0 then Inr []
      else ecollect (\<lambda>(v, r). if cr_kind (v_records v ! r) = captureRecordFrame
             then ebind (frameAt v (word_of_nat r)) (\<lambda>e. Inr (Some e)) else Inr None)
             (visits views skip))"

definition eventsFromViews :: "capture_view list \<Rightarrow> nat \<Rightarrow> capture_error + event list" where
  "eventsFromViews views skip =
     (if recordKindCount views skip captureRecordEvent = 0 then Inr []
      else ecollect (\<lambda>(v, r). if cr_kind (v_records v ! r) = captureRecordEvent
             then ebind (eventAt v (word_of_nat r)) (\<lambda>e. Inr (Some e)) else Inr None)
             (visits views skip))"

definition FramesSince :: "cursor \<Rightarrow> capture \<Rightarrow> capture_error + frame_event list \<times> cursor" where
  "FramesSince cur c = ebind (viewsSince cur c) (\<lambda>(views, skip, next).
     ebind (framesFromViews views skip) (\<lambda>frames. Inr (frames, next)))"

definition EventsSince :: "cursor \<Rightarrow> capture \<Rightarrow> capture_error + event list \<times> cursor" where
  "EventsSince cur c = ebind (viewsSince cur c) (\<lambda>(views, skip, next).
     ebind (eventsFromViews views skip) (\<lambda>events. Inr (events, next)))"

text \<open>\<open>Frames\<close> and \<open>Events\<close> drop the cursor and the error of a read from the start.\<close>

definition Frames :: "capture \<Rightarrow> frame_event list" where
  "Frames c = (case FramesSince zero_cursor c of Inl _ \<Rightarrow> [] | Inr (frames, _) \<Rightarrow> frames)"

definition Events :: "capture \<Rightarrow> event list" where
  "Events c = (case EventsSince zero_cursor c of Inl _ \<Rightarrow> [] | Inr (events, _) \<Rightarrow> events)"

section \<open>Series reads\<close>

text \<open>A view with the last record and the count of the series that is read.\<close>

type_synonym chain = "capture_view \<times> u32 \<times> u32"

fun series_total :: "(capture_record \<Rightarrow> capture_error + u32) \<Rightarrow> int \<Rightarrow> chain list \<Rightarrow>
    capture_error + nat" where
  "series_total prev boundary [] = Inr 0"
| "series_total prev boundary ((v, lastRecord, count) # chs) =
     ebind (if count = 0 then Inr 0
            else if boundary \<ge> 0
              then ebind (walk prev (v_records v) boundary (length (v_records v)) lastRecord)
                     (\<lambda>visited. Inr (length visited))
            else Inr (unat count))
       (\<lambda>n. ebind (series_total prev (-1) chs) (\<lambda>m. Inr (n + m)))"

text \<open>\<open>remaining--; frames[remaining] = view.frameAt(r)\<close>, for the records of one walk.\<close>

fun back_fill :: "(u32 \<Rightarrow> capture_error + 'a) \<Rightarrow> u32 list \<Rightarrow> nat \<times> 'a list \<Rightarrow>
    capture_error + nat \<times> 'a list" where
  "back_fill at [] st = Inr st"
| "back_fill at (r # rs) (remaining, xs) =
     (if remaining = 0 \<or> length xs < remaining then Inl Panic
      else ebind (at r) (\<lambda>x. back_fill at rs (remaining - 1, xs[remaining - 1 := x])))"

fun series_fill :: "(capture_record \<Rightarrow> capture_error + u32) \<Rightarrow>
    (capture_view \<Rightarrow> u32 \<Rightarrow> capture_error + 'a) \<Rightarrow> int \<Rightarrow> chain list \<Rightarrow> nat \<times> 'a list \<Rightarrow>
    capture_error + nat \<times> 'a list" where
  "series_fill prev at boundary [] st = Inr st"
| "series_fill prev at boundary ((v, lastRecord, count) # chs) st =
     ebind (series_fill prev at (-1) chs st) (\<lambda>st.
       if count = 0 then Inr st
       else ebind (walk prev (v_records v) boundary (length (v_records v)) lastRecord)
              (\<lambda>visited. back_fill (at v) visited st))"

definition series_read :: "(capture_record \<Rightarrow> capture_error + u32) \<Rightarrow>
    (capture_view \<Rightarrow> u32 \<Rightarrow> capture_error + 'a) \<Rightarrow> 'a \<Rightarrow> int \<Rightarrow> chain list \<Rightarrow> capture_error + 'a list" where
  "series_read prev at zero boundary chs = ebind (series_total prev boundary chs) (\<lambda>total.
     if total = 0 then Inr []
     else ebind (series_fill prev at boundary chs (total, replicate total zero)) (\<lambda>(_, xs). Inr xs))"

definition zero_frame_event :: frame_event where
  "zero_frame_event = \<lparr>fe_bus = 0, fe_timestamp = zero_time, fe_direction = 0,
     fe_frame = \<lparr>f_id = 0, f_data = replicate MaxDataLength 0, f_dlc = 0, f_flags = 0\<rparr>\<rparr>"

definition zero_event :: event where
  "zero_event = \<lparr>e_bus = 0, e_timestamp = zero_time, e_kind = 0, e_state = 0, e_tx = 0, e_rx = 0,
     e_known = False\<rparr>"

definition key_chain :: "frame_key \<Rightarrow> chunk \<Rightarrow> chain" where
  "key_chain key ch = (view ch, ks_lastRecord (keyStates_at ch key), ks_count (keyStates_at ch key))"

definition bus_chain :: "u16 \<Rightarrow> chunk \<Rightarrow> chain" where
  "bus_chain bus ch = (view ch, es_lastRecord (eventStates_at ch bus), es_count (eventStates_at ch bus))"

definition SeriesSince :: "frame_key \<Rightarrow> cursor \<Rightarrow> capture \<Rightarrow> capture_error + frame_event list \<times> cursor" where
  "SeriesSince key cur c = ebind (locate c cur) (\<lambda>(start, boundary).
     let chs = map (key_chain key) (drop start (chunks c));
         next = newestCursor cur (cp_generation c) (map fst chs)
     in ebind (series_read frame_previous frameAt zero_frame_event boundary chs)
          (\<lambda>frames. Inr (frames, next)))"

definition BusEventsSince :: "u16 \<Rightarrow> cursor \<Rightarrow> capture \<Rightarrow> capture_error + event list \<times> cursor" where
  "BusEventsSince bus cur c = ebind (locate c cur) (\<lambda>(start, boundary).
     let chs = map (bus_chain bus) (drop start (chunks c));
         next = newestCursor cur (cp_generation c) (map fst chs)
     in ebind (series_read event_previous eventAt zero_event boundary chs)
          (\<lambda>events. Inr (events, next)))"

definition Series :: "frame_key \<Rightarrow> capture \<Rightarrow> frame_event list" where
  "Series key c = (case SeriesSince key zero_cursor c of Inl _ \<Rightarrow> [] | Inr (frames, _) \<Rightarrow> frames)"

definition BusEvents :: "u16 \<Rightarrow> capture \<Rightarrow> event list" where
  "BusEvents bus c = (case BusEventsSince bus zero_cursor c of Inl _ \<Rightarrow> [] | Inr (events, _) \<Rightarrow> events)"

section \<open>Range reads\<close>

definition viewsBetween :: "cursor \<Rightarrow> cursor \<Rightarrow> capture \<Rightarrow> capture_error + capture_view list \<times> nat" where
  "viewsBetween start stop c =
     ebind (emap (\<lambda>_. RangeEnd stop) (locate c stop)) (\<lambda>(last, endRecord).
     ebind (emap (\<lambda>_. RangeStart start) (locate c start)) (\<lambda>(first, startRecord).
     if first > last \<or> first = last \<and> startRecord > endRecord then Inl RangeReversed
     else if start = stop then Inr ([], 0)
     else let views = map view (take (last - first + 1) (drop first (chunks c)));
              tail = v_records (views ! (last - first))
          in if endRecord + 1 > int (length tail) then Inl (RangeEnd stop)
             else Inr (views[last - first := (views ! (last - first))\<lparr>v_records :=
                         take (nat (endRecord + 1)) tail\<rparr>],
                       nat (startRecord + 1))))"

definition FramesBetween :: "cursor \<Rightarrow> cursor \<Rightarrow> capture \<Rightarrow> capture_error + frame_event list" where
  "FramesBetween start stop c = ebind (viewsBetween start stop c) (\<lambda>(views, skip).
     framesFromViews views skip)"

definition EventsBetween :: "cursor \<Rightarrow> cursor \<Rightarrow> capture \<Rightarrow> capture_error + event list" where
  "EventsBetween start stop c = ebind (viewsBetween start stop c) (\<lambda>(views, skip).
     eventsFromViews views skip)"

definition SeriesBetween :: "frame_key \<Rightarrow> cursor \<Rightarrow> cursor \<Rightarrow> capture \<Rightarrow> capture_error + frame_event list" where
  "SeriesBetween key start stop c = ebind (viewsBetween start stop c) (\<lambda>(views, skip).
     ecollect (\<lambda>(v, r).
       if cr_kind (v_records v ! r) \<noteq> captureRecordFrame then Inr None
       else ebind (frameData (v_records v ! r)) (\<lambda>data.
         if length (v_keys v) \<le> unat (frd_keyIndex data) then Inl Panic
         else if v_keys v ! unat (frd_keyIndex data) = key
           then ebind (frameAt v (word_of_nat r)) (\<lambda>e. Inr (Some e)) else Inr None))
       (visits views skip))"

definition BusEventsBetween :: "u16 \<Rightarrow> cursor \<Rightarrow> cursor \<Rightarrow> capture \<Rightarrow> capture_error + event list" where
  "BusEventsBetween bus start stop c = ebind (viewsBetween start stop c) (\<lambda>(views, skip).
     ecollect (\<lambda>(v, r).
       if cr_kind (v_records v ! r) \<noteq> captureRecordEvent then Inr None
       else ebind (eventData (v_records v ! r)) (\<lambda>data.
         if erd_bus data = bus
           then ebind (eventAt v (word_of_nat r)) (\<lambda>e. Inr (Some e)) else Inr None))
       (visits views skip))"

section \<open>Streaming records to a writer\<close>

text \<open>
  A \<open>RecordWriter\<close> is its two methods over a state of its own; a failing call may leave
  that state changed. The result of \<open>writeRecords\<close> is the cursor it returns, the
  \<open>*RecordWriteError\<close> if there is one, and the writer's state.
\<close>

record ('w, 'x) record_writer =
  WriteFrame_of :: "frame_event \<Rightarrow> 'w \<Rightarrow> 'x option \<times> 'w"
  WriteEvent_of :: "event \<Rightarrow> 'w \<Rightarrow> 'x option \<times> 'w"

definition write_visit :: "('w, 'x) record_writer \<Rightarrow> capture_view \<Rightarrow> nat \<Rightarrow> 'w \<Rightarrow>
    capture_error + 'x option \<times> 'w" where
  "write_visit writer v r w =
     (if cr_kind (v_records v ! r) = captureRecordFrame
      then ebind (frameAt v (word_of_nat r)) (\<lambda>e. Inr (WriteFrame_of writer e w))
      else if cr_kind (v_records v ! r) = captureRecordEvent
      then ebind (eventAt v (word_of_nat r)) (\<lambda>e. Inr (WriteEvent_of writer e w))
      else Inl Panic)"

fun writeVisits :: "('w, 'x) record_writer \<Rightarrow> cursor \<Rightarrow> (capture_view \<times> nat) list \<Rightarrow> cursor \<Rightarrow> 'w \<Rightarrow>
    capture_error + cursor \<times> (cursor \<times> 'x) option \<times> 'w" where
  "writeVisits writer success [] lastWritten w = Inr (success, None, w)"
| "writeVisits writer success ((v, r) # vs) lastWritten w =
     ebind (write_visit writer v r w) (\<lambda>(err, w).
       let recordCursor = \<lparr>cu_generation = cu_generation success, cu_chunk = v_sequence v,
                           cu_record = word_of_nat r\<rparr>
       in case err of
            Some x \<Rightarrow> Inr (lastWritten, Some (recordCursor, x), w)
          | None \<Rightarrow> writeVisits writer success vs recordCursor w)"

definition writeRecords :: "('w, 'x) record_writer \<Rightarrow> capture_view list \<Rightarrow> nat \<Rightarrow> cursor \<Rightarrow> cursor \<Rightarrow> 'w \<Rightarrow>
    capture_error + cursor \<times> (cursor \<times> 'x) option \<times> 'w" where
  "writeRecords writer views skip lastWritten success w =
     writeVisits writer success (visits views skip) lastWritten w"

definition WriteRecordsSince :: "('w, 'x) record_writer \<Rightarrow> cursor \<Rightarrow> capture \<Rightarrow> 'w \<Rightarrow>
    capture_error + cursor \<times> (cursor \<times> 'x) option \<times> 'w" where
  "WriteRecordsSince writer cur c w = ebind (viewsSince cur c) (\<lambda>(views, skip, next).
     writeRecords writer views skip cur next w)"

definition WriteRecordsBetween :: "('w, 'x) record_writer \<Rightarrow> cursor \<Rightarrow> cursor \<Rightarrow> capture \<Rightarrow> 'w \<Rightarrow>
    capture_error + cursor \<times> (cursor \<times> 'x) option \<times> 'w" where
  "WriteRecordsBetween writer start stop c w = ebind (viewsBetween start stop c) (\<lambda>(views, skip).
     writeRecords writer views skip start stop w)"

section \<open>What a view says\<close>

definition clip :: "nat \<Rightarrow> capture_view \<Rightarrow> capture_view" where
  "clip n v = v\<lparr>v_records := take n (v_records v)\<rparr>"

definition wf_view :: "capture_view \<Rightarrow> bool" where
  "wf_view v \<longleftrightarrow> (\<exists>ch n. wf_chunk ch \<and> v = clip n (view ch))"

definition visit_entry :: "u64 \<Rightarrow> capture_view \<times> nat \<Rightarrow> cursor \<times> entry" where
  "visit_entry gen = (\<lambda>(v, r).
     (\<lparr>cu_generation = gen, cu_chunk = v_sequence v, cu_record = word_of_nat r\<rparr>,
      projr (entryAt v (word_of_nat r))))"

definition view_log :: "u64 \<Rightarrow> capture_view \<Rightarrow> (cursor \<times> entry) list" where
  "view_log gen v = map (\<lambda>r. visit_entry gen (v, r)) [0..<length (v_records v)]"

lemma clip_fields [simp]:
  "v_sequence (clip n v) = v_sequence v" "v_records (clip n v) = take n (v_records v)"
  "v_keys (clip n v) = v_keys v" "v_payload (clip n v) = v_payload v"
  by (simp_all add: clip_def)

lemma clip_at:
  assumes "unat i < n"
  shows "frameAt (clip n v) i = frameAt v i" "eventAt (clip n v) i = eventAt v i"
    "entryAt (clip n v) i = entryAt v i"
proof -
  have len: "length (take n (v_records v)) \<le> unat i \<longleftrightarrow> length (v_records v) \<le> unat i"
      "take n (v_records v) ! unat i = v_records v ! unat i"
    using assms by auto
  show frame: "frameAt (clip n v) i = frameAt v i" and event: "eventAt (clip n v) i = eventAt v i"
    unfolding frameAt_def eventAt_def clip_fields len by (rule refl)+
  show "entryAt (clip n v) i = entryAt v i"
    unfolding entryAt_def frame event clip_fields len by (rule refl)
qed

lemma view_log_view: "view_log gen (view ch) = chunk_log gen ch"
  by (simp add: view_log_def visit_entry_def chunk_log_def cursor_at_def entry_of_def)

lemma view_log_clip:
  assumes "length (v_records v) \<le> 131072"
  shows "view_log gen (clip n v) = take n (view_log gen v)"
proof -
  have "visit_entry gen (clip n v, r) = visit_entry gen (v, r)" if "r < n" "r < length (v_records v)" for r
    using that assms by (simp add: visit_entry_def clip_at(3))
  then show ?thesis
    by (auto simp: view_log_def take_map min_def intro: map_cong)
qed

lemma clip_all: "clip (length (v_records v)) v = v"
  by (simp add: clip_def)

lemma wf_view_view [intro]: "wf_chunk ch \<Longrightarrow> wf_view (view ch)"
  unfolding wf_view_def using clip_all by metis

lemma clip_clip: "clip n (clip m v) = clip (min n m) v"
  by (simp add: clip_def)

lemma wf_view_clip [intro]: "wf_view v \<Longrightarrow> wf_view (clip n v)"
  unfolding wf_view_def by (metis clip_clip)

lemma wf_view_small: "wf_view v \<Longrightarrow> length (v_records v) \<le> 131072"
  by (auto simp: wf_view_def dest: wf_chunkD(6))

text \<open>A record of a well-formed view is a frame of a known key or a bus event.\<close>

lemma wf_view_visit:
  assumes "wf_view v" "r < length (v_records v)"
  obtains (frame) e d where "snd (visit_entry gen (v, r)) = FrameEntry e"
      "cr_kind (v_records v ! r) = captureRecordFrame" "frameAt v (word_of_nat r) = Inr e"
      "frameData (v_records v ! r) = Inr d" "unat (frd_keyIndex d) < length (v_keys v)"
      "v_keys v ! unat (frd_keyIndex d) = Key e"
    | (event) e d where "snd (visit_entry gen (v, r)) = EventEntry e"
      "cr_kind (v_records v ! r) = captureRecordEvent" "eventAt v (word_of_nat r) = Inr e"
      "eventData (v_records v ! r) = Inr d" "erd_bus d = e_bus e"
proof -
  obtain ch n where ch: "wf_chunk ch" "v = clip n (view ch)"
    using assms(1) by (auto simp: wf_view_def)
  have r: "r < n" "r < length (c_records ch)" "r < 4294967296"
    using assms(2) ch wf_chunkD(6) [OF ch(1)] by auto
  then have "decodable_at ch r"
    using ch(1) by (auto simp: wf_chunk_def decodable_def)
  then show ?thesis
    unfolding decodable_at_def
  proof (elim disjE exE conjE)
    fix e
    assume e: "entryAt (view ch) (word_of_nat r) = Inr (FrameEntry e)"
      "frameAt (view ch) (word_of_nat r) = Inr e" "record_key ch r = Some (Key e)"
    have kind: "cr_kind (c_records ch ! r) = captureRecordFrame"
        "unat (cr_word1 (c_records ch ! r)) < length (c_keys ch)"
        "c_keys ch ! unat (cr_word1 (c_records ch ! r)) = Key e"
      using e(3) by (auto simp: record_key_def split: if_splits)
    then obtain d where "frameData (c_records ch ! r) = Inr d" "frd_keyIndex d = cr_word1 (c_records ch ! r)"
      by (auto simp: frameData_def)
    then show ?thesis
      using frame [of e d] e kind r by (simp add: ch(2) visit_entry_def clip_at)
  next
    fix e
    assume e: "entryAt (view ch) (word_of_nat r) = Inr (EventEntry e)"
      "eventAt (view ch) (word_of_nat r) = Inr e" "record_bus ch r = Some (e_bus e)"
    have kind: "cr_kind (c_records ch ! r) = captureRecordEvent"
        "ucast (cr_word1 (c_records ch ! r)) = e_bus e"
      using e(3) by (auto simp: record_bus_def split: if_splits)
    then obtain d where "eventData (c_records ch ! r) = Inr d" "erd_bus d = e_bus e"
      by (auto simp: eventData_def)
    then show ?thesis
      using event [of e d] e kind r by (simp add: ch(2) visit_entry_def clip_at)
  qed
qed

lemma frame_not_event: "captureRecordFrame \<noteq> captureRecordEvent"
  by (simp add: captureRecordFrame_def captureRecordEvent_def)

lemma visits_in: "(v, r) \<in> set (visits vs skip) \<Longrightarrow> v \<in> set vs \<and> r < length (v_records v)"
  by (induction vs skip rule: visits.induct) auto

lemma visits_log:
  "map (visit_entry gen) (visits (v # vs) skip) = drop skip (view_log gen v) @ concat (map (view_log gen) vs)"
proof -
  have "map (visit_entry gen) (visits vs 0) = concat (map (view_log gen) vs)" for vs
    by (induction vs) (simp_all add: view_log_def)
  then show ?thesis
    by (simp add: view_log_def drop_map)
qed

lemma in_map: 
  "frames_in (map h xs) = List.map_filter (\<lambda>x. as_frame (snd (h x))) xs"
  "events_in (map h xs) = List.map_filter (\<lambda>x. as_event (snd (h x))) xs"
  by (simp_all add: frames_in_def events_in_def List.map_filter_def filter_map o_def case_prod_unfold)

lemma map_filter_filter: "filter P (List.map_filter f xs) = List.map_filter (\<lambda>x. case f x of
    None \<Rightarrow> None | Some y \<Rightarrow> if P y then Some y else None) xs"
  by (induction xs) (auto simp: List.map_filter_def split: option.splits)

section \<open>Reads of a list of views\<close>

lemma visits_wf:
  assumes "\<forall>v \<in> set vs. wf_view v" "x \<in> set (visits vs skip)"
  obtains v r where "x = (v, r)" "wf_view v" "r < length (v_records v)"
  using assms visits_in [of "fst x" "snd x" vs skip] that [of "fst x" "snd x"] by simp

text \<open>
  A loop that keeps, of every record visited, what \<open>g\<close> keeps of its entry returns what
  \<open>g\<close> keeps of the log; counting first and stopping at zero changes nothing.
\<close>

lemma visits_collect:
  assumes wf: "\<forall>v \<in> set vs. wf_view v"
    and step: "\<And>v r. wf_view v \<Longrightarrow> r < length (v_records v) \<Longrightarrow> f (v, r) = Inr (g (snd (visit_entry gen (v, r))))"
  shows "ecollect f (visits vs skip) = Inr (List.map_filter (\<lambda>x. g (snd (visit_entry gen x))) (visits vs skip))"
proof (rule ecollect_map_filter)
  fix x
  assume "x \<in> set (visits vs skip)"
  with wf obtain v r where "x = (v, r)" "wf_view v" "r < length (v_records v)"
    by (rule visits_wf)
  then show "f x = Inr (g (snd (visit_entry gen x)))"
    by (simp add: step)
qed

lemma kind_count_zero:
  assumes wf: "\<forall>v \<in> set vs. wf_view v" and zero: "recordKindCount vs skip kind = 0"
    and step: "\<And>v r. wf_view v \<Longrightarrow> r < length (v_records v) \<Longrightarrow> cr_kind (v_records v ! r) \<noteq> kind \<Longrightarrow>
      g (snd (visit_entry gen (v, r))) = None"
  shows "List.map_filter (\<lambda>x. g (snd (visit_entry gen x))) (visits vs skip) = []"
proof -
  have "g (snd (visit_entry gen x)) = None" if x: "x \<in> set (visits vs skip)" for x
  proof -
    obtain v r where vr: "x = (v, r)" "wf_view v" "r < length (v_records v)"
      using wf x by (rule visits_wf)
    moreover have "cr_kind (v_records v ! r) \<noteq> kind"
      using zero x vr(1) by (auto simp: recordKindCount_def filter_empty_conv)
    ultimately show ?thesis by (simp add: step)
  qed
  then show ?thesis by (simp add: List.map_filter_def filter_empty_conv)
qed

lemma framesFromViews_log:
  assumes wf: "\<forall>v \<in> set vs. wf_view v"
  shows "framesFromViews vs skip = Inr (frames_in (map (visit_entry gen) (visits vs skip)))"
proof (cases "recordKindCount vs skip captureRecordFrame = 0")
  case True
  have "frames_in (map (visit_entry gen) (visits vs skip)) = []"
    unfolding in_map
    by (rule kind_count_zero [OF wf True]) (erule (1) wf_view_visit [where gen = gen]; simp)
  with True show ?thesis by (simp add: framesFromViews_def)
next
  case False
  then show ?thesis
    unfolding framesFromViews_def in_map using frame_not_event
    by simp (rule visits_collect [OF wf], erule (1) wf_view_visit [where gen = gen]; simp)
qed

lemma eventsFromViews_log:
  assumes wf: "\<forall>v \<in> set vs. wf_view v"
  shows "eventsFromViews vs skip = Inr (events_in (map (visit_entry gen) (visits vs skip)))"
proof (cases "recordKindCount vs skip captureRecordEvent = 0")
  case True
  have "events_in (map (visit_entry gen) (visits vs skip)) = []"
    unfolding in_map
    by (rule kind_count_zero [OF wf True]) (erule (1) wf_view_visit [where gen = gen]; simp)
  with True show ?thesis by (simp add: eventsFromViews_def)
next
  case False
  then show ?thesis
    unfolding eventsFromViews_def in_map using frame_not_event
    by simp (rule visits_collect [OF wf], erule (1) wf_view_visit [where gen = gen]; simp)
qed

lemma seriesFromViews_log:
  assumes wf: "\<forall>v \<in> set vs. wf_view v"
  shows "ecollect (\<lambda>(v, r).
       if cr_kind (v_records v ! r) \<noteq> captureRecordFrame then Inr None
       else ebind (frameData (v_records v ! r)) (\<lambda>data.
         if length (v_keys v) \<le> unat (frd_keyIndex data) then Inl Panic
         else if v_keys v ! unat (frd_keyIndex data) = key
           then ebind (frameAt v (word_of_nat r)) (\<lambda>e. Inr (Some e)) else Inr None)) (visits vs skip) =
    Inr (series_in key (map (visit_entry gen) (visits vs skip)))"
  unfolding series_in_def in_map map_filter_filter using frame_not_event
  by (intro visits_collect [where g = "\<lambda>e. case as_frame e of None \<Rightarrow> None | Some y \<Rightarrow> if Key y = key then Some y else None"] wf)
    (erule (1) wf_view_visit [where gen = gen]; simp)

lemma busEventsFromViews_log:
  assumes wf: "\<forall>v \<in> set vs. wf_view v"
  shows "ecollect (\<lambda>(v, r).
       if cr_kind (v_records v ! r) \<noteq> captureRecordEvent then Inr None
       else ebind (eventData (v_records v ! r)) (\<lambda>data.
         if erd_bus data = bus
           then ebind (eventAt v (word_of_nat r)) (\<lambda>e. Inr (Some e)) else Inr None)) (visits vs skip) =
    Inr (bus_events_in bus (map (visit_entry gen) (visits vs skip)))"
  unfolding bus_events_in_def in_map map_filter_filter using frame_not_event
  by (intro visits_collect [where g = "\<lambda>e. case as_event e of None \<Rightarrow> None | Some y \<Rightarrow> if e_bus y = bus then Some y else None"] wf)
    (erule (1) wf_view_visit [where gen = gen]; simp)

section \<open>Reads after a cursor\<close>

lemma drop_chunks_views:
  assumes wf: "wf_base c"
  shows "\<forall>v \<in> set (map view (drop i (chunks c))). wf_view v"
  using wf by (auto simp: wf_base_def dest: in_set_dropD)

lemma visits_chunks:
  assumes "i < length (chunks c)"
  shows "map (visit_entry (cp_generation c)) (visits (map view (drop i (chunks c))) (nat (b + 1))) =
    log_from c (i, b)"
proof -
  have "drop i (chunks c) = chunks c ! i # drop (Suc i) (chunks c)"
    using assms by (simp add: Cons_nth_drop_Suc)
  then show ?thesis
    unfolding log_from_def prod.case by (simp only: list.map visits_log view_log_view map_map o_def)
qed

lemma newestCursor_log:
  "newestCursor cur gen (map view chs) = (case last_cursor gen chs of None \<Rightarrow> cur | Some cu \<Rightarrow> cu)"
proof -
  have "last_cursor gen chs = map_option (\<lambda>v. \<lparr>cu_generation = gen, cu_chunk = v_sequence v,
      cu_record = word_of_nat (length (v_records v) - 1)\<rparr>)
      (List.find (\<lambda>v. length (v_records v) > 0) (rev (map view chs)))"
    by (induction chs) (auto simp: find_append split: option.splits)
  then show ?thesis by (simp add: newestCursor_def split: option.splits)
qed

text \<open>What a since-read returns with its records: the end of the capture, or the cursor it was given.\<close>

lemma newestCursor_end:
  assumes wf: "wf_capture c" and i: "i < length (chunks c)"
  shows "newestCursor cur (cp_generation c) (map view (drop i (chunks c))) =
    (if log c = [] then cur else endLocked c)"
proof -
  let ?log = "\<lambda>chs. concat (map (chunk_log (cp_generation c)) chs)"
  have split: "log c = ?log (take i (chunks c)) @ ?log (drop i (chunks c))"
    unfolding log_def concat_append [symmetric] map_append [symmetric] append_take_drop_id ..
  show ?thesis
  proof (cases "?log (drop i (chunks c)) = []")
    case False
    then have "last (log c) = last (?log (drop i (chunks c)))" "log c \<noteq> []"
      unfolding split by (simp_all only: last_appendR append_is_Nil_conv simp_thms)
    then show ?thesis
      unfolding newestCursor_log last_cursor_log endLocked_log using False
      by (simp only: if_False option.case)
  next
    case True
    have "cp_active c \<in> set (drop i (chunks c))"
      using i by (simp add: chunks_def)
    then have "chunk_log (cp_generation c) (cp_active c) = []"
      using True by simp
    then have "c_records (cp_active c) = []"
      by (metis length_0_conv length_chunk_log)
    then have "log c = []"
      using wf by (simp add: wf_capture_def log_split chunk_log_def)
    then show ?thesis
      using True by (simp only: newestCursor_log last_cursor_log if_True refl option.case)
  qed
qed

lemma viewsSince_spec:
  assumes wf: "wf_capture c" and p: "locate c cur = Inr place"
  obtains views skip where
    "viewsSince cur c = Inr (views, skip, if log c = [] then cur else endLocked c)"
    "\<forall>v \<in> set views. wf_view v"
    "map (visit_entry (cp_generation c)) (visits views skip) = after c cur"
proof -
  obtain i b where ib: "place = (i, b)" by (cases place) auto
  note base = wf_captureD [OF wf]
  have i: "i < length (chunks c)" "after c cur = log_from c (i, b)"
    using locate_after [OF base p [unfolded ib]] by blast+
  show ?thesis
    by (rule that [of "map view (drop i (chunks c))" "nat (b + 1)"])
      (simp_all add: viewsSince_def p ib Let_def newestCursor_end [OF wf i(1)] visits_chunks [OF i(1)] i(2)
        drop_chunks_views [OF base] del: set_map)
qed

theorem FramesSince_spec:
  assumes wf: "wf_capture c" and p: "locate c cur = Inr place"
  shows "FramesSince cur c = Inr (frames_in (after c cur), if log c = [] then cur else endLocked c)"
proof -
  obtain views skip where "viewsSince cur c = Inr (views, skip, if log c = [] then cur else endLocked c)"
    "\<forall>v \<in> set views. wf_view v" "map (visit_entry (cp_generation c)) (visits views skip) = after c cur"
    using wf p by (rule viewsSince_spec)
  then show ?thesis
    using framesFromViews_log [of views skip "cp_generation c"] by (simp add: FramesSince_def)
qed

theorem EventsSince_spec:
  assumes wf: "wf_capture c" and p: "locate c cur = Inr place"
  shows "EventsSince cur c = Inr (events_in (after c cur), if log c = [] then cur else endLocked c)"
proof -
  obtain views skip where "viewsSince cur c = Inr (views, skip, if log c = [] then cur else endLocked c)"
    "\<forall>v \<in> set views. wf_view v" "map (visit_entry (cp_generation c)) (visits views skip) = after c cur"
    using wf p by (rule viewsSince_spec)
  then show ?thesis
    using eventsFromViews_log [of views skip "cp_generation c"] by (simp add: EventsSince_def)
qed

lemma reads_out_of_range:
  assumes "locate c cur = Inl e"
  shows "FramesSince cur c = Inl e" "EventsSince cur c = Inl e" "SeriesSince key cur c = Inl e"
    "BusEventsSince bus cur c = Inl e" "WriteRecordsSince writer cur c w = Inl e"
  using assms by (simp_all add: FramesSince_def EventsSince_def SeriesSince_def BusEventsSince_def
      WriteRecordsSince_def viewsSince_def)

lemma after_zero [simp]: "after c zero_cursor = log c"
  by (simp add: after_def)

lemma Frames_spec: "wf_capture c \<Longrightarrow> Frames c = frames_in (log c)"
  by (simp add: Frames_def FramesSince_spec [OF _ locate_zero])

lemma Events_spec: "wf_capture c \<Longrightarrow> Events c = events_in (log c)"
  by (simp add: Events_def EventsSince_spec [OF _ locate_zero])

section \<open>Series reads\<close>

lemma back_fill_spec:
  assumes "\<And>r. r \<in> set rs \<Longrightarrow> at r = Inr (f r)" "length rs + k \<le> length xs"
  shows "back_fill at rs (length rs + k, xs) = Inr (k, take k xs @ rev (map f rs) @ drop (length rs + k) xs)"
  using assms
proof (induction rs arbitrary: xs)
  case Nil
  then show ?case by simp
next
  case (Cons r rs)
  let ?xs = "xs[length rs + k := f r]"
  have "back_fill at rs (length rs + k, ?xs) = Inr (k, take k ?xs @ rev (map f rs) @ drop (length rs + k) ?xs)"
    by (rule Cons.IH) (use Cons.prems in auto)
  moreover have "drop (length rs + k) ?xs = f r # drop (Suc (length rs + k)) xs"
    using Cons.prems by (simp add: drop_update_swap Cons_nth_drop_Suc [symmetric])
  ultimately show ?case
    using Cons.prems by simp
qed

text \<open>
  The contract of a chained series: in a well-formed chunk the walk from the last record
  visits the members newest first, the count is their number, and decoding a member gives
  its element. The frame chains of a key and the event chains of a bus provide it.
\<close>

locale chained_series =
  fixes prev :: "capture_record \<Rightarrow> capture_error + u32"
    and at :: "capture_view \<Rightarrow> u32 \<Rightarrow> capture_error + 'a"
    and chain :: "chunk \<Rightarrow> chain"
    and member :: "chunk \<Rightarrow> nat \<Rightarrow> bool"
    and elem :: "chunk \<Rightarrow> nat \<Rightarrow> 'a"
  assumes chain_view: "fst (chain ch) = view ch"
    and chain_count: "wf_chunk ch \<Longrightarrow>
      unat (snd (snd (chain ch))) = length (series_indices (member ch) (-1) (length (c_records ch)))"
    and chain_walk: "wf_chunk ch \<Longrightarrow> snd (snd (chain ch)) \<noteq> 0 \<Longrightarrow>
      walk prev (c_records ch) stop (length (c_records ch)) (fst (snd (chain ch))) =
        Inr (map word_of_nat (rev (series_indices (member ch) stop (length (c_records ch)))))"
    and chain_at: "wf_chunk ch \<Longrightarrow> i < length (c_records ch) \<Longrightarrow> member ch i \<Longrightarrow>
      at (view ch) (word_of_nat i) = Inr (elem ch i)"
begin

definition members :: "int \<Rightarrow> chunk \<Rightarrow> 'a list" where
  "members stop ch = map (elem ch) (series_indices (member ch) stop (length (c_records ch)))"

definition members_from :: "int \<Rightarrow> chunk list \<Rightarrow> 'a list" where
  "members_from stop chs = (case chs of [] \<Rightarrow> [] | ch # chs \<Rightarrow> members stop ch @ concat (map (members (-1)) chs))"

lemma members_empty:
  assumes "wf_chunk ch" "snd (snd (chain ch)) = 0"
  shows "members stop ch = []"
proof -
  have "series_indices (member ch) (-1) (length (c_records ch)) = []"
    using chain_count [OF assms(1)] assms(2) by simp
  then have "series_indices (member ch) stop (length (c_records ch)) = []"
    by (auto simp: series_indices_def filter_empty_conv)
  then show ?thesis by (simp add: members_def)
qed

lemma members_neg: "stop < 0 \<Longrightarrow> members stop = members (-1)"
  by (auto simp: members_def series_indices_def intro!: ext)

lemma members_from_Cons: "members_from stop (ch # chs) = members stop ch @ members_from (-1) chs"
  by (cases chs) (simp_all add: members_from_def)

lemma total_members:
  assumes "\<forall>ch \<in> set chs. wf_chunk ch"
  shows "series_total prev stop (map chain chs) = Inr (length (members_from stop chs))"
  using assms
proof (induction chs arbitrary: stop)
  case Nil
  then show ?case by (simp add: members_from_def)
next
  case (Cons ch chs)
  then have wf: "wf_chunk ch" by simp
  obtain l n where c: "chain ch = (view ch, l, n)"
    using chain_view [of ch] by (cases "chain ch") auto
  show ?case
    using Cons members_empty [OF wf, of stop] chain_walk [OF wf, of stop] chain_count [OF wf] members_neg [of stop]
    by (cases "n = 0"; cases "0 \<le> stop") (auto simp: c members_from_Cons members_def)
qed

lemma fill_members:
  assumes "\<forall>ch \<in> set chs. wf_chunk ch" "length (members_from stop chs) + k \<le> length xs"
  shows "series_fill prev at stop (map chain chs) (length (members_from stop chs) + k, xs) =
    Inr (k, take k xs @ members_from stop chs @ drop (length (members_from stop chs) + k) xs)"
  using assms
proof (induction chs arbitrary: stop k)
  case Nil
  then show ?case by (simp add: members_from_def)
next
  case (Cons ch chs)
  then have wf: "wf_chunk ch" by simp
  let ?rest = "members_from (-1) chs" and ?is = "series_indices (member ch) stop (length (c_records ch))"
  define m where "m = length (members stop ch) + k"
  define ys where "ys = take m xs @ ?rest @ drop (length ?rest + m) xs"
  have len: "length (members_from stop (ch # chs)) + k = length ?rest + m"
    by (simp add: members_from_Cons m_def)
  have rest: "series_fill prev at (-1) (map chain chs) (length ?rest + m, xs) = Inr (m, ys)"
    unfolding ys_def using Cons.prems by (intro Cons.IH) (simp_all add: members_from_Cons m_def)
  have at: "at (view ch) (word_of_nat i) = Inr (elem ch i)" if "i \<in> set ?is" for i
    using that chain_at [OF wf] by (simp add: set_series_indices)
  then have "map (\<lambda>i. projr (at (view ch) (word_of_nat i))) ?is = members stop ch"
    by (simp add: members_def)
  moreover have "back_fill (at (view ch)) (map word_of_nat (rev ?is)) (length (map word_of_nat (rev ?is) :: u32 list) + k, ys) =
      Inr (k, take k ys @ rev (map (\<lambda>r. projr (at (view ch) r)) (map word_of_nat (rev ?is))) @
        drop (length (map word_of_nat (rev ?is) :: u32 list) + k) ys)"
    by (rule back_fill_spec) (use at Cons.prems(2) in \<open>auto simp: ys_def m_def members_from_Cons members_def\<close>)
  ultimately have fill: "back_fill (at (view ch)) (map word_of_nat (rev ?is)) (m, ys) =
      Inr (k, take k ys @ members stop ch @ drop m ys)"
    by (simp add: m_def members_def rev_map o_def)
  obtain l n where c: "chain ch = (view ch, l, n)"
    using chain_view [of ch] by (cases "chain ch") auto
  show ?case
  proof (cases "n = 0")
    case True
    then show ?thesis
      using rest members_empty [OF wf, of stop] unfolding len
      by (simp add: c ys_def m_def members_from_Cons)
  next
    case False
    then show ?thesis
      using rest chain_walk [OF wf, of stop] fill Cons.prems(2) unfolding len
      by (simp add: c ys_def m_def members_from_Cons min_def)
  qed
qed

lemma read_members:
  assumes "\<forall>ch \<in> set chs. wf_chunk ch"
  shows "series_read prev at zero stop (map chain chs) = Inr (members_from stop chs)"
  using total_members [OF assms, of stop] fill_members [OF assms, of stop 0 "replicate (length (members_from stop chs)) zero"]
  by (simp add: series_read_def)

end

text \<open>The frame chains of a key and the event chains of a bus.\<close>

definition frame_elem :: "chunk \<Rightarrow> nat \<Rightarrow> frame_event" where
  "frame_elem ch i = projr (frameAt (view ch) (word_of_nat i))"

definition event_elem :: "chunk \<Rightarrow> nat \<Rightarrow> event" where
  "event_elem ch i = projr (eventAt (view ch) (word_of_nat i))"

lemma record_key_entry:
  assumes "wf_chunk ch" "i < length (c_records ch)"
  shows "(record_key ch i = Some k \<longrightarrow> frameAt (view ch) (word_of_nat i) = Inr (frame_elem ch i) \<and>
      entry_of ch i = FrameEntry (frame_elem ch i) \<and> Key (frame_elem ch i) = k) \<and>
    (record_key ch i \<noteq> Some k \<longrightarrow> (\<forall>e. as_frame (entry_of ch i) = Some e \<longrightarrow> Key e \<noteq> k))"
proof -
  have "decodable_at ch i" using assms by (auto simp: wf_chunk_def decodable_def)
  then show ?thesis
    unfolding decodable_at_def by (auto simp: frame_elem_def entry_of_def)
qed

lemma record_bus_entry:
  assumes "wf_chunk ch" "i < length (c_records ch)"
  shows "(record_bus ch i = Some b \<longrightarrow> eventAt (view ch) (word_of_nat i) = Inr (event_elem ch i) \<and>
      entry_of ch i = EventEntry (event_elem ch i) \<and> e_bus (event_elem ch i) = b) \<and>
    (record_bus ch i \<noteq> Some b \<longrightarrow> (\<forall>e. as_event (entry_of ch i) = Some e \<longrightarrow> e_bus e \<noteq> b))"
proof -
  have "decodable_at ch i" using assms by (auto simp: wf_chunk_def decodable_def)
  then show ?thesis
    unfolding decodable_at_def by (auto simp: event_elem_def entry_of_def)
qed

interpretation keyed: chained_series frame_previous frameAt "key_chain key"
  "\<lambda>ch i. record_key ch i = Some key" frame_elem for key
proof unfold_locales
  fix ch i
  show "wf_chunk ch \<Longrightarrow> i < length (c_records ch) \<Longrightarrow> record_key ch i = Some key \<Longrightarrow>
      frameAt (view ch) (word_of_nat i) = Inr (frame_elem ch i)"
    using record_key_entry by blast
qed (simp_all add: key_chain_def keyStates_at_count walk_keyStates_at)

interpretation bused: chained_series event_previous eventAt "bus_chain bus"
  "\<lambda>ch i. record_bus ch i = Some bus" event_elem for bus
proof unfold_locales
  fix ch i
  show "wf_chunk ch \<Longrightarrow> i < length (c_records ch) \<Longrightarrow> record_bus ch i = Some bus \<Longrightarrow>
      eventAt (view ch) (word_of_nat i) = Inr (event_elem ch i)"
    using record_bus_entry by blast
qed (simp_all add: bus_chain_def eventStates_at_count walk_eventStates_at)

lemma series_indices_upt: "series_indices P stop n = filter P [nat (stop + 1)..<n]"
proof -
  have "filter (\<lambda>i. stop < int i) [0..<n] = [nat (stop + 1)..<n]"
    by (induction n) (auto simp: nat_le_iff)
  then show ?thesis
    by (metis (no_types, lifting) filter_cong filter_filter series_indices_def)
qed

lemma map_filter_conv: "List.map_filter f xs = map (the \<circ> f) (filter (\<lambda>x. f x \<noteq> None) xs)"
  by (simp add: List.map_filter_def)

lemma keyed_members:
  assumes wf: "wf_chunk ch"
  shows "keyed.members key stop ch = series_in key (drop (nat (stop + 1)) (chunk_log gen ch))"
proof -
  let ?n = "nat (stop + 1)" and ?m = "length (c_records ch)"
  let ?g = "\<lambda>i. case as_frame (entry_of ch i) of None \<Rightarrow> None | Some e \<Rightarrow> if Key e = key then Some e else None"
  have g: "?g i = (if record_key ch i = Some key then Some (frame_elem ch i) else None)" if "i < ?m" for i
    using record_key_entry [OF wf that, of key] by (auto split: option.splits)
  have "series_in key (drop ?n (chunk_log gen ch)) = List.map_filter ?g [?n..<?m]"
    by (simp add: series_in_def chunk_log_def drop_map in_map map_filter_filter)
  also have "\<dots> = map (frame_elem ch) (filter (\<lambda>i. record_key ch i = Some key) [?n..<?m])"
    by (auto simp: map_filter_conv g intro!: map_cong filter_cong split: if_splits)
  finally show ?thesis
    by (simp add: keyed.members_def series_indices_upt)
qed

lemma bused_members:
  assumes wf: "wf_chunk ch"
  shows "bused.members bus stop ch = bus_events_in bus (drop (nat (stop + 1)) (chunk_log gen ch))"
proof -
  let ?n = "nat (stop + 1)" and ?m = "length (c_records ch)"
  let ?g = "\<lambda>i. case as_event (entry_of ch i) of None \<Rightarrow> None | Some e \<Rightarrow> if e_bus e = bus then Some e else None"
  have g: "?g i = (if record_bus ch i = Some bus then Some (event_elem ch i) else None)" if "i < ?m" for i
    using record_bus_entry [OF wf that, of bus] by (auto split: option.splits)
  have "bus_events_in bus (drop ?n (chunk_log gen ch)) = List.map_filter ?g [?n..<?m]"
    by (simp add: bus_events_in_def chunk_log_def drop_map in_map map_filter_filter)
  also have "\<dots> = map (event_elem ch) (filter (\<lambda>i. record_bus ch i = Some bus) [?n..<?m])"
    by (auto simp: map_filter_conv g intro!: map_cong filter_cong split: if_splits)
  finally show ?thesis
    by (simp add: bused.members_def series_indices_upt)
qed

lemma series_in_concat: "series_in k (concat ls) = concat (map (series_in k) ls)"
  "bus_events_in b (concat ls) = concat (map (bus_events_in b) ls)"
  by (induction ls) simp_all

lemma members_from_log:
  assumes wf: "wf_base c" and i: "i < length (chunks c)"
  shows "keyed.members_from key b (drop i (chunks c)) = series_in key (log_from c (i, b))"
    "bused.members_from bus b (drop i (chunks c)) = bus_events_in bus (log_from c (i, b))"
proof -
  have chunks: "drop i (chunks c) = chunks c ! i # drop (Suc i) (chunks c)"
    using i by (simp add: Cons_nth_drop_Suc)
  have w: "\<forall>ch \<in> set (drop i (chunks c)). wf_chunk ch"
    using wf by (auto simp: wf_base_def dest: in_set_dropD)
  then have rest: "map (keyed.members key (-1)) (drop (Suc i) (chunks c)) =
        map (\<lambda>ch. series_in key (chunk_log (cp_generation c) ch)) (drop (Suc i) (chunks c))"
      "map (bused.members bus (-1)) (drop (Suc i) (chunks c)) =
        map (\<lambda>ch. bus_events_in bus (chunk_log (cp_generation c) ch)) (drop (Suc i) (chunks c))"
    unfolding chunks
    by (auto simp: keyed_members [where gen = "cp_generation c"] bused_members [where gen = "cp_generation c"])
  show "keyed.members_from key b (drop i (chunks c)) = series_in key (log_from c (i, b))"
    "bused.members_from bus b (drop i (chunks c)) = bus_events_in bus (log_from c (i, b))"
    using w unfolding chunks
    by (simp_all add: keyed.members_from_def bused.members_from_def rest log_from_def series_in_concat o_def
        keyed_members [where gen = "cp_generation c"] bused_members [where gen = "cp_generation c"])
qed

lemma map_fst_chain:
  "map fst (map (key_chain key) chs) = map view chs" "map fst (map (bus_chain bus) chs) = map view chs"
  by (simp_all add: key_chain_def bus_chain_def)

theorem SeriesSince_spec:
  assumes wf: "wf_capture c" and p: "locate c cur = Inr place"
  shows "SeriesSince key cur c = Inr (series_in key (after c cur), if log c = [] then cur else endLocked c)"
proof -
  obtain i b where ib: "place = (i, b)" by (cases place) auto
  note base = wf_captureD [OF wf]
  have i: "i < length (chunks c)" "after c cur = log_from c (i, b)"
    using locate_after [OF base p [unfolded ib]] by blast+
  have w: "\<forall>ch \<in> set (drop i (chunks c)). wf_chunk ch"
    using base by (auto simp: wf_base_def dest: in_set_dropD)
  show ?thesis
    unfolding SeriesSince_def p ib ebind_simps prod.case Let_def map_fst_chain newestCursor_end [OF wf i(1)]
    by (simp only: keyed.read_members [OF w] members_from_log [OF base i(1)] i(2) ebind_simps)
qed

theorem BusEventsSince_spec:
  assumes wf: "wf_capture c" and p: "locate c cur = Inr place"
  shows "BusEventsSince bus cur c = Inr (bus_events_in bus (after c cur), if log c = [] then cur else endLocked c)"
proof -
  obtain i b where ib: "place = (i, b)" by (cases place) auto
  note base = wf_captureD [OF wf]
  have i: "i < length (chunks c)" "after c cur = log_from c (i, b)"
    using locate_after [OF base p [unfolded ib]] by blast+
  have w: "\<forall>ch \<in> set (drop i (chunks c)). wf_chunk ch"
    using base by (auto simp: wf_base_def dest: in_set_dropD)
  show ?thesis
    unfolding BusEventsSince_def p ib ebind_simps prod.case Let_def map_fst_chain newestCursor_end [OF wf i(1)]
    by (simp only: bused.read_members [OF w] members_from_log [OF base i(1)] i(2) ebind_simps)
qed

lemma Series_spec: "wf_capture c \<Longrightarrow> Series key c = series_in key (log c)"
  by (simp add: Series_def SeriesSince_spec [OF _ locate_zero])

lemma BusEvents_spec: "wf_capture c \<Longrightarrow> BusEvents bus c = bus_events_in bus (log c)"
  by (simp add: BusEvents_def BusEventsSince_spec [OF _ locate_zero])

section \<open>Range reads\<close>

text \<open>
  A range of two placed cursors is the part of the log between them: what follows the
  start is the range and then what follows the end.
\<close>

lemma log_from_drop:
  assumes "i < length (chunks c)"
  shows "\<exists>pre. log c = pre @ log_from c (i, b) \<and>
    length pre = sum_list (map (\<lambda>ch. length (c_records ch)) (take i (chunks c))) +
      min (nat (b + 1)) (length (c_records (chunks c ! i)))"
proof -
  let ?l = "chunk_log (cp_generation c) (chunks c ! i)"
  show ?thesis
    by (rule exI [of _ "concat (map (chunk_log (cp_generation c)) (take i (chunks c))) @ take (nat (b + 1)) ?l"])
      (simp add: log_from_def log_chunks_split [OF assms] length_concat_chunk_log min.commute
        del: append_assoc flip: append_assoc, simp)
qed

lemma clip_update: "v\<lparr>v_records := take n (v_records v)\<rparr> = clip n v"
  by (simp add: clip_def)

lemma drop_two:
  assumes "i < j" "j < length xs"
  obtains mid where "drop i xs = xs ! i # mid @ xs ! j # drop (Suc j) xs" "length mid = j - Suc i"
    "drop (Suc i) xs = mid @ xs ! j # drop (Suc j) xs"
proof -
  let ?mid = "take (j - Suc i) (drop (Suc i) xs)"
  have "drop (Suc i) xs = ?mid @ drop (j - Suc i) (drop (Suc i) xs)"
    by (rule append_take_drop_id [symmetric])
  moreover have "drop (j - Suc i) (drop (Suc i) xs) = xs ! j # drop (Suc j) xs"
    using assms by (simp add: Cons_nth_drop_Suc)
  moreover have "drop i xs = xs ! i # drop (Suc i) xs"
    using assms by (simp add: Cons_nth_drop_Suc)
  ultimately show ?thesis
    using that [of ?mid] assms by simp
qed

lemma drop_take_split: "m \<le> n \<Longrightarrow> drop m xs = drop m (take n xs) @ drop n xs"
proof -
  assume "m \<le> n"
  have "drop m xs = drop m (take n xs @ drop n xs)" by simp
  also have "\<dots> = drop m (take n xs) @ drop n xs"
    unfolding drop_append using \<open>m \<le> n\<close> by (cases "n \<le> length xs") simp_all
  finally show ?thesis .
qed

lemma viewsBetween_views:
  assumes wf: "wf_base c" and ij: "i \<le> j" "j < length (chunks c)" "i = j \<longrightarrow> b \<le> e"
  defines "views \<equiv> (map view (take (j - i + 1) (drop i (chunks c))))[j - i := clip (nat (e + 1)) (view (chunks c ! j))]"
  shows "(\<forall>v \<in> set views. wf_view v) \<and>
    log_from c (i, b) = map (visit_entry (cp_generation c)) (visits views (nat (b + 1))) @ log_from c (j, e)"
proof -
  have wfc: "\<And>ch. ch \<in> set (chunks c) \<Longrightarrow> wf_chunk ch" using wf by (simp add: wf_base_def)
  have wfj: "wf_view (clip (nat (e + 1)) (view (chunks c ! j)))"
    using wfc ij(2) by (intro wf_view_clip wf_view_view) simp
  have clipj: "view_log gen (clip n (view (chunks c ! j))) = take n (chunk_log gen (chunks c ! j))" for gen n
    using wf_chunks_small [OF wf, of "chunks c ! j"] ij(2) by (simp add: view_log_clip view_log_view)
  show ?thesis
  proof (cases "i = j")
    case True
    then have "views = [clip (nat (e + 1)) (view (chunks c ! j))]"
      using ij(2) by (simp add: views_def Cons_nth_drop_Suc [symmetric])
    then show ?thesis
      using wfj ij True drop_take_split [of "nat (b + 1)" "nat (e + 1)" "chunk_log (cp_generation c) (chunks c ! j)"]
      by (simp only: visits_log clipj log_from_def) (simp add: nat_le_eq_zle)
  next
    case False
    with ij obtain mid where mid: "drop i (chunks c) = chunks c ! i # mid @ chunks c ! j # drop (Suc j) (chunks c)"
      "length mid = j - Suc i" "drop (Suc i) (chunks c) = mid @ chunks c ! j # drop (Suc j) (chunks c)"
      using drop_two [of i j "chunks c"] by auto
    have "j - i = Suc (length mid)" using mid(2) False ij by simp
    then have views: "views = view (chunks c ! i) # map view mid @ [clip (nat (e + 1)) (view (chunks c ! j))]"
      unfolding views_def mid(1) by (simp add: list_update_append)
    have "set mid \<subseteq> set (chunks c)"
      using mid(3) set_drop_subset [of "Suc i" "chunks c"] by auto
    then have "\<forall>v \<in> set views. wf_view v"
      using wfc wfj ij by (auto simp: views)
    then show ?thesis
      unfolding views visits_log log_from_def prod.case mid(3) view_log_view map_append map_map o_def list.map clipj
        concat_append concat.simps
      by simp
  qed
qed

theorem viewsBetween_spec:
  assumes wf: "wf_base c" and stop: "locate c stop = Inr (j, e)" "e + 1 \<le> int (length (c_records (chunks c ! j)))"
    and start: "locate c start = Inr (i, b)" and ord: "earlier_eq (i, b) (j, e)"
  obtains views skip where "viewsBetween start stop c = Inr (views, skip)" "\<forall>v \<in> set views. wf_view v"
    "after c start = map (visit_entry (cp_generation c)) (visits views skip) @ after c stop"
proof (cases "start = stop")
  case True
  then show ?thesis
    using that [of "[]" 0] stop start ord by (simp add: viewsBetween_def)
next
  case False
  have i: "i < length (chunks c)" "-1 \<le> b" "after c start = log_from c (i, b)"
    using locate_after [OF wf start] by blast+
  have j: "j < length (chunks c)" "-1 \<le> e" "after c stop = log_from c (j, e)"
    using locate_after [OF wf stop(1)] by blast+
  have ij: "i \<le> j" "i = j \<longrightarrow> b \<le> e" "\<not> (i > j \<or> i = j \<and> b > e)"
    using ord by (auto simp: earlier_eq_def)
  have nth: "map view (take (j - i + 1) (drop i (chunks c))) ! (j - i) = view (chunks c ! j)"
    using ij(1) j(1) by simp
  have "viewsBetween start stop c = Inr ((map view (take (j - i + 1) (drop i (chunks c))))
      [j - i := clip (nat (e + 1)) (view (chunks c ! j))], nat (b + 1))"
    unfolding viewsBetween_def stop(1) start ebind_simps emap_simps prod.case if_not_P [OF ij(3)] if_not_P [OF False]
      Let_def nth clip_update
    using stop(2) by simp
  then show ?thesis
    using that viewsBetween_views [OF wf ij(1) j(1) ij(2)] unfolding i(3) j(3) by blast
qed

text \<open>The ranges that are rejected, and the four range reads.\<close>

lemma viewsBetween_error:
  assumes "viewsBetween start stop c = Inl e"
  shows "is_out_of_range e"
  using assms by (auto simp: viewsBetween_def ebind_Inl_iff emap_Inl_iff Let_def split: if_splits)

lemma reversed_range:
  assumes "locate c stop = Inr p" "locate c start = Inr q" "\<not> earlier_eq q p"
  shows "viewsBetween start stop c = Inl RangeReversed"
  using assms by (cases p; cases q) (auto simp: viewsBetween_def earlier_eq_def)

theorem ranges_spec:
  assumes wf: "wf_capture c" and stop: "locate c stop = Inr (j, e)" "e + 1 \<le> int (length (c_records (chunks c ! j)))"
    and start: "locate c start = Inr (i, b)" and ord: "earlier_eq (i, b) (j, e)"
  obtains mid where "after c start = mid @ after c stop"
    "FramesBetween start stop c = Inr (frames_in mid)"
    "EventsBetween start stop c = Inr (events_in mid)"
    "\<And>key. SeriesBetween key start stop c = Inr (series_in key mid)"
    "\<And>bus. BusEventsBetween bus start stop c = Inr (bus_events_in bus mid)"
proof -
  obtain views skip where v: "viewsBetween start stop c = Inr (views, skip)" "\<forall>v \<in> set views. wf_view v"
    "after c start = map (visit_entry (cp_generation c)) (visits views skip) @ after c stop"
    by (rule viewsBetween_spec [OF wf_captureD [OF wf] stop start ord])
  show ?thesis
    by (rule that [of "map (visit_entry (cp_generation c)) (visits views skip)"])
      (use v in \<open>simp_all add: FramesBetween_def EventsBetween_def SeriesBetween_def BusEventsBetween_def
        framesFromViews_log [where gen = "cp_generation c"] eventsFromViews_log [where gen = "cp_generation c"]
        seriesFromViews_log [where gen = "cp_generation c"] busEventsFromViews_log [where gen = "cp_generation c"]\<close>)
qed

section \<open>Streaming\<close>

text \<open>What the writer should see: the entries in order, up to the first call that fails.\<close>

fun write_entry :: "('w, 'x) record_writer \<Rightarrow> entry \<Rightarrow> 'w \<Rightarrow> 'x option \<times> 'w" where
  "write_entry writer (FrameEntry e) w = WriteFrame_of writer e w"
| "write_entry writer (EventEntry e) w = WriteEvent_of writer e w"

fun write_log :: "('w, 'x) record_writer \<Rightarrow> cursor \<Rightarrow> (cursor \<times> entry) list \<Rightarrow> cursor \<Rightarrow> 'w \<Rightarrow>
    cursor \<times> (cursor \<times> 'x) option \<times> 'w" where
  "write_log writer success [] lastWritten w = (success, None, w)"
| "write_log writer success ((cu, e) # l) lastWritten w = (case write_entry writer e w of
       (None, w) \<Rightarrow> write_log writer success l cu w
     | (Some x, w) \<Rightarrow> (lastWritten, Some (cu, x), w))"

lemma write_visit_entry:
  assumes "wf_view v" "r < length (v_records v)"
  shows "write_visit writer v r w = Inr (write_entry writer (snd (visit_entry gen (v, r))) w)"
  using wf_view_visit [OF assms, of gen] frame_not_event by cases (auto simp: write_visit_def)

lemma writeVisits_log:
  assumes "\<forall>x \<in> set xs. wf_view (fst x) \<and> snd x < length (v_records (fst x))"
    "xs \<noteq> [] \<longrightarrow> cu_generation success = gen"
  shows "writeVisits writer success xs lastWritten w =
    Inr (write_log writer success (map (visit_entry gen) xs) lastWritten w)"
  using assms
proof (induction xs arbitrary: lastWritten w)
  case Nil
  then show ?case by simp
next
  case (Cons x xs)
  obtain v r where x: "x = (v, r)" by (cases x) auto
  have "write_visit writer v r w = Inr (write_entry writer (snd (visit_entry gen (v, r))) w)"
    using Cons.prems x by (intro write_visit_entry) auto
  with Cons show ?case
    by (auto simp: x visit_entry_def Let_def split: prod.splits option.splits)
qed

lemma writeRecords_log:
  assumes "\<forall>v \<in> set views. wf_view v" "visits views skip \<noteq> [] \<longrightarrow> cu_generation success = gen"
  shows "writeRecords writer views skip lastWritten success w =
    Inr (write_log writer success (map (visit_entry gen) (visits views skip)) lastWritten w)"
  unfolding writeRecords_def
proof (rule writeVisits_log [OF ballI assms(2)])
  fix x
  assume "x \<in> set (visits views skip)"
  with assms(1) obtain v r where "x = (v, r)" "wf_view v" "r < length (v_records v)"
    by (rule visits_wf)
  then show "wf_view (fst x) \<and> snd x < length (v_records (fst x))" by simp
qed

theorem WriteRecordsSince_spec:
  assumes wf: "wf_capture c" and p: "locate c cur = Inr place"
  shows "WriteRecordsSince writer cur c w =
    Inr (write_log writer (if log c = [] then cur else endLocked c) (after c cur) cur w)"
proof -
  obtain views skip where v: "viewsSince cur c = Inr (views, skip, if log c = [] then cur else endLocked c)"
    "\<forall>v \<in> set views. wf_view v" "map (visit_entry (cp_generation c)) (visits views skip) = after c cur"
    using wf p by (rule viewsSince_spec)
  have "cu_generation (endLocked c) = cp_generation c" if "log c \<noteq> []"
    using that log_generation [of "fst (last (log c))" "snd (last (log c))" c] by (simp add: endLocked_log)
  moreover have "log c = [] \<Longrightarrow> visits views skip = []"
    using v(3) by (simp add: after_def split: if_splits)
  ultimately have gen: "visits views skip \<noteq> [] \<longrightarrow>
      cu_generation (if log c = [] then cur else endLocked c) = cp_generation c"
    by auto
  show ?thesis
    unfolding WriteRecordsSince_def v(1) ebind_simps prod.case writeRecords_log [OF v(2) gen] v(3) ..
qed

lemma WriteRecordsBetween_spec:
  assumes wf: "wf_capture c" and stop: "locate c stop = Inr (j, e)" "e + 1 \<le> int (length (c_records (chunks c ! j)))"
    and start: "locate c start = Inr (i, b)" and ord: "earlier_eq (i, b) (j, e)"
    and gen: "cu_generation stop = cp_generation c"
  obtains mid where "after c start = mid @ after c stop"
    "WriteRecordsBetween writer start stop c w = Inr (write_log writer stop mid start w)"
proof -
  obtain views skip where v: "viewsBetween start stop c = Inr (views, skip)" "\<forall>v \<in> set views. wf_view v"
    "after c start = map (visit_entry (cp_generation c)) (visits views skip) @ after c stop"
    by (rule viewsBetween_spec [OF wf_captureD [OF wf] stop start ord])
  have "WriteRecordsBetween writer start stop c w =
      Inr (write_log writer stop (map (visit_entry (cp_generation c)) (visits views skip)) start w)"
    unfolding WriteRecordsBetween_def v(1) ebind_simps prod.case by (rule writeRecords_log) (simp_all add: v(2) gen)
  with v(3) that show ?thesis by blast
qed

text \<open>
  Where the writer stops: after a failure the returned cursor is that of the last record
  written, so a retry starts at the failed record, and the error's cursor continues behind it.
\<close>

lemma write_log_cases:
  assumes "write_log writer success l lastWritten w = (ret, err, w')"
  shows "err = None \<and> ret = success \<or>
    (\<exists>pre cu e post x. l = pre @ (cu, e) # post \<and> err = Some (cu, x) \<and>
       ret = (if pre = [] then lastWritten else fst (last pre)))"
  using assms
proof (induction writer success l lastWritten w rule: write_log.induct)
  case (2 writer success cu e l lastWritten w)
  obtain r w1 where r: "write_entry writer e w = (r, w1)"
    by (cases "write_entry writer e w")
  show ?case
  proof (cases r)
    case None
    then have rec: "write_log writer success l cu w1 = (ret, err, w')"
      using 2 r by simp
    from "2.IH" [OF r [symmetric] None rec] show ?thesis
    proof (elim disjE exE conjE)
      fix pre cu' e' post x
      assume "l = pre @ (cu', e') # post" "err = Some (cu', x)" "ret = (if pre = [] then cu else fst (last pre))"
      then show ?thesis
        by (intro disjI2 exI [of _ "(cu, e) # pre"] exI [of _ cu'] exI [of _ e'] exI [of _ post]) auto
    qed simp
  next
    case (Some x)
    then show ?thesis
      using 2 r by (intro disjI2 exI [of _ "[]"]) auto
  qed
qed simp

lemma after_suffix_of_log:
  assumes wf: "wf_base c" and p: "locate c cur = Inr (i, b)"
  shows "\<exists>pre. log c = pre @ after c cur"
  using locate_after [OF wf p] log_from_drop [of i c b] by auto

lemma after_split:
  assumes wf: "wf_base c" and p: "locate c cur = Inr (i, b)" and l: "after c cur = pre @ (cu, e) # post"
  shows "after c cu = post"
proof -
  obtain d where d: "log c = (d @ pre) @ (cu, e) # post"
    using after_suffix_of_log [OF wf p] l by auto
  note sorted = log_sorted [OF wf, unfolded d sorted_wrt_append]
  have "\<not> before cu (fst x)" if "x \<in> set (d @ pre)" for x
    using sorted that before_trans [of "fst x" cu "fst x"] by auto
  then have "filter (\<lambda>x. before cu (fst x)) (d @ pre) = []"
    unfolding filter_empty_conv by blast
  moreover have "filter (\<lambda>x. before cu (fst x)) post = post"
    using sorted by (auto simp: filter_id_conv)
  moreover have "cu \<noteq> zero_cursor"
    using wf log_generation [of cu e c] d by (auto simp: wf_base_def zero_cursor_def)
  ultimately show ?thesis
    unfolding after_def d by (simp add: case_prod_unfold)
qed

theorem WriteRecordsSince_resume:
  assumes wf: "wf_capture c" and p: "locate c cur = Inr place"
    and res: "WriteRecordsSince writer cur c w = Inr (ret, Some (failed, x), w')"
  shows "\<exists>pre e post. after c cur = pre @ (failed, e) # post \<and>
    after c ret = (failed, e) # post \<and> after c failed = post"
proof -
  obtain i b where ib: "place = (i, b)" by (cases place) auto
  note base = wf_captureD [OF wf] and p' = p [unfolded ib]
  obtain pre e post where l: "after c cur = pre @ (failed, e) # post"
    "ret = (if pre = [] then cur else fst (last pre))"
    using write_log_cases [of writer "if log c = [] then cur else endLocked c" "after c cur" cur w ret
        "Some (failed, x)" w'] res
    by (auto simp only: WriteRecordsSince_spec [OF wf p])
  have "after c ret = (failed, e) # post"
  proof (cases pre rule: rev_cases)
    case Nil
    then show ?thesis using l by simp
  next
    case (snoc pre' y)
    then show ?thesis
      using l after_split [OF base p', of pre' "fst y" "snd y" "(failed, e) # post"] by simp
  qed
  then show ?thesis
    using l after_split [OF base p'] by blast
qed

end
