(* ===== verification/Capture_Next.thy ===== *)
theory Capture_Next
  imports Capture_Read
begin

text \<open>
  Blocking reads (\<open>Next\<close> in \<open>capture.go\<close>): register a waiter and take the search snapshot
  in one critical section, search the snapshot outside it, and otherwise wait for the first
  matching append. Readers of one key share a waiter and count themselves in it.

  The first half models the three pieces of the call. The second half runs any number of
  readers against any interleaving of appends, pruning, clearing and preallocation, and
  shows that no wakeup is lost: a reader that the snapshot did not satisfy is woken with
  exactly the first matching frame appended since it registered.
\<close>

section \<open>The search\<close>

record next_search =
  ns_key :: frame_key
  ns_generation :: u64
  ns_chunks :: "chunk list"
  ns_activeView :: capture_view
  ns_activeState :: key_state
  ns_start :: nat
  ns_boundary :: int

definition nextSearchLocked :: "frame_key \<Rightarrow> cursor \<Rightarrow> capture \<Rightarrow> capture_error + next_search" where
  "nextSearchLocked key cur c = ebind (locate c cur) (\<lambda>(start, boundary).
     Inr \<lparr>ns_key = key, ns_generation = cp_generation c, ns_chunks = chunks c,
          ns_activeView = view (cp_active c), ns_activeState = keyStates_at (cp_active c) key,
          ns_start = start, ns_boundary = boundary\<rparr>)"

definition chunkAt :: "next_search \<Rightarrow> nat \<Rightarrow> capture_view \<times> key_state" where
  "chunkAt s index =
     (if index = length (ns_chunks s) - 1 then (ns_activeView s, ns_activeState s)
      else (view (ns_chunks s ! index), keyStates_at (ns_chunks s ! index) (ns_key s)))"

text \<open>The loop over the chunks; \<open>first\<close> is the last record the backward walk visits.\<close>

fun find_chunks :: "next_search \<Rightarrow> nat list \<Rightarrow> capture_error + (frame_event \<times> cursor) option" where
  "find_chunks s [] = Inr None"
| "find_chunks s (chunkIndex # rest) =
     (let (v, state) = chunkAt s chunkIndex;
          stop = (if chunkIndex = ns_start s then ns_boundary s else -1)
      in if ks_count state = 0 then find_chunks s rest
         else ebind (walk frame_previous (v_records v) stop (length (v_records v)) (ks_lastRecord state))
           (\<lambda>visited. if visited = [] then find_chunks s rest
              else let first = last visited
                in ebind (frameAt v first) (\<lambda>e.
                     Inr (Some (e, \<lparr>cu_generation = ns_generation s, cu_chunk = v_sequence v,
                                    cu_record = first\<rparr>)))))"

definition find_next :: "next_search \<Rightarrow> capture_error + (frame_event \<times> cursor) option" where
  "find_next s = find_chunks s [ns_start s..<length (ns_chunks s)]"

section \<open>Waiters\<close>

text \<open>\<open>a\<close> is the address of the allocation, when there is one.\<close>

definition addWaiter :: "frame_key \<Rightarrow> cursor \<Rightarrow> nat \<Rightarrow> capture \<Rightarrow> capture_error + nat \<times> next_search \<times> capture" where
  "addWaiter key cur a c = ebind (nextSearchLocked key cur c) (\<lambda>search.
     let (w, c) = (case cp_waiters c key of
            Some w \<Rightarrow> (w, c)
          | None \<Rightarrow> (a, c\<lparr>cp_waiters := (cp_waiters c)(key \<mapsto> a),
                       cp_store := (cp_store c)(a \<mapsto>
                         \<lparr>w_ready = False, w_count = 0, w_event = zero_frame_event, w_cursor = zero_cursor\<rparr>)\<rparr>))
     in Inr (w, search, c\<lparr>cp_store := (cp_store c)(w := map_option (\<lambda>x. x\<lparr>w_count := w_count x + 1\<rparr>) (cp_store c w))\<rparr>))"

definition removeWaiter :: "frame_key \<Rightarrow> nat \<Rightarrow> capture \<Rightarrow> capture" where
  "removeWaiter key w c =
     (if cp_waiters c key \<noteq> Some w then c
      else case cp_store c w of
        None \<Rightarrow> c
      | Some x \<Rightarrow>
          let c1 = c\<lparr>cp_store := (cp_store c)(w \<mapsto> x\<lparr>w_count := w_count x - 1\<rparr>)\<rparr>
          in if w_count x - 1 = 0 then c1\<lparr>cp_waiters := (cp_waiters c1)(key := None)\<rparr> else c1)"

section \<open>What the search finds\<close>

fun first_match :: "frame_key \<Rightarrow> (cursor \<times> entry) list \<Rightarrow> (frame_event \<times> cursor) option" where
  "first_match key [] = None"
| "first_match key ((cu, FrameEntry e) # l) = (if Key e = key then Some (e, cu) else first_match key l)"
| "first_match key ((cu, EventEntry v) # l) = first_match key l"

lemma first_match_append:
  "first_match key (l @ m) = (case first_match key l of None \<Rightarrow> first_match key m | Some x \<Rightarrow> Some x)"
  by (induction key l rule: first_match.induct) auto

text \<open>In one chunk, the first match is the oldest record of the series after the boundary.\<close>

lemma first_match_chunk:
  assumes wf: "wf_chunk ch"
  shows "first_match key (drop (nat (stop + 1)) (chunk_log gen ch)) =
    (case key_series ch key stop of [] \<Rightarrow> None
     | i # _ \<Rightarrow> Some (frame_elem ch i, cursor_at gen ch i))"
proof -
  have "first_match key (map (\<lambda>i. (cursor_at gen ch i, entry_of ch i)) js) =
      (case filter (\<lambda>i. record_key ch i = Some key) js of [] \<Rightarrow> None
       | i # _ \<Rightarrow> Some (frame_elem ch i, cursor_at gen ch i))"
    if "\<forall>i \<in> set js. i < length (c_records ch)" for js
    using that
  proof (induction js)
    case (Cons i js)
    then show ?case
      using record_key_entry [OF wf, of i key] by (cases "entry_of ch i") auto
  qed simp
  then show ?thesis
    by (simp add: chunk_log_def drop_map series_indices_upt)
qed

lemma find_chunks_step:
  assumes wf: "wf_chunk ch" and at: "chunkAt s i = (view ch, keyStates_at ch (ns_key s))"
  defines "stop \<equiv> (if i = ns_start s then ns_boundary s else -1)"
  shows "find_chunks s (i # rest) =
    (case first_match (ns_key s) (drop (nat (stop + 1)) (chunk_log (ns_generation s) ch)) of
       None \<Rightarrow> find_chunks s rest | Some x \<Rightarrow> Inr (Some x))"
proof (cases "ks_count (keyStates_at ch (ns_key s)) = 0")
  case True
  then have "key_series ch (ns_key s) (-1) = []"
    using keyStates_at_count [OF wf, of "ns_key s"] by simp
  then have "key_series ch (ns_key s) stop = []"
    by (auto simp: series_indices_def filter_empty_conv)
  then show ?thesis
    unfolding first_match_chunk [OF wf] by (simp add: at True Let_def)
next
  case False
  note walk = walk_keyStates_at [OF wf False, of stop]
  show ?thesis
  proof (cases "key_series ch (ns_key s) stop")
    case Nil
    then show ?thesis
      unfolding first_match_chunk [OF wf]
      using walk by (simp add: at False Let_def stop_def)
  next
    case (Cons i0 js)
    then have "i0 \<in> set (key_series ch (ns_key s) stop)" by simp
    then have "record_key ch i0 = Some (ns_key s)" "i0 < length (c_records ch)"
      by (auto simp: set_series_indices)
    then have "frameAt (view ch) (word_of_nat i0) = Inr (frame_elem ch i0)"
      using record_key_entry [OF wf] by blast
    then show ?thesis
      unfolding first_match_chunk [OF wf]
      using walk Cons by (simp add: at False Let_def stop_def cursor_at_def last_rev)
  qed
qed

theorem find_next_spec:
  assumes wf: "wf_capture c" and s: "nextSearchLocked key cur c = Inr s"
  shows "find_next s = Inr (first_match key (after c cur))"
proof -
  note base = wf_captureD [OF wf]
  obtain i b where p: "locate c cur = Inr (i, b)"
    and s': "s = \<lparr>ns_key = key, ns_generation = cp_generation c, ns_chunks = chunks c,
          ns_activeView = view (cp_active c), ns_activeState = keyStates_at (cp_active c) key,
          ns_start = i, ns_boundary = b\<rparr>"
    using s by (auto simp: nextSearchLocked_def ebind_Inr_iff)
  have i: "i < length (chunks c)" "after c cur = log_from c (i, b)"
    using locate_after [OF base p] by blast+
  have at: "chunkAt s j = (view (chunks c ! j), keyStates_at (chunks c ! j) key)" if "j < length (chunks c)" for j
    using that by (auto simp: chunkAt_def s' chunks_def nth_append)
  have wfj: "wf_chunk (chunks c ! j)" if "j < length (chunks c)" for j
    using base that by (simp add: wf_base_def)
  have one: "find_chunks s (j # js) = (case first_match key (drop (nat ((if j = i then b else -1) + 1)) (chunk_log (cp_generation c) (chunks c ! j))) of
       None \<Rightarrow> find_chunks s js | Some x \<Rightarrow> Inr (Some x))" if "j < length (chunks c)" for j js
    using find_chunks_step [OF wfj [OF that], of s j js] at [OF that] by (simp add: s')
  have rest: "find_chunks s [j..<length (chunks c)] =
      Inr (first_match key (concat (map (chunk_log (cp_generation c)) (drop j (chunks c)))))"
    if "i < j" "j \<le> length (chunks c)" for j
    using that(2,1)
  proof (induction rule: inc_induct)
    case (step j)
    then show ?case
      using one [of j]
      by (simp add: upt_conv_Cons Cons_nth_drop_Suc [symmetric] first_match_append split: option.splits)
  qed simp
  show ?thesis
    using one [OF i(1)] rest [of "Suc i"] i
    by (simp add: find_next_def s' upt_conv_Cons log_from_def first_match_append split: option.splits)
qed

section \<open>Readers and writers together\<close>

text \<open>
  A reader inside \<open>Next\<close>, after its critical section. The last two fields are ghosts: the
  entries after its cursor when it registered, and those appended since.
\<close>

record reader =
  rd_key :: frame_key
  rd_waiter :: nat
  rd_search :: next_search
  rd_snapshot :: "(cursor \<times> entry) list"
  rd_hist :: "(cursor \<times> entry) list"

record system =
  sy_capture :: capture
  sy_readers :: "reader list"

definition observe :: "(cursor \<times> entry) list \<Rightarrow> reader list \<Rightarrow> reader list" where
  "observe new = map (\<lambda>r. r\<lparr>rd_hist := rd_hist r @ new\<rparr>)"

text \<open>What the pending call of a reader returns if it runs on now; \<open>None\<close> when it blocks.\<close>

definition next_result :: "capture \<Rightarrow> reader \<Rightarrow> (frame_event \<times> cursor) option" where
  "next_result c r = (case find_next (rd_search r) of
       Inr (Some x) \<Rightarrow> Some x
     | _ \<Rightarrow> (case cp_store c (rd_waiter r) of
         Some w \<Rightarrow> (if w_ready w then Some (w_event w, w_cursor w) else None)
       | None \<Rightarrow> None))"

text \<open>
  The steps. \<open>leave\<close> is a return that calls \<open>removeWaiter\<close>: the search found a frame, or
  the context ended. \<open>woken\<close> is the receive on the closed channel.
\<close>

inductive sys_step :: "system \<Rightarrow> system \<Rightarrow> bool" where
  register: "addWaiter key cur a c = Inr (w, s, c') \<Longrightarrow> cp_store c a = None \<Longrightarrow>
    sys_step \<lparr>sy_capture = c, sy_readers = rs\<rparr>
      \<lparr>sy_capture = c', sy_readers = \<lparr>rd_key = key, rd_waiter = w, rd_search = s,
         rd_snapshot = after c cur, rd_hist = []\<rparr> # rs\<rparr>"
| leave: "r \<in> set rs \<Longrightarrow>
    sys_step \<lparr>sy_capture = c, sy_readers = rs\<rparr>
      \<lparr>sy_capture = removeWaiter (rd_key r) (rd_waiter r) c, sy_readers = remove1 r rs\<rparr>"
| woken: "r \<in> set rs \<Longrightarrow> cp_store c (rd_waiter r) = Some x \<Longrightarrow> w_ready x \<Longrightarrow>
    sys_step \<lparr>sy_capture = c, sy_readers = rs\<rparr> \<lparr>sy_capture = c, sy_readers = remove1 r rs\<rparr>"
| append_frame: "appendFrame ev live el c = Inr c' \<Longrightarrow> wf_frame (fe_frame ev) \<Longrightarrow> sequence_room c \<Longrightarrow>
    sys_step \<lparr>sy_capture = c, sy_readers = rs\<rparr>
      \<lparr>sy_capture = c', sy_readers = observe (drop (length (log c)) (log c')) rs\<rparr>"
| append_event: "appendEvent ev live el c = Inr c' \<Longrightarrow> sequence_room c \<Longrightarrow>
    sys_step \<lparr>sy_capture = c, sy_readers = rs\<rparr>
      \<lparr>sy_capture = c', sy_readers = observe (drop (length (log c)) (log c')) rs\<rparr>"
| allocate: "sys_step \<lparr>sy_capture = c, sy_readers = rs\<rparr>
    \<lparr>sy_capture = finishAllocation c, sy_readers = rs\<rparr>"
| prune: "Prune curs c = Inr c' \<Longrightarrow> \<forall>cur \<in> set curs. valid_cursor c cur \<Longrightarrow>
    sys_step \<lparr>sy_capture = c, sy_readers = rs\<rparr> \<lparr>sy_capture = c', sy_readers = rs\<rparr>"
| clear: "Clear epochs c = (epochs', c') \<Longrightarrow> epochs + 1 \<noteq> 0 \<Longrightarrow>
    sys_step \<lparr>sy_capture = c, sy_readers = rs\<rparr> \<lparr>sy_capture = c', sy_readers = rs\<rparr>"

definition reader_ok :: "capture \<Rightarrow> reader \<Rightarrow> bool" where
  "reader_ok c r \<longleftrightarrow> find_next (rd_search r) = Inr (first_match (rd_key r) (rd_snapshot r)) \<and>
     (\<exists>x. cp_store c (rd_waiter r) = Some x \<and>
       (case first_match (rd_key r) (rd_hist r) of
          None \<Rightarrow> cp_waiters c (rd_key r) = Some (rd_waiter r)
        | Some (e, cu) \<Rightarrow> w_ready x \<and> w_event x = e \<and> w_cursor x = cu))"

definition counts_ok :: "capture \<Rightarrow> reader list \<Rightarrow> bool" where
  "counts_ok c rs \<longleftrightarrow> (\<forall>k w x. cp_waiters c k = Some w \<longrightarrow> cp_store c w = Some x \<longrightarrow>
     w_count x = int (length (filter (\<lambda>r. rd_waiter r = w) rs)))"

definition sys_ok :: "system \<Rightarrow> bool" where
  "sys_ok s \<longleftrightarrow> wf_capture (sy_capture s) \<and> counts_ok (sy_capture s) (sy_readers s) \<and>
     (\<forall>r \<in> set (sy_readers s). reader_ok (sy_capture s) r)"

text \<open>Everything but the waiters is left alone by the waiter operations.\<close>

lemma wf_capture_waiters:
  assumes "wf_capture c" "waiters_ok c'" "c' = c\<lparr>cp_waiters := cp_waiters c', cp_store := cp_store c'\<rparr>"
  shows "wf_capture c' \<and> log c' = log c"
proof -
  define ws st where "ws = cp_waiters c'" and "st = cp_store c'"
  have c': "c' = c\<lparr>cp_waiters := ws, cp_store := st\<rparr>"
    using assms(3) by (simp add: ws_def st_def)
  show ?thesis
    using assms(1,2) unfolding wf_capture_def wf_base_def
    by (simp add: c' chunks_def sequences_ok_def first_sequence_def log_def latest_ok_def)
qed

lemma wf_waiters_ok: "wf_capture c \<Longrightarrow> waiters_ok c"
  by (simp add: wf_capture_def wf_base_def)

lemma waiters_okD:
  assumes "wf_capture c" "cp_waiters c k = Some w"
  obtains x where "cp_store c w = Some x" "\<not> w_ready x" "w_count x > 0"
  using wf_waiters_ok [OF assms(1)] assms(2) unfolding waiters_ok_def by blast

lemma waiters_ok_inj: "wf_capture c \<Longrightarrow> cp_waiters c k = Some w \<Longrightarrow> cp_waiters c k' = Some w \<Longrightarrow> k = k'"
  using wf_waiters_ok [of c] unfolding waiters_ok_def by blast

text \<open>A reader that is woken is no longer in the table, so nobody writes its waiter again.\<close>

lemma reader_ok_same: "same_waiters c c' \<Longrightarrow> reader_ok c' r = reader_ok c r"
  by (simp add: reader_ok_def same_waiters_def split: option.split)

lemma counts_ok_same: "same_waiters c c' \<Longrightarrow> counts_ok c' rs = counts_ok c rs"
  by (simp add: counts_ok_def same_waiters_def)

lemma wake_reader_ok:
  assumes wf: "wf_capture c" and r: "reader_ok c r" and new: "new = [(cu, FrameEntry e)]"
  shows "reader_ok (wakeWaitersLocked (Key e) e cu c) (r\<lparr>rd_hist := rd_hist r @ new\<rparr>)"
proof -
  obtain x where x: "cp_store c (rd_waiter r) = Some x" using r by (auto simp: reader_ok_def)
  show ?thesis
  proof (cases "first_match (rd_key r) (rd_hist r)")
    case (Some y)
    then have "w_ready x" using r x by (auto simp: reader_ok_def split: prod.splits)
    then have "cp_waiters c k \<noteq> Some (rd_waiter r)" for k
      using x waiters_okD [OF wf] by (metis option.inject)
    then show ?thesis
      using r x Some by (auto simp: reader_ok_def wakeWaitersLocked_def first_match_append split: option.splits prod.splits)
  next
    case None
    then have reg: "cp_waiters c (rd_key r) = Some (rd_waiter r)" using r by (auto simp: reader_ok_def)
    have find: "find_next (rd_search r) = Inr (first_match (rd_key r) (rd_snapshot r))"
      using r by (simp add: reader_ok_def)
    show ?thesis
    proof (cases "rd_key r = Key e")
      case True
      then show ?thesis
        using find x reg None by (simp add: reader_ok_def wakeWaitersLocked_def first_match_append new)
    next
      case False
      then have "cp_waiters c (Key e) \<noteq> Some (rd_waiter r)"
        using waiters_ok_inj [OF wf reg] by blast
      then show ?thesis
        using find x reg None False False [symmetric]
        by (cases "cp_waiters c (Key e)")
          (auto simp add: reader_ok_def wakeWaitersLocked_def first_match_append new)
    qed
  qed
qed

lemma wake_counts_ok:
  assumes wf: "wf_capture c" and "counts_ok c rs"
  shows "counts_ok (wakeWaitersLocked k e cu c) (observe new rs)"
proof -
  have "filter (\<lambda>r. rd_waiter r = w) (observe new rs) = observe new (filter (\<lambda>r. rd_waiter r = w) rs)" for w
    by (simp add: observe_def filter_map o_def)
  then have len: "length (filter (\<lambda>r. rd_waiter r = w) (observe new rs)) = length (filter (\<lambda>r. rd_waiter r = w) rs)" for w
    by (simp add: observe_def)
  show ?thesis
    using assms(2) waiters_ok_inj [OF wf, of k]
    by (auto simp: counts_ok_def len wakeWaitersLocked_def split: option.splits if_splits)
qed

text \<open>Registration and removal.\<close>

lemma addWaiter_spec:
  assumes wf: "wf_capture c" and counts: "counts_ok c rs" and a: "cp_store c a = None"
    and rs: "\<forall>r \<in> set rs. reader_ok c r" and add: "addWaiter key cur a c = Inr (w, s, c')"
  shows "wf_capture c'" "log c' = log c" "\<forall>r \<in> set rs. reader_ok c' r" "nextSearchLocked key cur c = Inr s"
    "cp_waiters c' key = Some w" "\<exists>x. cp_store c' w = Some x"
    "\<And>r. rd_waiter r = w \<Longrightarrow> counts_ok c' (r # rs)"
proof -
  note ok = wf_waiters_ok [OF wf]
  have fresh: "rd_waiter r \<noteq> a" if "r \<in> set rs" for r
    using rs that a by (auto simp: reader_ok_def)
  have unreg: "cp_waiters c k \<noteq> Some a" for k
    using waiters_okD [OF wf, of k a] a by auto
  show s: "nextSearchLocked key cur c = Inr s"
    using add by (auto simp: addWaiter_def ebind_Inr_iff Let_def split: option.splits)
  have "w = (case cp_waiters c key of None \<Rightarrow> a | Some w \<Rightarrow> w)"
    using add s by (auto simp: addWaiter_def Let_def split: option.splits)
  obtain x where x: "\<not> w_ready x" "w_count x \<ge> 0" "cp_store c' = (cp_store c)(w \<mapsto> x\<lparr>w_count := w_count x + 1\<rparr>)"
      "cp_waiters c' = (cp_waiters c)(key \<mapsto> w)"
      "c' = c\<lparr>cp_waiters := cp_waiters c', cp_store := cp_store c'\<rparr>"
      "cp_waiters c key = Some w \<and> cp_store c w = Some x \<or> cp_waiters c key = None \<and> w = a \<and> w_count x = 0"
  proof (cases "cp_waiters c key")
    case None
    let ?x = "\<lparr>w_ready = False, w_count = 0, w_event = zero_frame_event, w_cursor = zero_cursor\<rparr>"
    have "w = a" "c' = c\<lparr>cp_waiters := (cp_waiters c)(key \<mapsto> a),
        cp_store := (cp_store c)(a \<mapsto> ?x\<lparr>w_count := w_count ?x + 1\<rparr>)\<rparr>"
      using add None s by (auto simp: addWaiter_def Let_def)
    with None show ?thesis by (intro that [of ?x]) simp_all
  next
    case (Some w0)
    then obtain x where x: "cp_store c w0 = Some x" "\<not> w_ready x" "w_count x > 0"
      using waiters_okD [OF wf] by blast
    have "w = w0" "c' = c\<lparr>cp_store := (cp_store c)(w0 \<mapsto> x\<lparr>w_count := w_count x + 1\<rparr>)\<rparr>"
      using add Some s x by (auto simp: addWaiter_def Let_def)
    with Some x show ?thesis by (intro that [of x]) (simp_all add: fun_upd_idem)
  qed
  have wk: "waiters_ok c'"
    using ok x(1,2,6) unreg unfolding waiters_ok_def x(3,4) by auto
  show "wf_capture c'" "log c' = log c"
    using wf_capture_waiters [OF wf wk x(5)] by blast+
  show "cp_waiters c' key = Some w" "\<exists>x. cp_store c' w = Some x"
    by (simp_all add: x(3,4))
  show "\<forall>r \<in> set rs. reader_ok c' r"
  proof
    fix r
    assume r: "r \<in> set rs"
    then have "reader_ok c r" using rs by blast
    moreover have "\<not> w_ready x" "rd_waiter r = w \<Longrightarrow> cp_store c w = Some x"
      using x(1,6) fresh [OF r] by auto
    moreover have "cp_waiters c (rd_key r) = Some (rd_waiter r) \<Longrightarrow> cp_waiters c' (rd_key r) = Some (rd_waiter r)"
      using x(6) by (auto simp: x(4))
    ultimately show "reader_ok c' r"
      by (auto simp: reader_ok_def x(3) split: option.splits)
  qed
  fix r :: reader
  assume r: "rd_waiter r = w"
  have "w_count x = int (length (filter (\<lambda>r. rd_waiter r = w) rs))"
    using x(6) counts fresh by (auto simp: counts_ok_def filter_empty_conv)
  then show "counts_ok c' (r # rs)"
    using counts waiters_ok_inj [OF wf, of _ w key] unreg x(6) r
    by (auto simp: counts_ok_def x(3,4))
qed

lemma filter_remove1_length:
  "r \<in> set rs \<Longrightarrow> length (filter P (remove1 r rs)) = length (filter P rs) - (if P r then 1 else 0)"
  by (simp add: filter_remove1 length_remove1)

lemma removeWaiter_spec:
  assumes wf: "wf_capture c" and counts: "counts_ok c rs" and rs: "\<forall>r \<in> set rs. reader_ok c r" and r: "r \<in> set rs"
  defines "c' \<equiv> removeWaiter (rd_key r) (rd_waiter r) c"
  shows "wf_capture c' \<and> log c' = log c \<and> counts_ok c' (remove1 r rs) \<and> (\<forall>q \<in> set (remove1 r rs). reader_ok c' q)"
proof (cases "cp_waiters c (rd_key r) = Some (rd_waiter r)")
  case False
  then have c': "c' = c" by (simp add: c'_def removeWaiter_def)
  have "cp_waiters c k \<noteq> Some (rd_waiter r)" for k
  proof
    assume k: "cp_waiters c k = Some (rd_waiter r)"
    then obtain x where "cp_store c (rd_waiter r) = Some x" "\<not> w_ready x"
      using waiters_okD [OF wf] by blast
    moreover have "reader_ok c r" using rs r by blast
    ultimately show False
      using False by (auto simp: reader_ok_def split: option.splits)
  qed
  then have "counts_ok c (remove1 r rs)"
    using counts filter_remove1_length [OF r] by (auto simp: counts_ok_def)
  then show ?thesis
    using wf rs notin_set_remove1 by (auto simp: c')
next
  case True
  obtain x where x: "cp_store c (rd_waiter r) = Some x" "\<not> w_ready x" "w_count x > 0"
    using waiters_okD [OF wf True] by blast
  let ?n = "length (filter (\<lambda>q. rd_waiter q = rd_waiter r) rs)"
  have n: "w_count x = int ?n" using counts True x by (simp add: counts_ok_def)
  have c': "cp_store c' = (cp_store c)(rd_waiter r \<mapsto> x\<lparr>w_count := w_count x - 1\<rparr>)"
      "cp_waiters c' = (if w_count x = 1 then (cp_waiters c)(rd_key r := None) else cp_waiters c)"
      "c' = c\<lparr>cp_waiters := cp_waiters c', cp_store := cp_store c'\<rparr>"
    using True x by (simp_all add: c'_def removeWaiter_def Let_def)
  note inj = waiters_ok_inj [OF wf True]
  have wk: "waiters_ok c'"
    using wf_waiters_ok [OF wf] x inj unfolding waiters_ok_def c'(1,2) by (auto split: if_splits)
  obtain m where "?n = Suc m" using n x(3) by (cases ?n) auto
  then have "counts_ok c' (remove1 r rs)"
    using counts filter_remove1_length [OF r] x n inj
    by (auto simp: counts_ok_def c'(1,2) split: if_splits)
  moreover have "reader_ok c' q" if q: "q \<in> set (remove1 r rs)" for q
  proof -
    have ok: "reader_ok c q" using q rs notin_set_remove1 by fastforce
    have "cp_waiters c' (rd_key q) = Some (rd_waiter q)" if reg: "cp_waiters c (rd_key q) = Some (rd_waiter q)"
    proof (cases "rd_key q = rd_key r \<and> w_count x = 1")
      case True
      then have "rd_waiter q = rd_waiter r" using reg \<open>cp_waiters c (rd_key r) = Some (rd_waiter r)\<close> by simp
      then have "q \<in> set (filter (\<lambda>q. rd_waiter q = rd_waiter r) (remove1 r rs))" using q by simp
      moreover have "length (filter (\<lambda>q. rd_waiter q = rd_waiter r) (remove1 r rs)) = 0"
        using filter_remove1_length [OF r, of "\<lambda>q. rd_waiter q = rd_waiter r"] n True by simp
      ultimately show ?thesis by (metis length_0_conv list.set(1) empty_iff)
    qed (use reg in \<open>auto simp: c'(2)\<close>)
    then show ?thesis
      using ok x by (auto simp: reader_ok_def c'(1) split: option.splits)
  qed
  ultimately show ?thesis
    using wf_capture_waiters [OF wf wk c'(3)] by blast
qed

section \<open>No wakeup is lost\<close>

lemma observe_simps [simp]:
  "observe [] rs = rs" "set (observe new rs) = (\<lambda>r. r\<lparr>rd_hist := rd_hist r @ new\<rparr>) ` set rs"
  by (simp_all add: observe_def)

lemma counts_ok_observe: "counts_ok c (observe new rs) = counts_ok c rs"
proof -
  have "length (filter (\<lambda>r. rd_waiter r = w) (observe new rs)) = length (filter (\<lambda>r. rd_waiter r = w) rs)" for w
    by (simp add: observe_def filter_map o_def)
  then show ?thesis by (simp add: counts_ok_def)
qed

lemma reader_ok_event: "reader_ok c (r\<lparr>rd_hist := rd_hist r @ [(cu, EventEntry v)]\<rparr>) = reader_ok c r"
  by (simp add: reader_ok_def first_match_append split: option.split)

lemma sys_okI: "wf_capture c \<Longrightarrow> counts_ok c rs \<Longrightarrow> \<forall>r \<in> set rs. reader_ok c r \<Longrightarrow>
    sys_ok \<lparr>sy_capture = c, sy_readers = rs\<rparr>"
  by (simp add: sys_ok_def)

lemma sys_ok_same:
  assumes "sys_ok \<lparr>sy_capture = c, sy_readers = rs\<rparr>" "wf_capture c'" "same_waiters c c'"
  shows "sys_ok \<lparr>sy_capture = c', sy_readers = rs\<rparr>"
  using assms by (simp add: sys_ok_def counts_ok_same reader_ok_same)

lemma finishAllocation_waiters: "same_waiters c (finishAllocation c)"
  by (simp add: same_waiters_def finishAllocation_def split: option.splits)

lemma Prune_result:
  assumes wf: "wf_capture c" and "Prune curs c = Inr c'" "\<forall>cur \<in> set curs. valid_cursor c cur"
  shows "wf_capture c' \<and> same_waiters c c'"
proof (cases "curs = []")
  case True
  with assms show ?thesis by (simp add: Prune_def same_waiters_def)
next
  case False
  note base = wf_captureD [OF wf]
  obtain cur i b where p: "Prune curs c = Inr (drop_chunks (prune_count c i b) c)"
    by (rule Prune_place [OF base _ False]) (use assms(3) in auto)
  then have "c' = drop_chunks (prune_count c i b) c" using assms(2) by simp
  then have "same_waiters c c'" by (simp add: same_waiters_def drop_chunks_def)
  moreover obtain c'' where "Prune curs c = Inr c''" "wf_capture c''"
    by (rule Prune_spec [OF wf _ False]) (use assms(3) in auto)
  ultimately show ?thesis using assms(2) by simp
qed

lemma sys_step_ok:
  assumes "sys_step s s'" "sys_ok s"
  shows "sys_ok s'"
  using assms
proof (induction rule: sys_step.induct)
  case (register key cur a c w s c' rs)
  then have wf: "wf_capture c" and counts: "counts_ok c rs" and rs: "\<forall>r \<in> set rs. reader_ok c r"
    by (simp_all add: sys_ok_def)
  note add = addWaiter_spec [OF wf counts register(2) rs register(1)]
  show ?case
    using add find_next_spec [OF wf add(4)] by (intro sys_okI) (auto simp: reader_ok_def)
next
  case (leave r rs c)
  then show ?case
    using removeWaiter_spec [of c rs r] by (simp add: sys_ok_def)
next
  case (woken r rs c x)
  then have wf: "wf_capture c" by (simp add: sys_ok_def)
  have "cp_waiters c k \<noteq> Some (rd_waiter r)" for k
    using waiters_okD [OF wf, of k "rd_waiter r"] woken(2,3) by auto
  then have "counts_ok c (remove1 r rs)"
    using woken filter_remove1_length [OF woken(1)] by (auto simp: counts_ok_def sys_ok_def)
  then show ?case
    using woken notin_set_remove1 by (auto simp: sys_ok_def)
next
  case (append_frame ev live el c c' rs)
  then have wf: "wf_capture c" and counts: "counts_ok c rs" and rs: "\<forall>r \<in> set rs. reader_ok c r"
    by (simp_all add: sys_ok_def)
  have ok: "frame_event_Validate ev = Inr ()"
    using append_frame(1) by (cases "frame_event_Validate ev") (auto simp: appendFrame_error)
  let ?st = "stored_frame (record_timestamp (fe_timestamp ev) live el c) ev"
  obtain cu where a: "wf_capture c'" "log c' = log c @ [(cu, FrameEntry ?st)]"
      "same_waiters (wakeWaitersLocked (Key ?st) ?st cu c) c'"
    using appendFrame_spec [OF wf append_frame(3,2) ok, of live el] append_frame(1) by auto
  show ?case
    using a wake_counts_ok [OF wf counts, of "Key ?st" ?st cu] wake_reader_ok [OF wf _ refl] rs
    by (intro sys_okI) (simp_all add: counts_ok_same [OF a(3)] reader_ok_same [OF a(3)] del: Key_stored_frame)
next
  case (append_event ev live el c c' rs)
  then have wf: "wf_capture c" and ok: "event_Validate ev = Inr ()"
    by (simp add: sys_ok_def, cases "event_Validate ev", auto simp: appendEvent_error)
  obtain cu v where a: "wf_capture c'" "log c' = log c @ [(cu, EventEntry v)]" "same_waiters c c'"
    using appendEvent_spec [OF wf append_event(2) ok, of live el] append_event(1) by auto
  show ?case
    using append_event(3) a by (intro sys_okI)
      (auto simp: sys_ok_def counts_ok_same [OF a(3)] reader_ok_same [OF a(3)] counts_ok_observe reader_ok_event)
next
  case (allocate c rs)
  then have "wf_capture c" by (simp add: sys_ok_def)
  then show ?case
    using sys_ok_same [OF allocate _ finishAllocation_waiters] finishAllocation_wf by blast
next
  case (prune curs c c' rs)
  then have "wf_capture c" by (simp add: sys_ok_def)
  then show ?case
    using Prune_result [OF _ prune(1,2)] sys_ok_same [OF prune(3)] by blast
next
  case (clear epochs c epochs' c' rs)
  then have wf: "wf_capture c" by (simp add: sys_ok_def)
  note clr = Clear_spec [OF wf clear(2,1)]
  then have "same_waiters c c'" by (simp add: same_waiters_def)
  then show ?case using sys_ok_same [OF clear(3) clr(1)] by simp
qed

lemma sys_steps_ok: "sys_step\<^sup>*\<^sup>* s s' \<Longrightarrow> sys_ok s \<Longrightarrow> sys_ok s'"
  by (induction rule: rtranclp_induct) (auto intro: sys_step_ok)

lemma sys_ok_start: "wf_capture c \<Longrightarrow> cp_waiters c = Map.empty \<Longrightarrow> sys_ok \<lparr>sy_capture = c, sy_readers = []\<rparr>"
  by (simp add: sys_ok_def counts_ok_def)

theorem next_result_ok:
  assumes ok: "sys_ok s" and r: "r \<in> set (sy_readers s)"
  shows "next_result (sy_capture s) r = first_match (rd_key r) (rd_snapshot r @ rd_hist r)"
proof -
  let ?c = "sy_capture s"
  have wf: "wf_capture ?c" and ro: "reader_ok ?c r" using ok r by (auto simp: sys_ok_def)
  obtain x where x: "cp_store ?c (rd_waiter r) = Some x" using ro by (auto simp: reader_ok_def)
  have "\<not> w_ready x" if "cp_waiters ?c (rd_key r) = Some (rd_waiter r)"
    using waiters_okD [OF wf that] x by auto
  then show ?thesis
    using ro x by (auto simp: next_result_def reader_ok_def first_match_append split: option.splits)
qed

end
