(* ===== verification/Capture_Theorems.thy ===== *)
theory Capture_Theorems
  imports Capture_Next
begin

text \<open>
  What the capture promises its callers, stated over the operations of \<open>capture.go\<close> and
  \<open>capture_range.go\<close> and proved from the component theories, with a concrete capture on
  which every hypothesis holds.
\<close>

section \<open>A concrete capture\<close>

definition example_frame :: "u32 \<Rightarrow> byte \<Rightarrow> frame" where
  "example_frame ident b = \<lparr>f_id = ident, f_data = b # replicate 63 0, f_dlc = 1, f_flags = 0\<rparr>"

definition example_event :: "u32 \<Rightarrow> byte \<Rightarrow> int \<Rightarrow> frame_event" where
  "example_event ident b t = \<lparr>fe_bus = 1, fe_timestamp = t, fe_direction = DirectionReceive,
     fe_frame = example_frame ident b\<rparr>"

definition example_writes :: "store_write list" where
  "example_writes = [WriteFrame (example_event 0x123 7 1000) False 0,
     WriteFrame (example_event 0x321 8 2000) False 0, WriteFrame (example_event 0x123 9 3000) False 0]"

definition example_start :: capture where
  "example_start = snd (NewCapture 0 0)"

definition example_capture :: capture where
  "example_capture = projr (efold put_write example_writes example_start)"

lemma example_event_ok: "ident \<le> 0x7ff \<Longrightarrow> t \<noteq> zero_time \<Longrightarrow> in_UnixNano_range t \<Longrightarrow>
    frame_event_Validate (example_event ident b t) = Inr () \<and> wf_frame (fe_frame (example_event ident b t))"
  by (simp add: example_event_def example_frame_def frame_event_Validate_Inr_iff valid_frame_def wf_frame_def
      MaxDataLength_def MaxStandardID_def DirectionReceive_def zero_time_def)

lemma example_writes_ok: "\<forall>w \<in> set example_writes. accepts_write w \<and> typed_write w"
  by (simp add: example_writes_def example_event_ok zero_time_def in_UnixNano_range_def)

lemma example_new: "NewCapture 0 0 = (1, example_start)"
  by (simp add: example_start_def NewCapture_def)

lemma example_start_wf: "wf_capture example_start" "log example_start = []" "slots example_start = 4294967295"
  using NewCapture_wf [OF example_new] NewCapture_slots [OF example_new] by simp_all

lemma example_capture_run:
  "efold put_write example_writes example_start = Inr example_capture"
  "wf_capture example_capture" "map snd (log example_capture) = map (kept_entry example_start) example_writes"
  "1 < slots example_capture"
proof -
  have "length example_writes \<le> slots example_start"
    by (simp add: example_writes_def example_start_wf)
  then obtain c new where c: "efold put_write example_writes example_start = Inr c" "wf_capture c"
      "log c = log example_start @ new" "map snd new = map (kept_entry example_start) example_writes"
      "slots example_start \<le> slots c + length example_writes"
    using put_writes [OF example_start_wf(1) _ example_writes_ok] by blast
  then have "c = example_capture" by (simp add: example_capture_def)
  with c show "efold put_write example_writes example_start = Inr example_capture"
    "wf_capture example_capture" "map snd (log example_capture) = map (kept_entry example_start) example_writes"
      "1 < slots example_capture"
    by (simp_all add: example_start_wf) (simp add: example_writes_def)
qed

section \<open>Recording\<close>

lemma map_filter_in:
  "List.map_filter as_frame (map snd l) = frames_in l" "List.map_filter as_event (map snd l) = events_in l"
  by (simp_all add: frames_in_def events_in_def List.map_filter_def filter_map o_def case_prod_unfold)

text \<open>C1 A new capture that takes any sequence of valid writes holds exactly them, in order: the
  bulk reads return the stored frames and events, a series or a bus is the matching part of
  them, and the latest frame of a key is the last of its series.\<close>

theorem capture_records:
  assumes "NewCapture now epochs = (epochs', c0)" "epochs + 1 \<noteq> 0" "length ws \<le> 4294967295"
    "\<forall>w \<in> set ws. accepts_write w \<and> typed_write w"
  shows "\<exists>c. efold put_write ws c0 = Inr c \<and>
    Frames c = List.map_filter as_frame (map (kept_entry c0) ws) \<and>
    Events c = List.map_filter as_event (map (kept_entry c0) ws) \<and>
    Len c = int (length ws) \<and>
    (\<forall>key. Series key c = filter (\<lambda>e. Key e = key) (Frames c)) \<and>
    (\<forall>bus. BusEvents bus c = filter (\<lambda>e. e_bus e = bus) (Events c)) \<and>
    (\<forall>key. Series key c \<noteq> [] \<longrightarrow> Latest key c = Some (last (Series key c)))"
proof -
  have start: "wf_capture c0" "log c0 = []" "slots c0 = 4294967295"
    using NewCapture_wf [OF assms(1,2)] NewCapture_slots [OF assms(1)] by simp_all
  obtain c new where c: "efold put_write ws c0 = Inr c" "wf_capture c" "log c = log c0 @ new"
      "map snd new = map (kept_entry c0) ws"
    using put_writes [OF start(1) _ assms(4)] assms(3) start(3) by auto
  then have log: "map snd (log c) = map (kept_entry c0) ws" by (simp add: start)
  have "Len c = int (length (log c))"
    using wf_captureD [OF c(2)] by (simp add: wf_base_def Len_def)
  then have "Len c = int (length ws)"
    using arg_cong [OF log, of length] by simp
  moreover have "latest_ok c"
    using wf_captureD [OF c(2)] by (simp add: wf_base_def)
  ultimately show ?thesis
    using c(1,2) log map_filter_in [of "log c"]
    by (auto simp: Frames_spec Events_spec Series_spec BusEvents_spec series_in_def bus_events_in_def
        Latest_def latest_ok_def)
qed

theorem capture_records_witness:
  "\<exists>c. efold put_write example_writes example_start = Inr c \<and> Len c = 3 \<and>
     map fe_timestamp (Frames c) = [1000, 2000, 3000] \<and>
     map fe_timestamp (Series \<lparr>k_id = 0x123, k_bus = 1, k_direction = DirectionReceive, k_extended = False\<rparr> c) = [1000, 3000]"
proof -
  obtain c where c: "efold put_write example_writes example_start = Inr c"
    "Frames c = List.map_filter as_frame (map (kept_entry example_start) example_writes)"
    "Len c = int (length example_writes)"
    "\<And>key. Series key c = filter (\<lambda>e. Key e = key) (Frames c)"
    using capture_records [OF example_new _ _ example_writes_ok] by (auto simp: example_writes_def)
  have "map fe_timestamp (Frames c) = [1000, 2000, 3000]"
    unfolding c(2) by (simp add: example_writes_def List.map_filter_def record_timestamp_def stored_frame_def
        time_Unix_UnixNano in_UnixNano_range_def example_event_def)
  moreover have "map fe_timestamp (Series \<lparr>k_id = 0x123, k_bus = 1, k_direction = DirectionReceive, k_extended = False\<rparr> c) = [1000, 3000]"
    unfolding c(2,4) by (simp add: example_writes_def List.map_filter_def record_timestamp_def stored_frame_def
        time_Unix_UnixNano in_UnixNano_range_def example_event_def Key_def example_frame_def)
  ultimately show ?thesis
    using c(1,3) by (auto simp: example_writes_def)
qed

lemma stored_frame_fields:
  assumes "wf_frame (fe_frame ev)"
  shows "Key (stored_frame ts ev) = Key ev" "fe_timestamp (stored_frame ts ev) = time_Unix ts"
    "payload_of (fe_frame (stored_frame ts ev)) = payload_of (fe_frame ev)"
    "f_dlc (fe_frame (stored_frame ts ev)) = f_dlc (fe_frame ev)"
    "f_flags (fe_frame (stored_frame ts ev)) = f_flags (fe_frame ev)"
proof -
  show "Key (stored_frame ts ev) = Key ev" by simp
  show "fe_timestamp (stored_frame ts ev) = time_Unix ts"
    "f_dlc (fe_frame (stored_frame ts ev)) = f_dlc (fe_frame ev)"
    "f_flags (fe_frame (stored_frame ts ev)) = f_flags (fe_frame ev)"
    by (simp_all add: stored_frame_def)
  show "payload_of (fe_frame (stored_frame ts ev)) = payload_of (fe_frame ev)"
    using DataLength_le_64 [of "fe_frame ev"] assms
    by (simp add: stored_frame_def payload_of_def DataLength_def wf_frame_def MaxDataLength_def copy_into_def)
qed

text \<open>C2 Appending a valid frame keeps the invariant, stores its bus, identifier, direction,
  flags, length code, payload and (within the range of the nanosecond clock) its time stamp
  unchanged at the end of the log, makes it the latest frame of its key, and makes the
  capture's end its cursor; nothing stored before is touched.\<close>

theorem append_keeps_content:
  assumes "wf_capture c" "0 < slots c" "frame_event_Validate ev = Inr ()" "wf_frame (fe_frame ev)"
    "in_UnixNano_range (fe_timestamp ev)"
  shows "\<exists>c' cu e. Append ev c = Inr c' \<and> wf_capture c' \<and> log c' = log c @ [(cu, FrameEntry e)] \<and>
    endLocked c' = cu \<and> Latest (Key ev) c' = Some e \<and> Key e = Key ev \<and> fe_timestamp e = fe_timestamp ev \<and>
    payload_of (fe_frame e) = payload_of (fe_frame ev) \<and> f_dlc (fe_frame e) = f_dlc (fe_frame ev) \<and>
    f_flags (fe_frame e) = f_flags (fe_frame ev)"
proof -
  let ?e = "stored_frame (UnixNano (fe_timestamp ev)) ev"
  obtain c' cu where c': "Append ev c = Inr c'" "wf_capture c'" "log c' = log c @ [(cu, FrameEntry ?e)]"
    using appendFrame_spec [OF assms(1) slots_room [OF assms(2)] assms(4,3), of False 0]
    by (auto simp: Append_def record_timestamp_def)
  have "series_in (Key ev) (log c') \<noteq> []" "last (series_in (Key ev) (log c')) = ?e"
    by (simp_all add: c'(3))
  then have "Latest (Key ev) c' = Some ?e"
    using wf_captureD [OF c'(2)] by (simp add: wf_base_def latest_ok_def Latest_def)
  then show ?thesis
    using c' endLocked_append [OF c'(3)] stored_frame_fields [OF assms(4)] time_Unix_UnixNano [OF assms(5)]
    by (intro exI [of _ c'] exI [of _ cu] exI [of _ ?e]) simp
qed

theorem append_keeps_content_witness:
  "\<exists>c' e. Append (example_event 0x7ff 5 42) example_start = Inr c' \<and>
     Latest (Key (example_event 0x7ff 5 42)) c' = Some e \<and> fe_timestamp e = 42"
  using append_keeps_content [OF example_start_wf(1), of "example_event 0x7ff 5 42"]
    example_event_ok [of "0x7ff" 42 5]
  by (auto simp: example_start_wf in_UnixNano_range_def zero_time_def) (auto simp: example_event_def)

text \<open>C3 A write is refused exactly when its event is not valid: the error then names the
  invalid event and nothing is stored, and a valid write of a capture with room never
  fails, so no index or division of the append path is out of range.\<close>

theorem writes_refused_iff_invalid:
  assumes "wf_capture c" "0 < slots c" "typed_write w"
  shows "(\<exists>c'. put_write w c = Inr c') = accepts_write w \<and>
    (\<forall>e. put_write w c = Inl e \<longrightarrow> (\<exists>e'. e = InvalidFrameEvent e') \<or> (\<exists>e'. e = InvalidEvent e'))"
proof -
  have refused: "\<exists>e. put_write w c = Inl e \<and> ((\<exists>e'. e = InvalidFrameEvent e') \<or> (\<exists>e'. e = InvalidEvent e'))"
    if "\<not> accepts_write w"
  proof (cases w)
    case (WriteFrame ev live el)
    with that show ?thesis by (cases "frame_event_Validate ev") (auto simp: appendFrame_error)
  next
    case (WriteEvent ev live el)
    with that show ?thesis by (cases "event_Validate ev") (auto simp: appendEvent_error)
  qed
  show ?thesis
    using refused put_write_accepted [OF assms(1,2) _ assms(3)] by (cases "accepts_write w") auto
qed

theorem writes_refused_iff_invalid_witness:
  "(\<exists>c'. put_write (WriteFrame (example_event 1 2 3) False 0) example_start = Inr c') \<and>
   \<not> (\<exists>c'. put_write (WriteFrame (example_event 1 2 zero_time) False 0) example_start = Inr c')"
  using writes_refused_iff_invalid [OF example_start_wf(1), of "WriteFrame (example_event 1 2 3) False 0"]
    writes_refused_iff_invalid [OF example_start_wf(1), of "WriteFrame (example_event 1 2 zero_time) False 0"]
    example_event_ok [of 1 3 2]
  by (simp add: example_start_wf in_UnixNano_range_def zero_time_def)
    (simp add: example_event_def frame_event_Validate_def example_frame_def wf_frame_def MaxDataLength_def zero_time_def)

section \<open>Reading\<close>

text \<open>C4 A read from any cursor the capture can place returns exactly the entries after that
  cursor, of its kind, key or bus, in append order, although the series reads walk the
  chains backwards, and with them the capture's end to continue from.\<close>

theorem reads_return_the_log:
  assumes "wf_capture c" "valid_cursor c cur"
  shows "FramesSince cur c = Inr (frames_in (after c cur), if log c = [] then cur else endLocked c) \<and>
    EventsSince cur c = Inr (events_in (after c cur), if log c = [] then cur else endLocked c) \<and>
    SeriesSince key cur c = Inr (series_in key (after c cur), if log c = [] then cur else endLocked c) \<and>
    BusEventsSince bus cur c = Inr (bus_events_in bus (after c cur), if log c = [] then cur else endLocked c)"
proof -
  obtain place where "locate c cur = Inr place"
    using valid_cursor_ok [OF wf_captureD [OF assms(1)] assms(2)] by (auto simp: is_ok_iff)
  then show ?thesis
    using FramesSince_spec EventsSince_spec SeriesSince_spec BusEventsSince_spec assms(1) by blast
qed

theorem reads_return_the_log_witness:
  "\<exists>nxt. SeriesSince (Key (example_event 0x123 0 0)) zero_cursor example_capture =
     Inr (series_in (Key (example_event 0x123 0 0)) (log example_capture), nxt)"
  using reads_return_the_log [OF example_capture_run(2), of zero_cursor "Key (example_event 0x123 0 0)" 1]
  by (auto simp: valid_cursor_def)



text \<open>C6 A range read between two placed cursors in order returns exactly the entries after the
  start and not after the end, so a since-read from the start is the range read followed by
  the since-read from the end; a range whose end precedes its start is refused.\<close>

theorem range_reads_split_the_log:
  assumes "wf_capture c" "valid_cursor c start" "valid_cursor c stop" "locate c start = Inr p" "locate c stop = Inr q"
  shows "if earlier_eq p q
    then \<exists>mid. after c start = mid @ after c stop \<and>
      FramesBetween start stop c = Inr (frames_in mid) \<and> EventsBetween start stop c = Inr (events_in mid) \<and>
      SeriesBetween key start stop c = Inr (series_in key mid) \<and>
      BusEventsBetween bus start stop c = Inr (bus_events_in bus mid)
    else FramesBetween start stop c = Inl RangeReversed"
proof (cases "earlier_eq p q")
  case True
  obtain i b j e where pq: "p = (i, b)" "q = (j, e)" by (cases p, cases q) auto
  have bound: "e + 1 \<le> int (length (c_records (chunks c ! j)))"
    using wf_captureD [OF assms(1)] assms(3) by (cases rule: valid_place) (use assms(5) pq in auto)
  obtain mid where "after c start = mid @ after c stop"
    "FramesBetween start stop c = Inr (frames_in mid)" "EventsBetween start stop c = Inr (events_in mid)"
    "SeriesBetween key start stop c = Inr (series_in key mid)"
    "BusEventsBetween bus start stop c = Inr (bus_events_in bus mid)"
    by (rule ranges_spec [OF assms(1) assms(5) [unfolded pq] bound assms(4) [unfolded pq] True [unfolded pq]]) blast
  then show ?thesis using True by auto
next
  case False
  then show ?thesis
    using reversed_range [OF assms(5,4) False] by (simp add: FramesBetween_def)
qed

theorem range_reads_split_the_log_witness:
  "\<exists>mid. log example_capture = mid \<and>
     FramesBetween zero_cursor (endLocked example_capture) example_capture = Inr (frames_in mid)"
proof -
  note wf = example_capture_run(2)
  obtain i b where q: "locate example_capture (endLocked example_capture) = Inr (i, b)"
    using valid_cursor_ok [OF wf_captureD [OF wf] endLocked_valid] by (auto simp: is_ok_iff)
  have "earlier_eq (0, -1) (i, b)"
    using locate_after(2) [OF wf_captureD [OF wf] q] by (auto simp: earlier_eq_def)
  then show ?thesis
    using range_reads_split_the_log [OF wf _ endLocked_valid locate_zero q, of undefined undefined]
      after_end [OF wf_captureD [OF wf]] by (auto simp: valid_cursor_def)
qed

text \<open>C7 When a writer fails on a record, the cursor that is returned resumes exactly at that
  record and the error's cursor resumes exactly behind it, so no record is lost or repeated.\<close>

theorem write_failure_resumes:
  assumes "wf_capture c" "valid_cursor c cur"
    "WriteRecordsSince writer cur c w = Inr (ret, Some (failed, x), w')"
  shows "\<exists>pre e post. after c cur = pre @ (failed, e) # post \<and>
    after c ret = (failed, e) # post \<and> after c failed = post"
  using valid_cursor_ok [OF wf_captureD [OF assms(1)] assms(2)] WriteRecordsSince_resume [OF assms(1) _ assms(3)]
  by (auto simp: is_ok_iff)

text \<open>A writer that counts and fails on its second record.\<close>

definition failing_writer :: "(nat, nat) record_writer" where
  "failing_writer = \<lparr>WriteFrame_of = (\<lambda>_ n. if n = 1 then (Some 7, n) else (None, n + 1)),
     WriteEvent_of = (\<lambda>_ n. (None, n))\<rparr>"

theorem write_failure_resumes_witness:
  "\<exists>ret failed w' pre e post. WriteRecordsSince failing_writer zero_cursor example_capture 0 = Inr (ret, Some (failed, 7), w') \<and>
     log example_capture = pre @ (failed, e) # post \<and> after example_capture ret = (failed, e) # post"
proof -
  have "length (log example_capture) = 3" "\<forall>x \<in> set (map snd (log example_capture)). \<exists>f. x = FrameEntry f"
    using arg_cong [OF example_capture_run(3), of length]
    by (simp add: example_writes_def) (simp add: example_capture_run(3) example_writes_def)
  then obtain a e1 b e2 d e3 where l: "log example_capture = [(a, FrameEntry e1), (b, FrameEntry e2), (d, FrameEntry e3)]"
    by (auto simp: length_Suc_conv numeral_3_eq_3)
  have run: "WriteRecordsSince failing_writer zero_cursor example_capture 0 = Inr (a, Some (b, 7), 1)"
    unfolding WriteRecordsSince_spec [OF example_capture_run(2) locate_zero] after_zero
    by (simp add: l failing_writer_def)
  show ?thesis
    using write_failure_resumes [OF example_capture_run(2) _ run] run by (auto simp: valid_cursor_def)
qed

section \<open>Pruning and clearing\<close>

text \<open>C8 Pruning up to any set of cursors the readers hold keeps the invariant and the latest
  frames and states, drops a prefix of the log that none of those cursors still needs (each
  keeps its place and everything after it), and leaves no sealed chunk in front that all of
  them have passed.\<close>

theorem prune_keeps_what_readers_need:
  assumes "wf_capture c" "\<forall>cur \<in> set curs. valid_cursor c cur" "curs \<noteq> []"
  shows "\<exists>c' dropped. Prune curs c = Inr c' \<and> wf_capture c' \<and> log c = dropped @ log c' \<and>
    cp_latest c' = cp_latest c \<and> cp_latestStates c' = cp_latestStates c \<and>
    (\<forall>cur \<in> set curs. valid_cursor c' cur \<and> after c' cur = after c cur) \<and>
    (cp_sealed c' \<noteq> [] \<longrightarrow> (\<exists>cur \<in> set curs.
       \<exists>x \<in> set (chunk_log (cp_generation c) (hd (chunks c'))). x \<in> set (after c cur)))"
proof -
  show ?thesis
    by (rule Prune_spec [OF assms(1) bspec [OF assms(2)] assms(3)]) blast+
qed

theorem prune_keeps_what_readers_need_witness:
  "\<exists>c'. Prune [endLocked example_capture, zero_cursor] example_capture = Inr c' \<and>
     wf_capture c' \<and> after c' (endLocked example_capture) = []"
  using prune_keeps_what_readers_need [OF example_capture_run(2), of "[endLocked example_capture, zero_cursor]"]
    endLocked_valid [of example_capture] after_end [OF wf_captureD [OF example_capture_run(2)]]
  by (auto simp: valid_cursor_def)

text \<open>C9 \<open>Clear\<close> empties the log, keeps the invariant and keeps the registered waiters; after it a
  cursor of an earlier generation, unless it is the zero cursor, is never placed: a read, a
  record write or a prune with it fails and names it instead of skipping or repeating records.\<close>

theorem clear_invalidates_cursors:
  assumes "wf_capture c" "epochs + 1 \<noteq> 0" "Clear epochs c = (epochs', c')"
    "cur \<noteq> zero_cursor" "cu_generation cur \<noteq> epochs + 1"
  shows "wf_capture c' \<and> log c' = [] \<and> Len c' = 0 \<and> same_waiters c c' \<and>
    FramesSince cur c' = Inl (CursorOutOfRange cur) \<and> WriteRecordsSince writer cur c' w = Inl (CursorOutOfRange cur) \<and>
    SeriesSince key cur c' = Inl (CursorOutOfRange cur) \<and> Prune [cur] c' = Inl (CursorOutOfRange cur)"
proof -
  note clr = Clear_spec [OF assms(1,2,3)]
  have loc: "locate c' cur = Inl (CursorOutOfRange cur)"
    using locate_other_generation [of cur c'] assms(4,5) clr(4) by simp
  then have "Prune [cur] c' = Inl (CursorOutOfRange cur)"
    by (simp add: Prune_def)
  moreover have "Len c' = 0"
    using wf_captureD [OF clr(1)] clr(2) by (simp add: wf_base_def Len_def)
  ultimately show ?thesis
    using clr reads_out_of_range [OF loc] by (simp add: same_waiters_def)
qed

theorem clear_invalidates_cursors_witness:
  "\<exists>c'. Clear 5 example_capture = (6, c') \<and>
     FramesSince \<lparr>cu_generation = 1, cu_chunk = 0, cu_record = 2\<rparr> c' =
       Inl (CursorOutOfRange \<lparr>cu_generation = 1, cu_chunk = 0, cu_record = 2\<rparr>)"
proof -
  obtain c' where c': "Clear 5 example_capture = (6, c')" by (simp add: Clear_def Let_def)
  then show ?thesis
    using clear_invalidates_cursors [OF example_capture_run(2) _ c', where writer = failing_writer and w = 0
        and cur = "\<lparr>cu_generation = 1, cu_chunk = 0, cu_record = 2\<rparr>"]
    by (simp add: zero_cursor_def)
qed

section \<open>Waiting\<close>

text \<open>C10 Whatever other readers and writers do, a reader in \<open>Next\<close> that registered at a cursor
  returns the first frame of its key among everything that followed that cursor, retained or
  appended later, and blocks only while there is none: no wakeup is lost, none is spurious.\<close>

theorem next_returns_first_match:
  assumes "NewCapture now epochs = (epochs', c0)" "epochs + 1 \<noteq> 0"
    "sys_step\<^sup>*\<^sup>* \<lparr>sy_capture = c0, sy_readers = []\<rparr> s" "r \<in> set (sy_readers s)"
  shows "next_result (sy_capture s) r = first_match (rd_key r) (rd_snapshot r @ rd_hist r)"
proof -
  have "wf_capture c0" "cp_waiters c0 = Map.empty"
    using NewCapture_wf [OF assms(1,2)] assms(1) by (auto simp: NewCapture_def)
  then show ?thesis
    using next_result_ok [OF sys_steps_ok [OF assms(3) sys_ok_start] assms(4)] by blast
qed

theorem next_returns_first_match_witness:
  "\<exists>s r e cu. sys_step\<^sup>*\<^sup>* \<lparr>sy_capture = example_start, sy_readers = []\<rparr> s \<and> r \<in> set (sy_readers s) \<and>
     next_result (sy_capture s) r = Some (e, cu) \<and> fe_timestamp e = 9000"
proof -
  let ?ev = "example_event 0x123 7 9000"
  obtain w sr c1 where add: "addWaiter (Key ?ev) zero_cursor 0 example_start = Inr (w, sr, c1)"
    by (cases "cp_waiters example_start (Key ?ev)") (auto simp: addWaiter_def nextSearchLocked_def)
  have free: "cp_store example_start 0 = None"
    by (simp add: example_start_def NewCapture_def)
  let ?r = "\<lparr>rd_key = Key ?ev, rd_waiter = w, rd_search = sr, rd_snapshot = after example_start zero_cursor, rd_hist = []\<rparr>"
  have s1: "sys_step \<lparr>sy_capture = example_start, sy_readers = []\<rparr> \<lparr>sy_capture = c1, sy_readers = [?r]\<rparr>"
    by (rule sys_step.register [OF add free])
  have "counts_ok example_start []"
    by (simp add: counts_ok_def example_start_def NewCapture_def)
  note c1 = addWaiter_spec [OF example_start_wf(1) this free _ add]
  have ok: "frame_event_Validate ?ev = Inr ()" "wf_frame (fe_frame ?ev)"
    using example_event_ok [of "0x123" 9000 7] by (simp_all add: zero_time_def in_UnixNano_range_def)
  have "cp_active c1 = cp_active example_start"
    using add by (auto simp: addWaiter_def ebind_Inr_iff Let_def split: option.splits)
  then have room: "sequence_room c1"
    using slots_room [of example_start] example_start_wf(3) by (simp add: sequence_room_def)
  obtain c2 cu where c2: "appendFrame ?ev False 0 c1 = Inr c2"
      "log c2 = log c1 @ [(cu, FrameEntry (stored_frame (UnixNano 9000) ?ev))]"
    using appendFrame_spec [OF c1(1) room ok(2,1), of False 0]
    by (auto simp: record_timestamp_def) (simp add: example_event_def)
  have log: "log c1 = []" using c1(2) example_start_wf(2) by simp
  let ?new = "[(cu, FrameEntry (stored_frame (UnixNano 9000) ?ev))]"
  have s2: "sys_step \<lparr>sy_capture = c1, sy_readers = [?r]\<rparr>
      \<lparr>sy_capture = c2, sy_readers = observe (drop (length (log c1)) (log c2)) [?r]\<rparr>"
    by (rule sys_step.append_frame [OF c2(1) ok(2) room])
  let ?s = "\<lparr>sy_capture = c2, sy_readers = observe (drop (length (log c1)) (log c2)) [?r]\<rparr>"
  have run: "sys_step\<^sup>*\<^sup>* \<lparr>sy_capture = example_start, sy_readers = []\<rparr> ?s"
    using s1 s2 by (meson converse_rtranclp_into_rtranclp rtranclp.rtrancl_refl)
  have r: "?r\<lparr>rd_hist := ?new\<rparr> \<in> set (sy_readers ?s)"
    using c2(2) log by (simp add: observe_def)
  have "next_result (sy_capture ?s) (?r\<lparr>rd_hist := ?new\<rparr>) = Some (stored_frame (UnixNano 9000) ?ev, cu)"
    using next_returns_first_match [OF example_new _ run r] example_start_wf(2) by simp
  moreover have "fe_timestamp (stored_frame (UnixNano 9000) ?ev) = 9000"
    by (simp add: stored_frame_def time_Unix_UnixNano in_UnixNano_range_def)
  ultimately show ?thesis using run r by blast
qed

end
