(* ===== verification/J1939_Header.thy ===== *)
theory J1939_Header
  imports Frame
begin

unbundle bit_operations_syntax

text \<open>
  J1939 identifiers and NAMEs (\<open>j1939/header.go\<close> and the field accessors of
  \<open>j1939/name.go\<close>): the meaning of a 29-bit CAN identifier, the identifier of a header, and
  the fields of the 64-bit NAME with its little-endian transport form.
\<close>

section \<open>Errors of the package\<close>

datatype j1939_error =
    IDExceeds u32
  | PriorityExceeds u8
  | PGNExceeds u32
  | PGNIncludesDestination u32
  | PDU2NeedsGlobal u32
  | NameLength nat
  | InvalidClaim
  | ReservedNameBit
  | ClaimInvalidatedTP
  | Ambiguous u8 u16
  | EventInvalid frame_event_error
  | SessionExpired u8 u8 u32
  | ExtendedRemoteOrFD
  | ExtendedTransport u32
  | TransportLength nat
  | MalformedAcknowledgement
  | EarlyAcknowledgement
  | UnknownControl u8
  | UnusableAddresses
  | BroadcastDestination u8
  | SpecificDestinationRequired
  | ZeroPacketsPerCTS
  | TransferReplaced u8 u8 u32
  | NoActiveTransfer u8 u8 u8
  | WrongSequence nat u8 u8 nat
  | BothDirections
  | NoObservedRTS
  | CTSDuringWindow
  | InvalidCTSWindow
  | AbortNeedsPeers
  | Aborted u8 u8 u32 u8
  | BadTransportSize nat nat
  | BadTarget j1939_error
  | UnsupportedTarget u32
  | TransferIncomplete u8 u8 u32 nat nat
  | BeyondPayload

section \<open>Headers\<close>

definition MaxPGN :: u32 where "MaxPGN = 0x3ffff"
definition GlobalAddress :: u8 where "GlobalAddress = 0xff"
definition NullAddress :: u8 where "NullAddress = 0xfe"

record header =
  hd_priority :: u8
  hd_pgn :: u32
  hd_source :: u8
  hd_destination :: u8

definition isPDU1 :: "u32 \<Rightarrow> bool" where
  "isPDU1 pgn \<longleftrightarrow> (ucast (drop_bit 8 pgn) :: u8) < 0xf0"

definition EDP :: "header \<Rightarrow> u8" where
  "EDP h = ucast (drop_bit 17 (hd_pgn h) AND 1)"

definition ParseID :: "u32 \<Rightarrow> j1939_error + header" where
  "ParseID i =
     (if i > MaxExtendedID then Inl (IDExceeds i)
      else let pgn = drop_bit 8 i AND MaxPGN;
               (destination, pgn) = (if isPDU1 pgn then (ucast (pgn AND 0xff), pgn AND 0x3ff00)
                                     else (GlobalAddress, pgn))
           in Inr \<lparr>hd_priority = ucast (drop_bit 26 i), hd_pgn = pgn, hd_source = ucast i,
                   hd_destination = destination\<rparr>)"

definition PGN_validate :: "u32 \<Rightarrow> j1939_error + unit" where
  "PGN_validate pgn =
     (if pgn > MaxPGN then Inl (PGNExceeds pgn)
      else if isPDU1 pgn \<and> pgn AND 0xff \<noteq> 0 then Inl (PGNIncludesDestination pgn)
      else Inr ())"

definition header_ID :: "header \<Rightarrow> j1939_error + u32" where
  "header_ID h =
     (if hd_priority h > 7 then Inl (PriorityExceeds (hd_priority h))
      else ebind (PGN_validate (hd_pgn h)) (\<lambda>_.
        let pgn = hd_pgn h in
        if \<not> isPDU1 pgn \<and> hd_destination h \<noteq> GlobalAddress then Inl (PDU2NeedsGlobal pgn)
        else let pgn = (if isPDU1 pgn then pgn OR ucast (hd_destination h) else pgn)
          in Inr (push_bit 26 (ucast (hd_priority h)) OR push_bit 8 pgn OR ucast (hd_source h))))"

section \<open>NAMEs\<close>

definition AddressClaimPGN :: u32 where "AddressClaimPGN = 0xee00"

text \<open>\<open>binary.LittleEndian.Uint64\<close> and \<open>PutUint64\<close> on eight bytes.\<close>

definition le_uint64 :: "bytes \<Rightarrow> u64" where
  "le_uint64 bs = ucast (bs ! 0) OR push_bit 8 (ucast (bs ! 1)) OR push_bit 16 (ucast (bs ! 2)) OR
     push_bit 24 (ucast (bs ! 3)) OR push_bit 32 (ucast (bs ! 4)) OR push_bit 40 (ucast (bs ! 5)) OR
     push_bit 48 (ucast (bs ! 6)) OR push_bit 56 (ucast (bs ! 7))"

definition put_le_uint64 :: "u64 \<Rightarrow> bytes" where
  "put_le_uint64 w = [ucast w, ucast (drop_bit 8 w), ucast (drop_bit 16 w), ucast (drop_bit 24 w),
     ucast (drop_bit 32 w), ucast (drop_bit 40 w), ucast (drop_bit 48 w), ucast (drop_bit 56 w)]"

definition ParseName :: "bytes \<Rightarrow> j1939_error + u64" where
  "ParseName payload =
     (if length payload \<noteq> 8 then Inl (NameLength (length payload)) else Inr (le_uint64 payload))"

definition IdentityNumber :: "u64 \<Rightarrow> u32" where
  "IdentityNumber name = ucast (name AND 0x1fffff)"

definition ManufacturerCode :: "u64 \<Rightarrow> u16" where
  "ManufacturerCode name = ucast (drop_bit 21 name AND 0x7ff)"

definition ECUInstance :: "u64 \<Rightarrow> u8" where
  "ECUInstance name = ucast (drop_bit 32 name AND 7)"

definition FunctionInstance :: "u64 \<Rightarrow> u8" where
  "FunctionInstance name = ucast (drop_bit 35 name AND 31)"

definition Function :: "u64 \<Rightarrow> u8" where
  "Function name = ucast (drop_bit 40 name)"

definition Reserved :: "u64 \<Rightarrow> u8" where
  "Reserved name = ucast (drop_bit 48 name AND 1)"

definition VehicleSystem :: "u64 \<Rightarrow> u8" where
  "VehicleSystem name = ucast (drop_bit 49 name AND 127)"

definition VehicleSystemInstance :: "u64 \<Rightarrow> u8" where
  "VehicleSystemInstance name = ucast (drop_bit 56 name AND 15)"

definition IndustryGroup :: "u64 \<Rightarrow> u8" where
  "IndustryGroup name = ucast (drop_bit 60 name AND 7)"

definition ArbitraryAddressCapable :: "u64 \<Rightarrow> bool" where
  "ArbitraryAddressCapable name \<longleftrightarrow> drop_bit 63 name \<noteq> 0"

section \<open>Bit-level facts\<close>

lemma uint_less_exp_iff:
  fixes w :: "'a::len word"
  shows "uint w < 2 ^ n \<longleftrightarrow> (\<forall>k. n \<le> k \<longrightarrow> \<not> bit w k)"
  unfolding mask_eq_iff [symmetric] by (auto simp: bit_eq_iff bit_simps not_less dest: bit_imp_le_length) (meson bit_imp_le_length leI)+

lemma bit_u8_high [simp]: "8 \<le> k \<Longrightarrow> \<not> bit (b :: u8) k"
  using bit_imp_le_length [of b k] by auto

lemma bit_u32_high [simp]: "32 \<le> k \<Longrightarrow> \<not> bit (w :: u32) k"
  using bit_imp_le_length [of w k] by auto

lemma bounds_bits:
  "i \<le> MaxExtendedID \<longleftrightarrow> (\<forall>k. 29 \<le> k \<longrightarrow> \<not> bit i k)"
  "pgn \<le> MaxPGN \<longleftrightarrow> (\<forall>k. 18 \<le> k \<longrightarrow> \<not> bit pgn k)"
  "(p :: u8) \<le> 7 \<longleftrightarrow> (\<forall>k. 3 \<le> k \<longrightarrow> \<not> bit p k)"
  unfolding uint_less_exp_iff [symmetric] by (auto simp: word_le_def MaxExtendedID_def MaxPGN_def)

lemma MaxPGN_mask: "MaxPGN = mask 18"
  by (simp add: MaxPGN_def mask_eq_exp_minus_1)

lemma isPDU1_cong:
  assumes "\<And>k. 8 \<le> k \<Longrightarrow> k < 16 \<Longrightarrow> bit p k = bit q k"
  shows "isPDU1 p = isPDU1 q"
proof -
  have "ucast (drop_bit 8 p) = (ucast (drop_bit 8 q) :: u8)"
    by (rule bit_word_eqI) (use assms in \<open>auto simp: bit_simps\<close>)
  then show ?thesis by (simp add: isPDU1_def)
qed

lemma low_byte_bits: "pgn AND 0xff = 0 \<longleftrightarrow> (\<forall>k < 8. \<not> bit (pgn :: u32) k)"
proof -
  have "(0xff :: u32) = mask 8" by (simp add: mask_eq_exp_minus_1)
  then have "pgn AND 0xff = take_bit 8 pgn" by (simp add: take_bit_eq_mask)
  then show ?thesis by (auto simp: bit_eq_iff bit_simps)
qed

lemma pgn_base_mask: "(0x3ff00 :: u32) = mask 18 AND NOT (mask 8)" "(0xff :: u32) = mask 8"
  by (simp_all add: mask_eq_exp_minus_1)

section \<open>The header codec is exact\<close>

lemma isPDU1_stable:
  "isPDU1 (pgn AND (mask 18 AND NOT (mask 8))) = isPDU1 pgn" "isPDU1 (pgn OR ucast (d :: u8)) = isPDU1 pgn"
  by (rule isPDU1_cong; simp add: bit_simps)+

lemma ParseID_ID:
  assumes "ParseID i = Inr h"
  shows "header_ID h = Inr i"
proof -
  define pgn where "pgn = drop_bit 8 i AND mask 18"
  have i: "\<not> bit i k" if "29 \<le> k" for k
    using assms that bounds_bits(1) [of i] by (auto simp: ParseID_def not_less split: if_splits)
  have "hd_priority h = ucast (drop_bit 26 i)" "hd_source h = ucast i"
    "hd_pgn h = (if isPDU1 pgn then pgn AND (mask 18 AND NOT (mask 8)) else pgn)"
    "hd_destination h = (if isPDU1 pgn then ucast (pgn AND mask 8) else GlobalAddress)"
    using assms unfolding pgn_def
    by (auto simp: ParseID_def Let_def MaxPGN_mask pgn_base_mask split: if_splits)
  note h = this
  have i': "bit i k \<Longrightarrow> k < 29" for k
    using i [of k] by (cases "29 \<le> k") auto
  have prio: "hd_priority h \<le> 7"
    unfolding bounds_bits h using i by (auto simp: bit_simps)
  have pdu: "isPDU1 (hd_pgn h) = isPDU1 pgn" by (simp add: h(3) isPDU1_stable)
  have valid: "PGN_validate (hd_pgn h) = Inr ()"
  proof -
    have "hd_pgn h \<le> MaxPGN" unfolding bounds_bits h pgn_def by (auto simp: bit_simps)
    moreover have "isPDU1 pgn \<Longrightarrow> hd_pgn h AND 0xff = 0"
      unfolding low_byte_bits h by (auto simp: bit_simps)
    ultimately show ?thesis by (auto simp: PGN_validate_def pdu not_less)
  qed
  have "push_bit 26 (ucast (hd_priority h)) OR push_bit 8 (if isPDU1 pgn then hd_pgn h OR ucast (hd_destination h) else hd_pgn h)
      OR ucast (hd_source h) = i"
    (is "?enc = i")
  proof (rule bit_word_eqI)
    fix n
    assume "n < LENGTH(32)"
    then show "bit ?enc n = bit i n"
      using i' [of n] by (cases "26 \<le> n") (auto simp: bit_simps h pgn_def)
  qed
  moreover have "isPDU1 pgn \<or> hd_destination h = GlobalAddress"
    by (simp add: h(4))
  ultimately show ?thesis
    using prio valid by (simp add: header_ID_def pdu Let_def not_less [symmetric])
qed

lemma ID_ParseID:
  assumes "header_ID h = Inr i"
  shows "ParseID i = Inr h"
proof -
  define pgn where "pgn = hd_pgn h"
  have "hd_priority h \<le> 7" "PGN_validate pgn = Inr ()" "isPDU1 pgn \<or> hd_destination h = GlobalAddress"
    "i = push_bit 26 (ucast (hd_priority h)) OR push_bit 8 (if isPDU1 pgn then pgn OR ucast (hd_destination h) else pgn)
      OR ucast (hd_source h)"
    using assms by (auto simp: header_ID_def pgn_def ebind_Inr_iff Let_def not_less split: if_splits)
  note h = this
  have p: "\<not> bit pgn k" if "18 \<le> k" for k
    using h(2) that bounds_bits(2) [of pgn] by (auto simp: PGN_validate_def not_less split: if_splits)
  have low: "\<not> bit pgn k" if "isPDU1 pgn" "k < 8" for k
    using h(2) that low_byte_bits [of pgn] by (auto simp: PGN_validate_def split: if_splits)
  have prio: "\<not> bit (hd_priority h) k" if "3 \<le> k" for k
    using h(1) that bounds_bits(3) by blast
  have p': "bit pgn k \<Longrightarrow> k < 18" for k
    using p [of k] by (cases "18 \<le> k") auto
  have prio': "bit (hd_priority h) k \<Longrightarrow> k < 3" for k
    using prio [of k] by (cases "3 \<le> k") auto
  have d: "bit (hd_destination h) k \<Longrightarrow> k < 18" for k
    using bit_u8_high [of k "hd_destination h"] by (cases "8 \<le> k") auto
  have "i \<le> MaxExtendedID"
    unfolding bounds_bits h(4) using p prio by (auto simp: bit_simps)
  moreover have pg: "drop_bit 8 i AND mask 18 = (if isPDU1 pgn then pgn OR ucast (hd_destination h) else pgn)"
    unfolding h(4) by (intro bit_word_eqI) (auto simp: bit_simps dest: p' d)
  moreover have "ucast (drop_bit 26 i) = hd_priority h" "ucast i = hd_source h"
    unfolding h(4) by (rule bit_word_eqI; auto simp: bit_simps dest: p' prio')+
  moreover have "isPDU1 pgn \<Longrightarrow> ucast ((pgn OR ucast (hd_destination h)) AND mask 8) = hd_destination h"
    "isPDU1 pgn \<Longrightarrow> (pgn OR ucast (hd_destination h)) AND (mask 18 AND NOT (mask 8)) = pgn"
    by (rule bit_word_eqI; auto simp: bit_simps low dest: p')+
  ultimately show ?thesis
    using h(3) by (cases h) (auto simp: ParseID_def Let_def MaxPGN_mask pgn_base_mask isPDU1_stable pgn_def not_less)
qed

interpretation header_codec: exact_codec header_ID ParseID
  by unfold_locales (auto intro: ID_ParseID ParseID_ID)

section \<open>NAMEs\<close>

lemma bit_le_uint64:
  assumes "k < 64"
  shows "bit (le_uint64 bs) k \<longleftrightarrow> bit (bs ! (k div 8)) (k mod 8)"
proof -
  define j r where "j = k div 8" and "r = k mod 8"
  have k: "k = 8 * j + r" "r < 8" "j < 8" using assms by (auto simp: j_def r_def)
  from \<open>j < 8\<close> have "j = 0 \<or> j = 1 \<or> j = 2 \<or> j = 3 \<or> j = 4 \<or> j = 5 \<or> j = 6 \<or> j = 7" by presburger
  then have "bit (le_uint64 bs) (8 * j + r) \<longleftrightarrow> bit (bs ! j) r"
    using k(2) by (elim disjE) (simp_all add: le_uint64_def bit_simps)
  then show ?thesis by (simp add: j_def r_def)
qed

lemma put_le_uint64_nth: "j < 8 \<Longrightarrow> put_le_uint64 w ! j = ucast (drop_bit (8 * j) w)"
  by (auto simp: put_le_uint64_def numeral_eq_Suc less_Suc_eq)

lemma put_le_uint64_length [simp]: "length (put_le_uint64 w) = 8"
  by (simp add: put_le_uint64_def)

lemma le_uint64_put: "le_uint64 (put_le_uint64 w) = w"
proof (rule bit_word_eqI)
  fix k
  assume "k < LENGTH(64)"
  then show "bit (le_uint64 (put_le_uint64 w)) k = bit w k"
    by (simp add: bit_le_uint64 put_le_uint64_nth bit_simps less_mult_imp_div_less)
qed

lemma put_le_uint64:
  assumes "length bs = 8"
  shows "put_le_uint64 (le_uint64 bs) = bs"
proof (rule nth_equalityI)
  fix j
  assume "j < length (put_le_uint64 (le_uint64 bs))"
  then have "j < 8" by simp
  then show "put_le_uint64 (le_uint64 bs) ! j = bs ! j"
    by (intro bit_word_eqI) (simp add: put_le_uint64_nth bit_simps bit_le_uint64)
qed (simp add: assms)

interpretation name_codec: exact_codec "\<lambda>name. Inr (put_le_uint64 name) :: j1939_error + bytes" ParseName
  by unfold_locales (auto simp: ParseName_def le_uint64_put put_le_uint64 split: if_splits)

lemma Reserved_zero_iff: "Reserved name = 0 \<longleftrightarrow> \<not> bit name 48"
  by (simp add: Reserved_def and_one_eq mod_2_eq_odd bit_iff_odd_drop_bit)

end
