(* ===== verification/J1939_Decoder.thy ===== *)
theory J1939_Decoder
  imports J1939_Header "HOL-Library.AList"
begin

unbundle bit_operations_syntax

text \<open>
  The passive J1939 decoder (\<open>j1939/decoder.go\<close> and the claims of \<open>j1939/name.go\<close>): it
  rebuilds the messages of single frames and of the broadcast and connection-managed
  transports, for all senders of all buses at once. Go's two maps are association lists with
  distinct keys; Go visits a map in any order, the model in the order of the list, which
  only orders the joined errors. An error value that joins several errors is their list.
\<close>

section \<open>State\<close>

definition transportControlPGN :: u32 where "transportControlPGN = 0xec00"
definition transportDataPGN :: u32 where "transportDataPGN = 0xeb00"
definition extendedTransportControlPGN :: u32 where "extendedTransportControlPGN = 0xc800"
definition extendedTransportDataPGN :: u32 where "extendedTransportDataPGN = 0xc700"
definition transportRTS :: u8 where "transportRTS = 0x10"
definition transportCTS :: u8 where "transportCTS = 0x11"
definition transportEOMA :: u8 where "transportEOMA = 0x13"
definition transportBAM :: u8 where "transportBAM = 0x20"
definition transportAbort :: u8 where "transportAbort = 0xff"
definition maximumTransportPayload :: nat where "maximumTransportPayload = 1785"
definition consecutiveTimeout :: int where "consecutiveTimeout = 750000000"
definition responseTimeout :: int where "responseTimeout = 1250000000"
definition holdTimeout :: int where "holdTimeout = 1050000000"

lemmas control_defs = transportRTS_def transportCTS_def transportEOMA_def transportBAM_def transportAbort_def
lemmas timeout_defs = consecutiveTimeout_def responseTimeout_def holdTimeout_def

record message =
  m_bus :: u16
  m_direction :: u8
  m_priority :: u8
  m_pgn :: u32
  m_source :: u8
  m_destination :: u8
  m_payload :: bytes
  m_startedAt :: time
  m_completedAt :: time

record diagnostic =
  dg_bus :: u16
  dg_direction :: u8
  dg_timestamp :: time
  dg_errors :: "j1939_error list"

record session_key =
  sk_bus :: u16
  sk_direction :: u8
  sk_source :: u8
  sk_destination :: u8

record session =
  ss_message :: message
  ss_size :: nat
  ss_packets :: nat
  ss_next :: nat
  ss_lastAt :: time
  ss_deadline :: time
  ss_windowEnd :: nat
  ss_maxWindow :: u8

type_synonym name_key = "u16 \<times> u64"

record decoder =
  dc_sessions :: "(session_key \<times> session) list"
  dc_names :: "(name_key \<times> u8) list"

definition zero_decoder :: decoder where
  "zero_decoder = \<lparr>dc_sessions = [], dc_names = []\<rparr>"

type_synonym push_result = "(message option \<times> j1939_error list) \<times> decoder"

definition drop_session :: "session_key \<Rightarrow> decoder \<Rightarrow> decoder" where
  "drop_session key d = d\<lparr>dc_sessions := AList.delete key (dc_sessions d)\<rparr>"

definition put_session :: "session_key \<Rightarrow> session \<Rightarrow> decoder \<Rightarrow> decoder" where
  "put_session key s d = d\<lparr>dc_sessions := AList.update key s (dc_sessions d)\<rparr>"

definition get_session :: "decoder \<Rightarrow> session_key \<Rightarrow> session option" where
  "get_session d key = map_of (dc_sessions d) key"

definition oppositeDirection :: "u8 \<Rightarrow> u8" where
  "oppositeDirection direction = (if direction = DirectionReceive then DirectionTransmit else DirectionReceive)"

definition event_key :: "frame_event \<Rightarrow> header \<Rightarrow> session_key" where
  "event_key ev h = \<lparr>sk_bus = fe_bus ev, sk_direction = fe_direction ev, sk_source = hd_source h,
     sk_destination = hd_destination h\<rparr>"

section \<open>Fields of transport frames\<close>

definition transportSize :: "bytes \<Rightarrow> j1939_error + nat \<times> nat" where
  "transportSize data =
     (let sz = unat (ucast (data ! 1) OR push_bit 8 (ucast (data ! 2)) :: u16); packets = unat (data ! 3)
      in if sz \<le> 8 \<or> sz > maximumTransportPayload \<or> packets \<noteq> (sz + 6) div 7
         then Inl (BadTransportSize sz packets) else Inr (sz, packets))"

definition transportData :: "frame \<Rightarrow> j1939_error + bytes" where
  "transportData f = (if DataLength f \<noteq> 8 then Inl (TransportLength (DataLength f)) else Inr (take 8 (f_data f)))"

definition controlPGN :: "bytes \<Rightarrow> j1939_error + u32" where
  "controlPGN data =
     (let pgn = ucast (data ! 5) OR push_bit 8 (ucast (data ! 6)) OR push_bit 16 (ucast (data ! 7))
      in ebind (emap BadTarget (PGN_validate pgn)) (\<lambda>_.
         if pgn = transportControlPGN \<or> pgn = transportDataPGN \<or> pgn = extendedTransportDataPGN \<or>
            pgn = extendedTransportControlPGN \<or> pgn AND 0x20000 \<noteq> 0
         then Inl (UnsupportedTarget pgn) else Inr pgn))"

section \<open>Identities\<close>

definition Names :: "u16 \<Rightarrow> u8 \<Rightarrow> decoder \<Rightarrow> u64 list" where
  "Names bus address d =
     sort (map (\<lambda>((_, name), _). name) (filter (\<lambda>((b, _), claimed). b = bus \<and> claimed = address) (dc_names d)))"

definition claim_touches :: "u16 \<Rightarrow> u8 \<Rightarrow> u8 option \<Rightarrow> session_key \<Rightarrow> bool" where
  "claim_touches bus source previous key \<longleftrightarrow> sk_bus key = bus \<and>
     (sk_source key = source \<or> sk_destination key = source \<or>
      (case previous of None \<Rightarrow> False | Some p \<Rightarrow> sk_source key = p \<or> sk_destination key = p))"

definition observeClaim :: "frame_event \<Rightarrow> header \<Rightarrow> decoder \<Rightarrow> j1939_error list \<times> decoder" where
  "observeClaim ev h d = (case ParseName (payload_of (fe_frame ev)) of
       Inl e \<Rightarrow> ([e], d)
     | Inr name \<Rightarrow>
         if hd_destination h \<noteq> GlobalAddress \<or> hd_source h = GlobalAddress \<or> name = 0 then ([InvalidClaim], d)
         else if Reserved name \<noteq> 0 then ([ReservedNameBit], d)
         else
           let key = (fe_bus ev, name);
               previous = map_of (dc_names d) key;
               names = AList.delete key (dc_names d);
               names = (if hd_source h \<noteq> NullAddress then AList.update key (hd_source h) names else names);
               d = d\<lparr>dc_names := names\<rparr>;
               competing = length (Names (fe_bus ev) (hd_source h) d) > 1;
               moved = (case previous of None \<Rightarrow> False | Some p \<Rightarrow> p \<noteq> hd_source h);
               touched = (\<lambda>(key, _). (competing \<or> moved) \<and> claim_touches (fe_bus ev) (hd_source h) previous key)
           in ((if list_ex touched (dc_sessions d) then [ClaimInvalidatedTP] else []) @
                 (if competing then [Ambiguous (hd_source h) (fe_bus ev)] else []),
               d\<lparr>dc_sessions := filter (\<lambda>x. \<not> touched x) (dc_sessions d)\<rparr>))"

section \<open>Transport sessions\<close>

definition startSession :: "frame_event \<Rightarrow> header \<Rightarrow> bytes \<Rightarrow> decoder \<Rightarrow> j1939_error list \<times> decoder" where
  "startSession ev h data d0 =
     (let key = event_key ev h;
          previous = get_session d0 key;
          d = drop_session key d0;
          broadcast = (data ! 0 = transportBAM)
      in if hd_source h \<ge> NullAddress \<or> hd_destination h = NullAddress then ([UnusableAddresses], d)
         else if broadcast \<and> hd_destination h \<noteq> GlobalAddress then ([BroadcastDestination (hd_destination h)], d)
         else if \<not> broadcast \<and> hd_destination h = GlobalAddress then ([SpecificDestinationRequired], d)
         else if \<not> broadcast \<and> data ! 4 = 0 then ([ZeroPacketsPerCTS], d)
         else (case ebind (transportSize data) (\<lambda>dims. ebind (controlPGN data) (\<lambda>pgn. Inr (dims, pgn))) of
             Inl e \<Rightarrow> ([e], d)
           | Inr ((sz, packets), pgn) \<Rightarrow>
               ((case previous of None \<Rightarrow> []
                 | Some p \<Rightarrow> [TransferReplaced (sk_source key) (sk_destination key) (m_pgn (ss_message p))]),
                put_session key
                  \<lparr>ss_message = \<lparr>m_bus = fe_bus ev, m_direction = fe_direction ev, m_priority = hd_priority h,
                      m_pgn = pgn, m_source = hd_source h, m_destination = hd_destination h, m_payload = [],
                      m_startedAt = fe_timestamp ev, m_completedAt = zero_time\<rparr>,
                   ss_size = sz, ss_packets = packets, ss_next = 1, ss_lastAt = fe_timestamp ev,
                   ss_deadline = fe_timestamp ev + (if broadcast then consecutiveTimeout else responseTimeout),
                   ss_windowEnd = (if broadcast then packets else 0), ss_maxWindow = data ! 4\<rparr> d)))"

definition pushData :: "frame_event \<Rightarrow> header \<Rightarrow> decoder \<Rightarrow> push_result" where
  "pushData ev h d =
     (let key = event_key ev h in
      case transportData (fe_frame ev) of
        Inl e \<Rightarrow> ((None, [e]), drop_session key d)
      | Inr data \<Rightarrow> (case get_session d key of
          None \<Rightarrow> ((None, [NoActiveTransfer (data ! 0) (hd_source h) (hd_destination h)]), d)
        | Some active \<Rightarrow>
            let sequence = unat (data ! 0) in
            if sequence \<noteq> ss_next active \<or> sequence > ss_windowEnd active
            then ((None, [WrongSequence sequence (hd_source h) (hd_destination h) (ss_next active)]), drop_session key d)
            else
              let m = ss_message active;
                  remaining = ss_size active - length (m_payload m);
                  m = m\<lparr>m_payload := m_payload m @ take remaining (drop 1 data)\<rparr>;
                  active = active\<lparr>ss_message := m, ss_next := ss_next active + 1, ss_lastAt := fe_timestamp ev,
                    ss_deadline := fe_timestamp ev + (if hd_destination h \<noteq> GlobalAddress \<and>
                      sequence = ss_windowEnd active then responseTimeout else consecutiveTimeout)\<rparr>
              in if length (m_payload m) < ss_size active then ((None, []), put_session key active d)
                 else ((Some (m\<lparr>m_completedAt := fe_timestamp ev\<rparr>), []), drop_session key d)))"

text \<open>
  The session a control frame of the peer refers to: its key swaps the addresses, and its
  capture direction may be either one. A match in both drops both.
\<close>

definition reverseSession :: "frame_event \<Rightarrow> header \<Rightarrow> u32 \<Rightarrow> decoder \<Rightarrow>
    (session_key \<times> session option \<times> j1939_error list) \<times> decoder" where
  "reverseSession ev h pgn d =
     (let key = \<lparr>sk_bus = fe_bus ev, sk_direction = fe_direction ev, sk_source = hd_destination h,
                 sk_destination = hd_source h\<rparr>;
          other = key\<lparr>sk_direction := oppositeDirection (sk_direction key)\<rparr>;
          pick = (\<lambda>k. case get_session d k of None \<Rightarrow> None
             | Some s \<Rightarrow> if m_pgn (ss_message s) \<noteq> pgn then None else Some s)
      in case (pick key, pick other) of
           (Some _, Some _) \<Rightarrow> ((key, None, [BothDirections]), drop_session other (drop_session key d))
         | (Some s, None) \<Rightarrow> ((key, Some s, []), d)
         | (None, s) \<Rightarrow> ((other, s, []), d))"

text \<open>
  The re-slice \<open>Payload[:(next-1)*7]\<close> past the observed bytes would bring back stale bytes
  of the buffer; the model names that case, and the invariant excludes it.
\<close>

definition clearToSend :: "frame_event \<Rightarrow> header \<Rightarrow> bytes \<Rightarrow> decoder \<Rightarrow> j1939_error list \<times> decoder" where
  "clearToSend ev h data d = (case controlPGN data of
       Inl e \<Rightarrow> ([e], d)
     | Inr pgn \<Rightarrow> (case reverseSession ev h pgn d of
         ((key, found, err), d) \<Rightarrow>
           if err \<noteq> [] then (err, d)
           else (case found of
               None \<Rightarrow> ([NoObservedRTS], d)
             | Some active \<Rightarrow>
                 let count = unat (data ! 1); next = unat (data ! 2) in
                 if ss_next active \<le> ss_windowEnd active then ([CTSDuringWindow], drop_session key d)
                 else if sk_destination key = GlobalAddress \<or> count > unat (ss_maxWindow active) \<or>
                    (count \<noteq> 0 \<and> (next < 1 \<or> next > ss_next active \<or> next + count - 1 > ss_packets active))
                 then ([InvalidCTSWindow], drop_session key d)
                 else
                   let active = active\<lparr>ss_lastAt := fe_timestamp ev\<rparr> in
                   if count = 0
                   then ([], put_session key (active\<lparr>ss_windowEnd := 0,
                           ss_deadline := fe_timestamp ev + holdTimeout\<rparr>) d)
                   else if (next - 1) * 7 > length (m_payload (ss_message active)) then ([BeyondPayload], d)
                   else
                     let m = ss_message active in
                     ([], put_session key (active\<lparr>ss_message := m\<lparr>m_payload := take ((next - 1) * 7) (m_payload m)\<rparr>,
                           ss_next := next, ss_windowEnd := next + count - 1,
                           ss_deadline := fe_timestamp ev + responseTimeout\<rparr>) d))))"

fun abort_candidates :: "u32 \<Rightarrow> u8 \<Rightarrow> session_key list \<Rightarrow> j1939_error list \<times> decoder \<Rightarrow> j1939_error list \<times> decoder" where
  "abort_candidates pgn reason [] st = st"
| "abort_candidates pgn reason (key # keys) (aborted, d) =
     abort_candidates pgn reason keys
       (case get_session d key of
          None \<Rightarrow> (aborted, d)
        | Some active \<Rightarrow>
            if m_pgn (ss_message active) = pgn
            then ([Aborted (sk_source key) (sk_destination key) pgn reason], drop_session key d)
            else (aborted, d))"

definition abortSession :: "frame_event \<Rightarrow> header \<Rightarrow> bytes \<Rightarrow> decoder \<Rightarrow> j1939_error list \<times> decoder" where
  "abortSession ev h data d =
     (if hd_source h \<ge> NullAddress \<or> hd_destination h \<ge> NullAddress then ([AbortNeedsPeers], d)
      else case controlPGN data of
        Inl e \<Rightarrow> ([e], d)
      | Inr pgn \<Rightarrow>
          let key = event_key ev h;
              back = key\<lparr>sk_source := hd_destination h, sk_destination := hd_source h\<rparr>
          in abort_candidates pgn (data ! 1)
               [key, back, back\<lparr>sk_direction := oppositeDirection (fe_direction ev)\<rparr>] ([], d))"

definition acknowledge :: "frame_event \<Rightarrow> header \<Rightarrow> bytes \<Rightarrow> decoder \<Rightarrow> j1939_error list \<times> decoder" where
  "acknowledge ev h data d = (case transportSize data of
       Inl e \<Rightarrow> ([e], d)
     | Inr _ \<Rightarrow>
         if hd_source h \<ge> NullAddress \<or> hd_destination h \<ge> NullAddress then ([MalformedAcknowledgement], d)
         else (case controlPGN data of
             Inl e \<Rightarrow> ([e], d)
           | Inr pgn \<Rightarrow> (case reverseSession ev h pgn d of
               ((key, Some _, _), d) \<Rightarrow> ([EarlyAcknowledgement], drop_session key d)
             | ((_, None, err), d) \<Rightarrow> (err, d))))"

definition pushControl :: "frame_event \<Rightarrow> header \<Rightarrow> decoder \<Rightarrow> push_result" where
  "pushControl ev h d = (case transportData (fe_frame ev) of
       Inl e \<Rightarrow> ((None, [e]), drop_session (event_key ev h) d)
     | Inr data \<Rightarrow>
         let (err, d) =
           (if data ! 0 = transportBAM \<or> data ! 0 = transportRTS then startSession ev h data d
            else if data ! 0 = transportAbort then abortSession ev h data d
            else if data ! 0 = transportCTS then clearToSend ev h data d
            else if data ! 0 = transportEOMA then acknowledge ev h data d
            else ([UnknownControl (data ! 0)], d))
         in ((None, err), d))"

section \<open>Frames\<close>

definition session_expired :: "frame_event \<Rightarrow> session_key \<times> session \<Rightarrow> bool" where
  "session_expired ev x \<longleftrightarrow> sk_bus (fst x) = fe_bus ev \<and>
     (fe_timestamp ev > ss_deadline (snd x) \<or> fe_timestamp ev < ss_lastAt (snd x))"

definition expire :: "frame_event \<Rightarrow> decoder \<Rightarrow> j1939_error list \<times> decoder" where
  "expire ev d =
     (map (\<lambda>(key, s). SessionExpired (sk_source key) (sk_destination key) (m_pgn (ss_message s)))
        (filter (session_expired ev) (dc_sessions d)),
      d\<lparr>dc_sessions := filter (\<lambda>x. \<not> session_expired ev x) (dc_sessions d)\<rparr>)"

definition single_message :: "frame_event \<Rightarrow> header \<Rightarrow> message" where
  "single_message ev h = \<lparr>m_bus = fe_bus ev, m_direction = fe_direction ev, m_priority = hd_priority h,
     m_pgn = hd_pgn h, m_source = hd_source h, m_destination = hd_destination h,
     m_payload = payload_of (fe_frame ev), m_startedAt = fe_timestamp ev, m_completedAt = fe_timestamp ev\<rparr>"

definition pushFrame :: "frame_event \<Rightarrow> decoder \<Rightarrow> push_result" where
  "pushFrame ev d =
     (let f = fe_frame ev in
      if \<not> Has (f_flags f) FrameExtended then ((None, []), d)
      else if Has (f_flags f) FrameRemote \<or> Has (f_flags f) FrameFD then ((None, [ExtendedRemoteOrFD]), d)
      else case ParseID (f_id f) of
        Inl e \<Rightarrow> ((None, [e]), d)
      | Inr h \<Rightarrow>
          if EDP h \<noteq> 0 \<or> hd_pgn h = extendedTransportDataPGN \<or> hd_pgn h = extendedTransportControlPGN
          then ((None, [ExtendedTransport (hd_pgn h)]), d)
          else if hd_pgn h = transportControlPGN then pushControl ev h d
          else if hd_pgn h = transportDataPGN then pushData ev h d
          else
            let (claimErr, d) = (if hd_pgn h = AddressClaimPGN then observeClaim ev h d else ([], d))
            in ((Some (single_message ev h), claimErr), d))"

definition Push :: "frame_event \<Rightarrow> decoder \<Rightarrow> push_result" where
  "Push ev d = (case frame_event_Validate ev of
       Inl e \<Rightarrow> ((None, [EventInvalid e]), d)
     | Inr _ \<Rightarrow> (case expire ev d of (expired, d) \<Rightarrow>
         (case pushFrame ev d of ((m, err), d) \<Rightarrow> ((m, expired @ err), d))))"

fun PushBatch :: "frame_event list \<Rightarrow> decoder \<Rightarrow> (message list \<times> diagnostic list) \<times> decoder" where
  "PushBatch [] d = (([], []), d)"
| "PushBatch (ev # evs) d = (case Push ev d of ((m, err), d) \<Rightarrow>
     (case PushBatch evs d of ((messages, diagnostics), d) \<Rightarrow>
       (((case m of None \<Rightarrow> messages | Some m \<Rightarrow> m # messages),
         (if err \<noteq> [] then \<lparr>dg_bus = fe_bus ev, dg_direction = fe_direction ev,
            dg_timestamp = fe_timestamp ev, dg_errors = err\<rparr> # diagnostics else diagnostics)), d)))"

definition ResetDecoder :: "decoder \<Rightarrow> decoder" where
  "ResetDecoder d = zero_decoder"

definition Flush :: "decoder \<Rightarrow> diagnostic list \<times> decoder" where
  "Flush d =
     (sort_key dg_timestamp (map (\<lambda>(key, s). \<lparr>dg_bus = sk_bus key, dg_direction = sk_direction key,
        dg_timestamp = ss_lastAt s, dg_errors = [TransferIncomplete (sk_source key) (sk_destination key)
          (m_pgn (ss_message s)) (length (m_payload (ss_message s))) (ss_size s)]\<rparr>) (dc_sessions d)),
      d\<lparr>dc_sessions := []\<rparr>)"

end
