(* ===== verification/J1939_Client.thy ===== *)
theory J1939_Client
  imports J1939_Decoder Capture_Read
begin

unbundle bit_operations_syntax

text \<open>
  The active J1939 client (\<open>j1939/client.go\<close> and \<open>client_transport.go\<close>): address claiming and
  the sending and receiving sides of the transport protocol. The fields that only the run
  goroutine touches are the state; each round of its loop is one \<open>run_round\<close>. What the
  environment decides is part of the state as a script: the readings of \<open>time.Now()\<close>, the
  results of the bus sends and the random delays; the causes of ended contexts are a map.
  What the client does is recorded: the accepted frames, the results delivered to the
  callers of \<open>Send\<close>, and the result of \<open>Open\<close> (the first value put on \<open>ready\<close>).
\<close>

section \<open>State\<close>

definition RequestPGN :: u32 where "RequestPGN = 0xea00"
definition commandedAddressPGN :: u32 where "commandedAddressPGN = 0xfed8"
definition bamInterval :: int where "bamInterval = 50000000"

datatype client_error =
    ErrClosed
  | ErrAddressLost
  | ErrBusy
  | ErrTimeout
  | ErrQueueFull
  | SendFailure nat
  | Cancelled nat
  | ClientProtocol j1939_error
  | ClientUnsupported
  | ClientFrame frame_error
  | CaptureFailure capture_error
  | ShortControl
  | PeerChanged
  | PeerAborted u8
  | ControlTooEarly
  | PrematureEOMA
  | CTSInWindow
  | BadCTS
  | UnusableConfig
  | BeyondRequest

record request =
  rq_id :: nat
  rq_priority :: u8
  rq_pgn :: u32
  rq_destination :: u8
  rq_payload :: bytes

record tx_state =
  jt_request :: request
  jt_next :: nat
  jt_sent :: nat
  jt_end :: nat
  jt_deadline :: time
  jt_due :: time
  jt_barrier :: u64

record rx_state =
  jr_source :: u8
  jr_pgn :: u32
  jr_size :: nat
  jr_packets :: nat
  jr_next :: nat
  jr_end :: nat
  jr_window :: nat
  jr_deadline :: time
  jr_barrier :: u64

record client =
  jc_name :: u64
  jc_configured :: u8
  jc_cursor :: cursor
  jc_address :: u8
  jc_claimed :: bool
  jc_claimAt :: time
  jc_cannotAt :: time
  jc_peers :: "u8 \<Rightarrow> u64"
  jc_tx :: "tx_state option"
  jc_rx :: "rx_state option"
  jc_sent :: u64
  jc_observed :: u64
  jc_clock :: "time list"
  jc_now :: time
  jc_sends :: "client_error option list"
  jc_random :: "nat list"
  jc_cause :: "client_error option"
  jc_causes :: "nat \<rightharpoonup> client_error"
  jc_out :: "frame list"
  jc_results :: "(nat \<times> client_error option) list"
  jc_ready :: "client_error option list"

text \<open>An operation returns the error it ends with, if any.\<close>

type_synonym client_op = "client \<Rightarrow> client_error option \<times> client"

definition done_op :: client_op where
  "done_op c = (None, c)"

definition fail_op :: "client_error \<Rightarrow> client_op" where
  "fail_op e c = (Some e, c)"

definition then_op :: "client_op \<Rightarrow> client_op \<Rightarrow> client_op" where
  "then_op f g c = (case f c of (Some e, c) \<Rightarrow> (Some e, c) | (None, c) \<Rightarrow> g c)"

definition read_clock :: "client \<Rightarrow> time \<times> client" where
  "read_clock c = (case jc_clock c of
       [] \<Rightarrow> (jc_now c, c)
     | t # ts \<Rightarrow> (t, c\<lparr>jc_clock := ts, jc_now := t\<rparr>))"

section \<open>Checks\<close>

definition activePGN :: "u32 \<Rightarrow> client_error option" where
  "activePGN pgn = (case PGN_validate pgn of
       Inl e \<Rightarrow> Some (ClientProtocol e)
     | Inr _ \<Rightarrow>
         if pgn AND 0x20000 \<noteq> 0 \<or> pgn = transportControlPGN \<or> pgn = transportDataPGN \<or>
            pgn = extendedTransportDataPGN \<or> pgn = extendedTransportControlPGN \<or> pgn = commandedAddressPGN
         then Some ClientUnsupported else None)"

definition send_check :: "client \<Rightarrow> request \<Rightarrow> client_error option" where
  "send_check c r =
     (if rq_priority r > 7 \<or> rq_destination r = NullAddress \<or> rq_destination r = jc_configured c \<or>
         length (rq_payload r) > maximumTransportPayload then Some ClientUnsupported
      else if length (rq_payload r) \<le> 8 \<and> \<not> isPDU1 (rq_pgn r) \<and> rq_destination r \<noteq> GlobalAddress
        then Some ClientUnsupported
      else None)"

definition SendJ1939 :: "client \<Rightarrow> request \<Rightarrow> client_error option" where
  "SendJ1939 c r = (case activePGN (rq_pgn r) of
       Some e \<Rightarrow> Some e
     | None \<Rightarrow> if rq_pgn r = AddressClaimPGN \<or> rq_pgn r = RequestPGN then Some ClientUnsupported
              else send_check c r)"

definition Request :: "client \<Rightarrow> nat \<Rightarrow> u8 \<Rightarrow> u32 \<Rightarrow> client_error + request" where
  "Request c rid destination pgn = (case activePGN pgn of
       Some e \<Rightarrow> Inl e
     | None \<Rightarrow>
         let r = \<lparr>rq_id = rid, rq_priority = 6, rq_pgn = RequestPGN, rq_destination = destination,
                  rq_payload = [ucast pgn, ucast (drop_bit 8 pgn), ucast (drop_bit 16 pgn)]\<rparr>
         in case send_check c r of Some e \<Rightarrow> Inl e | None \<Rightarrow> Inr r)"

definition config_ok :: "u64 \<Rightarrow> u8 \<Rightarrow> client_error option" where
  "config_ok name address =
     (if address \<ge> NullAddress \<or> name = 0 then Some UnusableConfig
      else if Reserved name \<noteq> 0 \<or> ArbitraryAddressCapable name then Some ClientUnsupported
      else None)"

section \<open>Sending frames\<close>

definition send_frame :: "u8 \<Rightarrow> u32 \<Rightarrow> u8 \<Rightarrow> u8 \<Rightarrow> bytes \<Rightarrow> client_op" where
  "send_frame priority pgn source destination data c =
     (case header_ID \<lparr>hd_priority = priority, hd_pgn = pgn, hd_source = source, hd_destination = destination\<rparr> of
        Inl e \<Rightarrow> (Some (ClientProtocol e), c)
      | Inr i \<Rightarrow> (case NewFrame i data FrameExtended of
          Inl e \<Rightarrow> (Some (ClientFrame e), c)
        | Inr f \<Rightarrow> (case jc_sends c of
              [] \<Rightarrow> (None, c\<lparr>jc_out := jc_out c @ [f], jc_sent := jc_sent c + 1\<rparr>)
            | None # rest \<Rightarrow> (None, c\<lparr>jc_sends := rest, jc_out := jc_out c @ [f], jc_sent := jc_sent c + 1\<rparr>)
            | Some e # rest \<Rightarrow> (Some e, c\<lparr>jc_sends := rest\<rparr>))))"

definition claim :: "u8 \<Rightarrow> client_op" where
  "claim address c = send_frame 6 AddressClaimPGN address GlobalAddress (put_le_uint64 (jc_name c)) c"

definition sendRequestFrame :: "request \<Rightarrow> u32 \<Rightarrow> u8 \<Rightarrow> bytes \<Rightarrow> client_op" where
  "sendRequestFrame r pgn priority data c = (case jc_cause c of
       Some e \<Rightarrow> (Some e, c)
     | None \<Rightarrow> send_frame priority pgn (jc_configured c) (rq_destination r) data c)"

definition controlBytes :: "u8 \<Rightarrow> u32 \<Rightarrow> bytes" where
  "controlBytes kind pgn = [kind, 0xff, 0xff, 0xff, 0xff, ucast pgn, ucast (drop_bit 8 pgn), ucast (drop_bit 16 pgn)]"

definition put_uint16 :: "nat \<Rightarrow> bytes \<Rightarrow> bytes" where
  "put_uint16 n data = data[1 := ucast (word_of_nat n :: u16), 2 := ucast (drop_bit 8 (word_of_nat n :: u16))]"

definition control :: "u8 \<Rightarrow> bytes \<Rightarrow> client_op" where
  "control destination data c = send_frame 7 transportControlPGN (jc_configured c) destination data c"

definition abort :: "u8 \<Rightarrow> u32 \<Rightarrow> u8 \<Rightarrow> client_op" where
  "abort destination pgn reason = control destination ((controlBytes transportAbort pgn)[1 := reason])"

definition finishSend :: "client_error option \<Rightarrow> client \<Rightarrow> client" where
  "finishSend err c = (case jc_tx c of
       None \<Rightarrow> c
     | Some t \<Rightarrow> c\<lparr>jc_results := jc_results c @ [(rq_id (jt_request t), err)], jc_tx := None\<rparr>)"

definition failSend :: "client_error \<Rightarrow> u8 \<Rightarrow> client_op" where
  "failSend err reason c = (case jc_tx c of
       None \<Rightarrow> (None, c)
     | Some t \<Rightarrow>
         let r = jt_request t in
         case (if rq_destination r \<noteq> GlobalAddress then abort (rq_destination r) (rq_pgn r) reason c else (None, c)) of
           (abortErr, c) \<Rightarrow> (abortErr, finishSend (Some err) c))"

definition failReceive :: "u8 \<Rightarrow> client_op" where
  "failReceive reason c = (case jc_rx c of
       None \<Rightarrow> (None, c)
     | Some r \<Rightarrow> abort (jr_source r) (jr_pgn r) reason (c\<lparr>jc_rx := None\<rparr>))"

definition invalidatePeer :: "u8 \<Rightarrow> client \<Rightarrow> client" where
  "invalidatePeer peer c =
     (let c = (case jc_tx c of
            None \<Rightarrow> c
          | Some t \<Rightarrow> if rq_destination (jt_request t) = peer then finishSend (Some PeerChanged) c else c)
      in case jc_rx c of
           None \<Rightarrow> c
         | Some r \<Rightarrow> if jr_source r = peer then c\<lparr>jc_rx := None\<rparr> else c)"

section \<open>Transport\<close>

definition packets_of :: "bytes \<Rightarrow> nat" where
  "packets_of payload = (length payload + 6) div 7"

definition announcement :: "request \<Rightarrow> bytes" where
  "announcement r =
     (let data = put_uint16 (length (rq_payload r)) (controlBytes transportRTS (rq_pgn r));
          packets = word_of_nat (packets_of (rq_payload r));
          data = data[3 := packets, 4 := packets]
      in if rq_destination r = GlobalAddress then data[0 := transportBAM, 4 := 0xff] else data)"

definition startSend :: "request \<Rightarrow> client \<Rightarrow> client" where
  "startSend r c =
     (let result = (\<lambda>err c. c\<lparr>jc_results := jc_results c @ [(rq_id r, err)]\<rparr>) in
      if jc_causes c (rq_id r) \<noteq> None then result (jc_causes c (rq_id r)) c
      else if \<not> jc_claimed c then result (Some ErrAddressLost) c
      else if (case jc_tx c of Some t \<Rightarrow> rq_destination (jt_request t) = GlobalAddress | None \<Rightarrow> False)
        then result (Some ErrBusy) c
      else if length (rq_payload r) \<le> 8
        then (case sendRequestFrame r (rq_pgn r) (rq_priority r) (rq_payload r) c of (err, c) \<Rightarrow> result err c)
      else if jc_tx c \<noteq> None \<or> (case jc_rx c of Some x \<Rightarrow> jr_source x = rq_destination r | None \<Rightarrow> False)
        then result (Some ErrBusy) c
      else
        let t = \<lparr>jt_request = r, jt_next = 1, jt_sent = 0, jt_end = 0, jt_deadline = zero_time, jt_due = zero_time,
                 jt_barrier = 0\<rparr>;
            c = c\<lparr>jc_tx := Some t\<rparr>
        in case sendRequestFrame r transportControlPGN (rq_priority r) (announcement r) c of
             (Some e, c) \<Rightarrow> finishSend (Some e) c
           | (None, c) \<Rightarrow>
               (case read_clock c of (now, c) \<Rightarrow>
                 let t = t\<lparr>jt_barrier := jc_sent c, jt_deadline := now + responseTimeout\<rparr> in
                 if rq_destination r = GlobalAddress
                 then (case read_clock c of (now, c) \<Rightarrow> c\<lparr>jc_tx := Some (t\<lparr>jt_due := now + bamInterval\<rparr>)\<rparr>)
                 else c\<lparr>jc_tx := Some t\<rparr>))"

definition grant :: client_op where
  "grant c = (case jc_rx c of
       None \<Rightarrow> (None, c)
     | Some r \<Rightarrow>
         let count = min (jr_window r) (jr_packets r - jr_next r + 1);
             data = (controlBytes transportCTS (jr_pgn r))[1 := word_of_nat count, 2 := word_of_nat (jr_next r)];
             r = r\<lparr>jr_end := jr_next r + count - 1\<rparr>;
             c = c\<lparr>jc_rx := Some r\<rparr>
         in case control (jr_source r) data c of
              (Some e, c) \<Rightarrow> (Some e, c)
            | (None, c) \<Rightarrow> (case read_clock c of (now, c) \<Rightarrow>
                (None, c\<lparr>jc_rx := Some (r\<lparr>jr_barrier := jc_sent c, jr_deadline := now + responseTimeout\<rparr>)\<rparr>)))"

definition expireTransport :: "time \<Rightarrow> client_op" where
  "expireTransport at =
     then_op (\<lambda>c. case jc_tx c of
         Some t \<Rightarrow> (case jc_causes c (rq_id (jt_request t)) of Some e \<Rightarrow> failSend e 2 c | None \<Rightarrow> (None, c))
       | None \<Rightarrow> (None, c))
     (then_op (\<lambda>c. case jc_rx c of
         Some r \<Rightarrow> if \<not> at < jr_deadline r then failReceive 3 c else (None, c)
       | None \<Rightarrow> (None, c))
     (\<lambda>c. case jc_tx c of
         Some t \<Rightarrow> if (jt_due t = zero_time \<or> rq_destination (jt_request t) \<noteq> GlobalAddress) \<and> \<not> at < jt_deadline t
           then failSend ErrTimeout 3 c else (None, c)
       | None \<Rightarrow> (None, c)))"

definition handleData :: "time \<Rightarrow> header \<Rightarrow> bytes \<Rightarrow> client_op" where
  "handleData now h data c = (case jc_rx c of
       None \<Rightarrow> (None, c)
     | Some r \<Rightarrow>
         if jr_source r \<noteq> hd_source h then (None, c)
         else if jc_observed c < jr_barrier r \<or> length data \<noteq> 8 \<or> unat (data ! 0) \<noteq> jr_next r \<or> jr_next r > jr_end r
           then failReceive 7 c
         else
           let r = r\<lparr>jr_next := jr_next r + 1\<rparr> in
           if jr_next r > jr_packets r
           then control (jr_source r)
                  ((put_uint16 (jr_size r) (controlBytes transportEOMA (jr_pgn r)))[3 := word_of_nat (jr_packets r)])
                  (c\<lparr>jc_rx := None\<rparr>)
           else if jr_next r > jr_end r then grant (c\<lparr>jc_rx := Some r\<rparr>)
           else (None, c\<lparr>jc_rx := Some (r\<lparr>jr_deadline := now + consecutiveTimeout\<rparr>)\<rparr>))"

definition handleRTS :: "header \<Rightarrow> bytes \<Rightarrow> u32 \<Rightarrow> client_op" where
  "handleRTS h data pgn c =
     (if (case jc_rx c of Some r \<Rightarrow> jr_source r = hd_source h | None \<Rightarrow> False)
      then abort (hd_source h) pgn 1 (c\<lparr>jc_rx := None\<rparr>)
      else if jc_rx c \<noteq> None \<or> (case jc_tx c of Some t \<Rightarrow> rq_destination (jt_request t) = hd_source h | None \<Rightarrow> False)
      then abort (hd_source h) pgn 1 c
      else case transportSize data of
          Inl _ \<Rightarrow> abort (hd_source h) pgn 2 c
        | Inr (sz, packets) \<Rightarrow>
            if data ! 4 = 0 \<or> activePGN pgn \<noteq> None \<or> pgn = AddressClaimPGN \<or> pgn = RequestPGN
            then abort (hd_source h) pgn 2 c
            else grant (c\<lparr>jc_rx := Some \<lparr>jr_source = hd_source h, jr_pgn = pgn, jr_size = sz, jr_packets = packets,
                   jr_next = 1, jr_end = 0, jr_window = unat (data ! 4), jr_deadline = zero_time, jr_barrier = 0\<rparr>\<rparr>))"

definition handleAbort :: "header \<Rightarrow> bytes \<Rightarrow> u32 \<Rightarrow> client_op" where
  "handleAbort h data pgn c =
     (let c = (case jc_rx c of
            Some r \<Rightarrow> if jr_source r = hd_source h \<and> jr_pgn r = pgn then c\<lparr>jc_rx := None\<rparr> else c
          | None \<Rightarrow> c)
      in (None, case jc_tx c of
            Some t \<Rightarrow> if rq_destination (jt_request t) = hd_source h \<and> rq_pgn (jt_request t) = pgn
              then finishSend (Some (PeerAborted (data ! 1))) c else c
          | None \<Rightarrow> c))"

definition handleResponse :: "time \<Rightarrow> header \<Rightarrow> bytes \<Rightarrow> u32 \<Rightarrow> client_op" where
  "handleResponse now h data pgn c = (case jc_tx c of
       None \<Rightarrow> (None, c)
     | Some t \<Rightarrow>
         if rq_destination (jt_request t) \<noteq> hd_source h \<or> rq_pgn (jt_request t) \<noteq> pgn then (None, c)
         else if jc_observed c < jt_barrier t then failSend ControlTooEarly 4 c
         else
           let packets = packets_of (rq_payload (jt_request t)) in
           if data ! 0 = transportEOMA then
             (if jt_sent t \<noteq> packets \<or> jt_end t \<noteq> 0 \<or>
                 unat (ucast (data ! 1) OR push_bit 8 (ucast (data ! 2)) :: u16) \<noteq> length (rq_payload (jt_request t)) \<or>
                 unat (data ! 3) \<noteq> packets
              then failSend PrematureEOMA 2 c else (None, finishSend None c))
           else
             let count = unat (data ! 1); next = unat (data ! 2) in
             if jt_end t \<noteq> 0 then failSend CTSInWindow 4 c
             else if count > packets \<or> count \<noteq> 0 \<and> (next < 1 \<or> next > jt_sent t + 1 \<or> next + count - 1 > packets)
             then failSend BadCTS 2 c
             else if count = 0 then (None, c\<lparr>jc_tx := Some (t\<lparr>jt_deadline := now + holdTimeout\<rparr>)\<rparr>)
             else (None, c\<lparr>jc_tx := Some (t\<lparr>jt_next := next, jt_end := next + count - 1, jt_due := now,
                     jt_deadline := now + responseTimeout\<rparr>)\<rparr>))"

definition handleTransport :: "frame_event \<Rightarrow> header \<Rightarrow> bytes \<Rightarrow> client_op" where
  "handleTransport ev h data =
     then_op (expireTransport (fe_timestamp ev)) (\<lambda>c.
       let receiving = (case jc_rx c of Some r \<Rightarrow> jr_source r = hd_source h | None \<Rightarrow> False) in
       if hd_pgn h = transportDataPGN then handleData (fe_timestamp ev) h data c
       else if hd_pgn h \<noteq> transportControlPGN then (None, c)
       else if length data > 0 \<and> data ! 0 = transportBAM \<and> receiving then failReceive 2 c
       else if length data \<noteq> 8 then
         (if receiving then failReceive 2 c
          else case jc_tx c of
              Some t \<Rightarrow> if rq_destination (jt_request t) = hd_source h then failSend ShortControl 2 c else (None, c)
            | None \<Rightarrow> (None, c))
       else case controlPGN data of
           Inl _ \<Rightarrow> if receiving \<and> data ! 0 = transportRTS then failReceive 2 c else (None, c)
         | Inr pgn \<Rightarrow>
             if data ! 0 = transportRTS then handleRTS h data pgn c
             else if data ! 0 = transportAbort then handleAbort h data pgn c
             else if data ! 0 = transportCTS \<or> data ! 0 = transportEOMA then handleResponse (fe_timestamp ev) h data pgn c
             else (None, c))"

text \<open>A packet past the payload would be a run-time panic; the model names it.\<close>

definition data_packet :: "bytes \<Rightarrow> nat \<Rightarrow> bytes" where
  "data_packet payload next = word_of_nat next # copy_into (replicate 7 0xff) (drop ((next - 1) * 7) payload)"

definition tickTransport :: "time \<Rightarrow> client_op" where
  "tickTransport now c = (case jc_tx c of
       None \<Rightarrow> (None, c)
     | Some t \<Rightarrow>
         let r = jt_request t in
         case jc_causes c (rq_id r) of
           Some e \<Rightarrow> failSend e 2 c
         | None \<Rightarrow>
             if jt_due t = zero_time then (None, c)
             else if now < jt_due t then (None, c)
             else if rq_destination r = GlobalAddress \<and> now - jt_due t > 150000000 then failSend ErrTimeout 3 c
             else if jt_next t = 0 \<or> (jt_next t - 1) * 7 > length (rq_payload r) then (Some BeyondRequest, c)
             else (case sendRequestFrame r transportDataPGN 7 (data_packet (rq_payload r) (jt_next t)) c of
                 (Some e, c) \<Rightarrow>
                   if rq_destination r \<noteq> GlobalAddress \<and> e = ErrQueueFull
                   then (case read_clock c of (now, c) \<Rightarrow> (None, c\<lparr>jc_tx := Some (t\<lparr>jt_due := now + 5000000\<rparr>)\<rparr>))
                   else failSend e 2 c
               | (None, c) \<Rightarrow>
                   (case (if rq_destination r = GlobalAddress then read_clock c else (jt_due t, c)) of (late, c) \<Rightarrow>
                   if rq_destination r = GlobalAddress \<and> late - jt_due t > 150000000 then failSend ErrTimeout 3 c
                   else
                     let t = t\<lparr>jt_barrier := jc_sent c, jt_sent := max (jt_sent t) (jt_next t), jt_next := jt_next t + 1\<rparr>;
                         c = c\<lparr>jc_tx := Some t\<rparr>
                     in if rq_destination r = GlobalAddress then
                          (if jt_next t > packets_of (rq_payload r) then (None, finishSend None c)
                           else (case read_clock c of (now, c) \<Rightarrow>
                             (None, c\<lparr>jc_tx := Some (t\<lparr>jt_due := now + bamInterval\<rparr>)\<rparr>)))
                        else if jt_next t > jt_end t then
                          (case read_clock c of (now, c) \<Rightarrow>
                            (None, c\<lparr>jc_tx := Some (t\<lparr>jt_end := 0, jt_due := zero_time,
                               jt_deadline := now + responseTimeout\<rparr>)\<rparr>))
                        else
                          (case read_clock c of (now1, c) \<Rightarrow> (case read_clock c of (now2, c) \<Rightarrow>
                            (None, c\<lparr>jc_tx := Some (t\<lparr>jt_due := now1, jt_deadline := now2 + consecutiveTimeout\<rparr>)\<rparr>))))))"

section \<open>Address claiming\<close>

definition scheduleCannotClaim :: "client \<Rightarrow> client" where
  "scheduleCannotClaim c = (case read_clock c of (now, c) \<Rightarrow>
     c\<lparr>jc_cannotAt := now + int (case jc_random c of [] \<Rightarrow> 0 | n # _ \<Rightarrow> n mod 154) * 1000000,
       jc_random := tl (jc_random c)\<rparr>)"

definition loseAddress :: "client \<Rightarrow> client" where
  "loseAddress c =
     (let c = c\<lparr>jc_claimed := False, jc_claimAt := zero_time, jc_address := NullAddress\<rparr>
      in scheduleCannotClaim ((finishSend (Some ErrAddressLost) c)\<lparr>jc_rx := None\<rparr>))"

definition ready_send :: "client_error option \<Rightarrow> client \<Rightarrow> client" where
  "ready_send v c = (if jc_ready c = [] then c\<lparr>jc_ready := [v]\<rparr> else c)"

definition completeClaim :: "time \<Rightarrow> client \<Rightarrow> client" where
  "completeClaim at c =
     (if jc_claimAt c \<noteq> zero_time \<and> \<not> at < jc_claimAt c
      then ready_send None (c\<lparr>jc_claimAt := zero_time, jc_claimed := True, jc_address := jc_configured c\<rparr>)
      else c)"

definition move_peers :: "u64 \<Rightarrow> u8 \<Rightarrow> client \<Rightarrow> client" where
  "move_peers name source c = fold (\<lambda>addr c.
     if jc_peers c addr = name \<and> addr \<noteq> source
     then invalidatePeer addr (c\<lparr>jc_peers := (jc_peers c)(addr := 0)\<rparr>) else c) (map word_of_nat [0..<254]) c"

definition handleClaim :: "header \<Rightarrow> bytes \<Rightarrow> client_op" where
  "handleClaim h data c = (case ParseName data of
       Inl _ \<Rightarrow> (None, c)
     | Inr name \<Rightarrow>
         if name = 0 \<or> Reserved name \<noteq> 0 then (None, c)
         else
           let contest = hd_source h = jc_configured c \<and> name \<noteq> jc_name c \<and> (jc_claimAt c \<noteq> zero_time \<or> jc_claimed c) in
           if contest \<and> \<not> name < jc_name c then claim (jc_configured c) c
           else
             let c = (if contest then loseAddress c else c);
                 c = move_peers name (hd_source h) c
             in (None, if hd_source h < NullAddress \<and> jc_peers c (hd_source h) \<noteq> name
                  then let c = (if jc_peers c (hd_source h) \<noteq> 0 then invalidatePeer (hd_source h) c else c)
                       in c\<lparr>jc_peers := (jc_peers c)(hd_source h := name)\<rparr>
                  else c))"

definition handleRequest :: "header \<Rightarrow> bytes \<Rightarrow> client \<Rightarrow> client_error option option \<times> client" where
  "handleRequest h data c =
     (if hd_pgn h = RequestPGN \<and> (hd_destination h = GlobalAddress \<or> hd_destination h = jc_configured c) \<and>
         length data = 3 \<and> (hd_source h < NullAddress \<or> hd_source h = NullAddress \<and> hd_destination h = GlobalAddress) \<and>
         (ucast (data ! 0) OR push_bit 8 (ucast (data ! 1)) OR push_bit 16 (ucast (data ! 2)) :: u32) = AddressClaimPGN
      then (if jc_claimed c \<or> jc_claimAt c \<noteq> zero_time
            then (case claim (jc_configured c) c of (err, c) \<Rightarrow> (Some err, c))
            else if jc_cannotAt c = zero_time then (None, scheduleCannotClaim c) else (None, c))
      else (None, c))"

definition handle :: "frame_event \<Rightarrow> header \<Rightarrow> client_op" where
  "handle ev h c =
     (let data = payload_of (fe_frame ev) in
      if hd_pgn h = AddressClaimPGN \<and> hd_destination h = GlobalAddress \<and> hd_source h \<noteq> GlobalAddress
      then handleClaim h data c
      else case handleRequest h data c of
          (Some result, c) \<Rightarrow> (result, c)
        | (None, c) \<Rightarrow>
            let c = completeClaim (fe_timestamp ev) c in
            if \<not> jc_claimed c \<or> hd_source h \<ge> NullAddress \<or> hd_destination h \<noteq> jc_configured c \<or>
               hd_source h = jc_configured c then (None, c)
            else handleTransport ev h data c)"

section \<open>Rounds of the run loop\<close>

definition zero_header :: header where
  "zero_header = \<lparr>hd_priority = 0, hd_pgn = 0, hd_source = 0, hd_destination = 0\<rparr>"

definition own_transmission :: "header \<Rightarrow> bytes \<Rightarrow> client \<Rightarrow> bool" where
  "own_transmission h data c \<longleftrightarrow> hd_source h = jc_configured c \<or>
     hd_source h = NullAddress \<and> hd_pgn h = AddressClaimPGN \<and> length data = 8 \<and> le_uint64 data = jc_name c"

definition pollEvent :: "u16 \<Rightarrow> frame_event \<Rightarrow> client_op" where
  "pollEvent busID ev c =
     (if fe_bus ev \<noteq> busID \<or> f_flags (fe_frame ev) \<noteq> FrameExtended then (None, c)
      else
        let h = (case ParseID (f_id (fe_frame ev)) of Inl _ \<Rightarrow> zero_header | Inr h \<Rightarrow> h);
            transmitted = (fe_direction ev = DirectionTransmit);
            c = (if transmitted \<and> own_transmission h (payload_of (fe_frame ev)) c
                 then c\<lparr>jc_observed := jc_observed c + 1\<rparr> else c)
        in if transmitted \<and> (hd_source h \<noteq> jc_configured c \<or> hd_pgn h \<noteq> RequestPGN \<or> hd_destination h \<noteq> GlobalAddress)
           then (None, c)
           else if EDP h \<noteq> 0 then (None, c)
           else handle ev h c)"

fun pollEvents :: "u16 \<Rightarrow> frame_event list \<Rightarrow> client_op" where
  "pollEvents busID [] = done_op"
| "pollEvents busID (ev # evs) = then_op (pollEvent busID ev) (pollEvents busID evs)"

definition poll :: "u16 \<Rightarrow> capture \<Rightarrow> client_op" where
  "poll busID cap c = (case read_clock c of (cutoff, c) \<Rightarrow>
     (case FramesSince (jc_cursor c) cap of
        Inl e \<Rightarrow> (Some (CaptureFailure e), c)
      | Inr (events, nxt) \<Rightarrow> (case pollEvents busID events c of
          (Some e, c) \<Rightarrow> (Some e, c)
        | (None, c) \<Rightarrow> expireTransport cutoff (completeClaim cutoff (c\<lparr>jc_cursor := nxt\<rparr>)))))"

definition tick :: "time \<Rightarrow> client_op" where
  "tick now =
     then_op (\<lambda>c. if jc_cannotAt c \<noteq> zero_time \<and> \<not> now < jc_cannotAt c
         then (case claim NullAddress (c\<lparr>jc_cannotAt := zero_time\<rparr>) of
             (Some e, c) \<Rightarrow> (Some e, c)
           | (None, c) \<Rightarrow> (None, ready_send (Some ErrAddressLost) c))
         else (None, c))
     (tickTransport now)"

definition run_start :: client_op where
  "run_start c = (case claim (jc_configured c) c of
       (Some e, c) \<Rightarrow> (Some e, c)
     | (None, c) \<Rightarrow> (case read_clock c of (now, c) \<Rightarrow> (None, c\<lparr>jc_claimAt := now + 250000000\<rparr>)))"

definition run_round :: "u16 \<Rightarrow> capture \<Rightarrow> request option \<Rightarrow> client_op" where
  "run_round busID cap request =
     then_op (poll busID cap) (\<lambda>c.
       let c = (case request of None \<Rightarrow> c | Some r \<Rightarrow> startSend r c)
       in case read_clock c of (now, c) \<Rightarrow> tick now c)"

definition shutdown :: "client \<Rightarrow> client" where
  "shutdown c =
     (if \<not> jc_claimed c then c
      else
        let stop = (\<lambda>peer pgn c. snd (abort peer pgn 2 c));
            c = (case jc_tx c of
              Some t \<Rightarrow> if rq_destination (jt_request t) \<noteq> GlobalAddress
                then stop (rq_destination (jt_request t)) (rq_pgn (jt_request t)) c else c
            | None \<Rightarrow> c)
        in case jc_rx c of Some r \<Rightarrow> stop (jr_source r) (jr_pgn r) c | None \<Rightarrow> c)"

end
