(* ===== verification/J1939_Sessions.thy ===== *)
theory J1939_Sessions
  imports J1939_Decoder
begin

unbundle bit_operations_syntax

text \<open>
  The invariant of the decoder's sessions, which every pushed frame keeps, and the
  independence of the buses: a decoder fed with the interleaved traffic of several buses
  does to each of them what a decoder of its own would do.
\<close>

section \<open>The invariant\<close>

text \<open>
  An open session has observed exactly the first \<open>ss_next - 1\<close> packets, seven bytes each,
  and lacks at least one byte. The addresses are usable and the window ends within the
  transfer; a broadcast's window is the whole transfer.
\<close>

definition wf_session :: "session_key \<Rightarrow> session \<Rightarrow> bool" where
  "wf_session k s \<longleftrightarrow> 8 < ss_size s \<and> ss_size s \<le> maximumTransportPayload \<and>
     ss_packets s = (ss_size s + 6) div 7 \<and> 1 \<le> ss_next s \<and> ss_next s \<le> ss_packets s \<and>
     length (m_payload (ss_message s)) = 7 * (ss_next s - 1) \<and> ss_windowEnd s \<le> ss_packets s \<and>
     sk_source k < NullAddress \<and> sk_destination k \<noteq> NullAddress \<and>
     m_bus (ss_message s) = sk_bus k \<and> m_direction (ss_message s) = sk_direction k \<and>
     m_source (ss_message s) = sk_source k \<and> m_destination (ss_message s) = sk_destination k \<and>
     (sk_destination k = GlobalAddress \<longrightarrow> ss_windowEnd s = ss_packets s)"

definition wf_decoder :: "decoder \<Rightarrow> bool" where
  "wf_decoder d \<longleftrightarrow> distinct (map fst (dc_sessions d)) \<and> distinct (map fst (dc_names d)) \<and>
     (\<forall>(k, s) \<in> set (dc_sessions d). wf_session k s)"

text \<open>What a completed message may be: a single frame's, or a whole transport payload.\<close>

definition wf_message :: "message \<Rightarrow> bool" where
  "wf_message m \<longleftrightarrow> length (m_payload m) \<le> maximumTransportPayload"

definition good_push :: "push_result \<Rightarrow> bool" where
  "good_push r \<longleftrightarrow> (case r of ((m, err), d) \<Rightarrow> wf_decoder d \<and> BeyondPayload \<notin> set err \<and>
     (\<forall>x. m = Some x \<longrightarrow> wf_message x))"

definition good_step :: "j1939_error list \<times> decoder \<Rightarrow> bool" where
  "good_step r \<longleftrightarrow> (case r of (err, d) \<Rightarrow> wf_decoder d \<and> BeyondPayload \<notin> set err)"

lemma good_simps [simp]:
  "good_push ((None, err), d) \<longleftrightarrow> good_step (err, d)"
  "good_push ((Some x, err), d) \<longleftrightarrow> good_step (err, d) \<and> wf_message x"
  "good_step (err, d) \<longleftrightarrow> wf_decoder d \<and> BeyondPayload \<notin> set err"
  by (auto simp: good_push_def good_step_def)

lemma wf_zero [wf_intros]: "wf_decoder zero_decoder"
  by (simp add: wf_decoder_def zero_decoder_def)

lemma wf_get: "wf_decoder d \<Longrightarrow> get_session d k = Some s \<Longrightarrow> wf_session k s"
  by (auto simp: wf_decoder_def get_session_def dest: map_of_SomeD)

lemma set_delete_subset: "set (AList.delete k al) \<subseteq> set al"
  by (induction al) auto

lemma wf_drop [wf_intros]: "wf_decoder d \<Longrightarrow> wf_decoder (drop_session k d)"
  using set_delete_subset [of k "dc_sessions d"] by (auto simp: wf_decoder_def drop_session_def distinct_delete)

lemma set_update_subset: "set (AList.update k v al) \<subseteq> insert (k, v) (set al)"
  by (induction al) (auto split: if_splits)

lemma wf_put [wf_intros]: "wf_decoder d \<Longrightarrow> wf_session k s \<Longrightarrow> wf_decoder (put_session k s d)"
  using set_update_subset [of k s "dc_sessions d"]
  by (auto simp: wf_decoder_def put_session_def distinct_update)

lemma wf_filter_sessions [wf_intros]: "wf_decoder d \<Longrightarrow> wf_decoder (d\<lparr>dc_sessions := filter P (dc_sessions d)\<rparr>)"
  by (auto simp: wf_decoder_def distinct_map_filter)

lemma get_session_ops:
  "get_session (drop_session k d) k' = (if k' = k then None else get_session d k')"
  "get_session (put_session k s d) k' = (if k' = k then Some s else get_session d k')"
  by (simp_all add: get_session_def drop_session_def put_session_def delete_conv' update_conv')

lemma get_filter:
  assumes "wf_decoder d"
  shows "get_session (d\<lparr>dc_sessions := filter P (dc_sessions d)\<rparr>) k =
    (case get_session d k of None \<Rightarrow> None | Some s \<Rightarrow> if P (k, s) then Some s else None)"
proof -
  have "distinct (map fst al) \<Longrightarrow> map_of (filter P al) k =
      (case map_of al k of None \<Rightarrow> None | Some s \<Rightarrow> if P (k, s) then Some s else None)" for al :: "(session_key \<times> session) list"
    by (induction al) (auto split: option.split simp: map_of_eq_None_iff image_iff)
  with assms show ?thesis by (simp add: get_session_def wf_decoder_def)
qed

section \<open>Every operation keeps the invariant\<close>

lemma transportSize_Inr: "transportSize data = Inr (sz, packets) \<Longrightarrow>
    8 < sz \<and> sz \<le> maximumTransportPayload \<and> packets = (sz + 6) div 7 \<and> 1 < packets"
  by (auto simp: transportSize_def Let_def split: if_splits)

lemma transport_errors [simp]:
  "transportSize data \<noteq> Inl BeyondPayload" "controlPGN data \<noteq> Inl BeyondPayload"
  "transportData f \<noteq> Inl BeyondPayload" "ParseName bs \<noteq> Inl BeyondPayload" "ParseID i \<noteq> Inl BeyondPayload"
  by (auto simp: transportSize_def controlPGN_def transportData_def ParseName_def ParseID_def Let_def
      ebind_Inl_iff emap_Inl_iff split: if_splits prod.splits)

lemma transportData_Inr: "wf_frame f \<Longrightarrow> transportData f = Inr data \<Longrightarrow> length data = 8"
  by (auto simp: transportData_def wf_frame_def MaxDataLength_def split: if_splits)

lemma startSession_good:
  assumes "wf_decoder d"
  shows "good_step (startSession ev h data d)"
proof (cases "ebind (transportSize data) (\<lambda>dims. ebind (controlPGN data) (\<lambda>pgn. Inr (dims, pgn)))")
  case (Inl e)
  then have "e \<noteq> BeyondPayload" by (auto simp: ebind_Inl_iff)
  with Inl assms show ?thesis by (auto simp: startSession_def Let_def intro: wf_intros)
next
  case (Inr r)
  obtain sz packets pgn where r: "r = ((sz, packets), pgn)" by (metis prod.exhaust)
  with Inr have "transportSize data = Inr (sz, packets)" by (auto simp: ebind_Inr_iff)
  from transportSize_Inr [OF this] Inr r assms show ?thesis
    by (auto simp: startSession_def Let_def event_key_def wf_session_def not_le intro!: wf_intros split: option.splits)
qed

lemma pushData_good:
  assumes wf: "wf_decoder d" and f: "wf_frame (fe_frame ev)"
  shows "good_push (pushData ev h d)"
proof (cases "transportData (fe_frame ev)")
  case (Inl e)
  then show ?thesis
    using wf by (auto simp: pushData_def Let_def intro: wf_intros)
next
  case (Inr data)
  note len = transportData_Inr [OF f Inr]
  show ?thesis
  proof (cases "get_session d (event_key ev h)")
    case None
    then show ?thesis using wf Inr by (simp add: pushData_def Let_def)
  next
    case (Some s)
    note s = wf_get [OF wf Some]
    let ?p = "m_payload (ss_message s)"
    have n: "1 \<le> ss_next s" "ss_next s \<le> (ss_size s + 6) div 7" "length ?p = 7 * (ss_next s - 1)"
      using s by (auto simp: wf_session_def)
    have short: "length ?p < ss_size s" using n by linarith
    have more: "length ?p + min 7 (ss_size s - length ?p) < ss_size s \<Longrightarrow>
        Suc (ss_next s) \<le> (ss_size s + 6) div 7 \<and> length ?p + min 7 (ss_size s - length ?p) = 7 * ss_next s"
      using n short by (auto simp: min_def split: if_splits)
    have whole: "length ?p + min 7 (ss_size s - length ?p) \<le> maximumTransportPayload"
      using s short by (auto simp: wf_session_def)
    show ?thesis
      using Inr Some len s more whole wf
      by (auto simp: pushData_def Let_def wf_session_def wf_message_def min.commute intro!: wf_intros)
  qed
qed

lemma reverseSession_good:
  assumes "wf_decoder d" "reverseSession ev h pgn d = ((key, found, err), d')"
  shows "wf_decoder d' \<and> BeyondPayload \<notin> set err \<and> (\<forall>s. found = Some s \<longrightarrow> get_session d' key = Some s \<and> d' = d)"
  using assms
  by (auto simp: reverseSession_def Let_def intro: wf_intros split: option.splits if_splits)

lemma clearToSend_good:
  assumes wf: "wf_decoder d"
  shows "good_step (clearToSend ev h data d)"
proof (cases "controlPGN data")
  case (Inl e)
  then show ?thesis using wf by (auto simp: clearToSend_def)
next
  case (Inr pgn)
  obtain key found err d' where rev: "reverseSession ev h pgn d = ((key, found, err), d')" by (metis prod.exhaust)
  note r = reverseSession_good [OF wf rev]
  show ?thesis
  proof (cases found)
    case None
    then show ?thesis using r Inr rev by (auto simp: clearToSend_def)
  next
    case (Some s)
    with r have s: "wf_session key s" using wf_get by blast
    have cap: "unat (data ! 2) - 1 \<le> ss_next s - 1" "(unat (data ! 2) - 1) * 7 \<le> length (m_payload (ss_message s))"
      if "unat (data ! 2) \<le> ss_next s"
      using that s by (auto simp: wf_session_def)
    show ?thesis
      using r Inr rev Some s cap
      by (auto simp: clearToSend_def Let_def wf_session_def not_less intro!: wf_intros)
  qed
qed

lemma abort_candidates_good:
  "wf_decoder d \<Longrightarrow> BeyondPayload \<notin> set err \<Longrightarrow> good_step (abort_candidates pgn reason keys (err, d))"
  by (induction keys arbitrary: err d) (auto simp: wf_drop split: option.split)

lemma abortSession_good: "wf_decoder d \<Longrightarrow> good_step (abortSession ev h data d)"
  using abort_candidates_good [of d "[]"]
  by (auto simp: abortSession_def Let_def simp del: abort_candidates.simps split: sum.split)

lemma acknowledge_good:
  assumes "wf_decoder d"
  shows "good_step (acknowledge ev h data d)"
proof -
  have "good_step (case reverseSession ev h pgn d of
               ((key, Some _, _), d) \<Rightarrow> ([EarlyAcknowledgement], drop_session key d)
             | ((_, None, err), d) \<Rightarrow> (err, d))" for pgn
  proof -
    obtain key found err d' where rev: "reverseSession ev h pgn d = ((key, found, err), d')" by (metis prod.exhaust)
    from reverseSession_good [OF assms rev] rev show ?thesis by (cases found) (auto simp: wf_drop)
  qed
  then show ?thesis
    using assms by (auto simp: acknowledge_def simp del: good_simps(3) split: sum.split) (auto simp: good_simps(3))
qed

lemma pushControl_good:
  assumes "wf_decoder d"
  shows "good_push (pushControl ev h d)"
  using assms startSession_good abortSession_good acknowledge_good clearToSend_good
  by (auto simp: pushControl_def Let_def intro: wf_intros split: sum.splits prod.splits if_splits) (metis good_simps(3))+

lemma observeClaim_good:
  assumes "wf_decoder d"
  shows "good_step (observeClaim ev h d)"
  using assms
  by (auto simp: observeClaim_def Let_def wf_decoder_def distinct_delete distinct_update distinct_map_filter
      split: sum.splits)

lemma expire_good: "wf_decoder d \<Longrightarrow> good_step (expire ev d)"
  by (auto simp: expire_def intro: wf_intros)

lemma DataLength_le_8: "\<not> Has (f_flags f) FrameFD \<Longrightarrow> DataLength f \<le> 8"
  by (auto simp: DataLength_def DLCToLength_def word_le_nat_alt split: sum.splits if_splits)

lemma single_message_good: "\<not> Has (f_flags (fe_frame ev)) FrameFD \<Longrightarrow> wf_message (single_message ev h)"
  using DataLength_le_8 [of "fe_frame ev"]
  by (simp add: wf_message_def single_message_def payload_of_def maximumTransportPayload_def)

lemma pushFrame_good:
  assumes "wf_decoder d" "wf_frame (fe_frame ev)"
  shows "good_push (pushFrame ev d)"
  using assms pushControl_good pushData_good observeClaim_good [OF assms(1)] single_message_good
  by (auto simp: pushFrame_def Let_def split: sum.splits prod.splits if_splits) (metis good_simps(3))+

theorem Push_good:
  assumes "wf_decoder d" "wf_frame (fe_frame ev)"
  shows "good_push (Push ev d)"
proof (cases "frame_event_Validate ev")
  case (Inr u)
  obtain e1 d1 where e1: "expire ev d = (e1, d1)" by fastforce
  with expire_good [OF assms(1), of ev] have d1: "wf_decoder d1" "BeyondPayload \<notin> set e1" by auto
  obtain m e2 d2 where p: "pushFrame ev d1 = ((m, e2), d2)" by (metis prod.exhaust)
  from pushFrame_good [OF d1(1) assms(2)] d1 p Inr e1 show ?thesis
    by (auto simp: Push_def good_push_def)
qed (use assms in \<open>simp add: Push_def\<close>)

end
