(* ===== verification/J1939_Buses.thy ===== *)
theory J1939_Buses
  imports J1939_Sessions
begin

text \<open>
  The buses of a decoder do not interfere. A decoder's part for one bus is the decoder
  itself restricted to that bus; pushing a frame acts on the part of its own bus as if there
  were no other, and leaves every other part alone.
\<close>

section \<open>The part of a bus\<close>

definition on_bus :: "u16 \<Rightarrow> decoder \<Rightarrow> decoder" where
  "on_bus b d = \<lparr>dc_sessions = filter (\<lambda>(k, _). sk_bus k = b) (dc_sessions d),
     dc_names = filter (\<lambda>(k, _). fst k = b) (dc_names d)\<rparr>"

text \<open>An operation on the decoder that is local to bus \<open>b\<close>.\<close>

definition bus_local :: "u16 \<Rightarrow> (decoder \<Rightarrow> 'r \<times> decoder) \<Rightarrow> bool" where
  "bus_local b f \<longleftrightarrow> (\<forall>d. f (on_bus b d) = (fst (f d), on_bus b (snd (f d))) \<and>
     (\<forall>b'. b' \<noteq> b \<longrightarrow> on_bus b' (snd (f d)) = on_bus b' d))"

lemma bus_localI:
  assumes "\<And>d. f (on_bus b d) = (fst (f d), on_bus b (snd (f d)))"
    "\<And>d b'. b' \<noteq> b \<Longrightarrow> on_bus b' (snd (f d)) = on_bus b' d"
  shows "bus_local b f"
  using assms by (simp add: bus_local_def)

lemma bus_localD:
  assumes "bus_local b f"
  shows "f (on_bus b d) = (fst (f d), on_bus b (snd (f d)))" "b' \<noteq> b \<Longrightarrow> on_bus b' (snd (f d)) = on_bus b' d"
  using assms by (auto simp: bus_local_def)

lemma filter_delete: "filter (\<lambda>(k, _). P k) (AList.delete k al) =
    (if P k then AList.delete k (filter (\<lambda>(k, _). P k) al) else filter (\<lambda>(k, _). P k) al)"
  by (induction al) auto

lemma filter_update: "filter (\<lambda>(k, _). P k) (AList.update k v al) =
    (if P k then AList.update k v (filter (\<lambda>(k, _). P k) al) else filter (\<lambda>(k, _). P k) al)"
  by (induction al) auto

lemma map_of_filter_key: "P k \<Longrightarrow> map_of (filter (\<lambda>(k, _). P k) al) k = map_of al k"
  by (induction al) auto

lemma on_bus_idem [simp]: "on_bus b (on_bus b d) = on_bus b d"
  by (simp add: on_bus_def)

lemma on_bus_session_ops [simp]:
  "on_bus b (drop_session k d) = (if sk_bus k = b then drop_session k (on_bus b d) else on_bus b d)"
  "on_bus b (put_session k s d) = (if sk_bus k = b then put_session k s (on_bus b d) else on_bus b d)"
  "sk_bus k = b \<Longrightarrow> get_session (on_bus b d) k = get_session d k"
  by (simp_all add: on_bus_def drop_session_def put_session_def get_session_def filter_delete filter_update
      map_of_filter_key)

lemma event_key_bus [simp]: "sk_bus (event_key ev h) = fe_bus ev"
  by (simp add: event_key_def)

section \<open>Every operation is local to its bus\<close>

lemma startSession_local: "bus_local (fe_bus ev) (startSession ev h data)"
  by (rule bus_localI) (auto simp: startSession_def Let_def split: sum.split)

lemma pushData_local: "bus_local (fe_bus ev) (pushData ev h)"
  by (rule bus_localI) (auto simp: pushData_def Let_def split: sum.split option.split)

lemma reverseSession_local: "bus_local (fe_bus ev) (reverseSession ev h pgn)"
  by (rule bus_localI) (auto simp: reverseSession_def Let_def split: option.split)

lemma reverseSession_bus: "sk_bus (fst (fst (reverseSession ev h pgn d))) = fe_bus ev"
  by (auto simp: reverseSession_def Let_def split: option.split)

text \<open>Sequencing local operations.\<close>

lemma bus_local_bind:
  assumes f: "bus_local b f" and g: "\<And>x. P x \<Longrightarrow> bus_local b (g x)" and P: "\<And>d. P (fst (f d))"
  shows "bus_local b (\<lambda>d. case f d of (x, d) \<Rightarrow> g x d)"
proof (rule bus_localI)
  fix d
  obtain x d1 where x: "f d = (x, d1)" by fastforce
  have "P x" using P [of d] x by simp
  note gx = bus_localD [OF g [OF this]]
  show "(case f (on_bus b d) of (x, d) \<Rightarrow> g x d) = (fst (case f d of (x, d) \<Rightarrow> g x d), on_bus b (snd (case f d of (x, d) \<Rightarrow> g x d)))"
    using bus_localD(1) [OF f, of d] gx(1) [of d1] x by simp
  show "on_bus b' (snd (case f d of (x, d) \<Rightarrow> g x d)) = on_bus b' d" if "b' \<noteq> b" for b'
    using bus_localD(2) [OF f that, of d] gx(2) [OF that, of d1] x by simp
qed

lemma bus_local_const: "bus_local b (\<lambda>d. (r, d))"
  by (rule bus_localI) auto

lemma bus_local_drop: "sk_bus k = b \<Longrightarrow> bus_local b (\<lambda>d. (r, drop_session k d))"
  by (rule bus_localI) auto

lemma bus_local_put: "sk_bus k = b \<Longrightarrow> bus_local b (\<lambda>d. (r, put_session k s d))"
  by (rule bus_localI) auto

lemma bus_local_if: "bus_local b f \<Longrightarrow> bus_local b g \<Longrightarrow> bus_local b (\<lambda>d. if c then f d else g d)"
  by (cases c) simp_all

lemma bus_local_sum: "(\<And>e. bus_local b (f e)) \<Longrightarrow> (\<And>x. bus_local b (g x)) \<Longrightarrow>
    bus_local b (\<lambda>d. case r of Inl e \<Rightarrow> f e d | Inr x \<Rightarrow> g x d)"
  by (cases r) simp_all

lemma bus_local_option: "bus_local b f \<Longrightarrow> (\<And>x. bus_local b (g x)) \<Longrightarrow>
    bus_local b (\<lambda>d. case r of None \<Rightarrow> f d | Some x \<Rightarrow> g x d)"
  by (cases r) simp_all

lemmas bus_local_intros = bus_local_const bus_local_drop bus_local_put bus_local_if bus_local_sum bus_local_option

lemma clearToSend_local: "bus_local (fe_bus ev) (clearToSend ev h data)"
proof (cases "controlPGN data")
  case (Inr pgn)
  define g where "g = (\<lambda>(key, found, err) d.
           if err \<noteq> [] then (err, d)
           else (case found of
               None \<Rightarrow> ([NoObservedRTS], d)
             | Some active \<Rightarrow>
                 let count = unat (data ! 1); next = unat (data ! 2) in
                 if ss_next active \<le> ss_windowEnd active then ([CTSDuringWindow], drop_session key d)
                 else if sk_destination key = GlobalAddress \<or> count > unat (ss_maxWindow active) \<or>
                    (count \<noteq> 0 \<and> (next < 1 \<or> next > ss_next active \<or> next + count - 1 > ss_packets active))
                 then ([InvalidCTSWindow], drop_session key d)
                 else
                   let active = active\<lparr>ss_lastAt := fe_timestamp ev\<rparr> in
                   if count = 0
                   then ([], put_session key (active\<lparr>ss_windowEnd := 0,
                           ss_deadline := fe_timestamp ev + holdTimeout\<rparr>) d)
                   else if (next - 1) * 7 > length (m_payload (ss_message active)) then ([BeyondPayload], d)
                   else
                     let m = ss_message active in
                     ([], put_session key (active\<lparr>ss_message := m\<lparr>m_payload := take ((next - 1) * 7) (m_payload m)\<rparr>,
                           ss_next := next, ss_windowEnd := next + count - 1,
                           ss_deadline := fe_timestamp ev + responseTimeout\<rparr>) d)))"
  have "bus_local (fe_bus ev) (g x)" if "sk_bus (fst x) = fe_bus ev" for x
  proof -
    obtain key found err where x: "x = (key, found, err)" by (metis prod.exhaust)
    with that show ?thesis
      by (cases found) (auto simp: g_def Let_def intro!: bus_local_intros)
  qed
  from bus_local_bind [OF reverseSession_local this, of "\<lambda>x. sk_bus (fst x) = fe_bus ev"]
  have "bus_local (fe_bus ev) (\<lambda>d. case reverseSession ev h pgn d of (x, d) \<Rightarrow> g x d)"
    by (simp add: reverseSession_bus)
  moreover have "clearToSend ev h data = (\<lambda>d. case reverseSession ev h pgn d of (x, d) \<Rightarrow> g x d)"
    using Inr by (auto simp: clearToSend_def g_def fun_eq_iff split: prod.split)
  ultimately show ?thesis by simp
qed (simp add: clearToSend_def [abs_def] bus_local_const)

lemma abort_candidates_local:
  "\<forall>k \<in> set keys. sk_bus k = b \<Longrightarrow> bus_local b (\<lambda>d. abort_candidates pgn reason keys (err, d))"
proof (induction keys arbitrary: err)
  case (Cons key keys)
  show ?case
  proof (rule bus_localI)
    fix d
    show "abort_candidates pgn reason (key # keys) (err, on_bus b d) =
        (fst (abort_candidates pgn reason (key # keys) (err, d)),
         on_bus b (snd (abort_candidates pgn reason (key # keys) (err, d))))"
      using bus_localD(1) [OF Cons.IH] Cons.prems by (auto split: option.split) (metis on_bus_session_ops(1))
    show "on_bus b' (snd (abort_candidates pgn reason (key # keys) (err, d))) = on_bus b' d" if "b' \<noteq> b" for b'
      using bus_localD(2) [OF Cons.IH that] Cons.prems that by (auto split: option.split)
  qed
qed (simp add: bus_local_const)

lemma abortSession_local: "bus_local (fe_bus ev) (abortSession ev h data)"
  unfolding abortSession_def [abs_def] Let_def by (intro bus_local_intros abort_candidates_local) simp

lemma acknowledge_local: "bus_local (fe_bus ev) (acknowledge ev h data)"
proof -
  define g where "g = (\<lambda>(key, found :: session option, err) d. case found of
      Some _ \<Rightarrow> ([EarlyAcknowledgement], drop_session key d) | None \<Rightarrow> (err, d))"
  have g: "bus_local (fe_bus ev) (g x)" if "sk_bus (fst x) = fe_bus ev" for x
    using that by (cases x; cases "fst (snd x)") (auto simp: g_def bus_local_intros)
  have "bus_local (fe_bus ev) (\<lambda>d. case reverseSession ev h pgn d of (x, d) \<Rightarrow> g x d)" for pgn
    using bus_local_bind [OF reverseSession_local g, of "\<lambda>x. sk_bus (fst x) = fe_bus ev"] by (simp add: reverseSession_bus)
  moreover have "(case reverseSession ev h pgn d of
               ((key, Some _, _), d) \<Rightarrow> ([EarlyAcknowledgement], drop_session key d)
             | ((_, None, err), d) \<Rightarrow> (err, d)) = (case reverseSession ev h pgn d of (x, d) \<Rightarrow> g x d)" for pgn d
    by (auto simp: g_def split: prod.split option.split)
  ultimately show ?thesis
    unfolding acknowledge_def [abs_def] by (intro bus_local_intros) simp
qed


lemma pushControl_local: "bus_local (fe_bus ev) (pushControl ev h)"
proof (cases "transportData (fe_frame ev)")
  case (Inr data)
  define step where "step = (if data ! 0 = transportBAM \<or> data ! 0 = transportRTS then startSession ev h data
            else if data ! 0 = transportAbort then abortSession ev h data
            else if data ! 0 = transportCTS then clearToSend ev h data
            else if data ! 0 = transportEOMA then acknowledge ev h data
            else (\<lambda>d. ([UnknownControl (data ! 0)], d)))"
  have "bus_local (fe_bus ev) step"
    by (simp add: step_def startSession_local abortSession_local clearToSend_local acknowledge_local bus_local_const)
  from bus_local_bind [OF this, of "\<lambda>_. True" "\<lambda>err d. ((None, err), d)"]
  have "bus_local (fe_bus ev) (\<lambda>d. case step d of (err, d) \<Rightarrow> ((None :: message option, err), d))"
    by (simp add: bus_local_const)
  moreover have "pushControl ev h = (\<lambda>d. case step d of (err, d) \<Rightarrow> ((None, err), d))"
    using Inr by (auto simp: pushControl_def step_def fun_eq_iff)
  ultimately show ?thesis by simp
qed (simp add: pushControl_def [abs_def] bus_local_drop)

lemma Names_on_bus: "Names b a (on_bus b d) = Names b a d"
  unfolding Names_def on_bus_def by (simp add: filter_filter) (rule arg_cong [where f = "\<lambda>l. sort (map _ l)"], rule filter_cong, auto)

lemma observeClaim_local: "bus_local (fe_bus ev) (observeClaim ev h)"
proof (cases "ParseName (payload_of (fe_frame ev))")
  case (Inr name)
  define rename where "rename = (\<lambda>d :: decoder. (map_of (dc_names d) (fe_bus ev, name),
     d\<lparr>dc_names := (if hd_source h \<noteq> NullAddress
        then AList.update (fe_bus ev, name) (hd_source h) (AList.delete (fe_bus ev, name) (dc_names d))
        else AList.delete (fe_bus ev, name) (dc_names d))\<rparr>))"
  define finish where "finish = (\<lambda>previous (d :: decoder).
     let competing = length (Names (fe_bus ev) (hd_source h) d) > 1;
         moved = (case previous of None \<Rightarrow> False | Some p \<Rightarrow> p \<noteq> hd_source h);
         touched = (\<lambda>(key, _). (competing \<or> moved) \<and> claim_touches (fe_bus ev) (hd_source h) previous key)
     in ((if list_ex touched (dc_sessions d) then [ClaimInvalidatedTP] else []) @
                 (if competing then [Ambiguous (hd_source h) (fe_bus ev)] else []),
               d\<lparr>dc_sessions := filter (\<lambda>x. \<not> touched x) (dc_sessions d)\<rparr>))"
  have "bus_local (fe_bus ev) rename"
    by (rule bus_localI) (auto simp: rename_def on_bus_def filter_delete filter_update map_of_filter_key)
  moreover have "bus_local (fe_bus ev) (finish previous)" for previous
  proof (rule bus_localI)
    fix d
    show "finish previous (on_bus (fe_bus ev) d) =
        (fst (finish previous d), on_bus (fe_bus ev) (snd (finish previous d)))"
      by (auto simp: finish_def Let_def Names_on_bus) (auto simp: on_bus_def claim_touches_def list_ex_iff intro!: filter_cong)
    show "on_bus b' (snd (finish previous d)) = on_bus b' d" if "b' \<noteq> fe_bus ev" for b'
      using that by (auto simp: finish_def Let_def on_bus_def claim_touches_def intro!: filter_cong)
  qed
  ultimately have "bus_local (fe_bus ev) (\<lambda>d. case rename d of (x, d) \<Rightarrow> finish x d)"
    by (intro bus_local_bind [where P = "\<lambda>_. True"]) auto
  moreover have "observeClaim ev h = (\<lambda>d.
      if hd_destination h \<noteq> GlobalAddress \<or> hd_source h = GlobalAddress \<or> name = 0 then ([InvalidClaim], d)
      else if Reserved name \<noteq> 0 then ([ReservedNameBit], d)
      else (case rename d of (x, d) \<Rightarrow> finish x d))"
    using Inr by (auto simp: observeClaim_def rename_def finish_def Let_def fun_eq_iff)
  ultimately show ?thesis by (auto intro!: bus_local_intros)
qed (simp add: observeClaim_def [abs_def] bus_local_const)

lemma expire_local: "bus_local (fe_bus ev) (expire ev)"
proof (rule bus_localI)
  fix d
  have "filter (session_expired ev) (filter (\<lambda>(k, _). sk_bus k = fe_bus ev) xs) = filter (session_expired ev) xs" for xs
    by (auto simp: session_expired_def intro!: filter_cong)
  then show "expire ev (on_bus (fe_bus ev) d) = (fst (expire ev d), on_bus (fe_bus ev) (snd (expire ev d)))"
    by (auto simp: expire_def on_bus_def intro!: filter_cong)
  show "on_bus b' (snd (expire ev d)) = on_bus b' d" if "b' \<noteq> fe_bus ev" for b'
    using that by (auto simp: expire_def on_bus_def session_expired_def intro!: filter_cong)
qed

lemma pushFrame_local: "bus_local (fe_bus ev) (pushFrame ev)"
proof -
  have single: "bus_local (fe_bus ev) (\<lambda>d. case (if hd_pgn h = AddressClaimPGN then observeClaim ev h d else ([], d)) of
      (claimErr, d) \<Rightarrow> ((Some (single_message ev h), claimErr), d))" for h
    by (rule bus_local_bind [where P = "\<lambda>_. True"])
      (auto intro!: bus_local_intros observeClaim_local)
  show ?thesis
    unfolding pushFrame_def [abs_def] Let_def
    by (intro bus_local_intros pushControl_local pushData_local single)
qed

lemma Push_local: "bus_local (fe_bus ev) (Push ev)"
proof (cases "frame_event_Validate ev")
  case (Inr u)
  have "bus_local (fe_bus ev) (\<lambda>d. case expire ev d of (expired, d) \<Rightarrow>
         (case pushFrame ev d of ((m, err), d) \<Rightarrow> ((m, expired @ err), d)))"
  proof (rule bus_local_bind [where P = "\<lambda>_. True", OF expire_local])
    fix expired
    show "bus_local (fe_bus ev) (\<lambda>d. case pushFrame ev d of ((m, err), d) \<Rightarrow> ((m, expired @ err), d))"
      using bus_local_bind [OF pushFrame_local [of ev], of "\<lambda>_. True" "\<lambda>x d. ((fst x, expired @ snd x), d)"]
      by (simp add: bus_local_const case_prod_beta)
  qed simp
  with Inr show ?thesis by (simp add: Push_def [abs_def])
qed (simp add: Push_def [abs_def] bus_local_const)

section \<open>Batches\<close>

lemma good_push_bus:
  assumes "wf_decoder d"
  shows "fst (fst (Push ev d)) = Some m \<Longrightarrow> m_bus m = fe_bus ev"
proof -
  assume some: "fst (fst (Push ev d)) = Some m"
  have wf: "wf_decoder (snd (expire ev d))"
    using expire_good [OF assms, of ev] by (cases "expire ev d") auto
  have "fst (fst (pushFrame ev (snd (expire ev d)))) = Some m"
    using some by (auto simp: Push_def split: sum.splits prod.splits)
  then show ?thesis
    by (auto simp: pushFrame_def pushControl_def pushData_def single_message_def Let_def wf_session_def event_key_def
        dest!: wf_get [OF wf] split: if_splits sum.splits prod.splits option.splits)
qed

lemma PushBatch_buses:
  "wf_decoder d \<Longrightarrow> \<forall>ev \<in> set evs. wf_frame (fe_frame ev) \<Longrightarrow>
    PushBatch (filter (\<lambda>ev. fe_bus ev = b) evs) (on_bus b d) =
      ((filter (\<lambda>m. m_bus m = b) (fst (fst (PushBatch evs d))),
        filter (\<lambda>g. dg_bus g = b) (snd (fst (PushBatch evs d)))), on_bus b (snd (PushBatch evs d)))"
proof (induction evs arbitrary: d)
  case (Cons ev evs)
  obtain m err d1 where p: "Push ev d = ((m, err), d1)" by (metis prod.exhaust)
  have wf: "wf_decoder d1"
    using Push_good [OF Cons.prems(1), of ev] Cons.prems(2) p by (cases m) auto
  obtain ms ds d2 where q: "PushBatch evs d1 = ((ms, ds), d2)" by (metis prod.exhaust)
  have IH: "PushBatch (filter (\<lambda>ev. fe_bus ev = b) evs) (on_bus b d1) =
      ((filter (\<lambda>m. m_bus m = b) ms, filter (\<lambda>g. dg_bus g = b) ds), on_bus b d2)"
    using Cons.IH [OF wf] Cons.prems(2) q by simp
  have bus: "m = Some x \<Longrightarrow> m_bus x = fe_bus ev" for x
    using good_push_bus [OF Cons.prems(1), of ev] p by simp
  show ?case
  proof (cases "fe_bus ev = b")
    case True
    then have "Push ev (on_bus b d) = ((m, err), on_bus b d1)"
      using bus_localD(1) [OF Push_local, of ev d] p by simp
    then show ?thesis
      using True IH p q bus by (auto split: option.split)
  next
    case False
    then have "on_bus b d1 = on_bus b d"
      using bus_localD(2) [OF Push_local, of b ev d] p by simp
    then show ?thesis
      using False IH p q bus by (auto split: option.split)
  qed
qed simp

end
