(* ===== verification/J1939_Delivery.thy ===== *)
theory J1939_Delivery
  imports J1939_Client J1939_Buses
begin

unbundle bit_operations_syntax

text \<open>
  What the client puts on the bus for a broadcast, the decoder reads back: the announcement
  and the data packets of a payload rebuild exactly that payload, whatever else the decoder
  has in progress. The client's side of the broadcast is shown to send exactly these frames.
\<close>

section \<open>Fields of the client's frames\<close>

lemma le16_roundtrip:
  "(ucast (ucast (w :: u16) :: u8) OR push_bit 8 (ucast (ucast (drop_bit 8 w) :: u8)) :: u16) = w"
  by (rule bit_word_eqI) (auto simp: bit_simps)

lemma packets_bounds:
  assumes "8 < length p" "length p \<le> maximumTransportPayload"
  shows "1 < packets_of p" "packets_of p \<le> 255" "7 * (packets_of p - 1) < length p" "length p \<le> 7 * packets_of p"
  using assms by (auto simp: packets_of_def maximumTransportPayload_def)

lemma announcement_fields:
  assumes "8 < length (rq_payload r)" "length (rq_payload r) \<le> maximumTransportPayload"
  shows "length (announcement r) = 8"
    "announcement r ! 0 = (if rq_destination r = GlobalAddress then transportBAM else transportRTS)"
    "transportSize (announcement r) = Inr (length (rq_payload r), packets_of (rq_payload r))"
    "announcement r ! 4 = (if rq_destination r = GlobalAddress then 0xff else word_of_nat (packets_of (rq_payload r)))"
    "announcement r ! 5 = ucast (rq_pgn r)" "announcement r ! 6 = ucast (drop_bit 8 (rq_pgn r))"
    "announcement r ! 7 = ucast (drop_bit 16 (rq_pgn r))"
proof -
  let ?n = "length (rq_payload r)"
  have n: "unat (word_of_nat ?n :: u16) = ?n"
    using assms by (simp add: unat_of_nat maximumTransportPayload_def)
  have k: "unat (word_of_nat (packets_of (rq_payload r)) :: u8) = packets_of (rq_payload r)"
    using packets_bounds [OF assms] by (simp add: unat_of_nat)
  show "transportSize (announcement r) = Inr (?n, packets_of (rq_payload r))"
    using assms by (simp add: transportSize_def announcement_def Let_def put_uint16_def controlBytes_def
        le16_roundtrip n k packets_of_def [symmetric])
qed (simp_all add: announcement_def Let_def put_uint16_def controlBytes_def)

lemma le24_roundtrip:
  assumes "pgn \<le> MaxPGN"
  shows "(ucast (ucast pgn :: u8) OR push_bit 8 (ucast (ucast (drop_bit 8 pgn) :: u8)) OR
      push_bit 16 (ucast (ucast (drop_bit 16 pgn) :: u8)) :: u32) = pgn"
proof (rule bit_word_eqI)
  fix n
  assume "n < LENGTH(32)"
  have "bit pgn n \<Longrightarrow> n < 18"
    using assms bounds_bits(2) [of pgn] by (cases "18 \<le> n") auto
  then show "bit (ucast (ucast pgn :: u8) OR push_bit 8 (ucast (ucast (drop_bit 8 pgn) :: u8)) OR
      push_bit 16 (ucast (ucast (drop_bit 16 pgn) :: u8)) :: u32) n = bit pgn n"
    by (cases "16 \<le> n") (auto simp: bit_simps)
qed

lemma announcement_pgn:
  assumes "8 < length (rq_payload r)" "length (rq_payload r) \<le> maximumTransportPayload" "activePGN (rq_pgn r) = None"
  shows "controlPGN (announcement r) = Inr (rq_pgn r)"
proof -
  have valid: "PGN_validate (rq_pgn r) = Inr ()"
    using assms(3) by (cases "PGN_validate (rq_pgn r)") (auto simp: activePGN_def)
  then have "rq_pgn r \<le> MaxPGN" by (auto simp: PGN_validate_def split: if_splits)
  from le24_roundtrip [OF this] show ?thesis
    using assms(3) valid
    by (auto simp: controlPGN_def announcement_fields [OF assms(1,2)] Let_def activePGN_def split: if_splits)
qed

lemma data_packet_fields:
  assumes "1 \<le> k" "k \<le> 255"
  shows "length (data_packet p k) = 8" "unat (data_packet p k ! 0) = k"
    "drop 1 (data_packet p k) = copy_into (replicate 7 0xff) (drop ((k - 1) * 7) p)"
  using assms by (simp_all add: data_packet_def copy_into_def unat_of_nat)

lemma data_packet_slice:
  assumes "(k - 1) * 7 \<le> length p"
  shows "take (length p - (k - 1) * 7) (drop 1 (data_packet p k)) = take 7 (drop ((k - 1) * 7) p)"
  using assms by (auto simp: data_packet_def copy_into_def min_def)

section \<open>Pushing transport frames\<close>

definition transport_event :: "frame_event \<Rightarrow> header \<Rightarrow> bytes \<Rightarrow> bool" where
  "transport_event ev h data \<longleftrightarrow> frame_event_Validate ev = Inr () \<and> wf_frame (fe_frame ev) \<and>
     Has (f_flags (fe_frame ev)) FrameExtended \<and> \<not> Has (f_flags (fe_frame ev)) FrameRemote \<and>
     \<not> Has (f_flags (fe_frame ev)) FrameFD \<and> ParseID (f_id (fe_frame ev)) = Inr h \<and>
     transportData (fe_frame ev) = Inr data"

lemmas transport_pgns = transportControlPGN_def transportDataPGN_def extendedTransportControlPGN_def
  extendedTransportDataPGN_def

lemma transport_EDP: "hd_pgn h = transportControlPGN \<Longrightarrow> EDP h = 0" "hd_pgn h = transportDataPGN \<Longrightarrow> EDP h = 0"
  by (simp_all add: EDP_def transport_pgns)

lemma Push_control:
  assumes "transport_event ev h data" "hd_pgn h = transportControlPGN"
  shows "Push ev d = (case expire ev d of (expired, d) \<Rightarrow>
     (case pushControl ev h d of ((m, err), d) \<Rightarrow> ((m, expired @ err), d)))"
  using assms by (simp add: Push_def pushFrame_def transport_event_def Let_def transport_EDP transport_pgns)

lemma Push_data:
  assumes "transport_event ev h data" "hd_pgn h = transportDataPGN"
  shows "Push ev d = (case expire ev d of (expired, d) \<Rightarrow>
     (case pushData ev h d of ((m, err), d) \<Rightarrow> ((m, expired @ err), d)))"
  using assms by (simp add: Push_def pushFrame_def transport_event_def Let_def transport_EDP transport_pgns)

definition open_session :: "frame_event \<Rightarrow> header \<Rightarrow> request \<Rightarrow> nat \<Rightarrow> time \<Rightarrow> session \<Rightarrow> bool" where
  "open_session ev h r k lt s \<longleftrightarrow>
     ss_message s = \<lparr>m_bus = fe_bus ev, m_direction = fe_direction ev, m_priority = hd_priority h,
        m_pgn = rq_pgn r, m_source = hd_source h, m_destination = GlobalAddress,
        m_payload = take (7 * k) (rq_payload r), m_startedAt = fe_timestamp ev, m_completedAt = zero_time\<rparr> \<and>
     ss_size s = length (rq_payload r) \<and> ss_packets s = packets_of (rq_payload r) \<and> ss_next s = Suc k \<and>
     ss_lastAt s = lt \<and> ss_deadline s = lt + consecutiveTimeout \<and> ss_windowEnd s = packets_of (rq_payload r)"

lemma push_announcement:
  assumes ev: "transport_event ev h (announcement r)" "hd_pgn h = transportControlPGN"
    and h: "hd_source h < NullAddress" "hd_destination h = GlobalAddress" "rq_destination r = GlobalAddress"
    and r: "8 < length (rq_payload r)" "length (rq_payload r) \<le> maximumTransportPayload" "activePGN (rq_pgn r) = None"
  shows "\<exists>s. fst (fst (Push ev d)) = None \<and>
    get_session (snd (Push ev d)) (event_key ev h) = Some s \<and> open_session ev h r 0 (fe_timestamp ev) s"
proof -
  obtain e1 d1 where e1: "expire ev d = (e1, d1)" by fastforce
  have data: "transportData (fe_frame ev) = Inr (announcement r)" using ev(1) by (simp add: transport_event_def)
  have null: "GlobalAddress \<noteq> NullAddress" by (simp add: GlobalAddress_def NullAddress_def)
  show ?thesis
    using announcement_fields [OF r(1,2)] announcement_pgn [OF r] h null
    by (auto simp: Push_control [OF ev] e1 pushControl_def data startSession_def Let_def get_session_ops
        open_session_def not_le [symmetric] event_key_def)
qed

lemma push_packet:
  assumes wf: "wf_decoder d"
    and ev: "transport_event ev' h' (data_packet (rq_payload r) (Suc k))" "hd_pgn h' = transportDataPGN"
    and key: "fe_bus ev' = fe_bus ev" "fe_direction ev' = fe_direction ev" "hd_source h' = hd_source h"
      "hd_destination h' = GlobalAddress" "hd_destination h = GlobalAddress"
    and s: "get_session d (event_key ev h) = Some s" "open_session ev h r k lt s"
    and time: "lt \<le> fe_timestamp ev'" "fe_timestamp ev' \<le> lt + consecutiveTimeout"
    and r: "8 < length (rq_payload r)" "length (rq_payload r) \<le> maximumTransportPayload" "k < packets_of (rq_payload r)"
  shows "if Suc k = packets_of (rq_payload r)
    then fst (fst (Push ev' d)) = Some ((ss_message s)\<lparr>m_payload := rq_payload r, m_completedAt := fe_timestamp ev'\<rparr>)
    else fst (fst (Push ev' d)) = None \<and> (\<exists>s'. get_session (snd (Push ev' d)) (event_key ev h) = Some s' \<and>
       open_session ev h r (Suc k) (fe_timestamp ev') s')"
proof -
  obtain e1 d1 where e1: "expire ev' d = (e1, d1)" by fastforce
  have data: "transportData (fe_frame ev') = Inr (data_packet (rq_payload r) (Suc k))"
    using ev(1) by (simp add: transport_event_def)
  have same: "event_key ev' h' = event_key ev h" using key by (simp add: event_key_def)
  have get1: "get_session d1 (event_key ev h) = Some s"
    using e1 get_filter [OF wf, of "\<lambda>x. \<not> session_expired ev' x" "event_key ev h"] s time
    by (auto simp: expire_def session_expired_def open_session_def)
  note b = packets_bounds [OF r(1,2)]
  have k: "Suc k \<le> 255" "k * 7 \<le> length (rq_payload r)" using b r(3) by auto
  note f = data_packet_fields [of "Suc k" "rq_payload r", OF _ k(1), simplified]
  have len: "length (take (7 * k) (rq_payload r)) = 7 * k" using k(2) by simp
  have slice: "take (7 * k) (rq_payload r) @ take (length (rq_payload r) - 7 * k) (drop 1 (data_packet (rq_payload r) (Suc k)))
      = take (7 * Suc k) (rq_payload r)"
    using data_packet_slice [of "Suc k" "rq_payload r"] k(2) by (simp add: mult.commute take_add [symmetric] add.commute)
  have final: "7 * Suc k < length (rq_payload r) \<longleftrightarrow> Suc k \<noteq> packets_of (rq_payload r)"
    using b r(3) by (auto simp: packets_of_def)
  have full: "Suc k = packets_of (rq_payload r) \<Longrightarrow> take (7 * Suc k) (rq_payload r) = rq_payload r"
    using final by simp
  let ?m = "(ss_message s)\<lparr>m_payload := take (7 * Suc k) (rq_payload r)\<rparr>"
  let ?s = "s\<lparr>ss_message := ?m, ss_next := Suc k + 1, ss_lastAt := fe_timestamp ev',
     ss_deadline := fe_timestamp ev' + consecutiveTimeout\<rparr>"
  have fields: "ss_next s = Suc k" "ss_windowEnd s = packets_of (rq_payload r)" "ss_size s = length (rq_payload r)"
    "m_payload (ss_message s) = take (7 * k) (rq_payload r)"
    using s(2) by (simp_all add: open_session_def)
  have "pushData ev' h' d1 =
     (if length (m_payload ?m) < length (rq_payload r) then ((None, []), put_session (event_key ev h) ?s d1)
      else ((Some (?m\<lparr>m_completedAt := fe_timestamp ev'\<rparr>), []), drop_session (event_key ev h) d1))"
    unfolding pushData_def Let_def data same get1 sum.case option.case f(2) fields len slice key(4)
    using r(3) fields(3) by simp
  note push = Push_data [OF ev, of d, unfolded e1 prod.case this]
  show ?thesis
  proof (cases "Suc k = packets_of (rq_payload r)")
    case True
    with full final show ?thesis by (simp add: push)
  next
    case False
    have less: "length (m_payload ?m) < length (rq_payload r)" using False final by simp
    have "open_session ev h r (Suc k) (fe_timestamp ev') ?s"
      using s(2) by (simp add: open_session_def)
    with False less show ?thesis by (simp add: push get_session_ops)
  qed
qed


section \<open>A broadcast rebuilds its payload\<close>

definition transport_header :: "u8 \<Rightarrow> u32 \<Rightarrow> u8 \<Rightarrow> u8 \<Rightarrow> header" where
  "transport_header priority pgn source destination =
     \<lparr>hd_priority = priority, hd_pgn = pgn, hd_source = source, hd_destination = destination\<rparr>"

text \<open>The frame that \<open>send_frame\<close> puts on the bus.\<close>

definition sent_frame :: "u8 \<Rightarrow> u32 \<Rightarrow> u8 \<Rightarrow> u8 \<Rightarrow> bytes \<Rightarrow> frame" where
  "sent_frame priority pgn source destination data =
     projr (NewFrame (projr (header_ID (transport_header priority pgn source destination))) data FrameExtended)"

lemma send_frame_ok:
  assumes "header_ID (transport_header priority pgn source destination) = Inr i" "length data \<le> 8"
  shows "NewFrame i data FrameExtended = Inr (sent_frame priority pgn source destination data)"
proof -
  have "i \<le> MaxExtendedID"
    using ID_ParseID [OF assms(1)] by (auto simp: ParseID_def not_less split: if_splits)
  then have "is_ok (NewFrame i data FrameExtended)"
    using assms(2) by (simp add: NewFrame_ok_iff legal_length_def flag_defs allFrameFlags_def Has_def)
  then show ?thesis
    using assms(1) by (auto simp: is_ok_iff sent_frame_def)
qed

lemma sent_frame_event:
  assumes id: "header_ID (transport_header priority pgn source destination) = Inr i" and data: "length data = 8"
    and ev: "fe_frame ev = sent_frame priority pgn source destination data" "frame_event_Validate ev = Inr ()"
  shows "transport_event ev (transport_header priority pgn source destination) data"
proof -
  note ok = send_frame_ok [OF id, of data, unfolded data]
  have new: "NewFrame i data FrameExtended = Inr (fe_frame ev)" using ok ev(1) by simp
  note f = NewFrame_fields [OF new]
  have "transportData (fe_frame ev) = Inr data"
    using NewFrame_payload [OF new] NewFrame_DataLength [OF new] data
    by (simp add: transportData_def payload_of_def)
  then show ?thesis
    using ev(2) NewFrame_wf [OF new] ID_ParseID [OF id] f
    by (simp add: transport_event_def flag_defs Has_def)
qed

lemma transport_header_ok:
  assumes "priority \<le> 7" "pgn = transportControlPGN \<or> pgn = transportDataPGN"
  shows "\<exists>i. header_ID (transport_header priority pgn source destination) = Inr i"
  using assms by (auto simp: header_ID_def transport_header_def PGN_validate_def isPDU1_def transport_pgns MaxPGN_def)

text \<open>All frames of the broadcast of \<open>r\<close> from address \<open>source\<close>.\<close>

definition broadcast_frames :: "u8 \<Rightarrow> request \<Rightarrow> frame list" where
  "broadcast_frames source r =
     sent_frame (rq_priority r) transportControlPGN source GlobalAddress (announcement r) #
     map (\<lambda>k. sent_frame 7 transportDataPGN source GlobalAddress (data_packet (rq_payload r) (Suc k)))
       [0..<packets_of (rq_payload r)]"

definition broadcast_request :: "request \<Rightarrow> bool" where
  "broadcast_request r \<longleftrightarrow> rq_destination r = GlobalAddress \<and> rq_priority r \<le> 7 \<and> 8 < length (rq_payload r) \<and>
     length (rq_payload r) \<le> maximumTransportPayload \<and> activePGN (rq_pgn r) = None"

text \<open>Events that follow each other within the consecutive-packet timeout.\<close>

fun paced :: "frame_event list \<Rightarrow> bool" where
  "paced (e1 # e2 # es) \<longleftrightarrow> fe_timestamp e1 \<le> fe_timestamp e2 \<and>
     fe_timestamp e2 \<le> fe_timestamp e1 + consecutiveTimeout \<and> paced (e2 # es)"
| "paced _ \<longleftrightarrow> True"

lemma push_packets:
  assumes r: "broadcast_request r" "source < NullAddress" and h: "hd_source h = source" "hd_destination h = GlobalAddress"
  shows "wf_decoder d \<Longrightarrow> k < packets_of (rq_payload r) \<Longrightarrow>
    map fe_frame evs = map (\<lambda>k. sent_frame 7 transportDataPGN source GlobalAddress (data_packet (rq_payload r) (Suc k)))
       [k..<packets_of (rq_payload r)] \<Longrightarrow>
    \<forall>e \<in> set evs. frame_event_Validate e = Inr () \<and> fe_bus e = fe_bus ev \<and> fe_direction e = fe_direction ev \<Longrightarrow>
    get_session d (event_key ev h) = Some s \<Longrightarrow> open_session ev h r k (fe_timestamp prev) s \<Longrightarrow> paced (prev # evs) \<Longrightarrow>
    fst (fst (PushBatch evs d)) = [(ss_message s)\<lparr>m_payload := rq_payload r, m_completedAt := fe_timestamp (last evs)\<rparr>]"
proof (induction evs arbitrary: d k s prev)
  case (Cons e es)
  obtain i where i: "header_ID (transport_header 7 transportDataPGN source GlobalAddress) = Inr i"
    using transport_header_ok [of 7 transportDataPGN] by auto
  have frames: "fe_frame e = sent_frame 7 transportDataPGN source GlobalAddress (data_packet (rq_payload r) (Suc k))"
      "map fe_frame es = map (\<lambda>k. sent_frame 7 transportDataPGN source GlobalAddress (data_packet (rq_payload r) (Suc k)))
       [Suc k..<packets_of (rq_payload r)]"
    using Cons.prems(2,3) by (simp_all add: upt_conv_Cons)
  have ok: "8 < length (rq_payload r)" "length (rq_payload r) \<le> maximumTransportPayload"
    using r by (auto simp: broadcast_request_def)
  have "length (data_packet (rq_payload r) (Suc k)) = 8"
    using packets_bounds [OF ok] Cons.prems(2) by (intro data_packet_fields) auto
  from sent_frame_event [OF i this frames(1)] Cons.prems(4)
  have te: "transport_event e (transport_header 7 transportDataPGN source GlobalAddress) (data_packet (rq_payload r) (Suc k))"
    by simp
  have time: "fe_timestamp prev \<le> fe_timestamp e" "fe_timestamp e \<le> fe_timestamp prev + consecutiveTimeout" "paced (e # es)"
    using Cons.prems(7) by auto
  have meta: "fe_bus e = fe_bus ev" "fe_direction e = fe_direction ev" using Cons.prems(4) by auto
  have push: "if Suc k = packets_of (rq_payload r)
    then fst (fst (Push e d)) = Some ((ss_message s)\<lparr>m_payload := rq_payload r, m_completedAt := fe_timestamp e\<rparr>)
    else fst (fst (Push e d)) = None \<and> (\<exists>s'. get_session (snd (Push e d)) (event_key ev h) = Some s' \<and>
       open_session ev h r (Suc k) (fe_timestamp e) s')"
    by (rule push_packet [OF Cons.prems(1) te _ meta _ _ h(2) Cons.prems(5,6) time(1,2) ok Cons.prems(2)])
      (simp_all add: transport_header_def h)
  have good: "wf_decoder (snd (Push e d))"
  proof -
    have "wf_frame (fe_frame e)" using te by (simp add: transport_event_def)
    from Push_good [OF Cons.prems(1) this] show ?thesis by (auto simp: good_push_def split: prod.splits)
  qed
  have p: "fst (fst (PushBatch (e # es) d)) = (case fst (fst (Push e d)) of None \<Rightarrow> [] | Some m \<Rightarrow> [m]) @
      fst (fst (PushBatch es (snd (Push e d))))"
    by (auto split: prod.split option.split)
  show ?case
  proof (cases "Suc k = packets_of (rq_payload r)")
    case True
    then have "es = []" using frames(2) by simp
    with True push show ?thesis unfolding p by simp
  next
    case False
    with push obtain s' where s': "fst (fst (Push e d)) = None"
      "get_session (snd (Push e d)) (event_key ev h) = Some s'" "open_session ev h r (Suc k) (fe_timestamp e) s'"
      by auto
    have less: "Suc k < packets_of (rq_payload r)" using False Cons.prems(2) by simp
    then have "es \<noteq> []" using frames(2) by (cases es) auto
    have msg: "(ss_message s')\<lparr>m_payload := rq_payload r, m_completedAt := t\<rparr> =
        (ss_message s)\<lparr>m_payload := rq_payload r, m_completedAt := t\<rparr>" for t
      using s'(3) Cons.prems(6) by (simp add: open_session_def)
    have IH: "fst (fst (PushBatch es (snd (Push e d)))) =
        [(ss_message s')\<lparr>m_payload := rq_payload r, m_completedAt := fe_timestamp (last es)\<rparr>]"
      by (rule Cons.IH [OF good less frames(2) _ s'(2,3) time(3)]) (use Cons.prems(4) in auto)
    show ?thesis unfolding p s'(1) IH using msg \<open>es \<noteq> []\<close> by simp
  qed
qed simp

theorem broadcast_decodes:
  assumes d: "wf_decoder d" and r: "broadcast_request r" "source < NullAddress"
    and evs: "map fe_frame evs = broadcast_frames source r"
      "\<forall>e \<in> set evs. frame_event_Validate e = Inr () \<and> fe_bus e = bus \<and> fe_direction e = direction" "paced evs"
  shows "fst (fst (PushBatch evs d)) = [\<lparr>m_bus = bus, m_direction = direction, m_priority = rq_priority r, m_pgn = rq_pgn r,
    m_source = source, m_destination = GlobalAddress, m_payload = rq_payload r,
    m_startedAt = fe_timestamp (hd evs), m_completedAt = fe_timestamp (last evs)\<rparr>]"
proof -
  obtain e es where ees: "evs = e # es" using evs(1) by (cases evs) (auto simp: broadcast_frames_def)
  let ?h = "transport_header (rq_priority r) transportControlPGN source GlobalAddress"
  have ok: "8 < length (rq_payload r)" "length (rq_payload r) \<le> maximumTransportPayload" "rq_priority r \<le> 7"
      "activePGN (rq_pgn r) = None" "rq_destination r = GlobalAddress"
    using r by (auto simp: broadcast_request_def)
  obtain i where i: "header_ID ?h = Inr i" using transport_header_ok [OF ok(3)] by blast
  have frame: "fe_frame e = sent_frame (rq_priority r) transportControlPGN source GlobalAddress (announcement r)"
    using evs(1) by (simp add: ees broadcast_frames_def)
  have te: "transport_event e ?h (announcement r)"
    using sent_frame_event [OF i announcement_fields(1) [OF ok(1,2)] frame] evs(2) by (simp add: ees)
  obtain s where s: "fst (fst (Push e d)) = None" "get_session (snd (Push e d)) (event_key e ?h) = Some s"
      "open_session e ?h r 0 (fe_timestamp e) s"
    using push_announcement [OF te, of d] r(2) ok by (auto simp: transport_header_def)
  have good: "wf_decoder (snd (Push e d))"
  proof -
    have "wf_frame (fe_frame e)" using te by (simp add: transport_event_def)
    from Push_good [OF d this] show ?thesis by (auto simp: good_push_def split: prod.splits)
  qed
  have pk: "0 < packets_of (rq_payload r)" using packets_bounds [OF ok(1,2)] by simp
  have "es \<noteq> []" using evs(1) pk by (auto simp: ees broadcast_frames_def)
  have "fst (fst (PushBatch es (snd (Push e d)))) =
      [(ss_message s)\<lparr>m_payload := rq_payload r, m_completedAt := fe_timestamp (last es)\<rparr>]"
    using evs by (intro push_packets [OF r _ _ good pk _ _ s(2,3)])
      (auto simp: ees broadcast_frames_def transport_header_def)
  then show ?thesis
    using s(1,3) evs(2) \<open>es \<noteq> []\<close>
    by (auto simp: ees open_session_def transport_header_def split: prod.split)
qed


section \<open>The client sends exactly those frames\<close>

text \<open>What sending a frame and reading the clock leave alone.\<close>

definition same_core :: "client \<Rightarrow> client \<Rightarrow> bool" where
  "same_core c c' \<longleftrightarrow> jc_tx c' = jc_tx c \<and> jc_rx c' = jc_rx c \<and> jc_results c' = jc_results c \<and>
     jc_claimed c' = jc_claimed c \<and> jc_claimAt c' = jc_claimAt c \<and> jc_configured c' = jc_configured c \<and>
     jc_name c' = jc_name c \<and> jc_causes c' = jc_causes c \<and> jc_cause c' = jc_cause c \<and> jc_cannotAt c' = jc_cannotAt c \<and>
     jc_peers c' = jc_peers c \<and> jc_ready c' = jc_ready c"

lemma read_clock_core: "read_clock c = (t, c') \<Longrightarrow> same_core c c' \<and> jc_out c' = jc_out c \<and> jc_sent c' = jc_sent c"
  by (auto simp: read_clock_def same_core_def split: list.splits)

lemma send_frame_core:
  assumes "send_frame priority pgn source destination data c = (r, c')"
  shows "same_core c c' \<and> (r \<noteq> None \<longrightarrow> jc_out c' = jc_out c) \<and>
    (r = None \<longrightarrow> jc_out c' = jc_out c @ [sent_frame priority pgn source destination data] \<and>
       (\<exists>i. header_ID (transport_header priority pgn source destination) = Inr i))"
  using assms
  by (auto simp: send_frame_def same_core_def sent_frame_def transport_header_def split: sum.splits list.splits option.splits)

lemma sendRequestFrame_core:
  assumes "sendRequestFrame q pgn priority data c = (r, c')"
  shows "same_core c c' \<and> (r \<noteq> None \<longrightarrow> jc_out c' = jc_out c) \<and>
    (r = None \<longrightarrow> jc_out c' = jc_out c @ [sent_frame priority pgn (jc_configured c) (rq_destination q) data])"
  using assms send_frame_core by (fastforce simp: sendRequestFrame_def same_core_def split: option.splits)

definition ticks :: "time list \<Rightarrow> client \<Rightarrow> client" where
  "ticks nows c = foldl (\<lambda>c now. snd (tickTransport now c)) c nows"

text \<open>
  How far a broadcast is: still running with \<open>n\<close> frames out, or ended with a result, which
  is success only when all frames are out.
\<close>

definition broadcast_state :: "client \<Rightarrow> request \<Rightarrow> client \<Rightarrow> nat \<Rightarrow> bool" where
  "broadcast_state c0 r c n \<longleftrightarrow> n \<le> Suc (packets_of (rq_payload r)) \<and> jc_configured c = jc_configured c0 \<and>
     jc_out c = jc_out c0 @ take n (broadcast_frames (jc_configured c0) r) \<and>
     (case jc_tx c of
        Some t \<Rightarrow> jt_request t = r \<and> jt_next t = n \<and> 0 < n \<and> n \<le> packets_of (rq_payload r) \<and> jc_results c = jc_results c0
      | None \<Rightarrow> \<exists>e. jc_results c = jc_results c0 @ [(rq_id r, e)] \<and> (e = None \<longrightarrow> n = Suc (packets_of (rq_payload r))))"

lemma broadcast_frames_nth:
  assumes "0 < n" "n \<le> packets_of (rq_payload r)" "rq_destination r = GlobalAddress"
  shows "take (Suc n) (broadcast_frames source r) = take n (broadcast_frames source r) @
    [sent_frame 7 transportDataPGN source (rq_destination r) (data_packet (rq_payload r) n)]"
proof -
  have len: "n < length (broadcast_frames source r)" using assms(2) by (simp add: broadcast_frames_def)
  have "broadcast_frames source r ! n = sent_frame 7 transportDataPGN source GlobalAddress (data_packet (rq_payload r) n)"
    using assms by (cases n) (simp_all add: broadcast_frames_def)
  with take_Suc_conv_app_nth [OF len] assms(3) show ?thesis by simp
qed

lemma failSend_broadcast:
  assumes "jc_tx c = Some t" "rq_destination (jt_request t) = GlobalAddress"
  shows "failSend e reason c = (None, c\<lparr>jc_results := jc_results c @ [(rq_id (jt_request t), Some e)], jc_tx := None\<rparr>)"
  using assms by (simp add: failSend_def finishSend_def)

lemma startSend_broadcast:
  assumes r: "broadcast_request r" and idle: "jc_claimed c" "jc_tx c = None" "jc_causes c (rq_id r) = None"
    "\<not> (case jc_rx c of Some x \<Rightarrow> jr_source x = GlobalAddress | None \<Rightarrow> False)"
  shows "\<exists>n. broadcast_state c r (startSend r c) n"
proof -
  have ok: "8 < length (rq_payload r)" "length (rq_payload r) \<le> maximumTransportPayload" "rq_destination r = GlobalAddress"
    using r by (auto simp: broadcast_request_def)
  have free: "(case jc_rx c of None \<Rightarrow> False | Some x \<Rightarrow> jr_source x = rq_destination r) = False"
    using idle(4) ok(3) by (auto split: option.splits)
  define t where "t = \<lparr>jt_request = r, jt_next = 1, jt_sent = 0, jt_end = 0, jt_deadline = zero_time, jt_due = zero_time,
                 jt_barrier = 0\<rparr>"
  obtain e c1 where s: "sendRequestFrame r transportControlPGN (rq_priority r) (announcement r) (c\<lparr>jc_tx := Some t\<rparr>) = (e, c1)"
    by fastforce
  note core = sendRequestFrame_core [OF s]
  show ?thesis
  proof (cases e)
    case (Some x)
    then have "startSend r c = finishSend (Some x) c1"
      using idle(1-3) ok(1,2) free s by (simp add: startSend_def t_def Let_def)
    then have "broadcast_state c r (startSend r c) 0"
      using core Some by (simp add: broadcast_state_def finishSend_def same_core_def t_def)
    then show ?thesis by blast
  next
    case None
    obtain now1 c2 where c2: "read_clock c1 = (now1, c2)" by fastforce
    obtain now2 c3 where c3: "read_clock c2 = (now2, c3)" by fastforce
    have "startSend r c = c3\<lparr>jc_tx := Some (t\<lparr>jt_barrier := jc_sent c2, jt_deadline := now1 + responseTimeout,
        jt_due := now2 + bamInterval\<rparr>)\<rparr>"
      using idle(1-3) ok free s None c2 c3 by (simp add: startSend_def t_def Let_def)
    then have "broadcast_state c r (startSend r c) 1"
      using core None read_clock_core [OF c2] read_clock_core [OF c3] packets_bounds [OF ok(1,2)] ok(3)
      by (simp add: broadcast_state_def same_core_def t_def broadcast_frames_def)
    then show ?thesis by blast
  qed
qed

lemma tick_broadcast:
  assumes r: "broadcast_request r" and st: "broadcast_state c0 r c n"
  shows "\<exists>n'. broadcast_state c0 r (snd (tickTransport now c)) n'"
proof (cases "jc_tx c")
  case None
  then show ?thesis using st by (auto simp: tickTransport_def)
next
  case (Some t)
  have ok: "8 < length (rq_payload r)" "length (rq_payload r) \<le> maximumTransportPayload" "rq_destination r = GlobalAddress"
    using r by (auto simp: broadcast_request_def)
  have t: "jt_request t = r" "jt_next t = n" "0 < n" "n \<le> packets_of (rq_payload r)" "jc_results c = jc_results c0"
      "jc_configured c = jc_configured c0" "jc_out c = jc_out c0 @ take n (broadcast_frames (jc_configured c0) r)"
    using st Some by (auto simp: broadcast_state_def)
  have failed: "broadcast_state c0 r (snd (failSend e reason c')) n'"
    if "same_core c c'" "jc_out c' = jc_out c0 @ take n' (broadcast_frames (jc_configured c0) r)" "n' \<le> Suc (packets_of (rq_payload r))"
    for e reason c' n'
    using that t Some failSend_broadcast [of c' t e reason] ok(3)
    by (simp add: broadcast_state_def same_core_def)
  have inside: "(n - 1) * 7 \<le> length (rq_payload r)"
    using t(4) packets_bounds [OF ok(1,2)] by simp
  show ?thesis
  proof (cases "jc_causes c (rq_id r) = None \<and> jt_due t \<noteq> zero_time \<and> \<not> now < jt_due t \<and> \<not> now - jt_due t > 150000000")
    case False
    have self: "same_core c c" by (simp add: same_core_def)
    show ?thesis
      using False st Some t failed [OF self t(7)] ok(3)
      by (auto simp: tickTransport_def Let_def split: option.split)
  next
    case True
    obtain e c1 where s: "sendRequestFrame r transportDataPGN 7 (data_packet (rq_payload r) n) c = (e, c1)"
      by fastforce
    note core = sendRequestFrame_core [OF s]
    show ?thesis
    proof (cases e)
      case (Some x)
      then have "snd (tickTransport now c) = snd (failSend x 2 c1)"
        using True s t \<open>jc_tx c = Some t\<close> ok(3) inside by (simp add: tickTransport_def Let_def)
      with failed [of c1 n] core Some t(4,7) show ?thesis by (metis le_SucI option.distinct(1))
    next
      case None
      obtain late c2 where c2: "read_clock c1 = (late, c2)" by fastforce
      note core2 = read_clock_core [OF c2]
      have out: "jc_out c2 = jc_out c0 @ take (Suc n) (broadcast_frames (jc_configured c0) r)"
        using core core2 None t broadcast_frames_nth [OF t(3,4) ok(3)] by simp
      have core12: "same_core c c2" using core core2 by (simp add: same_core_def)
      obtain now3 c3 where c3: "read_clock (c2\<lparr>jc_tx := Some (t\<lparr>jt_barrier := jc_sent c2,
          jt_sent := max (jt_sent t) n, jt_next := n + 1\<rparr>)\<rparr>) = (now3, c3)"
        by fastforce
      note core3 = read_clock_core [OF c3]
      show ?thesis
      proof (cases "late - jt_due t > 150000000")
        case late: True
        then have "snd (tickTransport now c) = snd (failSend ErrTimeout 3 c2)"
          using True s t \<open>jc_tx c = Some t\<close> ok(3) inside None c2 by (simp add: tickTransport_def Let_def)
        with failed [OF core12 out] t(4) show ?thesis by (metis Suc_le_mono)
      next
        case intime: False
        have eq: "snd (tickTransport now c) = (if n + 1 > packets_of (rq_payload r)
            then finishSend None (c2\<lparr>jc_tx := Some (t\<lparr>jt_barrier := jc_sent c2,
               jt_sent := max (jt_sent t) n, jt_next := n + 1\<rparr>)\<rparr>)
            else c3\<lparr>jc_tx := Some (t\<lparr>jt_barrier := jc_sent c2, jt_sent := max (jt_sent t) n, jt_next := n + 1,
               jt_due := now3 + bamInterval\<rparr>)\<rparr>)"
          using True s t \<open>jc_tx c = Some t\<close> ok(3) inside None c2 c3 intime by (simp add: tickTransport_def Let_def)
        have "broadcast_state c0 r (snd (tickTransport now c)) (Suc n)"
          using core12 core3 out t ok(3) unfolding eq
          by (auto simp: broadcast_state_def same_core_def finishSend_def)
        then show ?thesis by blast
      qed
    qed
  qed
qed

lemma ticks_broadcast:
  "broadcast_request r \<Longrightarrow> \<exists>n. broadcast_state c0 r c n \<Longrightarrow> \<exists>n. broadcast_state c0 r (ticks nows c) n"
proof (induction nows arbitrary: c)
  case (Cons now nows)
  then obtain n where "broadcast_state c0 r c n" by blast
  from tick_broadcast [OF Cons.prems(1) this, of now] obtain n' where
    "broadcast_state c0 r (snd (tickTransport now c)) n'" by blast
  with Cons.IH [OF Cons.prems(1)] show ?case by (auto simp: ticks_def)
qed (simp add: ticks_def)

end
