(* ===== verification/J1939_Arbitration.thy ===== *)
theory J1939_Arbitration
  imports J1939_Delivery
begin

unbundle bit_operations_syntax

text \<open>
  Losing address arbitration. A client that lost holds no transport session, and from then
  on everything it puts on the bus comes from the null address, whatever it receives, is
  asked to send or is told by its timers.
\<close>

definition lost :: "client \<Rightarrow> bool" where
  "lost c \<longleftrightarrow> \<not> jc_claimed c \<and> jc_claimAt c = zero_time \<and> jc_tx c = None \<and> jc_rx c = None"

text \<open>\<open>c'\<close> still lost and everything new on the bus from the null address.\<close>

definition from_null :: "frame \<Rightarrow> bool" where
  "from_null f \<longleftrightarrow> (\<exists>h. ParseID (f_id f) = Inr h \<and> hd_source h = NullAddress)"

definition quietly :: "client \<Rightarrow> client \<Rightarrow> bool" where
  "quietly c c' \<longleftrightarrow> lost c' \<and> (\<exists>fs. jc_out c' = jc_out c @ fs \<and> (\<forall>f \<in> set fs. from_null f))"

lemma quietly_refl: "lost c \<Longrightarrow> quietly c c"
  by (auto simp: quietly_def)

lemma quietly_trans: "quietly c c' \<Longrightarrow> quietly c' c'' \<Longrightarrow> quietly c c''"
  by (auto simp: quietly_def)

lemma quietly_lost: "quietly c c' \<Longrightarrow> lost c'"
  by (simp add: quietly_def)

lemma quietly_core: "lost c \<Longrightarrow> jc_claimed c' = jc_claimed c \<Longrightarrow> jc_claimAt c' = jc_claimAt c \<Longrightarrow> jc_tx c' = jc_tx c \<Longrightarrow>
    jc_rx c' = jc_rx c \<Longrightarrow> jc_out c' = jc_out c \<Longrightarrow> quietly c c'"
  by (simp add: quietly_def lost_def)

text \<open>An operation that keeps a lost client quiet; the combinators of the model keep it so.\<close>

definition hushed :: "client_op \<Rightarrow> bool" where
  "hushed f \<longleftrightarrow> (\<forall>c. lost c \<longrightarrow> quietly c (snd (f c)))"

lemma hushedI: "(\<And>c. lost c \<Longrightarrow> quietly c (snd (f c))) \<Longrightarrow> hushed f"
  by (simp add: hushed_def)

lemma hushedD: "hushed f \<Longrightarrow> lost c \<Longrightarrow> quietly c (snd (f c))"
  by (simp add: hushed_def)

lemma hushed_then:
  assumes "hushed f" "hushed g"
  shows "hushed (then_op f g)"
proof (rule hushedI)
  fix c
  assume "lost c"
  obtain e c1 where c1: "f c = (e, c1)" by fastforce
  have q: "quietly c c1" using hushedD [OF assms(1) \<open>lost c\<close>] c1 by simp
  then show "quietly c (snd (then_op f g c))"
    using quietly_trans [OF q hushedD [OF assms(2) quietly_lost [OF q]]] c1
    by (cases e) (simp_all add: then_op_def)
qed

lemma hushed_done: "hushed done_op"
  by (rule hushedI) (simp add: done_op_def quietly_refl)

lemma read_clock_quietly: "lost c \<Longrightarrow> quietly c (snd (read_clock c))"
  using read_clock_core [of c "fst (read_clock c)" "snd (read_clock c)"]
  by (intro quietly_core) (auto simp: same_core_def)

lemma send_null_quietly:
  assumes "lost c"
  shows "quietly c (snd (claim NullAddress c))"
proof -
  let ?data = "put_le_uint64 (jc_name c)"
  obtain r c' where r: "send_frame 6 AddressClaimPGN NullAddress GlobalAddress ?data c = (r, c')" by fastforce
  note core = send_frame_core [OF r]
  have "from_null (sent_frame 6 AddressClaimPGN NullAddress GlobalAddress ?data)" if none: "r = None"
  proof -
    obtain i where i: "header_ID (transport_header 6 AddressClaimPGN NullAddress GlobalAddress) = Inr i"
      using core none by blast
    have "f_id (sent_frame 6 AddressClaimPGN NullAddress GlobalAddress ?data) = i"
      using send_frame_ok [OF i, of ?data] NewFrame_fields(1) by simp
    then show ?thesis
      using ID_ParseID [OF i] by (auto simp: from_null_def transport_header_def)
  qed
  then have "quietly c c'"
    using core assms by (cases "r = None") (simp_all add: quietly_def lost_def same_core_def)
  then show ?thesis by (simp add: claim_def r)
qed

section \<open>Every step of a lost client is quiet\<close>

lemma expireTransport_lost: "lost c \<Longrightarrow> expireTransport at c = (None, c)"
  by (simp add: expireTransport_def then_op_def lost_def)

lemma invalidatePeer_lost: "jc_tx c = None \<Longrightarrow> jc_rx c = None \<Longrightarrow> invalidatePeer p c = c"
  by (simp add: invalidatePeer_def)

lemma scheduleCannotClaim_quietly: "lost c \<Longrightarrow> quietly c (scheduleCannotClaim c)"
  using read_clock_core [of c "fst (read_clock c)" "snd (read_clock c)"]
  by (intro quietly_core) (auto simp: scheduleCannotClaim_def same_core_def split: prod.split)

lemma completeClaim_lost: "lost c \<Longrightarrow> completeClaim at c = c"
  by (simp add: completeClaim_def lost_def)

lemma move_peers_quietly:
  assumes "lost c"
  shows "quietly c (move_peers name source c)"
proof -
  have "lost c \<Longrightarrow> quietly c (fold (\<lambda>addr c. if jc_peers c addr = name \<and> addr \<noteq> source
     then invalidatePeer addr (c\<lparr>jc_peers := (jc_peers c)(addr := 0)\<rparr>) else c) addrs c)" for addrs
  proof (induction addrs arbitrary: c)
    case (Cons addr addrs)
    let ?c = "if jc_peers c addr = name \<and> addr \<noteq> source
     then invalidatePeer addr (c\<lparr>jc_peers := (jc_peers c)(addr := 0)\<rparr>) else c"
    have "quietly c ?c"
      using Cons.prems by (auto simp: invalidatePeer_lost lost_def intro!: quietly_core)
    from quietly_trans [OF this Cons.IH [OF quietly_lost [OF this]]] show ?case by simp
  qed (simp add: quietly_refl)
  with assms show ?thesis by (simp add: move_peers_def)
qed

lemma handleClaim_hushed: "hushed (handleClaim h data)"
proof (rule hushedI)
  fix c
  assume lost: "lost c"
  show "quietly c (snd (handleClaim h data c))"
  proof (cases "ParseName data")
    case (Inr name)
    have contest: "\<not> (jc_claimAt c \<noteq> zero_time \<or> jc_claimed c)" using lost by (simp add: lost_def)
    let ?c = "move_peers name (hd_source h) c"
    have q: "quietly c ?c" by (rule move_peers_quietly [OF lost])
    have same: "invalidatePeer p ?c = ?c" for p
      using quietly_lost [OF q] by (simp add: invalidatePeer_lost lost_def)
    have "quietly ?c (?c\<lparr>jc_peers := (jc_peers ?c)(hd_source h := name)\<rparr>)"
      using quietly_lost [OF q] by (intro quietly_core) auto
    from quietly_trans [OF q this] q quietly_refl [OF lost] contest Inr show ?thesis
      by (simp add: handleClaim_def Let_def same)
  qed (simp add: handleClaim_def quietly_refl [OF lost])
qed

lemma handleRequest_lost:
  assumes "lost c"
  shows "fst (handleRequest h data c) = None \<and> quietly c (snd (handleRequest h data c))"
  using assms scheduleCannotClaim_quietly [OF assms] quietly_refl [OF assms]
  by (auto simp: handleRequest_def lost_def)

lemma handle_hushed: "hushed (handle ev h)"
proof (rule hushedI)
  fix c
  assume lost: "lost c"
  let ?data = "payload_of (fe_frame ev)"
  show "quietly c (snd (handle ev h c))"
  proof (cases "hd_pgn h = AddressClaimPGN \<and> hd_destination h = GlobalAddress \<and> hd_source h \<noteq> GlobalAddress")
    case True
    then show ?thesis using hushedD [OF handleClaim_hushed lost] by (simp add: handle_def Let_def)
  next
    case False
    obtain c1 where c1: "handleRequest h ?data c = (None, c1)" "quietly c c1"
      using handleRequest_lost [OF lost, of h ?data] by (metis prod.collapse)
    have l1: "lost c1" "\<not> jc_claimed c1" using quietly_lost [OF c1(2)] by (simp_all add: lost_def)
    show ?thesis
      using c1 unfolding handle_def Let_def if_not_P [OF False] by (simp add: completeClaim_lost [OF l1(1)] l1(2))
  qed
qed

lemma pollEvent_hushed: "hushed (pollEvent b ev)"
proof (rule hushedI)
  fix c
  assume lost: "lost c"
  have q: "quietly c (c\<lparr>jc_observed := jc_observed c + 1\<rparr>)" using lost by (intro quietly_core) auto
  have h: "quietly c' (snd (handle ev h c'))" if "quietly c c'" for h c'
    using hushedD [OF handle_hushed] quietly_lost [OF that] by blast
  show "quietly c (snd (pollEvent b ev c))"
    using q quietly_refl [OF lost] h [OF q] h [OF quietly_refl [OF lost]]
    by (auto simp: pollEvent_def Let_def intro: quietly_trans)
qed

lemma pollEvents_hushed: "hushed (pollEvents b evs)"
  by (induction evs) (auto intro: hushed_then hushed_done pollEvent_hushed)

lemma poll_hushed: "hushed (poll b cap)"
proof (rule hushedI)
  fix c
  assume lost: "lost c"
  obtain now c1 where c1: "read_clock c = (now, c1)" by fastforce
  have q1: "quietly c c1" using read_clock_quietly [OF lost] c1 by simp
  show "quietly c (snd (poll b cap c))"
  proof (cases "FramesSince (jc_cursor c1) cap")
    case (Inr p)
    obtain events nxt where p: "p = (events, nxt)" by fastforce
    obtain e c2 where c2: "pollEvents b events c1 = (e, c2)" by fastforce
    have q2: "quietly c c2"
      using quietly_trans [OF q1] hushedD [OF pollEvents_hushed [of b events] quietly_lost [OF q1]] c2 by simp
    have q3: "quietly c2 (c2\<lparr>jc_cursor := nxt\<rparr>)" using quietly_lost [OF q2] by (intro quietly_core) auto
    note l3 = quietly_lost [OF q3]
    show ?thesis
      using q2 quietly_trans [OF q2 q3] Inr p c1 c2
      by (cases e) (simp_all add: poll_def completeClaim_lost [OF l3] expireTransport_lost [OF l3])
  qed (use q1 c1 in \<open>simp add: poll_def\<close>)
qed

lemma tick_hushed: "hushed (tick now)"
proof -
  have "hushed (tickTransport now)"
    by (rule hushedI) (simp add: tickTransport_def lost_def quietly_def)
  moreover have "hushed (\<lambda>c. if jc_cannotAt c \<noteq> zero_time \<and> \<not> now < jc_cannotAt c
         then (case claim NullAddress (c\<lparr>jc_cannotAt := zero_time\<rparr>) of
             (Some e, c) \<Rightarrow> (Some e, c)
           | (None, c) \<Rightarrow> (None, ready_send (Some ErrAddressLost) c))
         else (None, c))" (is "hushed ?f")
  proof (rule hushedI)
    fix c
    assume lost: "lost c"
    let ?c = "c\<lparr>jc_cannotAt := zero_time\<rparr>"
    have q: "quietly c ?c" using lost by (intro quietly_core) auto
    obtain e c1 where c1: "claim NullAddress ?c = (e, c1)" by fastforce
    have q1: "quietly c c1" using quietly_trans [OF q] send_null_quietly [OF quietly_lost [OF q]] c1 by simp
    have "quietly c (ready_send v c1)" for v
    proof (rule quietly_trans [OF q1])
      show "quietly c1 (ready_send v c1)"
        using quietly_lost [OF q1] by (intro quietly_core) (simp_all add: ready_send_def)
    qed
    with q1 quietly_refl [OF lost] c1 show "quietly c (snd (?f c))" by (cases e) auto
  qed
  ultimately show ?thesis unfolding tick_def by (intro hushed_then)
qed

lemma startSend_quietly: "lost c \<Longrightarrow> quietly c (startSend r c)"
  by (auto simp: startSend_def lost_def Let_def intro!: quietly_core)

theorem run_round_hushed: "hushed (run_round b cap request)"
proof -
  have "hushed (\<lambda>c. let c = (case request of None \<Rightarrow> c | Some r \<Rightarrow> startSend r c)
       in case read_clock c of (now, c) \<Rightarrow> tick now c)"
  proof (rule hushedI)
    fix c
    assume lost: "lost c"
    let ?c = "case request of None \<Rightarrow> c | Some r \<Rightarrow> startSend r c"
    have q: "quietly c ?c" using startSend_quietly [OF lost] quietly_refl [OF lost] by (cases request) auto
    obtain now c1 where c1: "read_clock ?c = (now, c1)" by fastforce
    have q1: "quietly c c1" using quietly_trans [OF q] read_clock_quietly [OF quietly_lost [OF q]] c1 by simp
    show "quietly c (snd (let c = ?c in case read_clock c of (now, c) \<Rightarrow> tick now c))"
      using quietly_trans [OF q1] hushedD [OF tick_hushed quietly_lost [OF q1], of now] c1 by (simp add: Let_def)
  qed
  then show ?thesis unfolding run_round_def by (intro hushed_then poll_hushed)
qed

text \<open>A client's rounds, until one ends with an error and the client stops.\<close>

fun rounds :: "u16 \<Rightarrow> (capture \<times> request option) list \<Rightarrow> client_op" where
  "rounds b [] = done_op"
| "rounds b ((cap, request) # rs) = then_op (run_round b cap request) (rounds b rs)"

lemma rounds_hushed: "hushed (rounds b rs)"
  by (induction b rs rule: rounds.induct) (auto intro: hushed_then hushed_done run_round_hushed)

lemma loseAddress_lost: "lost (loseAddress c)"
proof -
  have "jc_claimed (scheduleCannotClaim c) = jc_claimed c \<and> jc_claimAt (scheduleCannotClaim c) = jc_claimAt c \<and>
      jc_tx (scheduleCannotClaim c) = jc_tx c \<and> jc_rx (scheduleCannotClaim c) = jc_rx c" for c
    using read_clock_core [of c "fst (read_clock c)" "snd (read_clock c)"]
    by (auto simp: scheduleCannotClaim_def same_core_def split: prod.split)
  then show ?thesis
    by (simp add: loseAddress_def lost_def Let_def finishSend_def split: option.split)
qed

end
