(* ===== verification/J1939_Theorems.thy ===== *)
theory J1939_Theorems
  imports J1939_Arbitration
begin

unbundle bit_operations_syntax

text \<open>
  What the J1939 package promises, over its decoder and its client, with a concrete client
  and concrete traffic on which every hypothesis holds.
\<close>

section \<open>A concrete client\<close>

definition example_j1939 :: client where
  "example_j1939 = \<lparr>jc_name = 7, jc_configured = 0x21, jc_cursor = zero_cursor, jc_address = 0x21, jc_claimed = True,
     jc_claimAt = zero_time, jc_cannotAt = zero_time, jc_peers = (\<lambda>_. 0), jc_tx = None, jc_rx = None, jc_sent = 0,
     jc_observed = 0, jc_clock = [], jc_now = 0, jc_sends = [], jc_random = [], jc_cause = None,
     jc_causes = Map.empty, jc_out = [], jc_results = [], jc_ready = [None]\<rparr>"

definition example_request :: request where
  "example_request = \<lparr>rq_id = 1, rq_priority = 6, rq_pgn = 0xfeca, rq_destination = GlobalAddress,
     rq_payload = [1, 2, 3, 4, 5, 6, 7, 8, 9]\<rparr>"

definition example_events :: "frame_event list" where
  "example_events = map (\<lambda>f. \<lparr>fe_bus = 1, fe_timestamp = 0, fe_direction = DirectionTransmit, fe_frame = f\<rparr>)
     (broadcast_frames 0x21 example_request)"


lemma example_idle: "jc_claimed example_j1939" "jc_tx example_j1939 = None"
  "jc_causes example_j1939 (rq_id example_request) = None" "jc_rx example_j1939 = None"
  by (simp_all add: example_j1939_def)




section \<open>Identifiers\<close>

text \<open>C14 Headers and 29-bit identifiers determine each other: encoding a header gives an
  identifier exactly when decoding that identifier gives the header, and every identifier up
  to the 29-bit maximum decodes. So no priority, group number or address is lost or altered.\<close>

theorem headers_are_identifiers:
  "(header_ID h = Inr i) = (ParseID i = Inr h) \<and> is_ok (ParseID i) = (i \<le> MaxExtendedID)"
proof -
  have "(header_ID h = Inr i) = (ParseID i = Inr h)" by (rule header_codec.enc_iff_dec)
  moreover have "is_ok (ParseID i) = (i \<le> MaxExtendedID)"
    by (auto simp: ParseID_def is_ok_def Let_def split: prod.split)
  ultimately show ?thesis ..
qed

section \<open>The decoder\<close>



lemma example_frame_made:
  assumes "f \<in> set (broadcast_frames 0x21 example_request)"
  shows "\<exists>i data. NewFrame i data FrameExtended = Inr f"
proof -
  have prio: "rq_priority example_request \<le> 7" by (simp add: example_request_def)
  obtain i1 where i1: "header_ID (transport_header (rq_priority example_request) transportControlPGN 0x21 GlobalAddress) = Inr i1"
    using transport_header_ok [OF prio] by blast
  obtain i2 where i2: "header_ID (transport_header 7 transportDataPGN 0x21 GlobalAddress) = Inr i2"
    using transport_header_ok [of 7 transportDataPGN "0x21" GlobalAddress] by auto
  have len: "length (announcement example_request) \<le> 8" "length (data_packet p k) \<le> 8" for p k
    by (simp_all add: announcement_def Let_def put_uint16_def controlBytes_def data_packet_def copy_into_def)
  show ?thesis
    using assms send_frame_ok [OF i1 len(1)] send_frame_ok [OF i2 len(2)]
    by (auto simp: broadcast_frames_def)
qed

lemma example_events_frames:
  assumes "ev \<in> set example_events"
  shows "\<exists>f \<in> set (broadcast_frames 0x21 example_request).
    ev = \<lparr>fe_bus = 1, fe_timestamp = 0, fe_direction = DirectionTransmit, fe_frame = f\<rparr>"
  using assms by (auto simp: example_events_def)

lemma example_events_typed: "\<forall>ev \<in> set example_events. wf_frame (fe_frame ev)"
  using example_events_frames example_frame_made NewFrame_wf by fastforce


text \<open>C16 The buses of a decoder are independent: consuming interleaved traffic yields, for each
  bus, exactly the messages, the diagnostics and the state that a decoder of that bus alone
  would have from that bus's frames.\<close>

theorem buses_do_not_interfere:
  assumes "wf_decoder d" "\<forall>ev \<in> set evs. wf_frame (fe_frame ev)" "PushBatch evs d = ((messages, diagnostics), d')"
  shows "PushBatch (filter (\<lambda>ev. fe_bus ev = b) evs) (on_bus b d) =
    ((filter (\<lambda>m. m_bus m = b) messages, filter (\<lambda>g. dg_bus g = b) diagnostics), on_bus b d')"
  using PushBatch_buses [OF assms(1,2), of b] assms(3) by simp

theorem buses_do_not_interfere_witness:
  "PushBatch [] (on_bus 2 zero_decoder) =
     ((filter (\<lambda>m. m_bus m = 2) (fst (fst (PushBatch example_events zero_decoder))),
       filter (\<lambda>g. dg_bus g = 2) (snd (fst (PushBatch example_events zero_decoder)))),
      on_bus 2 (snd (PushBatch example_events zero_decoder)))"
proof -
  have "filter (\<lambda>ev. fe_bus ev = 2) example_events = []" by (simp add: example_events_def filter_empty_conv)
  then show ?thesis
    using buses_do_not_interfere [OF wf_zero example_events_typed, of _ _ _ 2] by (metis prod.exhaust fst_conv snd_conv)
qed

section \<open>Client and decoder\<close>






section \<open>Arbitration\<close>

lemma loseAddress_out: "jc_out (loseAddress c) = jc_out c"
proof -
  have "jc_out (scheduleCannotClaim c) = jc_out c" for c
    using read_clock_core [of c "fst (read_clock c)" "snd (read_clock c)"]
    by (auto simp: scheduleCannotClaim_def split: prod.split)
  then show ?thesis
    by (simp add: loseAddress_def Let_def finishSend_def split: option.split)
qed

lemma handleClaim_loses:
  assumes "ParseName data = Inr name" "name < jc_name c" "name \<noteq> 0" "Reserved name = 0"
    "hd_source h = jc_configured c" "jc_claimed c \<or> jc_claimAt c \<noteq> zero_time"
  shows "quietly (loseAddress c) (snd (handleClaim h data c))"
proof -
  let ?c = "move_peers name (hd_source h) (loseAddress c)"
  have q: "quietly (loseAddress c) ?c" by (rule move_peers_quietly [OF loseAddress_lost])
  have same: "invalidatePeer p ?c = ?c" for p
    using quietly_lost [OF q] by (simp add: invalidatePeer_lost lost_def)
  have "quietly ?c (?c\<lparr>jc_peers := (jc_peers ?c)(hd_source h := name)\<rparr>)"
    using quietly_lost [OF q] by (intro quietly_core) auto
  moreover have "snd (handleClaim h data c) = (if hd_source h < NullAddress \<and> jc_peers ?c (hd_source h) \<noteq> name
      then ?c\<lparr>jc_peers := (jc_peers ?c)(hd_source h := name)\<rparr> else ?c)"
    using assms(1-4,6) by (auto simp: handleClaim_def Let_def same assms(5) [symmetric])
  ultimately show ?thesis
    using quietly_trans [OF q] q by auto
qed

text \<open>C18 A client whose address is claimed by a controller with a lower NAME gives it up at once:
  it drops its transport sessions, is no longer in the claimed state, and from then on, through any
  rounds of its loop, any traffic, any requests and any timers, every frame it still puts on
  the bus carries the null address as its source.\<close>

theorem lost_address_is_never_used:
  assumes "hd_pgn h = AddressClaimPGN" "hd_destination h = GlobalAddress" "hd_source h = jc_configured c"
    "jc_configured c < NullAddress" "jc_claimed c" "ParseName (payload_of (fe_frame ev)) = Inr name"
    "name < jc_name c" "name \<noteq> 0" "Reserved name = 0" "handle ev h c = (e, c')"
  shows "\<not> jc_claimed c' \<and> jc_tx c' = None \<and> jc_rx c' = None \<and>
    (\<exists>fs. jc_out (snd (rounds busID rs c')) = jc_out c @ fs \<and> list_all from_null fs)"
proof -
  have src: "hd_source h \<noteq> GlobalAddress" using assms(3,4) by (auto simp: NullAddress_def GlobalAddress_def)
  have c': "c' = snd (handleClaim h (payload_of (fe_frame ev)) c)"
    using assms(1,2,10) src by (simp add: handle_def Let_def)
  have q: "quietly (loseAddress c) c'"
    unfolding c' using assms(3,5-9) by (intro handleClaim_loses) auto
  have "quietly c' (snd (rounds busID rs c'))"
    by (rule hushedD [OF rounds_hushed quietly_lost [OF q]])
  from quietly_trans [OF q this] quietly_lost [OF q] show ?thesis
    by (auto simp: quietly_def lost_def loseAddress_out list_all_iff)
qed

definition rival_claim :: frame_event where
  "rival_claim = \<lparr>fe_bus = 1, fe_timestamp = 5, fe_direction = DirectionReceive,
     fe_frame = \<lparr>f_id = 0x18eeff21, f_data = put_le_uint64 3 @ replicate 56 0, f_dlc = 8, f_flags = FrameExtended\<rparr>\<rparr>"

definition rival_header :: header where
  "rival_header = \<lparr>hd_priority = 6, hd_pgn = AddressClaimPGN, hd_source = 0x21, hd_destination = GlobalAddress\<rparr>"

theorem lost_address_is_never_used_witness:
  "\<exists>c' fs. handle rival_claim rival_header example_j1939 = (fst (handle rival_claim rival_header example_j1939), c') \<and>
     \<not> jc_claimed c' \<and> jc_out (snd (rounds 1 [] c')) = fs \<and> list_all from_null fs"
proof -
  have "payload_of (fe_frame rival_claim) = put_le_uint64 3"
    by (simp add: payload_of_def rival_claim_def DataLength_def DLCToLength_def Has_def flag_defs put_le_uint64_def)
  then have name: "ParseName (payload_of (fe_frame rival_claim)) = Inr 3"
    by (simp add: ParseName_def le_uint64_put)
  have c: "hd_pgn rival_header = AddressClaimPGN" "hd_destination rival_header = GlobalAddress"
    "hd_source rival_header = jc_configured example_j1939" "jc_configured example_j1939 < NullAddress"
    "(3 :: u64) < jc_name example_j1939" "(3 :: u64) \<noteq> 0" "Reserved 3 = 0" "jc_out example_j1939 = []"
    by (simp_all add: rival_header_def example_j1939_def NullAddress_def Reserved_def)
  obtain e c' where h: "handle rival_claim rival_header example_j1939 = (e, c')" by fastforce
  from lost_address_is_never_used [OF c(1-4) example_idle(1) name c(5-7) h, of 1 "[]"] show ?thesis
    using h c(8) by auto
qed

end
