(* ===== verification/Go_Float.thy ===== *)
theory Go_Float
  imports Prelude Complex_Main
begin

unbundle bit_operations_syntax

text \<open>
  The part of Go's floating point the catalogs compute with: \<open>float64\<close> and \<open>float32\<close> values
  with signed zeros, infinities and one NaN, every arithmetic result being the exact rational
  result rounded to nearest, ties to even, at the precision and exponent range of the type.
  A multiplication followed by an addition rounds twice, as it does where the compiler does
  not fuse the two (amd64). \<open>math.Float64bits\<close> and its inverses are the interchange format.
\<close>

section \<open>Values and rounding\<close>

text \<open>The flag of an infinity or a zero is its sign bit; \<open>Fin x\<close> has \<open>x \<noteq> 0\<close>.\<close>

datatype f64 = NaN | Inf bool | Zero bool | Fin rat

definition is_NaN :: "f64 \<Rightarrow> bool" where
  "is_NaN x = (x = NaN)"

definition is_Inf :: "f64 \<Rightarrow> bool" where
  "is_Inf x = (case x of Inf _ \<Rightarrow> True | _ \<Rightarrow> False)"

definition is_Zero :: "f64 \<Rightarrow> bool" where
  "is_Zero x = (case x of Zero _ \<Rightarrow> True | _ \<Rightarrow> False)"

definition signbit :: "f64 \<Rightarrow> bool" where
  "signbit x = (case x of NaN \<Rightarrow> False | Inf s \<Rightarrow> s | Zero s \<Rightarrow> s | Fin q \<Rightarrow> q < 0)"

text \<open>The number a finite value stands for.\<close>

definition num :: "f64 \<Rightarrow> rat" where
  "num x = (case x of Fin q \<Rightarrow> q | _ \<Rightarrow> 0)"

definition round_even :: "rat \<Rightarrow> int" where
  "round_even x =
     (let f = \<lfloor>x\<rfloor>; d = x - of_int f
      in if d < 1 / 2 then f else if d > 1 / 2 then f + 1 else if even f then f else f + 1)"

fun ilog2 :: "nat \<Rightarrow> nat" where
  "ilog2 n = (if n < 2 then 0 else Suc (ilog2 (n div 2)))"

declare ilog2.simps [simp del]

text \<open>The exponent \<open>e\<close> with \<open>2^e \<le> x < 2^(e+1)\<close> of a positive rational.\<close>

definition exponent :: "rat \<Rightarrow> int" where
  "exponent x =
     (if x \<ge> 1 then int (ilog2 (nat \<lfloor>x\<rfloor>))
      else let k = nat \<lceil>1 / x\<rceil> in if 2 ^ ilog2 k = k then - int (ilog2 k) else - int (ilog2 k) - 1)"

definition pow2 :: "int \<Rightarrow> rat" where
  "pow2 k = (if k \<ge> 0 then 2 ^ nat k else 1 / 2 ^ nat (- k))"

definition round_to :: "int \<Rightarrow> int \<Rightarrow> int \<Rightarrow> rat \<Rightarrow> f64" where
  "round_to precision emin emax x =
     (if x = 0 then Zero False
      else let u = pow2 (max (exponent \<bar>x\<bar> - (precision - 1)) emin);
               q = of_int (round_even (\<bar>x\<bar> / u)) * u
           in if q = 0 then Zero (x < 0)
              else if q \<ge> pow2 emax then Inf (x < 0)
              else Fin (sgn x * q))"

definition rnd64 :: "rat \<Rightarrow> f64" where
  "rnd64 = round_to 53 (-1074) 1024"

definition rnd32 :: "rat \<Rightarrow> f64" where
  "rnd32 = round_to 24 (-149) 128"

section \<open>Operations\<close>

definition f_neg :: "f64 \<Rightarrow> f64" where
  "f_neg x = (case x of NaN \<Rightarrow> NaN | Inf s \<Rightarrow> Inf (\<not> s) | Zero s \<Rightarrow> Zero (\<not> s) | Fin q \<Rightarrow> Fin (- q))"

fun f_add :: "f64 \<Rightarrow> f64 \<Rightarrow> f64" where
  "f_add NaN _ = NaN"
| "f_add _ NaN = NaN"
| "f_add (Inf a) (Inf b) = (if a = b then Inf a else NaN)"
| "f_add (Inf a) _ = Inf a"
| "f_add _ (Inf b) = Inf b"
| "f_add (Zero a) (Zero b) = Zero (a \<and> b)"
| "f_add (Zero _) y = y"
| "f_add x (Zero _) = x"
| "f_add (Fin x) (Fin y) = rnd64 (x + y)"

definition f_sub :: "f64 \<Rightarrow> f64 \<Rightarrow> f64" where
  "f_sub x y = f_add x (f_neg y)"

definition f_mul :: "f64 \<Rightarrow> f64 \<Rightarrow> f64" where
  "f_mul x y =
     (if x = NaN \<or> y = NaN then NaN
      else if is_Inf x \<and> is_Zero y \<or> is_Zero x \<and> is_Inf y then NaN
      else if is_Inf x \<or> is_Inf y then Inf (signbit x \<noteq> signbit y)
      else if is_Zero x \<or> is_Zero y then Zero (signbit x \<noteq> signbit y)
      else rnd64 (num x * num y))"

definition f_div :: "f64 \<Rightarrow> f64 \<Rightarrow> f64" where
  "f_div x y =
     (if x = NaN \<or> y = NaN then NaN
      else if is_Inf x \<and> is_Inf y \<or> is_Zero x \<and> is_Zero y then NaN
      else if is_Inf x \<or> is_Zero y then Inf (signbit x \<noteq> signbit y)
      else if is_Zero x \<or> is_Inf y then Zero (signbit x \<noteq> signbit y)
      else rnd64 (num x / num y))"

definition f_less :: "f64 \<Rightarrow> f64 \<Rightarrow> bool" where
  "f_less x y =
     (if x = NaN \<or> y = NaN then False
      else case (x, y) of
             (Inf a, Inf b) \<Rightarrow> a \<and> \<not> b
           | (Inf a, _) \<Rightarrow> a
           | (_, Inf b) \<Rightarrow> \<not> b
           | _ \<Rightarrow> num x < num y)"

text \<open>Go's \<open>==\<close> on floats: NaN equals nothing, the zeros equal each other.\<close>

definition f_eq :: "f64 \<Rightarrow> f64 \<Rightarrow> bool" where
  "f_eq x y = (x \<noteq> NaN \<and> (x = y \<or> is_Zero x \<and> is_Zero y))"

text \<open>\<open>math.Round\<close> of a finite value, half away from zero, as the integer it denotes.\<close>

definition f_round :: "rat \<Rightarrow> int" where
  "f_round x = (if x \<ge> 0 then \<lfloor>x + 1 / 2\<rfloor> else - \<lfloor>- x + 1 / 2\<rfloor>)"

text \<open>\<open>float64(n)\<close>, \<open>float32(n)\<close> of an integer and \<open>float32(x)\<close> of a \<open>float64\<close>.\<close>

definition float_of_int :: "int \<Rightarrow> f64" where
  "float_of_int n = rnd64 (of_int n)"

definition float32_of :: "f64 \<Rightarrow> f64" where
  "float32_of x = (case x of Fin q \<Rightarrow> rnd32 q | _ \<Rightarrow> x)"

section \<open>The interchange format\<close>

text \<open>
  A sign bit, a biased exponent of \<open>eb\<close> bits and a fraction of \<open>mb\<close> bits. \<open>emin\<close> is the weight
  of the last bit of a subnormal number. The model has one NaN, so its encoding is the one of
  Go's \<open>math.NaN\<close> and encodings of a NaN decode to it.
\<close>

definition float_encode :: "nat \<Rightarrow> nat \<Rightarrow> int \<Rightarrow> f64 \<Rightarrow> nat" where
  "float_encode mb eb emin x =
     (if signbit x then 2 ^ (mb + eb) else 0) +
     (case x of
        NaN \<Rightarrow> (2 ^ eb - 1) * 2 ^ mb + 2 ^ (mb - 1) + 1
      | Inf _ \<Rightarrow> (2 ^ eb - 1) * 2 ^ mb
      | Zero _ \<Rightarrow> 0
      | Fin q \<Rightarrow> let k = max (exponent \<bar>q\<bar> - int mb) emin
                 in nat (k - emin) * 2 ^ mb + nat \<lfloor>\<bar>q\<bar> / pow2 k\<rfloor>)"

definition float_decode :: "nat \<Rightarrow> nat \<Rightarrow> int \<Rightarrow> nat \<Rightarrow> f64" where
  "float_decode mb eb emin w =
     (let s = odd (w div 2 ^ (mb + eb)); e = w div 2 ^ mb mod 2 ^ eb; m = w mod 2 ^ mb;
          sgn_of = (\<lambda>x. if s then - x else x)
      in if e = 2 ^ eb - 1 then (if m = 0 then Inf s else NaN)
         else if e = 0 then (if m = 0 then Zero s else Fin (sgn_of (of_nat m * pow2 emin)))
         else Fin (sgn_of (of_nat (2 ^ mb + m) * pow2 (emin + int e - 1))))"

definition Float64bits :: "f64 \<Rightarrow> u64" where
  "Float64bits x = of_nat (float_encode 52 11 (-1074) x)"

definition Float64frombits :: "u64 \<Rightarrow> f64" where
  "Float64frombits w = float_decode 52 11 (-1074) (unat w)"

definition Float32bits :: "f64 \<Rightarrow> u32" where
  "Float32bits x = of_nat (float_encode 23 8 (-149) x)"

definition Float32frombits :: "u32 \<Rightarrow> f64" where
  "Float32frombits w = float_decode 23 8 (-149) (unat w)"

section \<open>Exponents\<close>

lemma ilog2_bounds: "0 < n \<Longrightarrow> 2 ^ ilog2 n \<le> n \<and> n < 2 ^ Suc (ilog2 n)"
proof (induction n rule: ilog2.induct)
  case (1 n)
  show ?case
  proof (cases "n < 2")
    case True
    with 1 show ?thesis by (simp add: ilog2.simps)
  next
    case False
    then have "2 ^ ilog2 (n div 2) \<le> n div 2 \<and> n div 2 < 2 ^ Suc (ilog2 (n div 2))"
      using "1.IH" by simp
    with False show ?thesis by (subst (1 2) ilog2.simps) auto
  qed
qed

lemma pow2_pos [simp]: "0 < pow2 k"
  by (simp add: pow2_def)

lemma pow2_nonzero [simp]: "pow2 k \<noteq> 0"
  by (rule less_imp_neq [OF pow2_pos, symmetric])

lemma pow2_nat: "pow2 (int n) = 2 ^ n"
  by (simp add: pow2_def)

lemma pow2_minus: "pow2 (- int n) = 1 / 2 ^ n"
  by (cases "n = 0") (simp_all add: pow2_def)

lemma pow2_0 [simp]: "pow2 0 = 1"
  by (simp add: pow2_def)

lemma pow2_Suc: "pow2 (k + 1) = 2 * pow2 k"
proof (cases "k \<ge> 0")
  case True
  then show ?thesis by (simp add: pow2_def nat_add_distrib)
next
  case False
  then obtain n where n: "k = - int (Suc n)"
    by (metis negD linorder_not_le)
  have "k + 1 = - int n" using n by simp
  then show ?thesis using n by (simp only: pow2_minus) simp
qed

lemma pow2_add_nat: "pow2 (k + int n) = pow2 k * 2 ^ n"
proof (induction n)
  case (Suc n)
  have "k + int (Suc n) = (k + int n) + 1" by simp
  then show ?case using Suc by (simp only: pow2_Suc) simp
qed simp

lemma pow2_less_iff: "pow2 j < pow2 k \<longleftrightarrow> j < k"
proof -
  have mono: "pow2 j < pow2 k" if l: "j < k" for j k
  proof -
    obtain n where d: "k - j = int n" and "0 < n"
      using zero_less_imp_eq_int [of "k - j"] l by auto
    then have n: "k = j + int n" "0 < n" by simp_all
    have "(1 :: rat) < 2 ^ n" using n by simp
    then show ?thesis using n(1) by (simp add: pow2_add_nat)
  qed
  show ?thesis using mono [of j k] mono [of k j] by (cases j k rule: linorder_cases) auto
qed

lemma pow2_le_iff: "pow2 j \<le> pow2 k \<longleftrightarrow> j \<le> k"
  using pow2_less_iff [of k j] by auto
lemma exponent_spec:
  assumes "0 < x"
  shows "pow2 (exponent x) \<le> x" and "x < pow2 (exponent x + 1)"
proof -
  have "pow2 (exponent x) \<le> x \<and> x < pow2 (exponent x + 1)"
  proof (cases "x \<ge> 1")
    case True
    define n where "n = nat \<lfloor>x\<rfloor>"
    have n: "0 < n" "of_nat n \<le> x" "x < of_nat n + 1"
      using True floor_correct [of x] by (simp_all add: n_def)
    have b: "(2 :: rat) ^ ilog2 n \<le> of_nat n" "of_nat n + 1 \<le> (2 :: rat) ^ Suc (ilog2 n)"
    proof -
      show "(2 :: rat) ^ ilog2 n \<le> of_nat n"
        using ilog2_bounds [OF n(1)] by (metis of_nat_le_iff of_nat_numeral of_nat_power)
      have "of_nat (n + 1) \<le> (of_nat (2 ^ Suc (ilog2 n)) :: rat)"
        using ilog2_bounds [OF n(1)] by (subst of_nat_le_iff) simp
      then show "of_nat n + 1 \<le> (2 :: rat) ^ Suc (ilog2 n)" by simp
    qed
    have e: "exponent x = int (ilog2 n)" using True by (simp add: exponent_def n_def)
    have "2 ^ ilog2 n \<le> x" using b(1) n(2) by (rule order_trans)
    moreover have "x < 2 ^ Suc (ilog2 n)" using n(3) b(2) by (rule less_le_trans)
    ultimately show ?thesis by (simp add: e pow2_Suc pow2_nat)
  next
    case False
    define k where "k = nat \<lceil>1 / x\<rceil>"
    have "1 / x > 1" using False assms by simp
    then have k: "2 \<le> k" "1 / x \<le> of_nat k" "of_nat k < 1 / x + 1"
      by (simp_all add: k_def) linarith+
    define j where "j = ilog2 k"
    have "2 ^ j \<le> k \<and> k < 2 ^ Suc j" using ilog2_bounds [of k] k(1) by (simp add: j_def)
    then have j: "2 ^ j \<le> k" "k < 2 ^ Suc j" by auto
    have x: "a * x \<le> 1 \<longleftrightarrow> a \<le> 1 / x" "1 \<le> a * x \<longleftrightarrow> 1 / x \<le> a" for a
      using assms by (simp_all add: field_simps)
    show ?thesis
    proof (cases "2 ^ j = k")
      case True
      then obtain i where i: "j = Suc i" using k(1) by (cases j) auto
      have e: "exponent x = - int j"
        using False True by (simp add: exponent_def Let_def j_def k_def)
      have "1 / x \<le> 2 ^ j" using k(2) True by (metis of_nat_numeral of_nat_power)
      moreover have "(2 :: rat) ^ i < 1 / x"
      proof -
        have "(2 :: rat) * 2 ^ i < 1 / x + 1"
          using k(3) True i by (metis of_nat_numeral of_nat_power power_Suc)
        moreover have "(1 :: rat) \<le> 2 ^ i" by simp
        ultimately show ?thesis by linarith
      qed
      moreover have "- int j + 1 = - int i" using i by simp
      ultimately show ?thesis using assms
        by (simp add: e pow2_minus) (simp add: field_simps)
    next
      case False
      then have lt: "2 ^ j + 1 \<le> k" using j by simp
      have e: "exponent x = - int (Suc j)"
        using \<open>\<not> 1 \<le> x\<close> False by (simp add: exponent_def Let_def j_def k_def)
      have "(2 :: rat) ^ j < 1 / x"
      proof -
        have "of_nat (2 ^ j + 1) \<le> (of_nat k :: rat)" using lt by (subst of_nat_le_iff) simp
        then show ?thesis using k(3) by simp
      qed
      moreover have "1 / x \<le> 2 ^ Suc j"
      proof -
        have "(of_nat k :: rat) \<le> of_nat (2 ^ Suc j)" using j(2) by (subst of_nat_le_iff) simp
        then show ?thesis using k(2) by simp
      qed
      moreover have "- int (Suc j) + 1 = - int j" by simp
      ultimately show ?thesis using assms
        by (simp only: e pow2_minus) (simp add: field_simps)
    qed
  qed
  then show "pow2 (exponent x) \<le> x" "x < pow2 (exponent x + 1)" by auto
qed

lemma exponent_unique:
  assumes "pow2 e \<le> x" and "x < pow2 (e + 1)"
  shows "exponent x = e"
proof -
  have x: "0 < x" using assms(1) pow2_pos [of e] by linarith
  have "pow2 e < pow2 (exponent x + 1)" "pow2 (exponent x) < pow2 (e + 1)"
    using exponent_spec [OF x] assms by linarith+
  then show ?thesis by (simp add: pow2_less_iff)
qed

section \<open>Bit patterns and values\<close>

lemma exponent_significand:
  assumes "2 ^ p \<le> n" and "n < 2 ^ Suc p"
  shows "exponent (of_nat n * pow2 k) = int p + k"
proof (rule exponent_unique)
  have p: "pow2 (int p + k) = 2 ^ p * pow2 k" "pow2 (int p + k + 1) = 2 ^ Suc p * pow2 k"
    using pow2_add_nat [of k p] pow2_add_nat [of k "Suc p"]
    by (simp_all add: algebra_simps)
  have "(2 :: rat) ^ p \<le> of_nat n"
    using assms(1) by (metis of_nat_le_iff of_nat_numeral of_nat_power)
  then show "pow2 (int p + k) \<le> of_nat n * pow2 k" by (simp add: p)
  have "(of_nat n :: rat) < 2 ^ Suc p"
    using assms(2) by (metis of_nat_less_iff of_nat_numeral of_nat_power)
  then show "of_nat n * pow2 k < pow2 (int p + k + 1)" 
    unfolding p by (rule mult_strict_right_mono) simp
qed

lemma encode_significand:
  assumes "0 < n" and "n < 2 ^ Suc mb" and "emin \<le> k" and "k = emin \<or> 2 ^ mb \<le> n"
  shows "float_encode mb eb emin (Fin (if s then - (of_nat n * pow2 k) else of_nat n * pow2 k)) =
    (if s then 2 ^ (mb + eb) else 0) + nat (k - emin) * 2 ^ mb + n"
proof -
  let ?q = "if s then - (of_nat n * pow2 k) else of_nat n * pow2 k :: rat"
  have pos: "0 < (of_nat n :: rat) * pow2 k" using assms(1) by simp
  then have abs: "\<bar>?q\<bar> = of_nat n * pow2 k" and sgn: "?q < 0 \<longleftrightarrow> s" by auto
  define p where "p = ilog2 n"
  have b: "2 ^ p \<le> n" "n < 2 ^ Suc p" using ilog2_bounds [OF assms(1)] by (simp_all add: p_def)
  have p: "p \<le> mb"
  proof (rule ccontr)
    assume "\<not> p \<le> mb"
    then have "2 ^ Suc mb \<le> (2 :: nat) ^ p" by (intro power_increasing) auto
    with b assms(2) show False by simp
  qed
  have k: "max (exponent \<bar>?q\<bar> - int mb) emin = k"
  proof -
    have "exponent \<bar>?q\<bar> = int p + k" unfolding abs by (rule exponent_significand [OF b])
    moreover have "p = mb" if "2 ^ mb \<le> n"
    proof (rule ccontr)
      assume "p \<noteq> mb"
      then have "2 ^ Suc p \<le> (2 :: nat) ^ mb" using p by (intro power_increasing) auto
      with b that show False by simp
    qed
    ultimately show ?thesis using assms(3,4) p by auto
  qed
  have "\<lfloor>\<bar>?q\<bar> / pow2 k\<rfloor> = int n" unfolding abs by simp
  then show ?thesis
    unfolding float_encode_def signbit_def f64.case using k sgn by (simp only: Let_def nat_int add.assoc)
qed

lemma float_encode_decode:
  assumes "w < 2 ^ (mb + eb + 1)" and "float_decode mb eb emin w \<noteq> NaN"
  shows "float_encode mb eb emin (float_decode mb eb emin w) = w"
proof -
  define s where "s = odd (w div 2 ^ (mb + eb))"
  define e where "e = w div 2 ^ mb mod 2 ^ eb"
  define m where "m = w mod 2 ^ mb"
  have "w div 2 ^ (mb + eb) < 2"
    using assms(1) by (simp add: less_mult_imp_div_less)
  then have "w div 2 ^ (mb + eb) = (if s then 1 else 0)" by (auto simp: s_def odd_pos less_2_cases_iff)
  moreover have "w = (w div 2 ^ (mb + eb) * 2 ^ eb + e) * 2 ^ mb + m"
    using div_mult_mod_eq [of w "2 ^ mb"] div_mult_mod_eq [of "w div 2 ^ mb" "2 ^ eb"]
    by (simp only: e_def m_def power_add div_mult2_eq)
  ultimately have w: "w = (if s then 2 ^ (mb + eb) else 0) + e * 2 ^ mb + m"
    by (cases s) (simp_all add: power_add algebra_simps)
  have m: "m < 2 ^ mb" and e: "e < 2 ^ eb" by (simp_all add: m_def e_def)
  have d: "float_decode mb eb emin w =
      (if e = 2 ^ eb - 1 then (if m = 0 then Inf s else NaN)
       else if e = 0 then (if m = 0 then Zero s
         else Fin (if s then - (of_nat m * pow2 emin) else of_nat m * pow2 emin))
       else Fin (if s then - (of_nat (2 ^ mb + m) * pow2 (emin + int e - 1))
                 else of_nat (2 ^ mb + m) * pow2 (emin + int e - 1)))"
    by (simp only: float_decode_def Let_def s_def e_def m_def)
  consider "e = 2 ^ eb - 1" "m = 0" | "e \<noteq> 2 ^ eb - 1" "e = 0" "m = 0"
    | "e \<noteq> 2 ^ eb - 1" "e = 0" "0 < m" | "e \<noteq> 2 ^ eb - 1" "0 < e"
    using assms(2) d by (metis gr0I)
  then show ?thesis
  proof cases
    case 3
    then have "float_encode mb eb emin (float_decode mb eb emin w) =
        (if s then 2 ^ (mb + eb) else 0) + nat (emin - emin) * 2 ^ mb + m"
      unfolding d using encode_significand [of m mb emin emin eb s] m by simp
    then show ?thesis using w 3 by simp
  next
    case 4
    then have "float_encode mb eb emin (float_decode mb eb emin w) =
        (if s then 2 ^ (mb + eb) else 0) + nat (emin + int e - 1 - emin) * 2 ^ mb + (2 ^ mb + m)"
      unfolding d using encode_significand [of "2 ^ mb + m" mb emin "emin + int e - 1" eb s] m
      by (simp del: of_nat_add)
    moreover have "nat (emin + int e - 1 - emin) = e - 1" by simp
    moreover have "(e - 1) * 2 ^ mb + 2 ^ mb = e * 2 ^ mb"
      using \<open>0 < e\<close> by (simp add: algebra_simps)
    ultimately show ?thesis using w by simp
  qed (use d w in \<open>simp_all add: float_encode_def signbit_def\<close>)
qed

lemma Float64bits_frombits: "Float64frombits w \<noteq> NaN \<Longrightarrow> Float64bits (Float64frombits w) = w"
  using float_encode_decode [of "unat w" 52 11 "- 1074"] unsigned_less [of w, where ?'a = nat]
  by (simp add: Float64bits_def Float64frombits_def)

lemma Float32bits_frombits: "Float32frombits w \<noteq> NaN \<Longrightarrow> Float32bits (Float32frombits w) = w"
  using float_encode_decode [of "unat w" 23 8 "- 149"] unsigned_less [of w, where ?'a = nat]
  by (simp add: Float32bits_def Float32frombits_def)

section \<open>Representable numbers\<close>

lemma round_even_of_int [simp]: "round_even (of_int n) = n"
  by (simp add: round_even_def Let_def)

lemma round_exact:
  assumes "0 < n" and "n < 2 ^ p" and "emin \<le> k" and "of_nat n * pow2 k < pow2 emax" and "x = of_nat n * pow2 k \<or> x = - (of_nat n * pow2 k)"
  shows "round_to (int p) emin emax x = Fin x"
proof -
  let ?a = "of_nat n * pow2 k"
  define j where "j = ilog2 n"
  have b: "2 ^ j \<le> n" "n < 2 ^ Suc j" using ilog2_bounds [OF assms(1)] by (simp_all add: j_def)
  have "(2 :: nat) ^ j < 2 ^ p" using b(1) assms(2) by (rule le_less_trans)
  then have j: "j < p" by simp
  have pos: "0 < ?a" using assms(1) by simp
  then have abs: "\<bar>x\<bar> = ?a" "x \<noteq> 0" using assms(5) by auto
  define e where "e = max (exponent ?a - (int p - 1)) emin"
  have "exponent ?a = int j + k" by (rule exponent_significand [OF b])
  then have "e \<le> k" using j assms(3) by (auto simp: e_def)
  then obtain d where d: "k = e + int d" using zle_iff_zadd by blast
  have q: "?a / pow2 e = of_int (int (n * 2 ^ d))" by (simp add: d pow2_add_nat)
  have r: "of_int (round_even (?a / pow2 e)) * pow2 e = ?a"
    unfolding q round_even_of_int by (simp add: d pow2_add_nat)
  have "sgn x * ?a = x" using assms(5) pos by (auto simp: sgn_if)
  then show ?thesis
    unfolding round_to_def Let_def abs(1) e_def [symmetric] r using abs(2) pos assms(1,4) by auto
qed

text \<open>The values of bit patterns are fixed by multiplying with 1 and by rounding to their format.\<close>

lemma float_decode_cases:
  assumes "float_decode mb eb emin w = Fin q" and "1 < eb"
  obtains n k where "0 < n" "n < 2 ^ Suc mb" "emin \<le> k" "k \<le> emin + 2 ^ eb - 3"
    "q = of_nat n * pow2 k \<or> q = - (of_nat n * pow2 k)"
proof -
  define s e m where "s = odd (w div 2 ^ (mb + eb))" and "e = w div 2 ^ mb mod 2 ^ eb" and "m = w mod 2 ^ mb"
  have b: "m < 2 ^ mb" "e < 2 ^ eb" by (simp_all add: m_def e_def)
  have d: "float_decode mb eb emin w =
      (if e = 2 ^ eb - 1 then (if m = 0 then Inf s else NaN)
       else if e = 0 then (if m = 0 then Zero s
         else Fin (if s then - (of_nat m * pow2 emin) else of_nat m * pow2 emin))
       else Fin (if s then - (of_nat (2 ^ mb + m) * pow2 (emin + int e - 1))
                 else of_nat (2 ^ mb + m) * pow2 (emin + int e - 1)))"
    by (simp only: float_decode_def Let_def s_def e_def m_def)
  have ne: "e \<noteq> 2 ^ eb - 1" using assms d by (auto split: if_splits)
  then have "e + 2 \<le> 2 ^ eb" using b(2) by linarith
  then have "int (e + 2) \<le> int (2 ^ eb)" by (simp only: of_nat_le_iff)
  then have eb: "int e + 2 \<le> 2 ^ eb" by simp
  have "(2 :: int) ^ 2 \<le> 2 ^ eb" using assms(2) by (intro power_increasing) auto
  then have four: "(4 :: int) \<le> 2 ^ eb" by simp
  show ?thesis
  proof (cases "e = 0")
    case True
    then have "m \<noteq> 0" "q = of_nat m * pow2 emin \<or> q = - (of_nat m * pow2 emin)"
      using assms d ne by (auto split: if_splits)
    then show ?thesis using that [of m emin] b(1) four by simp
  next
    case False
    then have "q = of_nat (2 ^ mb + m) * pow2 (emin + int e - 1) \<or> q = - (of_nat (2 ^ mb + m) * pow2 (emin + int e - 1))"
      using assms d ne by (auto split: if_splits)
    then show ?thesis using that [of "2 ^ mb + m" "emin + int e - 1"] b(1) eb False by simp
  qed
qed

lemma round_decoded:
  assumes "float_decode mb eb emin w = Fin q" and "1 < eb" and "mb < p" and "emin' \<le> emin" and "emin + 2 ^ eb - 3 + int mb + 1 \<le> emax"
  shows "round_to (int p) emin' emax q = Fin q"
proof (rule float_decode_cases [OF assms(1,2)])
  fix n k assume n: "0 < n" "n < 2 ^ Suc mb" "emin \<le> k" "k \<le> emin + 2 ^ eb - 3"
    "q = of_nat n * pow2 k \<or> q = - (of_nat n * pow2 k)"
  have "n < 2 ^ p" using n(2) assms(3) by (metis Suc_leI less_le_trans one_le_numeral power_increasing)
  moreover have "of_nat n * pow2 k < pow2 emax"
  proof -
    have "(of_nat n :: rat) < 2 ^ Suc mb" using n(2) by (metis of_nat_less_iff of_nat_numeral of_nat_power)
    then have "of_nat n * pow2 k < pow2 (k + int (Suc mb))"
      unfolding pow2_add_nat by (subst mult.commute) (rule mult_strict_left_mono, simp_all)
    also have "\<dots> \<le> pow2 emax" using n(4) assms(5) by (simp add: pow2_le_iff)
    finally show ?thesis .
  qed
  ultimately show "round_to (int p) emin' emax q = Fin q"
    using round_exact [of n p emin' k emax q] n assms(4) by simp
qed

lemma rnd64_decoded: "Float64frombits w = Fin q \<Longrightarrow> rnd64 q = Fin q"
  using round_decoded [of 52 11 "- 1074" "unat w" q 53 "- 1074" 1024] by (simp add: Float64frombits_def rnd64_def)

lemma rnd32_decoded: "Float32frombits w = Fin q \<Longrightarrow> rnd32 q = Fin q \<and> rnd64 q = Fin q"
  using round_decoded [of 23 8 "- 149" "unat w" q 24 "- 149" 128] round_decoded [of 23 8 "- 149" "unat w" q 53 "- 1074" 1024]
  by (simp add: Float32frombits_def rnd64_def rnd32_def)

end
