(* ===== verification/Scalar.thy ===== *)
theory Scalar
  imports Go_Float
begin

unbundle bit_operations_syntax

text \<open>
  \<open>internal/scalar/scalar.go\<close>: the conversion between raw integer elements of up to 64 bits
  and the values a caller passes or gets, shared by the DBC and the CDD catalogs. An
  \<open>int64\<close> is a 64-bit word read with \<open>sint\<close>. A value of the empty interface is sorted by the
  reflected kind the code switches on; a \<open>json.Number\<close> is the decimal literal it spells, or
  \<open>None\<close> when its text is no JSON number.
\<close>

section \<open>Values\<close>

type_synonym i64 = "64 word"

record choice =
  ch_value :: i64
  ch_label :: string

text \<open>
  The literal \<open>[-]digits\<cdot>10^scale\<close>; \<open>jn_plain\<close> tells that it was written without a fraction
  and without an exponent.
\<close>

record json_number =
  jn_neg :: bool
  jn_digits :: nat
  jn_scale :: int
  jn_plain :: bool

datatype go_value =
    VNil
  | VInt i64
  | VUint u64
  | VFloat f64
  | VNumber "json_number option"
  | VString string
  | VBool bool
  | VOther

datatype scalar_error =
    AmbiguousLabel string
  | UnknownLabel string
  | NegativeForUnsigned int
  | NotFinite
  | BeyondExactRange int
  | SignedDoesNotFit i64 u32
  | UnsignedDoesNotFit u64 u32
  | NotExactInt64
  | NotExactUint64
  | NotExactFloat64
  | NilValue
  | UnsupportedType
  | OutsideIntegerRange
  | InvalidJSONNumber
  | JSONNumberOverflow

definition jn_value :: "json_number \<Rightarrow> rat" where
  "jn_value j = (if jn_neg j then -1 else 1) * of_nat (jn_digits j) *
     (if jn_scale j \<ge> 0 then 10 ^ nat (jn_scale j) else 1 / 10 ^ nat (- jn_scale j))"

text \<open>\<open>strconv.ParseFloat\<close> of a valid literal: the nearest value, or a range error at infinity.\<close>

definition ParseFloat :: "nat \<Rightarrow> json_number \<Rightarrow> scalar_error + f64" where
  "ParseFloat bits j =
     (if jn_digits j = 0 then Inr (Zero (jn_neg j))
      else let f = (if bits = 32 then rnd32 (jn_value j) else rnd64 (jn_value j))
           in if is_Inf f then Inl JSONNumberOverflow else Inr f)"

section \<open>Raw integers of a given width\<close>

definition EncodeSigned :: "u32 \<Rightarrow> i64 \<Rightarrow> scalar_error + u64" where
  "EncodeSigned bits v =
     (if bits = 64 then Inr v
      else let minimum = - push_bit (unat (bits - 1)) 1; maximum = push_bit (unat (bits - 1)) 1 - 1
           in if sint v < sint (minimum :: i64) \<or> sint v > sint (maximum :: i64)
              then Inl (SignedDoesNotFit v bits)
              else Inr (v AND (push_bit (unat bits) 1 - 1)))"

definition EncodeUnsigned :: "u32 \<Rightarrow> u64 \<Rightarrow> scalar_error + u64" where
  "EncodeUnsigned bits v =
     (if bits < 64 \<and> v \<ge> push_bit (unat bits) 1 then Inl (UnsignedDoesNotFit v bits) else Inr v)"

definition DecodeSigned :: "u32 \<Rightarrow> u64 \<Rightarrow> i64" where
  "DecodeSigned bits raw =
     (if bits = 64 then raw
      else let m = push_bit (unat bits) 1 - 1; r = raw AND m
           in if r AND push_bit (unat (bits - 1)) 1 \<noteq> 0 then r OR NOT m else r)"

section \<open>Labels\<close>

fun Label :: "choice list \<Rightarrow> i64 \<Rightarrow> string option" where
  "Label [] v = None"
| "Label (c # cs) v = (if ch_value c = v then Some (ch_label c) else Label cs v)"

text \<open>The loop of \<open>RawForLabel\<close>, with the value found so far.\<close>

fun find_label :: "string \<Rightarrow> choice list \<Rightarrow> i64 option \<Rightarrow> scalar_error + i64 option" where
  "find_label l [] found = Inr found"
| "find_label l (c # cs) found =
     (if ch_label c \<noteq> l then find_label l cs found
      else if found \<noteq> None \<and> found \<noteq> Some (ch_value c) then Inl (AmbiguousLabel l)
      else find_label l cs (Some (ch_value c)))"

definition RawForLabel :: "choice list \<Rightarrow> string \<Rightarrow> u32 \<Rightarrow> bool \<Rightarrow> scalar_error + u64" where
  "RawForLabel choices l bits sgnd =
     ebind (find_label l choices None) (\<lambda>found.
       case found of
         None \<Rightarrow> Inl (UnknownLabel l)
       | Some v \<Rightarrow>
           if sgnd then EncodeSigned bits v
           else if sint v < 0 then Inl (NegativeForUnsigned (sint v))
           else EncodeUnsigned bits v)"

definition StringValue :: "go_value \<Rightarrow> string option" where
  "StringValue v = (case v of VString s \<Rightarrow> Some s | _ \<Rightarrow> None)"

section \<open>Linear conversion\<close>

definition unscaled :: "f64 \<Rightarrow> f64 \<Rightarrow> bool" where
  "unscaled scl ofs = (f_eq scl (Fin 1) \<and> is_Zero ofs)"

definition DecodeLinear :: "u32 \<Rightarrow> bool \<Rightarrow> u64 \<Rightarrow> f64 \<Rightarrow> f64 \<Rightarrow> choice list \<Rightarrow> bool \<Rightarrow> go_value" where
  "DecodeLinear bits sgnd raw scl ofs choices allowLabel =
     (if sgnd then
        let v = DecodeSigned bits raw in
        case (if allowLabel then Label choices v else None) of
          Some l \<Rightarrow> VString l
        | None \<Rightarrow> if unscaled scl ofs then VInt v
                  else VFloat (f_add (f_mul (float_of_int (sint v)) scl) ofs)
      else
        case (if allowLabel \<and> unat raw < 2 ^ 63 then Label choices raw else None) of
          Some l \<Rightarrow> VString l
        | None \<Rightarrow> if unscaled scl ofs then VUint raw
                  else VFloat (f_add (f_mul (float_of_int (uint raw)) scl) ofs))"

definition LinearRaw :: "u32 \<Rightarrow> bool \<Rightarrow> f64 \<Rightarrow> f64 \<Rightarrow> f64 \<Rightarrow> scalar_error + u64" where
  "LinearRaw bits sgnd physical scl ofs =
     (let raw = f_div (f_sub physical ofs) scl in
      if is_NaN raw \<or> is_Inf raw then Inl NotFinite
      else let rounded = f_round (num raw) in
        if \<bar>rounded\<bar> > 2 ^ 53 then Inl (BeyondExactRange rounded)
        else if sgnd then EncodeSigned bits (word_of_int rounded)
        else if rounded < 0 then Inl (NegativeForUnsigned rounded)
        else EncodeUnsigned bits (word_of_int rounded))"

section \<open>Exact and rounded numbers\<close>

definition NumericFloat :: "go_value \<Rightarrow> nat \<Rightarrow> scalar_error + f64" where
  "NumericFloat v bits =
     (case v of
        VNumber None \<Rightarrow> Inl InvalidJSONNumber
      | VNumber (Some j) \<Rightarrow> ParseFloat bits j
      | VNil \<Rightarrow> Inl NilValue
      | VInt n \<Rightarrow> Inr (if bits = 32 then rnd32 (of_int (sint n)) else float_of_int (sint n))
      | VUint n \<Rightarrow> Inr (if bits = 32 then rnd32 (of_int (uint n)) else float_of_int (uint n))
      | VFloat f \<Rightarrow> Inr (if bits = 32 then float32_of f else f)
      | _ \<Rightarrow> Inl UnsupportedType)"

text \<open>
  \<open>jsonRational\<close>: a magnitude check on the rounded value, then \<open>big.Rat.SetString\<close>, which
  refuses decimal exponents beyond a million.
\<close>

definition jsonRational :: "json_number option \<Rightarrow> scalar_error + rat" where
  "jsonRational n =
     ebind (NumericFloat (VNumber n) 64) (\<lambda>f.
       case n of
         None \<Rightarrow> Inl InvalidJSONNumber
       | Some j \<Rightarrow>
           if is_Zero f \<and> jn_digits j = 0 then Inr 0
           else if \<bar>num f\<bar> < 1 \<or> num f < - (2 ^ 63) \<or> num f > 2 ^ 64 then Inl OutsideIntegerRange
           else if \<bar>jn_scale j\<bar> > 10 ^ 6 then Inl InvalidJSONNumber
           else Inr (jn_value j))"

definition fits_int64 :: "int \<Rightarrow> bool" where
  "fits_int64 n \<longleftrightarrow> - (2 ^ 63) \<le> n \<and> n < 2 ^ 63"

definition fits_uint64 :: "int \<Rightarrow> bool" where
  "fits_uint64 n \<longleftrightarrow> 0 \<le> n \<and> n < 2 ^ 64"

definition is_integral :: "rat \<Rightarrow> bool" where
  "is_integral x \<longleftrightarrow> of_int \<lfloor>x\<rfloor> = x"

text \<open>\<open>Number.Int64\<close> and \<open>strconv.ParseUint\<close> read a plain literal; the latter takes no sign.\<close>

definition ExactSigned :: "go_value \<Rightarrow> scalar_error + i64" where
  "ExactSigned v =
     (case v of
        VNumber n \<Rightarrow>
          (case n of
             Some j \<Rightarrow>
               if jn_plain j \<and> fits_int64 \<lfloor>jn_value j\<rfloor> then Inr (word_of_int \<lfloor>jn_value j\<rfloor>)
               else ebind (jsonRational n) (\<lambda>q.
                 if \<not> is_integral q \<or> \<not> fits_int64 \<lfloor>q\<rfloor> then Inl NotExactInt64
                 else Inr (word_of_int \<lfloor>q\<rfloor>))
           | None \<Rightarrow> ebind (jsonRational n) (\<lambda>_. Inl NotExactInt64))
      | VNil \<Rightarrow> Inl NilValue
      | VInt n \<Rightarrow> Inr n
      | VUint n \<Rightarrow> if unat n \<ge> 2 ^ 63 then Inl NotExactInt64 else Inr n
      | VFloat f \<Rightarrow>
          if is_NaN f \<or> is_Inf f \<or> \<not> is_integral (num f) \<or> \<not> fits_int64 \<lfloor>num f\<rfloor> then Inl NotExactInt64
          else Inr (word_of_int \<lfloor>num f\<rfloor>)
      | _ \<Rightarrow> Inl UnsupportedType)"

definition ExactUnsigned :: "go_value \<Rightarrow> scalar_error + u64" where
  "ExactUnsigned v =
     (case v of
        VNumber n \<Rightarrow>
          (case n of
             Some j \<Rightarrow>
               if jn_plain j \<and> \<not> jn_neg j \<and> fits_uint64 \<lfloor>jn_value j\<rfloor> then Inr (word_of_int \<lfloor>jn_value j\<rfloor>)
               else ebind (jsonRational n) (\<lambda>q.
                 if \<not> is_integral q \<or> \<not> fits_uint64 \<lfloor>q\<rfloor> then Inl NotExactUint64
                 else Inr (word_of_int \<lfloor>q\<rfloor>))
           | None \<Rightarrow> ebind (jsonRational n) (\<lambda>_. Inl NotExactUint64))
      | VNil \<Rightarrow> Inl NilValue
      | VInt n \<Rightarrow> if sint n < 0 then Inl (NegativeForUnsigned (sint n)) else Inr n
      | VUint n \<Rightarrow> Inr n
      | VFloat f \<Rightarrow>
          if is_NaN f \<or> is_Inf f \<or> \<not> is_integral (num f) \<or> \<not> fits_uint64 \<lfloor>num f\<rfloor> then Inl NotExactUint64
          else Inr (word_of_int \<lfloor>num f\<rfloor>)
      | _ \<Rightarrow> Inl UnsupportedType)"

definition LinearFloat :: "go_value \<Rightarrow> scalar_error + f64" where
  "LinearFloat v =
     (case v of
        VInt n \<Rightarrow>
          let f = float_of_int (sint n) in
          if num f \<ge> 2 ^ 63 \<or> num f \<noteq> of_int (sint n) then Inl NotExactFloat64 else Inr f
      | VUint n \<Rightarrow>
          let f = float_of_int (uint n) in
          if num f \<ge> 2 ^ 64 \<or> num f \<noteq> of_int (uint n) then Inl NotExactFloat64 else Inr f
      | _ \<Rightarrow> NumericFloat v 64)"

section \<open>Signed elements\<close>

lemma sint_word_of_int64:
  assumes "- (2 ^ 63) \<le> n" and "n < 2 ^ 63"
  shows "sint (word_of_int n :: i64) = n"
  using assms by (simp add: signed_of_int signed_take_bit_int_eq_self)

lemma sint_bound64: "- (2 ^ 63) \<le> sint (v :: i64)" "sint (v :: i64) < 2 ^ 63"
  using sint_greater_eq [of v] sint_less [of v] by simp_all

lemma sint_limits:
  assumes "k < 63"
  shows "sint (- (2 ^ k) :: i64) = - (2 ^ k)" and "sint (2 ^ k - 1 :: i64) = 2 ^ k - 1"
proof -
  have p: "(2 :: int) ^ k \<le> 2 ^ 62"
    using assms by (intro power_increasing) auto
  have n: "- (2 ^ k) < (2 ^ 63 :: int)" by (rule le_less_trans [of _ 0]) simp_all
  have m: "- (2 ^ 63) \<le> (2 ^ k - 1 :: int)" by (rule order_trans [of _ 0]) simp_all
  have "sint (word_of_int (- (2 ^ k)) :: i64) = - (2 ^ k)"
    by (rule sint_word_of_int64) (use p n in simp_all)
  then show "sint (- (2 ^ k) :: i64) = - (2 ^ k)" by simp
  have "sint (word_of_int (2 ^ k - 1) :: i64) = 2 ^ k - 1"
    by (rule sint_word_of_int64) (use p m in simp_all)
  then show "sint (2 ^ k - 1 :: i64) = 2 ^ k - 1" by simp
qed

lemma width_pred: "0 < bits \<Longrightarrow> unat (bits - 1 :: u32) = unat bits - 1"
  by (simp add: unat_minus_one word_gt_0)

lemma width_le_64: "bits \<le> (64 :: u32) \<longleftrightarrow> unat bits \<le> 64"
  by (simp add: word_le_nat_alt)

lemma EncodeSigned_Inr_iff:
  assumes "0 < bits" and "bits \<le> 64"
  shows "EncodeSigned bits v = Inr w \<longleftrightarrow>
    - (2 ^ (unat bits - 1)) \<le> sint v \<and> sint v < 2 ^ (unat bits - 1) \<and> w = take_bit (unat bits) v"
proof (cases "bits = 64")
  case True
  then show ?thesis using sint_bound64 [of v] by (auto simp: EncodeSigned_def take_bit_word_eq_self)
next
  case False
  then have "unat bits \<noteq> 64" by (simp add: word_unat_eq_iff)
  then have n: "unat bits - 1 < 63" using assms(2) by (simp add: width_le_64)
  show ?thesis
    using False n assms
    by (auto simp: EncodeSigned_def Let_def width_pred sint_limits take_bit_eq_mask mask_eq_exp_minus_1)
qed

lemma EncodeSigned_width:
  assumes "EncodeSigned bits v = Inr w"
  shows "0 < bits \<and> bits \<le> 64"
proof (rule ccontr)
  assume a: "\<not> (0 < bits \<and> bits \<le> 64)"
  have "64 \<le> unat (bits - 1)"
  proof (cases "bits = 0")
    case False
    then show ?thesis using a by (simp add: width_le_64 width_pred word_gt_0)
  qed (simp add: unsigned_minus_1_eq_mask mask_eq_exp_minus_1)
  then have z: "(2 ^ unat (bits - 1) :: i64) = 0"
    by simp
  have "EncodeSigned bits v = Inl (SignedDoesNotFit v bits)"
    using a by (auto simp: EncodeSigned_def z)
  with assms show False by simp
qed

lemma mask_shift: "push_bit n 1 - 1 = (mask n :: u64)"
  by (simp add: mask_eq_exp_minus_1)

lemma DecodeSigned_eq:
  assumes "0 < bits" and "bits \<le> 64"
  shows "DecodeSigned bits raw = signed_take_bit (unat bits - 1) raw"
proof (cases "bits = 64")
  case True
  then show ?thesis
    by (intro bit_word_eqI) (auto simp: DecodeSigned_def bit_signed_take_bit_iff min_def less_eq_Suc_le
      dest!: le_antisym [of 63])
next
  case False
  then have "unat bits \<noteq> 64" by (simp add: word_unat_eq_iff)
  then obtain k where k: "unat bits = Suc k" "unat (bits - 1) = k" "k < 63"
    using assms width_pred [of bits] by (cases "unat bits") (auto simp: width_le_64 word_gt_0 unat_eq_zero)
  have t: "x AND push_bit k 1 \<noteq> 0 \<longleftrightarrow> bit x k" for x :: u64
    by (simp add: and_exp_eq_0_iff_not_bit)
  have "DecodeSigned bits raw =
      (if bit raw k then take_bit (Suc k) raw OR NOT (mask (Suc k)) else take_bit (Suc k) raw)"
    using False k(3) unfolding DecodeSigned_def Let_def k(1,2) t mask_shift take_bit_eq_mask [symmetric]
    by (simp add: bit_take_bit_iff)
  then show ?thesis
    using k by (intro bit_word_eqI) (auto simp: bit_simps min_def less_Suc_eq)
qed

text \<open>Encoding an element and decoding it is the identity on what the encoder accepts.\<close>

lemma DecodeSigned_EncodeSigned:
  assumes "EncodeSigned bits v = Inr w"
  shows "DecodeSigned bits w = v"
proof -
  have b: "0 < bits" "bits \<le> 64" using EncodeSigned_width [OF assms] by auto
  define k where "k = unat bits - 1"
  have k: "unat bits = Suc k" "k < 64"
    using b unat_gt_0 [of bits] by (simp_all add: k_def width_le_64 del: unat_gt_0)
  have r: "- (2 ^ k) \<le> sint v" "sint v < 2 ^ k" "w = take_bit (Suc k) v"
    using assms b k by (simp_all add: EncodeSigned_Inr_iff)
  have "DecodeSigned bits w = signed_take_bit k v"
    using b k unfolding r(3)
    by (simp add: DecodeSigned_eq) (rule bit_word_eqI, auto simp: bit_simps min_def)
  moreover have "signed_take_bit k v = v"
  proof (rule bit_word_eqI)
    fix i assume i: "i < LENGTH(64)"
    have "bit (signed_take_bit k (sint v)) i = bit (sint v) i"
      using r(1,2) by (simp add: signed_take_bit_int_eq_self)
    moreover have "63 \<le> i \<longleftrightarrow> i = 63" "63 \<le> k \<longleftrightarrow> k = 63" "k = 63 \<Longrightarrow> k \<le> i \<longleftrightarrow> i = 63" using i k(2) by auto
    ultimately show "bit (signed_take_bit k v) i = bit v i"
      using i k(2) by (cases "k = 63") (auto simp: bit_simps min_def bit_sint_iff split: if_splits)
  qed
  ultimately show ?thesis by simp
qed

lemma DecodeSigned_take_bit: "EncodeSigned bits v = Inr w \<Longrightarrow> take_bit (unat bits) w = w"
  using EncodeSigned_width [of bits v w] by (auto simp: EncodeSigned_Inr_iff)

lemma EncodeUnsigned_take_bit: "EncodeUnsigned bits v = Inr w \<Longrightarrow> take_bit (unat bits) w = w \<and> w = v"
proof -
  assume v: "EncodeUnsigned bits v = Inr w"
  then have "v = w" by (auto simp: EncodeUnsigned_def split: if_splits)
  moreover have "take_bit (unat bits) v = v"
  proof (cases "bits < 64")
    case True
    then have n: "unat bits < 64" by (simp add: word_less_nat_alt)
    have "unat v < unat (push_bit (unat bits) 1 :: u64)"
      using v True by (simp add: EncodeUnsigned_def word_less_nat_alt not_le split: if_splits)
    moreover have "unat (push_bit (unat bits) 1 :: u64) = 2 ^ unat bits"
    proof -
      have "(2 :: nat) ^ unat bits < 2 ^ 64" using n by (intro power_strict_increasing) auto
      then have "unat (of_nat (2 ^ unat bits) :: u64) = 2 ^ unat bits"
        by (simp only: unsigned_of_nat of_nat_id len_of_numeral_defs) (rule take_bit_nat_eq_self, simp)
      then show ?thesis by simp
    qed
    ultimately show ?thesis by (simp add: word_unat_eq_iff unsigned_take_bit_eq take_bit_nat_eq_self)
  next
    case False
    then show ?thesis by (simp add: word_less_nat_alt take_bit_word_eq_self)
  qed
  ultimately show ?thesis by simp
qed

interpretation signed_element: partial_codec "EncodeSigned bits" "\<lambda>w. Inr (DecodeSigned bits w) :: scalar_error + i64"
  for bits
  by unfold_locales (simp add: DecodeSigned_EncodeSigned)

end
