(* ===== verification/Dbc_Model.thy ===== *)
theory Dbc_Model
  imports Scalar Frame
begin

text \<open>
  The resolved model of a DBC file, \<open>dbc/model.go\<close>: messages, signals, multiplexing
  conditions, value descriptions and attributes. Maps the code only looks up are association
  lists; a map it ranges over is the list of its entries in the order the loop visits them.
\<close>

datatype byte_order = ByteOrderBigEndian | ByteOrderLittleEndian

datatype value_type = ValueTypeInteger | ValueTypeFloat32 | ValueTypeFloat64

datatype frame_format =
    FrameFormatUnknown
  | FrameFormatStandardCAN
  | FrameFormatExtendedCAN
  | FrameFormatStandardCANFD
  | FrameFormatExtendedCANFD
  | FrameFormatJ1939

datatype attribute_scope =
    AttributeScopeDatabase | AttributeScopeNode | AttributeScopeMessage | AttributeScopeSignal

datatype attribute_kind =
    AttributeKindInteger | AttributeKindHex | AttributeKindFloat | AttributeKindString | AttributeKindEnum

record attribute_value =
  av_kind :: attribute_kind
  av_integer :: i64
  av_float :: f64
  av_text :: string

record attribute_definition =
  ad_name :: string
  ad_scope :: attribute_scope
  ad_kind :: attribute_kind
  ad_minimum :: f64
  ad_maximum :: f64
  ad_choices :: "string list"
  ad_default :: "attribute_value option"

record mux_range =
  r_first :: u64
  r_last :: u64

record mux_condition =
  mc_selector :: string
  mc_ranges :: "mux_range list"

record signal =
  s_name :: string
  s_start :: u32
  s_bits :: u32
  s_order :: byte_order
  s_signed :: bool
  s_type :: value_type
  s_factor :: f64
  s_offset :: f64
  s_minimum :: f64
  s_maximum :: f64
  s_unit :: string
  s_receivers :: "string list"
  s_values :: "choice list"
  s_is_mux :: bool
  s_cond :: "mux_condition option"
  s_attributes :: "(string \<times> attribute_value) list"
  s_comment :: string

record signal_group =
  sg_name :: string
  sg_repetitions :: u32
  sg_signals :: "string list"

text \<open>Errors of the codec; \<open>IndexPanic\<close> is Go's run-time panic on an index out of range.\<close>

datatype dbc_error =
    NilMessage
  | NoResolvedCodec
  | UnusableCodec dbc_error
  | NotWritable dbc_error
  | SignalTooWide string
  | BadFactorOrOffset string
  | MinimumAboveMaximum string
  | SelectorCycle string
  | UnknownSelector string string
  | SelectorNotUnsigned string
  | SignalsOverlap string string
  | NoSuchSignal string
  | EncodeSignal string dbc_error
  | ScalarError scalar_error
  | LabelNeedsInteger
  | BoolNeedsOneBit
  | PhysicalNotFinite
  | PhysicalOutOfRange f64
  | RawNotFinite
  | ExceedsFloat32
  | RequiresMultiplexor string
  | RequiresSignal string
  | InactiveForPath string
  | BecameActive string
  | InactiveSignal string
  | SelectorNotPresent string nat
  | SignalNotPresent string nat
  | PayloadTooLong nat u32
  | NilFrame
  | InvalidFrame frame_error
  | RemoteFrame
  | FrameMismatch u32
  | FormatMismatch
  | LengthMismatch nat nat
  | ExceedsClassical
  | ExceedsJ1939Frame
  | UnsupportedFormat
  | BRSWithoutFD
  | IndexPanic

record message_codec =
  cd_byName :: "(string \<times> nat) list"
  cd_constraints :: "(nat \<times> mux_range list) list list"
  cd_selectors :: "bool list"
  cd_err :: "dbc_error option"
  cd_writeErr :: "dbc_error option"

record dbc_message =
  m_id :: u32
  m_extended :: bool
  m_name :: string
  m_length :: u32
  m_transmitters :: "string list"
  m_signals :: "signal list"
  m_groups :: "signal_group list"
  m_format :: frame_format
  m_attributes :: "(string \<times> attribute_value) list"
  m_comment :: string
  m_brs :: bool
  m_codec :: "message_codec option"

end
