(* ===== verification/Field_Store.thy ===== *)
theory Field_Store
  imports Prelude
begin

text \<open>
  The contract of fields packed into a byte string, which the catalogs' codecs rely on: what
  a field reads back after it was written, and that writing one field leaves the fields
  disjoint from it alone. From it follows the effect of a run of writes.
\<close>

locale field_store =
  fixes rd :: "'f \<Rightarrow> 'd \<Rightarrow> 'e + 'v"
    and wr :: "'f \<Rightarrow> 'v \<Rightarrow> 'd \<Rightarrow> 'e + 'd"
    and kept :: "'f \<Rightarrow> 'v \<Rightarrow> 'v"
    and apart :: "'f \<Rightarrow> 'f \<Rightarrow> bool"
  assumes rd_wr: "wr f v d = Inr d' \<Longrightarrow> rd f d' = Inr (kept f v)"
    and rd_wr_apart: "wr f v d = Inr d' \<Longrightarrow> apart f g \<Longrightarrow> rd g d' = rd g d"
begin

definition write_all :: "('f \<times> 'v) list \<Rightarrow> 'd \<Rightarrow> 'e + 'd" where
  "write_all = efold (\<lambda>(f, v). wr f v)"

lemma write_all_simps [simp]:
  "write_all [] d = Inr d"
  "write_all ((f, v) # ws) d = ebind (wr f v d) (write_all ws)"
  by (simp_all add: write_all_def)

lemma rd_write_all_apart:
  "write_all ws d = Inr d' \<Longrightarrow> \<forall>(f, v) \<in> set ws. apart f g \<Longrightarrow> rd g d' = rd g d"
proof (induction ws arbitrary: d)
  case (Cons w ws)
  obtain f v where w: "w = (f, v)" by fastforce
  obtain d1 where d1: "wr f v d = Inr d1" "write_all ws d1 = Inr d'"
    using Cons.prems(1) by (auto simp: w ebind_Inr_iff)
  have "rd g d' = rd g d1" using Cons.IH [OF d1(2)] Cons.prems(2) by simp
  also have "\<dots> = rd g d" using rd_wr_apart [OF d1(1)] Cons.prems(2) by (simp add: w)
  finally show ?case .
qed simp

lemma rd_write_all:
  assumes "write_all (ws @ (f, v) # ws') d = Inr d'" and "\<forall>(g, u) \<in> set ws'. apart g f"
  shows "rd f d' = Inr (kept f v)"
proof -
  obtain d1 d2 where "wr f v d1 = Inr d2" "write_all ws' d2 = Inr d'"
    using assms(1) by (auto simp: write_all_def efold_append ebind_Inr_iff)
  then show ?thesis
    using rd_wr rd_write_all_apart [of ws' d2 d' f] assms(2) by metis
qed

text \<open>Fields of a list in which any two entries are apart all read back what was written.\<close>

lemma rd_write_all_pairwise:
  assumes "write_all ws d = Inr d'" and "pairwise (\<lambda>(f, u) (g, v). apart f g) (set ws)"
    and "distinct ws" and "(f, v) \<in> set ws"
  shows "rd f d' = Inr (kept f v)"
proof -
  obtain us us' where ws: "ws = us @ (f, v) # us'" using assms(4) by (meson split_list)
  have "apart g f" if "(g, u) \<in> set us'" for g u
  proof -
    have "(g, u) \<noteq> (f, v)" using assms(3) that by (auto simp: ws)
    then show ?thesis using assms(2) that unfolding pairwise_def ws by fastforce
  qed
  then show ?thesis using rd_write_all [of us f v us' d d'] assms(1) by (auto simp: ws)
qed

end

end
