(* ===== verification/Dbc_Bits.thy ===== *)
theory Dbc_Bits
  imports Dbc_Model Field_Store
begin

unbundle bit_operations_syntax

text \<open>
  Where the bits of a signal lie in a payload, and reading and writing them: the last
  functions of \<open>dbc/codec.go\<close>. Positions are 32-bit words that wrap as the code's do.
  Reading and writing are compared with one list per signal, its payload positions from the
  least significant value bit up; distinctness of that list holds for both byte orders
  because the Motorola successor is \<open>+ 1\<close> seen through an XOR with 7.
\<close>

section \<open>Visiting positions\<close>

definition nextBigEndianBit :: "u32 \<Rightarrow> u32" where
  "nextBigEndianBit b = (if b mod 8 = 0 then b + 15 else b - 1)"

fun big_endian_bits :: "u32 \<Rightarrow> nat \<Rightarrow> u32 list" where
  "big_endian_bits b 0 = []"
| "big_endian_bits b (Suc n) = b # big_endian_bits (nextBigEndianBit b) n"

fun little_endian_bits :: "u32 \<Rightarrow> nat \<Rightarrow> u32 list" where
  "little_endian_bits b 0 = []"
| "little_endian_bits b (Suc n) = b # little_endian_bits (b + 1) n"

text \<open>The positions in the order \<open>visitSignalBits\<close> calls its visitor.\<close>

definition visitSignalBits :: "signal \<Rightarrow> u32 list" where
  "visitSignalBits s =
     (if s_order s = ByteOrderLittleEndian then little_endian_bits (s_start s) (unat (s_bits s))
      else big_endian_bits (s_start s) (unat (s_bits s)))"

definition signalAvailable :: "signal \<Rightarrow> nat \<Rightarrow> bool" where
  "signalAvailable s payloadLength = list_all (\<lambda>b. unat b < payloadLength * 8) (visitSignalBits s)"

section \<open>Reading\<close>

text \<open>\<open>data[b/8] & (byte(1) << (b%8)) != 0\<close>, or a panic.\<close>

definition dataBit :: "bytes \<Rightarrow> u32 \<Rightarrow> dbc_error + bool" where
  "dataBit data b =
     (if unat (b div 8) < length data
      then Inr (data ! unat (b div 8) AND push_bit (unat (b mod 8)) 1 \<noteq> 0)
      else Inl IndexPanic)"

fun read_little :: "bytes \<Rightarrow> u32 \<Rightarrow> nat \<Rightarrow> nat \<Rightarrow> u64 \<Rightarrow> dbc_error + u64" where
  "read_little data start 0 valueBit v = Inr v"
| "read_little data start (Suc k) valueBit v =
     ebind (dataBit data (start + of_nat valueBit)) (\<lambda>x.
       read_little data start k (Suc valueBit) (if x then v OR push_bit valueBit 1 else v))"

fun read_big :: "bytes \<Rightarrow> u32 \<Rightarrow> nat \<Rightarrow> u64 \<Rightarrow> dbc_error + u64" where
  "read_big data b 0 v = Inr v"
| "read_big data b (Suc k) v =
     ebind (dataBit data b) (\<lambda>x.
       read_big data (nextBigEndianBit b) k (if x then push_bit 1 v OR 1 else push_bit 1 v))"

definition readSignalBits :: "bytes \<Rightarrow> signal \<Rightarrow> dbc_error + u64" where
  "readSignalBits data s =
     (if s_order s = ByteOrderLittleEndian then read_little data (s_start s) (unat (s_bits s)) 0 0
      else read_big data (s_start s) (unat (s_bits s)) 0)"

section \<open>Writing\<close>

definition setDataBit :: "u32 \<Rightarrow> bool \<Rightarrow> bytes \<Rightarrow> dbc_error + bytes" where
  "setDataBit b x data =
     (let i = unat (b div 8); m = push_bit (unat (b mod 8)) 1 in
      if i < length data
      then Inr (data[i := if x then data ! i OR m else data ! i AND NOT m])
      else Inl IndexPanic)"

fun write_little :: "u32 \<Rightarrow> u64 \<Rightarrow> nat \<Rightarrow> nat \<Rightarrow> bytes \<Rightarrow> dbc_error + bytes" where
  "write_little start v 0 valueBit data = Inr data"
| "write_little start v (Suc k) valueBit data =
     ebind (setDataBit (start + of_nat valueBit) (v AND push_bit valueBit 1 \<noteq> 0) data)
       (write_little start v k (Suc valueBit))"

text \<open>The big-endian loop with \<open>k\<close> bits to go writes value bit \<open>BitLength - 1 - valueBit = k - 1\<close>.\<close>

fun write_big :: "u32 \<Rightarrow> u64 \<Rightarrow> nat \<Rightarrow> bytes \<Rightarrow> dbc_error + bytes" where
  "write_big b v 0 data = Inr data"
| "write_big b v (Suc k) data =
     ebind (setDataBit b (v AND push_bit k 1 \<noteq> 0) data) (write_big (nextBigEndianBit b) v k)"

definition writeSignalBits :: "signal \<Rightarrow> u64 \<Rightarrow> bytes \<Rightarrow> dbc_error + bytes" where
  "writeSignalBits s v data =
     (if s_order s = ByteOrderLittleEndian then write_little (s_start s) v (unat (s_bits s)) 0 data
      else write_big (s_start s) v (unat (s_bits s)) data)"

section \<open>The positions of a signal\<close>

lemma add_low_bits:
  assumes "c AND 7 = (0 :: u32)" and "t AND 7 = t"
  shows "c + t = c XOR t" and "(c + t) XOR 7 = c + (t XOR 7)"
proof -
  have add: "c + t = c XOR t" if "t AND 7 = t" for t
  proof -
    have "c AND t = (c AND 7) AND t" using that by (metis and.assoc and.commute)
    then have d: "c AND t = 0" using assms(1) by simp
    have "c + t = c OR t" using d by (rule disjunctive_add_eq_or)
    also have "\<dots> = c XOR t" using d by (rule disjunctive_xor_eq_or [symmetric])
    finally show ?thesis .
  qed
  show "c + t = c XOR t" using assms(2) by (rule add)
  have "(t XOR 7) AND 7 = t XOR 7" using assms(2) by (simp add: bit_eq_iff bit_simps) metis
  then show "(c + t) XOR 7 = c + (t XOR 7)"
    using assms(2) by (simp add: add xor.assoc)
qed

lemma and_7: "(b :: u32) AND 7 = take_bit 3 b"
  by (simp add: take_bit_eq_mask mask_numeral)

lemma nextBigEndianBit_xor: "nextBigEndianBit b = ((b XOR 7) + 1) XOR 7"
proof -
  define c t where "c = b AND NOT 7" and "t = b AND 7"
  have b: "b = c + t" unfolding c_def t_def
    by (subst disjunctive_add_eq_or) (auto intro!: bit_word_eqI simp: bit_simps)
  have c: "c AND 7 = 0" unfolding c_def by (rule bit_word_eqI) (simp add: bit_simps)
  have m: "b mod 8 = t" by (simp add: t_def and_7 take_bit_eq_mod)
  have "unat t < 8"
    unfolding t_def and_7 unsigned_take_bit_eq using take_bit_nat_less_exp [of 3 "unat b"] by simp
  then have "unat t = 0 \<or> unat t = 1 \<or> unat t = 2 \<or> unat t = 3 \<or> unat t = 4 \<or> unat t = 5 \<or>
      unat t = 6 \<or> unat t = 7" by presburger
  then have t: "t \<in> {0, 1, 2, 3, 4, 5, 6, 7}" by (simp add: word_unat_eq_iff)
  show ?thesis
  proof (cases "t = 0")
    case True
    then have "(b XOR 7) + 1 = c + 8" using add_low_bits(2) [OF c, of 0] b by simp
    moreover have "(c + 8) AND 7 = 0"
      using c unfolding and_7 word_uint_eq_iff unsigned_take_bit_eq uint_word_ariths(1)
      by (simp add: take_bit_eq_mod mod_mod_cancel)
    then have "(c + 8) XOR 7 = c + 8 + 7" using add_low_bits(2) [of "c + 8" 0] by simp
    ultimately have "((b XOR 7) + 1) XOR 7 = c + 8 + 7" by (simp only:)
    then show ?thesis using b m True by (simp add: nextBigEndianBit_def)
  next
    case False
    then show ?thesis
      using t b m add_low_bits(2) [OF c, of t] add_low_bits(2) [OF c, of "8 - t"]
      by (auto simp: nextBigEndianBit_def add.commute)
  qed
qed

lemma big_endian_bits_eq:
  "big_endian_bits b n = map (\<lambda>i. ((b XOR 7) + of_nat i) XOR 7) [0..<n]"
proof (induction n arbitrary: b)
  case (Suc n)
  have x: "(x XOR 7) XOR 7 = (x :: u32)" for x by (simp add: xor.assoc)
  show ?case
    unfolding upt_conv_Cons [OF zero_less_Suc] map_Suc_upt [symmetric]
    by (simp add: Suc nextBigEndianBit_xor x comp_def add.assoc)
qed simp

lemma length_big_endian_bits [simp]: "length (big_endian_bits b n) = n"
  by (simp add: big_endian_bits_eq)

lemma little_endian_bits_eq: "little_endian_bits b n = map (\<lambda>i. b + of_nat i) [0..<n]"
proof (induction n arbitrary: b)
  case (Suc n)
  show ?case
    unfolding upt_conv_Cons [OF zero_less_Suc] map_Suc_upt [symmetric]
    by (simp add: Suc comp_def add.assoc)
qed simp

lemma of_nat_inj32: "i < 2 ^ 32 \<Longrightarrow> j < 2 ^ 32 \<Longrightarrow> of_nat i = (of_nat j :: u32) \<longleftrightarrow> i = j"
  by (simp add: word_of_nat_eq_iff take_bit_nat_eq_self)

text \<open>The payload positions from the least significant value bit up.\<close>

definition signal_positions :: "signal \<Rightarrow> u32 list" where
  "signal_positions s =
     (if s_order s = ByteOrderLittleEndian then visitSignalBits s else rev (visitSignalBits s))"

lemma set_signal_positions [simp]: "set (signal_positions s) = set (visitSignalBits s)"
  by (simp add: signal_positions_def)

lemma length_signal_positions [simp]: "length (signal_positions s) = unat (s_bits s)"
  by (simp add: signal_positions_def visitSignalBits_def big_endian_bits_eq little_endian_bits_eq)

lemma distinct_signal_positions: "distinct (signal_positions s)"
proof -
  have n: "i < 2 ^ 32" if "i < unat (s_bits s)" for i
    using that unat_lt_u32 [of "s_bits s"] by simp
  have x: "a XOR 7 = b XOR 7 \<longleftrightarrow> a = (b :: u32)" for a b
    by (metis xor.assoc xor_self_eq xor.right_neutral)
  show ?thesis
    using n by (auto simp: signal_positions_def visitSignalBits_def big_endian_bits_eq
      little_endian_bits_eq distinct_map inj_on_def of_nat_inj32 x)
qed

section \<open>Reading and writing, bit by bit\<close>

definition in_payload :: "bytes \<Rightarrow> u32 \<Rightarrow> bool" where
  "in_payload data b \<longleftrightarrow> unat (b div 8) < length data"

definition bit_at :: "bytes \<Rightarrow> u32 \<Rightarrow> bool" where
  "bit_at data b = bit (data ! unat (b div 8)) (unat (b mod 8))"

definition bits_of :: "bool list \<Rightarrow> u64" where
  "bits_of = horner_sum of_bool 2"

lemma bit_bits_of: "bit (bits_of xs) n \<longleftrightarrow> n < 64 \<and> n < length xs \<and> xs ! n"
  by (simp add: bits_of_def bit_horner_sum_bit_iff)

lemma unat_mod_8: "unat ((b :: u32) mod 8) < 8"
proof -
  have "b mod 8 = take_bit 3 b" by (simp add: take_bit_eq_mod)
  then show ?thesis
    using take_bit_nat_less_exp [of 3 "unat b"] by (simp add: unsigned_take_bit_eq)
qed

lemma dataBit_eq: "dataBit data b = (if in_payload data b then Inr (bit_at data b) else Inl IndexPanic)"
  by (simp add: dataBit_def in_payload_def bit_at_def and_exp_eq_0_iff_not_bit)

lemma read_little_eq:
  "read_little data start k vb v =
     (if list_all (in_payload data) (little_endian_bits (start + of_nat vb) k)
      then Inr (v OR push_bit vb (bits_of (map (bit_at data) (little_endian_bits (start + of_nat vb) k))))
      else Inl IndexPanic)"
proof (induction k arbitrary: vb v)
  case 0
  then show ?case by (simp add: bits_of_def)
next
  case (Suc k)
  have "(if x then v OR push_bit vb 1 else v) OR push_bit (Suc vb) (bits_of xs) =
      v OR push_bit vb (bits_of (x # xs))" for x xs
    by (rule bit_word_eqI) (auto simp: bit_simps bit_bits_of nth_Cons' simp del: push_bit_Suc)
  from this [symmetric] Suc show ?case
    by (simp add: dataBit_eq add.assoc del: push_bit_Suc) (simp add: algebra_simps del: push_bit_Suc)
qed

lemma read_big_eq:
  "read_big data b k v =
     (if list_all (in_payload data) (big_endian_bits b k)
      then Inr (push_bit k v OR bits_of (rev (map (bit_at data) (big_endian_bits b k))))
      else Inl IndexPanic)"
proof (induction k arbitrary: b v)
  case 0
  then show ?case by (simp add: bits_of_def)
next
  case (Suc k)
  have "push_bit (length xs) (if x then push_bit 1 v OR 1 else push_bit 1 v) OR bits_of xs =
      push_bit (Suc (length xs)) v OR bits_of (xs @ [x])" for x xs
    by (rule bit_word_eqI) (auto simp: bit_simps bit_bits_of nth_append simp del: push_bit_Suc)
  from this [of "rev (map (bit_at data) (big_endian_bits (nextBigEndianBit b) k))"] Suc
  show ?case
    by (simp add: dataBit_eq)
qed

definition signal_value :: "bytes \<Rightarrow> signal \<Rightarrow> u64" where
  "signal_value data s = bits_of (map (bit_at data) (signal_positions s))"

lemma readSignalBits_eq:
  "readSignalBits data s =
     (if list_all (in_payload data) (visitSignalBits s) then Inr (signal_value data s) else Inl IndexPanic)"
  by (simp add: readSignalBits_def signal_value_def signal_positions_def visitSignalBits_def
      read_little_eq read_big_eq rev_map)

definition set_at :: "bytes \<Rightarrow> u32 \<Rightarrow> bool \<Rightarrow> bytes" where
  "set_at data b x =
     (let i = unat (b div 8); m = push_bit (unat (b mod 8)) 1
      in data[i := if x then data ! i OR m else data ! i AND NOT m])"

lemma setDataBit_eq: "setDataBit b x data = (if in_payload data b then Inr (set_at data b x) else Inl IndexPanic)"
  by (simp add: setDataBit_def in_payload_def set_at_def Let_def)

lemma length_set_at [simp]: "length (set_at data b x) = length data"
  by (simp add: set_at_def Let_def)

lemma in_payload_set_at [simp]: "in_payload (set_at data b x) = in_payload data"
  by (simp add: in_payload_def fun_eq_iff)

lemma bit_at_set_at:
  assumes "in_payload data b"
  shows "bit_at (set_at data b x) c = (if c = b then x else bit_at data c)"
proof (cases "c div 8 = b div 8")
  case True
  have "c = b \<longleftrightarrow> unat (c mod 8) = unat (b mod 8)"
    using True by (metis div_mult_mod_eq word_unat_eq_iff)
  then show ?thesis
    using True assms unat_mod_8 [of b] unat_mod_8 [of c]
    by (auto simp: bit_at_def set_at_def Let_def in_payload_def bit_simps)
next
  case False
  then have "unat (b div 8) \<noteq> unat (c div 8)" by (metis word_unat_eq_iff)
  moreover have "c \<noteq> b" using False by blast
  ultimately show ?thesis by (simp add: bit_at_def set_at_def Let_def)
qed

lemma write_bits:
  assumes "distinct (map fst ps)"
  shows "if list_all (in_payload data) (map fst ps)
     then \<exists>data'. efold (\<lambda>(b, x). setDataBit b x) ps data = Inr data' \<and> length data' = length data \<and>
       (\<forall>(b, x) \<in> set ps. bit_at data' b = x) \<and>
       (\<forall>c. c \<notin> fst ` set ps \<longrightarrow> bit_at data' c = bit_at data c)
     else efold (\<lambda>(b, x). setDataBit b x) ps data = Inl IndexPanic"
  using assms
proof (induction ps arbitrary: data)
  case (Cons p ps)
  obtain b x where p: "p = (b, x)" by fastforce
  show ?case
  proof (cases "in_payload data b")
    case True
    have b: "b \<notin> fst ` set ps" and d: "distinct (map fst ps)" using Cons.prems by (simp_all add: p)
    let ?w = "efold (\<lambda>(b, x). setDataBit b x)"
    have e: "?w (p # ps) data = ?w ps (set_at data b x)"
      using True by (simp add: p setDataBit_eq)
    show ?thesis
    proof (cases "list_all (in_payload data) (map fst ps)")
      case all: True
      with Cons.IH [OF d, of "set_at data b x"] obtain data' where
        w: "?w ps (set_at data b x) = Inr data'" "length data' = length data"
          "\<forall>(b, x) \<in> set ps. bit_at data' b = x"
          "\<forall>c. c \<notin> fst ` set ps \<longrightarrow> bit_at data' c = bit_at (set_at data b x) c"
        by auto
      have "bit_at data' b = x" using w(4) b by (simp add: bit_at_set_at [OF True])
      moreover have "bit_at data' c = bit_at data c" if "c \<notin> fst ` set (p # ps)" for c
        using w(4) that by (simp add: bit_at_set_at [OF True] p)
      ultimately show ?thesis using w(1-3) all True unfolding e by (auto simp: p)
    next
      case False
      then have "?w ps (set_at data b x) = Inl IndexPanic" using Cons.IH [OF d, of "set_at data b x"] by simp
      then show ?thesis using False unfolding e by simp
    qed
  qed (simp add: p setDataBit_eq)
qed simp

lemma write_little_eq:
  "write_little start v k vb data =
     efold (\<lambda>(b, x). setDataBit b x)
       (zip (little_endian_bits (start + of_nat vb) k) (map (bit v) [vb..<vb + k])) data"
proof (induction k arbitrary: vb data)
  case (Suc k)
  have u: "[vb..<vb + Suc k] = vb # [Suc vb..<Suc vb + k]" by (simp add: upt_conv_Cons)
  have "write_little start v k (Suc vb) =
      efold (\<lambda>(b, x). setDataBit b x)
        (zip (little_endian_bits (start + of_nat vb + 1) k) (map (bit v) [Suc vb..<Suc vb + k]))"
    by (rule ext) (simp add: Suc add.assoc add.commute [of 1])
  then show ?case
    unfolding u by (simp add: and_exp_eq_0_iff_not_bit)
qed simp

lemma write_big_eq:
  "write_big b v k data =
     efold (\<lambda>(b, x). setDataBit b x) (zip (big_endian_bits b k) (rev (map (bit v) [0..<k]))) data"
proof (induction k arbitrary: b data)
  case (Suc k)
  have "write_big (nextBigEndianBit b) v k =
      efold (\<lambda>(b, x). setDataBit b x) (zip (big_endian_bits (nextBigEndianBit b) k) (rev (map (bit v) [0..<k])))"
    by (rule ext) (rule Suc)
  then show ?case by (simp add: and_exp_eq_0_iff_not_bit)
qed simp

lemma writeSignalBits_eq:
  "\<exists>ps. writeSignalBits s v data = efold (\<lambda>(b, x). setDataBit b x) ps data \<and>
     map fst ps = visitSignalBits s \<and>
     set ps = set (zip (signal_positions s) (map (bit v) [0..<unat (s_bits s)]))"
proof (cases "s_order s = ByteOrderLittleEndian")
  case True
  then show ?thesis
    by (intro exI [of _ "zip (visitSignalBits s) (map (bit v) [0..<unat (s_bits s)])"])
      (simp add: writeSignalBits_def write_little_eq visitSignalBits_def signal_positions_def little_endian_bits_eq)
next
  case False
  then show ?thesis
    by (intro exI [of _ "zip (visitSignalBits s) (rev (map (bit v) [0..<unat (s_bits s)]))"])
      (use False zip_rev [of "visitSignalBits s" "rev (map (bit v) [0..<unat (s_bits s)])"] in
        \<open>simp add: writeSignalBits_def write_big_eq visitSignalBits_def signal_positions_def\<close>)
qed

section \<open>What is written is read back\<close>

lemma writeSignalBits_Inr:
  assumes "writeSignalBits s v data = Inr data'"
  shows "length data' = length data" and "list_all (in_payload data) (visitSignalBits s)"
    and "n < unat (s_bits s) \<Longrightarrow> bit_at data' (signal_positions s ! n) = bit v n"
    and "c \<notin> set (visitSignalBits s) \<Longrightarrow> bit_at data' c = bit_at data c"
proof -
  obtain ps where ps: "writeSignalBits s v data = efold (\<lambda>(b, x). setDataBit b x) ps data"
      "map fst ps = visitSignalBits s"
      "set ps = set (zip (signal_positions s) (map (bit v) [0..<unat (s_bits s)]))"
    using writeSignalBits_eq by blast
  have "distinct (map fst ps)"
    using distinct_signal_positions [of s] by (simp add: ps(2) signal_positions_def split: if_splits)
  then have w: "if list_all (in_payload data) (visitSignalBits s)
     then \<exists>d. efold (\<lambda>(b, x). setDataBit b x) ps data = Inr d \<and> length d = length data \<and>
       (\<forall>(b, x) \<in> set ps. bit_at d b = x) \<and> (\<forall>c. c \<notin> fst ` set ps \<longrightarrow> bit_at d c = bit_at data c)
     else efold (\<lambda>(b, x). setDataBit b x) ps data = Inl IndexPanic"
    using write_bits [of ps data] unfolding ps(2) by blast
  then show all: "list_all (in_payload data) (visitSignalBits s)"
    using assms ps(1) by (auto split: if_splits)
  with w have d: "length data' = length data" "\<forall>(b, x) \<in> set ps. bit_at data' b = x"
      "\<forall>c. c \<notin> fst ` set ps \<longrightarrow> bit_at data' c = bit_at data c"
    using assms ps(1) by auto
  show "length data' = length data" by (rule d(1))
  show "bit_at data' (signal_positions s ! n) = bit v n" if "n < unat (s_bits s)"
  proof -
    have "(signal_positions s ! n, bit v n) \<in> set ps"
      unfolding ps(3) using that by (auto simp: in_set_zip intro!: exI [of _ n])
    then show ?thesis using d(2) by auto
  qed
  show "bit_at data' c = bit_at data c" if "c \<notin> set (visitSignalBits s)"
    using d(3) that ps(2) by (metis list.set_map)
qed

lemma writeSignalBits_defined:
  assumes "list_all (in_payload data) (visitSignalBits s)"
  shows "\<exists>data'. writeSignalBits s v data = Inr data'"
proof -
  obtain ps where ps: "writeSignalBits s v data = efold (\<lambda>(b, x). setDataBit b x) ps data"
      "map fst ps = visitSignalBits s"
    using writeSignalBits_eq by blast
  have "distinct (map fst ps)"
    using distinct_signal_positions [of s] by (simp add: ps(2) signal_positions_def split: if_splits)
  then show ?thesis
    using write_bits [of ps data] assms unfolding ps(2) ps(1) by auto
qed

definition signals_apart :: "signal \<Rightarrow> signal \<Rightarrow> bool" where
  "signals_apart s t \<longleftrightarrow> set (visitSignalBits s) \<inter> set (visitSignalBits t) = {}"

lemma in_payload_length: "length data' = length data \<Longrightarrow> in_payload data' = in_payload data"
  by (simp add: in_payload_def fun_eq_iff)

lemma readSignalBits_written:
  assumes "writeSignalBits s v data = Inr data'"
  shows "readSignalBits data' s = Inr (take_bit (unat (s_bits s)) v)"
proof -
  have "signal_value data' s = take_bit (unat (s_bits s)) v"
    using writeSignalBits_Inr(3) [OF assms]
    by (intro bit_word_eqI) (auto simp: signal_value_def bit_bits_of bit_simps)
  then show ?thesis
    using writeSignalBits_Inr(2) [OF assms] in_payload_length [OF writeSignalBits_Inr(1) [OF assms]]
    by (simp add: readSignalBits_eq)
qed

lemma readSignalBits_apart:
  assumes "writeSignalBits s v data = Inr data'" and "signals_apart s t"
  shows "readSignalBits data' t = readSignalBits data t"
proof -
  have "bit_at data' c = bit_at data c" if "c \<in> set (visitSignalBits t)" for c
    using writeSignalBits_Inr(4) [OF assms(1)] assms(2) that by (auto simp: signals_apart_def)
  then have "map (bit_at data') (signal_positions t) = map (bit_at data) (signal_positions t)"
    by (intro map_cong) simp_all
  then show ?thesis
    using in_payload_length [OF writeSignalBits_Inr(1) [OF assms(1)]]
    by (simp only: readSignalBits_eq signal_value_def)
qed

interpretation dbc_fields: field_store "\<lambda>s data. readSignalBits data s" writeSignalBits
    "\<lambda>s. take_bit (unat (s_bits s))" signals_apart
  by unfold_locales (simp_all add: readSignalBits_written readSignalBits_apart)

end
