(* ===== verification/Dbc_Codec.thy ===== *)
theory Dbc_Codec
  imports Dbc_Bits J1939_Header "HOL-Library.AList"
begin

unbundle bit_operations_syntax

text \<open>
  The message codec of \<open>dbc/codec.go\<close>: what is compiled when a file is resolved (name index,
  the multiplexing constraints of every signal, the check that signals active together do not
  overlap), and \<open>Encode\<close>, \<open>Patch\<close>, \<open>Decode\<close> with their payload variants. A \<open>Values\<close> map is the
  list of its entries in the order the range loop of \<open>convertValues\<close> visits them.
\<close>

section \<open>Single values\<close>

definition validatePhysical :: "signal \<Rightarrow> f64 \<Rightarrow> dbc_error + unit" where
  "validatePhysical s v =
     (if is_NaN v \<or> is_Inf v then Inl PhysicalNotFinite
      else if is_Zero (s_minimum s) \<and> is_Zero (s_maximum s) then Inr ()
      else if f_less v (s_minimum s) \<or> f_less (s_maximum s) v then Inl (PhysicalOutOfRange v)
      else Inr ())"

definition validateIntegerRaw :: "signal \<Rightarrow> u64 \<Rightarrow> dbc_error + u64" where
  "validateIntegerRaw s raw =
     (let physical = (if s_signed s
            then f_add (f_mul (float_of_int (sint (DecodeSigned (s_bits s) raw))) (s_factor s)) (s_offset s)
            else f_add (f_mul (float_of_int (uint raw)) (s_factor s)) (s_offset s))
      in ebind (validatePhysical s physical) (\<lambda>_. Inr raw))"

definition boolValue :: "go_value \<Rightarrow> bool option" where
  "boolValue v = (case v of VBool b \<Rightarrow> Some b | _ \<Rightarrow> None)"

definition encode_float :: "signal \<Rightarrow> go_value \<Rightarrow> dbc_error + u64" where
  "encode_float s v =
     ebind (emap ScalarError (NumericFloat v 64)) (\<lambda>physical.
     ebind (validatePhysical s physical) (\<lambda>_.
       let raw = f_div (f_sub physical (s_offset s)) (s_factor s) in
       if is_NaN raw \<or> is_Inf raw then Inl RawNotFinite
       else if s_type s = ValueTypeFloat32 then
         ebind (if unscaled (s_factor s) (s_offset s) then emap ScalarError (NumericFloat v 32) else Inr raw)
           (\<lambda>raw. let raw32 = float32_of raw in
             if is_Inf raw32 then Inl ExceedsFloat32 else Inr (ucast (Float32bits raw32)))
       else Inr (Float64bits raw)))"

definition encode_exact :: "signal \<Rightarrow> go_value \<Rightarrow> dbc_error + u64" where
  "encode_exact s v =
     (if s_signed s then
        ebind (emap ScalarError (ExactSigned v)) (\<lambda>n.
        ebind (validatePhysical s (float_of_int (sint n))) (\<lambda>_.
          emap ScalarError (EncodeSigned (s_bits s) n)))
      else
        ebind (emap ScalarError (ExactUnsigned v)) (\<lambda>n.
        ebind (validatePhysical s (float_of_int (uint n))) (\<lambda>_.
          emap ScalarError (EncodeUnsigned (s_bits s) n))))"

definition encode_scaled :: "signal \<Rightarrow> go_value \<Rightarrow> dbc_error + u64" where
  "encode_scaled s v =
     ebind (emap ScalarError (LinearFloat v)) (\<lambda>physical.
     ebind (validatePhysical s physical) (\<lambda>_.
     ebind (emap ScalarError (LinearRaw (s_bits s) (s_signed s) physical (s_factor s) (s_offset s))) (\<lambda>raw.
       validateIntegerRaw s raw)))"

definition encodeSignalValue :: "signal \<Rightarrow> go_value \<Rightarrow> dbc_error + u64" where
  "encodeSignalValue s v =
     (case StringValue v of
        Some label \<Rightarrow>
          if s_type s \<noteq> ValueTypeInteger then Inl LabelNeedsInteger
          else emap ScalarError (RawForLabel (s_values s) label (s_bits s) (s_signed s))
      | None \<Rightarrow>
        (case boolValue v of
           Some b \<Rightarrow>
             if s_type s \<noteq> ValueTypeInteger \<or> s_bits s \<noteq> 1 \<or> \<not> unscaled (s_factor s) (s_offset s)
             then Inl BoolNeedsOneBit
             else ebind (validatePhysical s (if b then Fin 1 else Zero False))
                    (\<lambda>_. Inr (if b then 1 else 0))
         | None \<Rightarrow>
             if s_type s = ValueTypeFloat32 \<or> s_type s = ValueTypeFloat64 then encode_float s v
             else if unscaled (s_factor s) (s_offset s) then encode_exact s v
             else encode_scaled s v))"

definition decodeSignalValue :: "signal \<Rightarrow> u64 \<Rightarrow> go_value" where
  "decodeSignalValue s raw =
     (if s_type s = ValueTypeFloat32
      then VFloat (f_add (f_mul (Float32frombits (ucast raw)) (s_factor s)) (s_offset s))
      else if s_type s = ValueTypeFloat64
      then VFloat (f_add (f_mul (Float64frombits raw) (s_factor s)) (s_offset s))
      else DecodeLinear (s_bits s) (s_signed s) raw (s_factor s) (s_offset s) (s_values s) True)"

section \<open>Multiplexing constraints\<close>

definition rangesIntersect :: "mux_range list \<Rightarrow> mux_range list \<Rightarrow> bool" where
  "rangesIntersect as bs =
     list_ex (\<lambda>a. list_ex (\<lambda>b. r_first a \<le> r_last b \<and> r_first b \<le> r_last a) bs) as"

definition rangesContain :: "mux_range list \<Rightarrow> u64 \<Rightarrow> bool" where
  "rangesContain rs v = list_ex (\<lambda>r. r_first r \<le> v \<and> v \<le> r_last r) rs"

type_synonym constraints = "(nat \<times> mux_range list) list"

definition constraintsCompatible :: "constraints \<Rightarrow> constraints \<Rightarrow> bool" where
  "constraintsCompatible left right =
     list_all (\<lambda>(selector, rs). case map_of right selector of
       None \<Rightarrow> True | Some rs' \<Rightarrow> rangesIntersect rs rs') left"

function signalConstraints ::
  "(string \<times> nat) list \<Rightarrow> signal list \<Rightarrow> nat \<Rightarrow> nat list \<Rightarrow> dbc_error + constraints" where
  "signalConstraints names ss i visiting =
     (if i \<ge> length ss then Inl IndexPanic
      else if i \<in> set visiting then Inl (SelectorCycle (s_name (ss ! i)))
      else case s_cond (ss ! i) of
             None \<Rightarrow> Inr []
           | Some c \<Rightarrow>
               (case map_of names (mc_selector c) of
                  None \<Rightarrow> Inl (UnknownSelector (s_name (ss ! i)) (mc_selector c))
                | Some selector \<Rightarrow>
                    ebind (signalConstraints names ss selector (i # visiting))
                      (\<lambda>cs. Inr (AList.update selector (mc_ranges c) cs))))"
  by pat_completeness auto

lemma visiting_decreases:
  assumes "i < (n :: nat)" and "i \<notin> set visiting"
  shows "card ({..<n} - set visiting) - Suc 0 < card ({..<n} - set visiting)"
proof -
  have "i \<in> {..<n} - set visiting" using assms by simp
  then have "0 < card ({..<n} - set visiting)" by (auto simp: card_gt_0_iff)
  then show ?thesis by simp
qed

termination signalConstraints
  by (relation "measure (\<lambda>(names, ss, i, visiting). card ({..<length ss} - set visiting))")
    (auto simp: not_le intro!: visiting_decreases)

declare signalConstraints.simps [simp del]

section \<open>Signals that overlap while active\<close>

text \<open>The signal's bits as a mask over the two 64-bit words from its first one on.\<close>

definition mask_bit :: "u32 \<Rightarrow> u64 list \<Rightarrow> dbc_error + u64 list" where
  "mask_bit b ws = (let i = unat (b div 64) in
     if i < length ws then Inr (ws[i := ws ! i OR push_bit (unat (b mod 64)) 1]) else Inl IndexPanic)"

definition signal_mask :: "signal \<Rightarrow> dbc_error + u32 \<times> u64 list" where
  "signal_mask s =
     ebind (efold mask_bit (visitSignalBits (s\<lparr>s_start := s_start s mod 64\<rparr>)) [0, 0])
       (\<lambda>ws. Inr (s_start s div 64, ws))"

definition masks_overlap :: "u32 \<times> u64 list \<Rightarrow> u32 \<times> u64 list \<Rightarrow> bool" where
  "masks_overlap x y =
     (let (a, b) = (if fst x > fst y then (y, x) else (x, y)); distance = fst b - fst a
      in distance = 0 \<and> (snd a ! 0 AND snd b ! 0) OR (snd a ! 1 AND snd b ! 1) \<noteq> 0 \<or>
         distance = 1 \<and> snd a ! 1 AND snd b ! 0 \<noteq> 0)"

definition index_pairs :: "nat \<Rightarrow> (nat \<times> nat) list" where
  "index_pairs n = concat (map (\<lambda>l. map (Pair l) [Suc l..<n]) [0..<n])"

definition validateOverlaps :: "constraints list \<Rightarrow> signal list \<Rightarrow> dbc_error + unit" where
  "validateOverlaps cs ss =
     ebind (emapM signal_mask ss) (\<lambda>masks.
       efold (\<lambda>(l, r) _.
           if constraintsCompatible (cs ! l) (cs ! r) \<and> masks_overlap (masks ! l) (masks ! r)
           then Inl (SignalsOverlap (s_name (ss ! l)) (s_name (ss ! r))) else Inr ())
         (index_pairs (length ss)) ())"

section \<open>Compiling a message\<close>

definition note_error :: "dbc_error \<Rightarrow> message_codec \<Rightarrow> message_codec" where
  "note_error e c = (if cd_writeErr c = None then c\<lparr>cd_writeErr := Some e\<rparr> else c)"

text \<open>The first loop of \<open>compileMessageCodec\<close>; it stops at a signal wider than 64 bits.\<close>

fun compile_signals :: "signal list \<Rightarrow> nat \<Rightarrow> message_codec \<Rightarrow> message_codec" where
  "compile_signals [] i c = c"
| "compile_signals (s # ss) i c =
     (if s_bits s > 64 then c\<lparr>cd_err := Some (SignalTooWide (s_name s))\<rparr>
      else
        let c = c\<lparr>cd_byName := AList.update (s_name s) i (cd_byName c),
                  cd_selectors := (cd_selectors c)[i := s_is_mux s]\<rparr>;
            c = (if is_Zero (s_factor s) \<or> is_NaN (s_factor s) \<or> is_Inf (s_factor s) \<or>
                    is_NaN (s_offset s) \<or> is_Inf (s_offset s)
                 then note_error (BadFactorOrOffset (s_name s)) c else c);
            c = (if f_less (s_maximum s) (s_minimum s)
                 then note_error (MinimumAboveMaximum (s_name s)) c else c)
        in compile_signals ss (Suc i) c)"

fun check_selectors :: "(signal \<times> bool) list \<Rightarrow> message_codec \<Rightarrow> message_codec" where
  "check_selectors [] c = c"
| "check_selectors ((s, is_selector) # ss) c =
     check_selectors ss
       (if is_selector \<and> (s_type s \<noteq> ValueTypeInteger \<or> s_signed s)
        then note_error (SelectorNotUnsigned (s_name s)) c else c)"

definition compileMessageCodec :: "signal list \<Rightarrow> message_codec" where
  "compileMessageCodec ss =
     (let c = compile_signals ss 0
            \<lparr>cd_byName = [], cd_constraints = replicate (length ss) [],
             cd_selectors = replicate (length ss) False, cd_err = None, cd_writeErr = None\<rparr>
      in if cd_err c \<noteq> None then c
         else case emapM (\<lambda>i. signalConstraints (cd_byName c) ss i []) [0..<length ss] of
                Inl e \<Rightarrow> c\<lparr>cd_err := Some e\<rparr>
              | Inr cs \<Rightarrow>
                  let c = check_selectors (zip ss (cd_selectors c)) (c\<lparr>cd_constraints := cs\<rparr>)
                  in case validateOverlaps cs ss of
                       Inl e \<Rightarrow> note_error e c
                     | Inr _ \<Rightarrow> c)"

definition usableCodec :: "dbc_message option \<Rightarrow> dbc_error + message_codec" where
  "usableCodec mo =
     (case mo of
        None \<Rightarrow> Inl NilMessage
      | Some m \<Rightarrow>
          (case m_codec m of
             None \<Rightarrow> Inl NoResolvedCodec
           | Some c \<Rightarrow> (case cd_err c of Some e \<Rightarrow> Inl (UnusableCodec e) | None \<Rightarrow> Inr c)))"

definition writableCodec :: "dbc_message option \<Rightarrow> dbc_error + message_codec" where
  "writableCodec mo =
     ebind (usableCodec mo) (\<lambda>c. case cd_writeErr c of Some e \<Rightarrow> Inl (NotWritable e) | None \<Rightarrow> Inr c)"

section \<open>The frame of a message\<close>

fun first_at_least :: "int \<Rightarrow> int list \<Rightarrow> int" where
  "first_at_least n [] = n"
| "first_at_least n (c # cs) = (if n \<le> c then c else first_at_least n cs)"

definition legalFDLength :: "int \<Rightarrow> int" where
  "legalFDLength n = first_at_least n [0, 1, 2, 3, 4, 5, 6, 7, 8, 12, 16, 20, 24, 32, 48, 64]"

definition frameShape :: "dbc_message \<Rightarrow> dbc_error + u8 \<times> u8" where
  "frameShape m =
     (let flags = (if m_extended m then FrameExtended else 0); len = int (unat (m_length m)) in
      ebind
        (case m_format m of
           FrameFormatStandardCAN \<Rightarrow> if len > 8 then Inl ExceedsClassical else Inr (flags, len)
         | FrameFormatExtendedCAN \<Rightarrow> if len > 8 then Inl ExceedsClassical else Inr (flags, len)
         | FrameFormatStandardCANFD \<Rightarrow> Inr (flags OR FrameFD, legalFDLength len)
         | FrameFormatExtendedCANFD \<Rightarrow> Inr (flags OR FrameFD, legalFDLength len)
         | FrameFormatJ1939 \<Rightarrow> if len > 8 then Inl ExceedsJ1939Frame else Inr (flags, len)
         | FrameFormatUnknown \<Rightarrow> Inl UnsupportedFormat)
        (\<lambda>(flags, len).
          if m_brs m \<and> \<not> Has flags FrameFD then Inl BRSWithoutFD
          else
            let flags = (if m_brs m then flags OR FrameBitRateSwitch else flags) in
            ebind (emap InvalidFrame (LengthToDLC len (Has flags FrameFD))) (\<lambda>dlc. Inr (dlc, flags))))"

definition newFrame :: "dbc_message \<Rightarrow> dbc_error + frame" where
  "newFrame m =
     ebind (frameShape m) (\<lambda>(dlc, flags).
       Inr \<lparr>f_id = m_id m, f_data = replicate MaxDataLength 0, f_dlc = dlc, f_flags = flags\<rparr>)"

text \<open>The parameter group of an identifier; a refused identifier has the zero header.\<close>

definition pgn_of :: "u32 \<Rightarrow> u32" where
  "pgn_of i = (case ParseID i of Inl _ \<Rightarrow> 0 | Inr h \<Rightarrow> hd_pgn h)"

definition validateFrame :: "dbc_message option \<Rightarrow> frame \<Rightarrow> dbc_error + unit" where
  "validateFrame mo f =
     (case mo of
        None \<Rightarrow> Inl NilMessage
      | Some m \<Rightarrow>
          ebind (emap InvalidFrame (Validate f)) (\<lambda>_.
          ebind (frameShape m) (\<lambda>(dlc, flags).
            let matchesID = (if m_format m = FrameFormatJ1939 then pgn_of (f_id f) = pgn_of (m_id m)
                             else f_id f = m_id m) in
            if Has (f_flags f) FrameRemote then Inl RemoteFrame
            else if \<not> matchesID \<or> Has (f_flags f) FrameExtended \<noteq> Has flags FrameExtended
            then Inl (FrameMismatch (f_id f))
            else if Has (f_flags f) FrameFD \<noteq> Has flags FrameFD then Inl FormatMismatch
            else
              ebind (emap (InvalidFrame \<circ> FrameDLC) (DLCToLength dlc (Has flags FrameFD))) (\<lambda>expected.
                if DataLength f \<noteq> expected then Inl (LengthMismatch (DataLength f) expected)
                else Inr ()))))"

section \<open>Values and activity\<close>

type_synonym raws = "(nat \<times> u64) list"

text \<open>The raw values by signal index; its keys are the signals a value was provided for.\<close>

definition convertValues :: "message_codec \<Rightarrow> signal list \<Rightarrow> (string \<times> go_value) list \<Rightarrow> dbc_error + raws" where
  "convertValues c ss values =
     efold (\<lambda>(name, v) raw.
       case map_of (cd_byName c) name of
         None \<Rightarrow> Inl (NoSuchSignal name)
       | Some i \<Rightarrow>
           ebind (emap (EncodeSignal name) (encodeSignalValue (ss ! i) v)) (\<lambda>w.
             Inr (AList.update i w raw))) values []"

text \<open>A name missing from the index reads as 0, the zero value of the map.\<close>

definition selector_of :: "message_codec \<Rightarrow> mux_condition \<Rightarrow> nat" where
  "selector_of c cond = (case map_of (cd_byName c) (mc_selector cond) of None \<Rightarrow> 0 | Some i \<Rightarrow> i)"

function signalActive :: "message_codec \<Rightarrow> signal list \<Rightarrow> nat \<Rightarrow> raws \<Rightarrow> nat list \<Rightarrow> dbc_error + bool" where
  "signalActive c ss i raw visiting =
     (if i \<ge> length ss then Inl IndexPanic
      else case s_cond (ss ! i) of
             None \<Rightarrow> Inr True
           | Some cond \<Rightarrow>
               if i \<in> set visiting then Inl (SelectorCycle (s_name (ss ! i)))
               else
                 let selector = selector_of c cond in
                 ebind (signalActive c ss selector raw (i # visiting)) (\<lambda>active.
                   if \<not> active then Inr False
                   else case map_of raw selector of
                          None \<Rightarrow> Inl (RequiresMultiplexor (s_name (ss ! selector)))
                        | Some v \<Rightarrow> Inr (rangesContain (mc_ranges cond) v)))"
  by pat_completeness auto
termination signalActive
  by (relation "measure (\<lambda>(c, ss, i, raw, visiting). card ({..<length ss} - set visiting))")
    (auto simp: not_le intro!: visiting_decreases)

declare signalActive.simps [simp del]

definition activeSignals :: "message_codec \<Rightarrow> signal list \<Rightarrow> raws \<Rightarrow> dbc_error + bool list" where
  "activeSignals c ss raw = emapM (\<lambda>i. signalActive c ss i raw []) [0..<length ss]"

text \<open>
  The lookup in a payload follows the selectors without a record of the ones it visited: it
  is a partial function whose value is \<open>None\<close> where the code would recurse for ever.
\<close>

partial_function (option) signalActiveInPayload ::
  "message_codec \<Rightarrow> signal list \<Rightarrow> bytes \<Rightarrow> nat \<Rightarrow> (dbc_error + bool) option" where
  "signalActiveInPayload c ss payload i =
     (case s_cond (ss ! i) of
        None \<Rightarrow> Some (Inr True)
      | Some cond \<Rightarrow>
          Option.bind (signalActiveInPayload c ss payload (selector_of c cond)) (\<lambda>r.
            case r of
              Inl e \<Rightarrow> Some (Inl e)
            | Inr active \<Rightarrow>
                let s = ss ! selector_of c cond in
                if \<not> active then Some (Inr False)
                else if \<not> signalAvailable s (length payload)
                then Some (Inl (SelectorNotPresent (s_name s) (length payload)))
                else Some (ebind (readSignalBits payload s) (\<lambda>v. Inr (rangesContain (mc_ranges cond) v)))))"

section \<open>Encoding\<close>

definition check_provided :: "signal list \<Rightarrow> bool list \<Rightarrow> raws \<Rightarrow> dbc_error + unit" where
  "check_provided ss active raw =
     efold (\<lambda>i _.
       if active ! i \<and> map_of raw i = None then Inl (RequiresSignal (s_name (ss ! i)))
       else if \<not> active ! i \<and> map_of raw i \<noteq> None then Inl (InactiveForPath (s_name (ss ! i)))
       else Inr ()) [0..<length ss] ()"

definition codec_encode ::
  "message_codec \<Rightarrow> signal list \<Rightarrow> (string \<times> go_value) list \<Rightarrow> bytes \<Rightarrow> dbc_error + bytes" where
  "codec_encode c ss values data =
     ebind (convertValues c ss values) (\<lambda>raw.
     ebind (activeSignals c ss raw) (\<lambda>active.
     ebind (check_provided ss active raw) (\<lambda>_.
       efold (\<lambda>i. writeSignalBits (ss ! i) (the (map_of raw i)))
         (filter (\<lambda>i. active ! i) [0..<length ss]) data)))"

definition Encode :: "dbc_message option \<Rightarrow> (string \<times> go_value) list \<Rightarrow> dbc_error + frame" where
  "Encode mo values =
     ebind (writableCodec mo) (\<lambda>c.
       let m = the mo in
       ebind (newFrame m) (\<lambda>f.
       ebind (codec_encode c (m_signals m) values (payload_of f)) (\<lambda>data.
         Inr (f\<lparr>f_data := data @ drop (DataLength f) (f_data f)\<rparr>))))"

definition EncodePayload :: "dbc_message option \<Rightarrow> (string \<times> go_value) list \<Rightarrow> dbc_error + bytes" where
  "EncodePayload mo values =
     ebind (writableCodec mo) (\<lambda>c.
       let m = the mo in codec_encode c (m_signals m) values (replicate (unat (m_length m)) 0))"

section \<open>Patching\<close>

definition selectorValues :: "message_codec \<Rightarrow> signal list \<Rightarrow> bytes \<Rightarrow> dbc_error + raws" where
  "selectorValues c ss payload =
     emapM (\<lambda>i. ebind (readSignalBits payload (ss ! i)) (\<lambda>v. Inr (i, v)))
       (filter (\<lambda>i. cd_selectors c ! i) [0..<length ss])"

definition check_patch ::
  "message_codec \<Rightarrow> signal list \<Rightarrow> bool list \<Rightarrow> bool list \<Rightarrow> raws \<Rightarrow> dbc_error + unit" where
  "check_patch c ss old new changed =
     ebind (efold (\<lambda>i _.
         if cd_selectors c ! i \<and> new ! i \<and> \<not> old ! i \<and> map_of changed i = None
         then Inl (BecameActive (s_name (ss ! i))) else Inr ()) [0..<length ss] ())
       (\<lambda>_. efold (\<lambda>i _.
         if new ! i \<and> \<not> old ! i \<and> map_of changed i = None then Inl (BecameActive (s_name (ss ! i)))
         else if \<not> new ! i \<and> map_of changed i \<noteq> None then Inl (InactiveForPath (s_name (ss ! i)))
         else Inr ()) [0..<length ss] ())"

text \<open>
  \<open>visit\<close> is the order in which the runtime ranges over the set of changed signals, an
  arbitrary arrangement of its keys.
\<close>

definition Patch ::
  "(nat list \<Rightarrow> nat list) \<Rightarrow> dbc_message option \<Rightarrow> frame option \<Rightarrow> (string \<times> go_value) list \<Rightarrow> dbc_error + frame" where
  "Patch visit mo fo changes =
     ebind (writableCodec mo) (\<lambda>c.
     case fo of
       None \<Rightarrow> Inl NilFrame
     | Some f \<Rightarrow>
       let ss = m_signals (the mo); data = payload_of f in
       ebind (validateFrame mo f) (\<lambda>_.
       ebind (convertValues c ss changes) (\<lambda>changed.
       ebind (selectorValues c ss data) (\<lambda>oldSelectors.
       let newSelectors = AList.updates
             (map fst (filter (\<lambda>(i, v). cd_selectors c ! i) changed))
             (map snd (filter (\<lambda>(i, v). cd_selectors c ! i) changed)) oldSelectors in
       ebind (activeSignals c ss oldSelectors) (\<lambda>old.
       ebind (activeSignals c ss newSelectors) (\<lambda>new.
       ebind (check_patch c ss old new changed) (\<lambda>_.
       ebind (efold (\<lambda>i. writeSignalBits (ss ! i) (the (map_of changed i))) (visit (map fst changed)) data)
         (\<lambda>data. Inr (f\<lparr>f_data := data @ drop (DataLength f) (f_data f)\<rparr>)))))))))"

section \<open>Decoding\<close>

definition DecodePayload :: "dbc_message option \<Rightarrow> bytes \<Rightarrow> string \<Rightarrow> (dbc_error + go_value) option" where
  "DecodePayload mo payload name =
     (case usableCodec mo of
        Inl e \<Rightarrow> Some (Inl e)
      | Inr c \<Rightarrow>
          let m = the mo; ss = m_signals m in
          if length payload > unat (m_length m) then Some (Inl (PayloadTooLong (length payload) (m_length m)))
          else case map_of (cd_byName c) name of
            None \<Rightarrow> Some (Inl (NoSuchSignal name))
          | Some i \<Rightarrow>
              Option.bind (signalActiveInPayload c ss payload i) (\<lambda>r. Some (
                ebind r (\<lambda>active.
                  if \<not> active then Inl (InactiveSignal name)
                  else if \<not> signalAvailable (ss ! i) (length payload)
                  then Inl (SignalNotPresent name (length payload))
                  else ebind (readSignalBits payload (ss ! i)) (\<lambda>raw.
                    Inr (decodeSignalValue (ss ! i) raw))))))"

definition Decode :: "dbc_message option \<Rightarrow> frame \<Rightarrow> string \<Rightarrow> (dbc_error + go_value) option" where
  "Decode mo f name =
     (case validateFrame mo f of
        Inl e \<Rightarrow> Some (Inl e)
      | Inr _ \<Rightarrow> DecodePayload mo (take (unat (m_length (the mo))) (f_data f)) name)"

end
