(* ===== verification/Dbc_Layout.thy ===== *)
theory Dbc_Layout
  imports Dbc_Codec
begin

unbundle bit_operations_syntax

text \<open>
  Where signals lie, without wrap-around: the layout check of \<open>dbc/resolve.go\<close>, the positions
  of a signal as natural numbers, and the proof that the mask comparison of \<open>validateOverlaps\<close>
  decides whether two signals share a payload bit.
\<close>

section \<open>The layout check\<close>

datatype layout_error = BitLengthZero | BitsExceedMessage | WalkExceedsMessage

text \<open>The walk of \<open>uint64\<close> positions; \<open>k\<close> counts the bits still to visit.\<close>

fun layout_walk :: "u64 \<Rightarrow> nat \<Rightarrow> u64 \<Rightarrow> layout_error + unit" where
  "layout_walk messageBits 0 b = Inr ()"
| "layout_walk messageBits (Suc k) b =
     (if b \<ge> messageBits then Inl WalkExceedsMessage
      else if k = 0 then Inr ()
      else layout_walk messageBits k (if b mod 8 = 0 then b + 15 else b - 1))"

definition validateSignalLayout :: "u32 \<Rightarrow> signal \<Rightarrow> layout_error + unit" where
  "validateSignalLayout messageLength s =
     (let messageBits = (ucast messageLength :: u64) * 8 in
      if s_bits s = 0 then Inl BitLengthZero
      else if s_order s = ByteOrderLittleEndian then
        if (ucast (s_start s) :: u64) + ucast (s_bits s) > messageBits then Inl BitsExceedMessage else Inr ()
      else layout_walk messageBits (unat (s_bits s)) (ucast (s_start s)))"

section \<open>Positions as natural numbers\<close>

definition nat_next :: "nat \<Rightarrow> nat" where
  "nat_next n = (if n mod 8 = 0 then n + 15 else n - 1)"

fun nat_walk :: "nat \<Rightarrow> nat \<Rightarrow> nat list" where
  "nat_walk n 0 = []"
| "nat_walk n (Suc k) = n # nat_walk (nat_next n) k"

definition nat_positions :: "byte_order \<Rightarrow> nat \<Rightarrow> nat \<Rightarrow> nat list" where
  "nat_positions ord start k = (if ord = ByteOrderLittleEndian then map ((+) start) [0..<k] else nat_walk start k)"

definition nat_bits :: "signal \<Rightarrow> nat list" where
  "nat_bits s = nat_positions (s_order s) (unat (s_start s)) (unat (s_bits s))"

lemma of_nat_mod_8: "(of_nat n :: u32) mod 8 = 0 \<longleftrightarrow> n mod 8 = 0"
proof -
  have "unat ((of_nat n :: u32) mod 8) = n mod 8"
    by (simp add: unat_mod_distrib unsigned_of_nat take_bit_eq_mod mod_mod_cancel)
  then show ?thesis by (metis unat_eq_zero)
qed

lemma nextBigEndianBit_of_nat: "nextBigEndianBit (of_nat n) = of_nat (nat_next n)"
proof -
  have "of_nat (n - 1) = (of_nat n - 1 :: u32)" if "n mod 8 \<noteq> 0"
    using that by (cases n) simp_all
  then show ?thesis by (simp add: nextBigEndianBit_def nat_next_def of_nat_mod_8)
qed

lemma big_endian_bits_of_nat: "big_endian_bits (of_nat n) k = map of_nat (nat_walk n k)"
  by (induction k arbitrary: n) (simp_all add: nextBigEndianBit_of_nat)

lemma visit_of_nat:
  "visitSignalBits (s\<lparr>s_start := of_nat n\<rparr>) = map of_nat (nat_positions (s_order s) n (unat (s_bits s)))"
  by (simp add: visitSignalBits_def nat_positions_def big_endian_bits_of_nat little_endian_bits_eq)

lemma visitSignalBits_nat: "visitSignalBits s = map of_nat (nat_bits s)"
  using visit_of_nat [of "unat (s_start s)" s] by (simp add: nat_bits_def)

lemma nat_next_add: "8 dvd a \<Longrightarrow> nat_next (a + n) = a + nat_next n"
  by (auto simp: nat_next_def mod_add_left_eq [symmetric] dvd_eq_mod_eq_0)

lemma nat_walk_add: "8 dvd a \<Longrightarrow> nat_walk (a + n) k = map ((+) a) (nat_walk n k)"
  by (induction k arbitrary: n) (simp_all add: nat_next_add)

lemma nat_positions_add: "8 dvd a \<Longrightarrow> nat_positions ord (a + n) k = map ((+) a) (nat_positions ord n k)"
  by (simp add: nat_positions_def nat_walk_add comp_def add.assoc)

text \<open>A big-endian walk is a walk up by one in the numbering that mirrors each byte.\<close>

definition mirror :: "nat \<Rightarrow> nat" where
  "mirror n = n div 8 * 8 + (7 - n mod 8)"

lemma mirror_next: "mirror (nat_next n) = Suc (mirror n)"
proof (cases "n mod 8 = 0")
  case True
  then obtain q where "n = 8 * q" by (metis mod_0_imp_dvd dvdE)
  then show ?thesis by (simp add: nat_next_def mirror_def)
next
  case False
  define q where "q = n div 8"
  obtain r where r: "n mod 8 = Suc r" using False by (cases "n mod 8") auto
  then have n: "n = q * 8 + Suc r" "r < 7"
    using div_mult_mod_eq [of n 8] mod_less_divisor [of 8 n] by (simp_all add: q_def)
  then have "n - 1 = q * 8 + r" by simp
  moreover have "(q * 8 + r) div 8 = q" "(q * 8 + r) mod 8 = r"
    "(q * 8 + Suc r) div 8 = q" "(q * 8 + Suc r) mod 8 = Suc r" using n(2) by simp_all
  ultimately show ?thesis using False n by (simp add: nat_next_def mirror_def)
qed

lemma nat_walk_less: "x \<in> set (nat_walk n k) \<Longrightarrow> mirror x < mirror n + k"
  by (induction k arbitrary: n) (force simp: mirror_next)+

lemma nat_positions_bound:
  assumes "n < 64" and "k \<le> 64" and "x \<in> set (nat_positions ord n k)"
  shows "x < 128"
proof (cases "ord = ByteOrderLittleEndian")
  case True
  with assms show ?thesis by (auto simp: nat_positions_def)
next
  case False
  then have "mirror x < mirror n + k" using nat_walk_less assms(3) by (simp add: nat_positions_def)
  moreover have "n div 8 \<le> 7" using assms(1) by simp
  ultimately have "x div 8 * 8 < 128" using assms(2) unfolding mirror_def by linarith
  then show ?thesis by simp
qed

section \<open>What the layout check guarantees\<close>

lemma of_nat_mod_8_u64: "(of_nat n :: u64) mod 8 = 0 \<longleftrightarrow> n mod 8 = 0"
proof -
  have "unat ((of_nat n :: u64) mod 8) = n mod 8"
    by (simp add: unat_mod_distrib unsigned_of_nat take_bit_eq_mod mod_mod_cancel)
  then show ?thesis by (metis unat_eq_zero)
qed

lemma unat_of_nat_u64: "n < 2 ^ 64 \<Longrightarrow> unat (of_nat n :: u64) = n"
  by (simp add: unsigned_of_nat take_bit_nat_eq_self)

lemma layout_walk_positions:
  assumes "layout_walk mb k (of_nat n) = Inr ()" and "unat mb \<le> 2 ^ 35" and "n < 2 ^ 36"
  shows "\<forall>x \<in> set (nat_walk n k). x < unat mb"
  using assms
proof (induction k arbitrary: n)
  case (Suc k)
  have u: "unat (of_nat n :: u64) = n" using Suc.prems(3) by (intro unat_of_nat_u64) simp
  have lt: "n < unat mb" using Suc.prems(1) u by (auto simp: word_le_nat_alt split: if_splits)
  have nx: "(if (of_nat n :: u64) mod 8 = 0 then of_nat n + 15 else of_nat n - 1) = (of_nat (nat_next n) :: u64)"
  proof -
    have "of_nat (n - 1) = (of_nat n - 1 :: u64)" if "n mod 8 \<noteq> 0" using that by (cases n) simp_all
    then show ?thesis by (simp add: nat_next_def of_nat_mod_8_u64)
  qed
  have "\<forall>x \<in> set (nat_walk (nat_next n) k). x < unat mb"
  proof (cases k)
    case (Suc k')
    have "layout_walk mb (Suc k) (of_nat n) = layout_walk mb k (of_nat (nat_next n))"
      by (subst layout_walk.simps(2)) (use lt u Suc in \<open>simp add: nx word_le_nat_alt\<close>)
    then have "layout_walk mb k (of_nat (nat_next n)) = Inr ()" using Suc.prems(1) by simp
    moreover have "nat_next n < 2 ^ 36" using lt Suc.prems(2) by (auto simp: nat_next_def)
    ultimately show ?thesis using Suc.IH Suc.prems(2) by blast
  qed simp
  with lt show ?case by simp
qed simp

text \<open>With a message below \<open>2^29\<close> bytes, positions in bits fit 32 bits.\<close>

lemma layout_positions:
  assumes "validateSignalLayout len s = Inr ()" and "x \<in> set (nat_bits s)"
  shows "x < unat len * 8"
proof -
  have mb: "unat ((ucast len :: u64) * 8) = unat len * 8"
  proof -
    have "(ucast len :: u64) * 8 = of_nat (unat len * 8)" by simp
    then show ?thesis
      by (simp only:) (rule unat_of_nat_u64, use unat_lt_u32 [of len] in simp)
  qed
  show ?thesis
  proof (cases "s_order s = ByteOrderLittleEndian")
    case True
    have "unat ((ucast (s_start s) :: u64) + ucast (s_bits s)) = unat (s_start s) + unat (s_bits s)"
    proof -
      have "(ucast (s_start s) :: u64) + ucast (s_bits s) = of_nat (unat (s_start s) + unat (s_bits s))"
        by simp
      then show ?thesis
        by (simp only:) (rule unat_of_nat_u64, use unat_lt_u32 [of "s_start s"] unat_lt_u32 [of "s_bits s"] in simp)
    qed
    then have "unat (s_start s) + unat (s_bits s) \<le> unat len * 8"
      using assms(1) True mb by (auto simp: validateSignalLayout_def Let_def word_le_nat_alt not_less split: if_splits)
    then show ?thesis using assms(2) True by (auto simp: nat_bits_def nat_positions_def)
  next
    case False
    have "layout_walk (ucast len * 8) (unat (s_bits s)) (ucast (s_start s)) = Inr ()"
      using assms(1) False by (auto simp: validateSignalLayout_def Let_def split: if_splits)
    then have "layout_walk (ucast len * 8) (unat (s_bits s)) (of_nat (unat (s_start s))) = Inr ()"
      by simp
    moreover have "unat ((ucast len :: u64) * 8) \<le> 2 ^ 35" "unat (s_start s) < 2 ^ 36"
      unfolding mb using unat_lt_u32 [of len] unat_lt_u32 [of "s_start s"] by simp_all
    ultimately have "\<forall>x \<in> set (nat_walk (unat (s_start s)) (unat (s_bits s))). x < unat len * 8"
      unfolding mb [symmetric] by (rule layout_walk_positions)
    then show ?thesis using assms(2) False by (simp add: nat_bits_def nat_positions_def)
  qed
qed

section \<open>The mask comparison\<close>

text \<open>Positions relative to the signal's first 64-bit word.\<close>

definition word_bits :: "signal \<Rightarrow> nat list" where
  "word_bits s = nat_positions (s_order s) (unat (s_start s) mod 64) (unat (s_bits s))"

lemma nat_bits_word_bits: "nat_bits s = map ((+) (unat (s_start s) div 64 * 64)) (word_bits s)"
  using nat_positions_add [of "unat (s_start s) div 64 * 64" "s_order s" "unat (s_start s) mod 64" "unat (s_bits s)"]
  by (simp add: nat_bits_def word_bits_def)

lemma word_bits_bound: "s_bits s \<le> 64 \<Longrightarrow> x \<in> set (word_bits s) \<Longrightarrow> x < 128"
  using nat_positions_bound [of "unat (s_start s) mod 64" "unat (s_bits s)" x "s_order s"]
  by (simp add: word_bits_def width_le_64)

lemma unat_div_mod_64:
  assumes "n < 128"
  shows "unat ((of_nat n :: u32) div 64) = n div 64" and "unat ((of_nat n :: u32) mod 64) = n mod 64"
  using assms by (simp_all add: unat_div_distrib unat_mod_distrib unsigned_of_nat take_bit_nat_eq_self)

lemma efold_mask_bit:
  assumes "\<forall>x \<in> set ns. x < 128"
  shows "\<exists>a' b'. efold mask_bit (map of_nat ns) [a, b] = Inr [a', b'] \<and>
    (\<forall>j. bit a' j \<longleftrightarrow> bit a j \<or> j < 64 \<and> j \<in> set ns) \<and>
    (\<forall>j. bit b' j \<longleftrightarrow> bit b j \<or> j < 64 \<and> 64 + j \<in> set ns)"
  using assms
proof (induction ns arbitrary: a b)
  case (Cons n ns)
  have n: "n < 128" using Cons.prems by simp
  show ?case
  proof (cases "n < 64")
    case True
    then have "mask_bit (of_nat n) [a, b] = Inr [a OR push_bit n 1, b]"
      by (simp add: mask_bit_def Let_def unat_div_mod_64 [OF n])
    with Cons.IH [of "a OR push_bit n 1" b] Cons.prems True show ?thesis
      by (auto simp: bit_simps)
  next
    case False
    then obtain k where k: "n = 64 + k" "k < 64" using n by (metis add_less_cancel_left le_Suc_ex not_less numeral_Bit0)
    then have "mask_bit (of_nat n) [a, b] = Inr [a, b OR push_bit k 1]"
      using unat_div_mod_64 [OF n] by (simp add: mask_bit_def Let_def)
    with Cons.IH [of a "b OR push_bit k 1"] Cons.prems k show ?thesis
      by (auto simp: bit_simps)
  qed
qed simp

lemma signal_mask_bits:
  assumes "s_bits s \<le> 64"
  shows "\<exists>a b. signal_mask s = Inr (s_start s div 64, [a, b]) \<and>
    (\<forall>j. bit a j \<longleftrightarrow> j < 64 \<and> j \<in> set (word_bits s)) \<and>
    (\<forall>j. bit b j \<longleftrightarrow> j < 64 \<and> 64 + j \<in> set (word_bits s))"
proof -
  have "s_start s mod 64 = of_nat (unat (s_start s) mod 64)"
    by (simp add: word_unat_eq_iff unat_mod_distrib unsigned_of_nat take_bit_nat_eq_self)
  then have "visitSignalBits (s\<lparr>s_start := s_start s mod 64\<rparr>) = map of_nat (word_bits s)"
    using visit_of_nat [of "unat (s_start s) mod 64" s] by (simp add: word_bits_def)
  then show ?thesis
    using efold_mask_bit [of "word_bits s" 0 0] word_bits_bound [OF assms]
    by (auto simp: signal_mask_def)
qed

text \<open>A signal whose positions all fit 32 bits.\<close>

definition no_wrap :: "signal \<Rightarrow> bool" where
  "no_wrap s = list_all (\<lambda>x. x < 2 ^ 32) (nat_bits s)"

lemma of_nat_bit_inj:
  assumes "x < 2 ^ 32" and "y < 2 ^ 32"
  shows "of_nat x = (of_nat y :: u32) \<longleftrightarrow> x = y"
  using of_nat_inj32 [OF assms] .

lemma signals_apart_nat:
  assumes "no_wrap s" and "no_wrap t"
  shows "signals_apart s t \<longleftrightarrow> set (nat_bits s) \<inter> set (nat_bits t) = {}"
proof -
  have "of_nat x = (of_nat y :: u32) \<longleftrightarrow> x = y" if "x \<in> set (nat_bits s)" "y \<in> set (nat_bits t)" for x y
    using assms that by (intro of_nat_bit_inj) (auto simp: no_wrap_def list_all_iff)
  then show ?thesis by (auto simp: signals_apart_def visitSignalBits_nat)
qed

lemma signals_apart_sym: "signals_apart s t \<longleftrightarrow> signals_apart t s"
  by (auto simp: signals_apart_def)

lemma masks_overlap_sym: "masks_overlap x y = masks_overlap y x"
proof (cases "fst x" "fst y" rule: linorder_cases)
  case equal
  then show ?thesis by (simp add: masks_overlap_def Let_def and.commute)
qed (auto simp: masks_overlap_def Let_def dest: less_asym)

lemma and_nonzero_iff: "(a :: u64) AND b \<noteq> 0 \<longleftrightarrow> (\<exists>j < 64. bit a j \<and> bit b j)"
  by (auto simp: bit_eq_iff bit_simps)

lemma masks_overlap_ordered:
  assumes "signal_mask s = Inr x" and "signal_mask t = Inr y" and "s_bits s \<le> 64" and "s_bits t \<le> 64"
    and "unat (s_start s) div 64 \<le> unat (s_start t) div 64"
  shows "masks_overlap x y \<longleftrightarrow> set (nat_bits s) \<inter> set (nat_bits t) \<noteq> {}"
proof -
  obtain a b where x: "x = (s_start s div 64, [a, b])" and
    a: "\<And>j. bit a j \<longleftrightarrow> j < 64 \<and> j \<in> set (word_bits s)" and
    b: "\<And>j. bit b j \<longleftrightarrow> j < 64 \<and> 64 + j \<in> set (word_bits s)"
    using signal_mask_bits [OF assms(3)] assms(1) by auto
  obtain c d where y: "y = (s_start t div 64, [c, d])" and
    c: "\<And>j. bit c j \<longleftrightarrow> j < 64 \<and> j \<in> set (word_bits t)" and
    d: "\<And>j. bit d j \<longleftrightarrow> j < 64 \<and> 64 + j \<in> set (word_bits t)"
    using signal_mask_bits [OF assms(4)] assms(2) by auto
  define fs ft where "fs = unat (s_start s) div 64" and "ft = unat (s_start t) div 64"
  have f: "fs \<le> ft" using assms(5) by (simp add: fs_def ft_def)
  have uf: "unat (s_start s div 64) = fs" "unat (s_start t div 64) = ft"
    by (simp_all add: fs_def ft_def unat_div_distrib)
  have le: "s_start s div 64 \<le> s_start t div 64" using f uf by (simp add: word_le_nat_alt)
  have dist: "unat (s_start t div 64 - s_start s div 64) = ft - fs"
    using le uf by (simp add: unat_sub)
  have "s_start t div 64 - s_start s div 64 = 0 \<longleftrightarrow> ft = fs" "s_start t div 64 - s_start s div 64 = 1 \<longleftrightarrow> ft = Suc fs"
    using dist f by (auto simp: word_unat_eq_iff)
  then have m: "masks_overlap x y \<longleftrightarrow>
      ft = fs \<and> ((\<exists>j < 64. bit a j \<and> bit c j) \<or> (\<exists>j < 64. bit b j \<and> bit d j)) \<or>
      ft = Suc fs \<and> (\<exists>j < 64. bit b j \<and> bit c j)"
    using le by (simp add: x y masks_overlap_def not_less [symmetric] or_eq_0_iff and_nonzero_iff [symmetric])
  define A B where "A = set (word_bits s)" and "B = set (word_bits t)"
  have bnd: "r < 128" if "r \<in> A \<or> r \<in> B" for r
    using that word_bits_bound assms(3,4) by (auto simp: A_def B_def)
  have n: "set (nat_bits s) \<inter> set (nat_bits t) \<noteq> {} \<longleftrightarrow> (\<exists>r \<in> A. \<exists>r' \<in> B. fs * 64 + r = ft * 64 + r')"
    by (auto simp: nat_bits_word_bits A_def B_def fs_def ft_def)
  consider "ft = fs" | "ft = Suc fs" | "Suc fs < ft" using f by linarith
  then show ?thesis
  proof cases
    case 1
    have "(\<exists>r \<in> A. \<exists>r' \<in> B. fs * 64 + r = ft * 64 + r') \<longleftrightarrow> (\<exists>r. r \<in> A \<and> r \<in> B)"
      using 1 by auto
    also have "\<dots> \<longleftrightarrow> (\<exists>j < 64. j \<in> A \<and> j \<in> B) \<or> (\<exists>j < 64. 64 + j \<in> A \<and> 64 + j \<in> B)"
    proof
      assume "\<exists>r. r \<in> A \<and> r \<in> B"
      then obtain r where r: "r \<in> A" "r \<in> B" by blast
      show "(\<exists>j < 64. j \<in> A \<and> j \<in> B) \<or> (\<exists>j < 64. 64 + j \<in> A \<and> 64 + j \<in> B)"
      proof (cases "r < 64")
        case False
        then obtain j where "r = 64 + j" by (metis le_Suc_ex not_less)
        then show ?thesis using r bnd [of r] by auto
      qed (use r in blast)
    qed auto
    finally show ?thesis using 1 unfolding n m by (auto simp: a b c d A_def B_def)
  next
    case 2
    have "(\<exists>r \<in> A. \<exists>r' \<in> B. fs * 64 + r = ft * 64 + r') \<longleftrightarrow> (\<exists>j < 64. 64 + j \<in> A \<and> j \<in> B)"
      using 2 bnd by (auto simp: algebra_simps) force
    then show ?thesis using 2 unfolding n m by (auto simp: b c A_def B_def)
  next
    case 3
    then have "\<not> (\<exists>r \<in> A. \<exists>r' \<in> B. fs * 64 + r = ft * 64 + r')" using bnd by fastforce
    then show ?thesis using 3 unfolding n m by auto
  qed
qed

text \<open>
  For signals of at most 64 bits the masks overlap exactly when the signals share a payload bit.
\<close>

lemma masks_overlap_iff:
  assumes "signal_mask s = Inr x" and "signal_mask t = Inr y" and "s_bits s \<le> 64" and "s_bits t \<le> 64"
    and "no_wrap s" and "no_wrap t"
  shows "masks_overlap x y \<longleftrightarrow> \<not> signals_apart s t"
proof (cases "unat (s_start s) div 64 \<le> unat (s_start t) div 64")
  case True
  then show ?thesis using masks_overlap_ordered assms by (simp add: signals_apart_nat)
next
  case False
  then have "masks_overlap y x \<longleftrightarrow> \<not> signals_apart t s"
    using masks_overlap_ordered [OF assms(2,1,4,3)] assms by (simp add: signals_apart_nat)
  then show ?thesis by (metis masks_overlap_sym signals_apart_sym)
qed

end
