(* ===== verification/Dbc_Compiled.thy ===== *)
theory Dbc_Compiled
  imports Dbc_Layout
begin

text \<open>
  What a compiled codec guarantees: the name index, the constraints as a description of when
  a signal is active, that looking up activity in a payload ends, and that signals active
  together lie apart.
\<close>

section \<open>The name index\<close>

lemma note_error_fields [simp]:
  "cd_byName (note_error e c) = cd_byName c" "cd_constraints (note_error e c) = cd_constraints c"
  "cd_selectors (note_error e c) = cd_selectors c" "cd_err (note_error e c) = cd_err c"
  "cd_writeErr (note_error e c) \<noteq> None"
  "cd_writeErr c \<noteq> None \<Longrightarrow> note_error e' c = c"
  by (auto simp: note_error_def)

lemma check_selectors_fields [simp]:
  "cd_byName (check_selectors ps c) = cd_byName c"
  "cd_constraints (check_selectors ps c) = cd_constraints c"
  "cd_selectors (check_selectors ps c) = cd_selectors c" "cd_err (check_selectors ps c) = cd_err c"
  by (induction ps c rule: check_selectors.induct) auto

lemma check_selectors_writeErr:
  "cd_writeErr (check_selectors ps c) = None \<Longrightarrow> cd_writeErr c = None \<and>
     list_all (\<lambda>(s, is_selector). is_selector \<longrightarrow> s_type s = ValueTypeInteger \<and> \<not> s_signed s) ps"
  by (induction ps c rule: check_selectors.induct) (auto split: if_splits)

text \<open>One step of \<open>compile_signals\<close>.\<close>

definition compile_one :: "signal \<Rightarrow> nat \<Rightarrow> message_codec \<Rightarrow> message_codec" where
  "compile_one s i c =
     (let c = c\<lparr>cd_byName := AList.update (s_name s) i (cd_byName c),
                cd_selectors := (cd_selectors c)[i := s_is_mux s]\<rparr>;
          c = (if is_Zero (s_factor s) \<or> is_NaN (s_factor s) \<or> is_Inf (s_factor s) \<or>
                  is_NaN (s_offset s) \<or> is_Inf (s_offset s)
               then note_error (BadFactorOrOffset (s_name s)) c else c)
      in if f_less (s_maximum s) (s_minimum s) then note_error (MinimumAboveMaximum (s_name s)) c else c)"

lemma compile_signals_Cons:
  "compile_signals (s # ss) i c =
     (if s_bits s > 64 then c\<lparr>cd_err := Some (SignalTooWide (s_name s))\<rparr>
      else compile_signals ss (Suc i) (compile_one s i c))"
  by (simp add: compile_one_def Let_def)

lemma compile_one_fields [simp]:
  "cd_byName (compile_one s i c) = AList.update (s_name s) i (cd_byName c)"
  "cd_constraints (compile_one s i c) = cd_constraints c"
  "cd_selectors (compile_one s i c) = (cd_selectors c)[i := s_is_mux s]"
  "cd_err (compile_one s i c) = cd_err c"
  by (simp_all add: compile_one_def Let_def)

declare compile_signals.simps(2) [simp del]
declare compile_signals_Cons [simp]

lemma compile_signals_bits:
  "cd_err (compile_signals ss i c) = None \<Longrightarrow> list_all (\<lambda>s. s_bits s \<le> 64) ss \<and> cd_err c = None"
proof (induction ss arbitrary: i c)
  case (Cons s ss)
  then show ?case using Cons.IH [of "Suc i" "compile_one s i c"] by (auto simp: not_less split: if_splits)
qed simp

lemma compile_signals_byName:
  assumes "cd_err (compile_signals ss i c) = None" and "distinct (map s_name ss)"
  shows "map_of (cd_byName (compile_signals ss i c)) =
    map_of (cd_byName c) ++ map_of (zip (map s_name ss) [i..<i + length ss])"
  using assms
proof (induction ss arbitrary: i c)
  case (Cons s ss)
  have bits: "\<not> s_bits s > 64" using Cons.prems(1) by (auto split: if_splits)
  define z where "z = map_of (zip (map s_name ss) [Suc i..<Suc i + length ss])"
  have n: "s_name s \<notin> dom z"
    using Cons.prems(2) by (auto simp: z_def dest!: map_of_SomeD set_zip_leftD)
  have u: "map_of (zip (map s_name (s # ss)) [i..<i + length (s # ss)]) = z(s_name s \<mapsto> i)"
    by (simp add: z_def upt_conv_Cons del: upt_Suc)
  have "map_of (cd_byName (compile_signals (s # ss) i c)) = (map_of (cd_byName c))(s_name s \<mapsto> i) ++ z"
    using Cons.IH [of "Suc i" "compile_one s i c"] Cons.prems bits
    by (simp add: z_def AList.update_conv' fun_upd_def del: upt_Suc)
  then show ?case unfolding u by (simp only: map_add_upd_left [OF n] map_add_upd)
qed simp

lemma compile_signals_selectors:
  assumes "cd_err (compile_signals ss i c) = None" and "i + length ss \<le> length (cd_selectors c)"
  shows "length (cd_selectors (compile_signals ss i c)) = length (cd_selectors c)" and
    "j < length (cd_selectors c) \<Longrightarrow> cd_selectors (compile_signals ss i c) ! j =
      (if i \<le> j \<and> j < i + length ss then s_is_mux (ss ! (j - i)) else cd_selectors c ! j)"
  using assms
proof (induction ss arbitrary: i c)
  case (Cons s ss)
  {
    case 1
    then show ?case using Cons.IH(1) [of "Suc i" "compile_one s i c"] by (auto split: if_splits)
  next
    case 2
    then show ?case
      using Cons.IH(2) [of "compile_one s i c" "Suc i"]
      by (auto simp: nth_Cons' not_less split: if_splits)
  }
qed auto

lemma map_of_zip_index:
  assumes "distinct xs"
  shows "map_of (zip xs [0..<length xs]) x = Some i \<longleftrightarrow> i < length xs \<and> xs ! i = x"
proof -
  have "distinct (map fst (zip xs [0..<length xs]))" using assms by simp
  then show ?thesis by (auto simp: map_of_eq_Some_iff in_set_zip)
qed
section \<open>A usable codec\<close>

definition compiled :: "signal list \<Rightarrow> message_codec \<Rightarrow> bool" where
  "compiled ss c \<longleftrightarrow> c = compileMessageCodec ss \<and> cd_err c = None \<and> distinct (map s_name ss)"

lemma compileMessageCodec_ok:
  assumes "compiled ss c"
  obtains c0 cs where "cd_err c0 = None"
    "c0 = compile_signals ss 0 \<lparr>cd_byName = [], cd_constraints = replicate (length ss) [],
             cd_selectors = replicate (length ss) False, cd_err = None, cd_writeErr = None\<rparr>"
    "emapM (\<lambda>i. signalConstraints (cd_byName c0) ss i []) [0..<length ss] = Inr cs"
    "c = (case validateOverlaps cs ss of
            Inl e \<Rightarrow> note_error e (check_selectors (zip ss (cd_selectors c0)) (c0\<lparr>cd_constraints := cs\<rparr>))
          | Inr _ \<Rightarrow> check_selectors (zip ss (cd_selectors c0)) (c0\<lparr>cd_constraints := cs\<rparr>))"
proof -
  let ?c0 = "compile_signals ss 0 \<lparr>cd_byName = [], cd_constraints = replicate (length ss) [],
             cd_selectors = replicate (length ss) False, cd_err = None, cd_writeErr = None\<rparr>"
  have c: "c = compileMessageCodec ss" "cd_err c = None" using assms unfolding compiled_def by blast+
  have e: "cd_err ?c0 = None" using c by (auto simp: compileMessageCodec_def Let_def split: if_splits)
  obtain cs where cs: "emapM (\<lambda>i. signalConstraints (cd_byName ?c0) ss i []) [0..<length ss] = Inr cs"
    using c e by (cases "emapM (\<lambda>i. signalConstraints (cd_byName ?c0) ss i []) [0..<length ss]")
      (auto simp: compileMessageCodec_def Let_def)
  show ?thesis
    using that [OF e refl cs] c(1) e cs by (simp add: compileMessageCodec_def Let_def)
qed

lemma emapM_nth: "emapM f xs = Inr ys \<Longrightarrow> i < length xs \<Longrightarrow> f (xs ! i) = Inr (ys ! i)"
  by (induction xs arbitrary: ys i) (auto simp: ebind_Inr_iff nth_Cons')

lemma compiled_byName:
  assumes "compiled ss c"
  shows "map_of (cd_byName c) n = Some i \<longleftrightarrow> i < length ss \<and> s_name (ss ! i) = n"
proof -
  obtain c0 cs where c: "cd_err c0 = None"
    "c0 = compile_signals ss 0 \<lparr>cd_byName = [], cd_constraints = replicate (length ss) [],
             cd_selectors = replicate (length ss) False, cd_err = None, cd_writeErr = None\<rparr>"
    "c = (case validateOverlaps cs ss of
            Inl e \<Rightarrow> note_error e (check_selectors (zip ss (cd_selectors c0)) (c0\<lparr>cd_constraints := cs\<rparr>))
          | Inr _ \<Rightarrow> check_selectors (zip ss (cd_selectors c0)) (c0\<lparr>cd_constraints := cs\<rparr>))"
    by (rule compileMessageCodec_ok [OF assms])
  have d: "distinct (map s_name ss)" using assms by (simp add: compiled_def)
  have "map_of (cd_byName c0) = map_of (zip (map s_name ss) [0..<length ss])"
    using compile_signals_byName [OF c(1) [unfolded c(2)] d] c(2) by simp
  moreover have "cd_byName c = cd_byName c0" by (simp add: c(3) split: sum.splits)
  ultimately show ?thesis
    using map_of_zip_index [OF d, of n i] by auto
qed

lemma compiled_facts:
  assumes "compiled ss c" and "i < length ss"
  shows compiled_constraints: "signalConstraints (cd_byName c) ss i [] = Inr (cd_constraints c ! i)"
    and compiled_bits: "s_bits (ss ! i) \<le> 64"
    and compiled_selectors: "cd_selectors c ! i = s_is_mux (ss ! i)"
proof -
  obtain c0 cs where c: "cd_err c0 = None"
    "c0 = compile_signals ss 0 \<lparr>cd_byName = [], cd_constraints = replicate (length ss) [],
             cd_selectors = replicate (length ss) False, cd_err = None, cd_writeErr = None\<rparr>"
    "emapM (\<lambda>i. signalConstraints (cd_byName c0) ss i []) [0..<length ss] = Inr cs"
    "c = (case validateOverlaps cs ss of
            Inl e \<Rightarrow> note_error e (check_selectors (zip ss (cd_selectors c0)) (c0\<lparr>cd_constraints := cs\<rparr>))
          | Inr _ \<Rightarrow> check_selectors (zip ss (cd_selectors c0)) (c0\<lparr>cd_constraints := cs\<rparr>))"
    by (rule compileMessageCodec_ok [OF assms(1)])
  have f: "cd_byName c = cd_byName c0" "cd_constraints c = cs" "cd_selectors c = cd_selectors c0"
    by (simp_all add: c(4) split: sum.splits)
  show "signalConstraints (cd_byName c) ss i [] = Inr (cd_constraints c ! i)"
    using emapM_nth [OF c(3), of i] assms(2) by (simp add: f)
  show "s_bits (ss ! i) \<le> 64"
    using compile_signals_bits [of ss 0] c(1,2) assms(2) by (auto simp: list_all_length)
  show "cd_selectors c ! i = s_is_mux (ss ! i)"
    using compile_signals_selectors(2) [OF c(1) [unfolded c(2)], of i] assms(2) by (simp add: f c(2))
qed

lemma compiled_writable:
  assumes "compiled ss c" and "cd_writeErr c = None"
  shows "validateOverlaps (cd_constraints c) ss = Inr ()"
    and "i < length ss \<Longrightarrow> s_is_mux (ss ! i) \<Longrightarrow> s_type (ss ! i) = ValueTypeInteger \<and> \<not> s_signed (ss ! i)"
proof -
  obtain c0 cs where c: "cd_err c0 = None"
    "c0 = compile_signals ss 0 \<lparr>cd_byName = [], cd_constraints = replicate (length ss) [],
             cd_selectors = replicate (length ss) False, cd_err = None, cd_writeErr = None\<rparr>"
    "c = (case validateOverlaps cs ss of
            Inl e \<Rightarrow> note_error e (check_selectors (zip ss (cd_selectors c0)) (c0\<lparr>cd_constraints := cs\<rparr>))
          | Inr _ \<Rightarrow> check_selectors (zip ss (cd_selectors c0)) (c0\<lparr>cd_constraints := cs\<rparr>))"
    by (rule compileMessageCodec_ok [OF assms(1)])
  have f: "cd_constraints c = cs" "cd_selectors c = cd_selectors c0"
    by (simp_all add: c(3) split: sum.splits)
  have v: "validateOverlaps cs ss = Inr ()"
    using assms(2) c(3) by (auto split: sum.splits)
  then show "validateOverlaps (cd_constraints c) ss = Inr ()" by (simp add: f)
  have "cd_writeErr (check_selectors (zip ss (cd_selectors c0)) (c0\<lparr>cd_constraints := cs\<rparr>)) = None"
    using assms(2) c(3) v by simp
  from check_selectors_writeErr [OF this]
  have "list_all (\<lambda>(s, is_selector). is_selector \<longrightarrow> s_type s = ValueTypeInteger \<and> \<not> s_signed s)
      (zip ss (cd_selectors c0))" by blast
  moreover have "length (cd_selectors c0) = length ss"
    using compile_signals_selectors(1) [OF c(1) [unfolded c(2)]] c(2) by simp
  ultimately show "s_type (ss ! i) = ValueTypeInteger \<and> \<not> s_signed (ss ! i)"
    if "i < length ss" "s_is_mux (ss ! i)"
    using that compiled_selectors [OF assms(1) that(1)] by (auto simp: list_all_length f)
qed

section \<open>Activity\<close>

text \<open>A signal's constraints hold when every selector of its chain has a value in its ranges.\<close>

definition constraints_hold :: "constraints \<Rightarrow> raws \<Rightarrow> bool" where
  "constraints_hold cs raw =
     list_all (\<lambda>(k, rs). case map_of raw k of None \<Rightarrow> False | Some v \<Rightarrow> rangesContain rs v) cs"

lemma signalConstraints_keys:
  "signalConstraints names ss i vis = Inr cs \<Longrightarrow> distinct (map fst cs) \<and> set (map fst cs) \<inter> insert i (set vis) = {}"
proof (induction names ss i vis arbitrary: cs rule: signalConstraints.induct)
  case (1 names ss i vis)
  have i: "i < length ss" "i \<notin> set vis"
    using "1.prems" by (auto simp: signalConstraints.simps [of names ss i vis] split: if_splits)
  show ?case
  proof (cases "s_cond (ss ! i)")
    case None
    then show ?thesis using "1.prems" i by (simp add: signalConstraints.simps [of names ss i vis])
  next
    case (Some cond)
    obtain k cs' where k: "map_of names (mc_selector cond) = Some k"
      "signalConstraints names ss k (i # vis) = Inr cs'" "cs = AList.update k (mc_ranges cond) cs'"
      using "1.prems" i Some
      by (auto simp: signalConstraints.simps [of names ss i vis] ebind_Inr_iff split: option.splits)
    have "k \<notin> set (i # vis)" using k(2) by (auto simp: signalConstraints.simps [of _ _ k] split: if_splits)
    moreover have "distinct (map fst cs')" "set (map fst cs') \<inter> insert k (set (i # vis)) = {}"
      using "1.IH" [OF _ i(2) Some k(1) k(2)] i(1) by auto
    ultimately show ?thesis
      unfolding k(3) using distinct_update [of cs' k "mc_ranges cond"]
      by (auto simp: AList.update_keys dest!: arg_cong [where f = set])
  qed
qed

lemma update_new: "k \<notin> set (map fst al) \<Longrightarrow> set (AList.update k v al) = insert (k, v) (set al)"
  by (induction al) auto

lemma signalActive_constraints:
  assumes "signalConstraints (cd_byName c) ss i vis = Inr cs"
  shows "signalActive c ss i raw vis = Inr True \<longleftrightarrow> constraints_hold cs raw"
  using assms
proof (induction "cd_byName c" ss i vis arbitrary: cs rule: signalConstraints.induct)
  case (1 ss i vis)
  have i: "i < length ss" "i \<notin> set vis"
    using "1.prems" by (auto simp: signalConstraints.simps [of _ ss i vis] split: if_splits)
  show ?case
  proof (cases "s_cond (ss ! i)")
    case None
    then show ?thesis
      using "1.prems" i by (simp add: signalConstraints.simps [of _ ss i vis] signalActive.simps [of c ss i] constraints_hold_def)
  next
    case (Some cond)
    obtain k cs' where k: "map_of (cd_byName c) (mc_selector cond) = Some k"
      "signalConstraints (cd_byName c) ss k (i # vis) = Inr cs'" "cs = AList.update k (mc_ranges cond) cs'"
      using "1.prems" i Some
      by (auto simp: signalConstraints.simps [of _ ss i vis] ebind_Inr_iff split: option.splits)
    have sel: "selector_of c cond = k" by (simp add: selector_of_def k(1))
    have ih: "signalActive c ss k raw (i # vis) = Inr True \<longleftrightarrow> constraints_hold cs' raw"
      using "1.hyps" [OF _ i(2) Some k(1) k(2)] i(1) by simp
    have kn: "k \<notin> set (map fst cs')" using signalConstraints_keys [OF k(2)] by auto
    have "constraints_hold cs raw \<longleftrightarrow>
        (case map_of raw k of None \<Rightarrow> False | Some v \<Rightarrow> rangesContain (mc_ranges cond) v) \<and> constraints_hold cs' raw"
      unfolding k(3) constraints_hold_def list_all_iff update_new [OF kn] by auto
    then show ?thesis
      using i Some ih sel
      by (auto simp: signalActive.simps [of c ss i] Let_def ebind_Inr_iff split: option.splits if_splits)
  qed
qed

text \<open>The record of visited signals only matters for the error of a cycle.\<close>

lemma signalActive_visiting:
  "signalActive c ss i raw vis = Inr b \<Longrightarrow> set vis' \<subseteq> set vis \<Longrightarrow> signalActive c ss i raw vis' = Inr b"
proof (induction c ss i raw vis arbitrary: b vis' rule: signalActive.induct)
  case (1 c ss i raw vis)
  show ?case
  proof (cases "s_cond (ss ! i)")
    case None
    then show ?thesis using "1.prems"(1) by (simp add: signalActive.simps [of c ss i] split: if_splits)
  next
    case (Some cond)
    have i: "i < length ss" "i \<notin> set vis"
      using "1.prems"(1) Some by (auto simp: signalActive.simps [of c ss i] split: if_splits)
    obtain act where act: "signalActive c ss (selector_of c cond) raw (i # vis) = Inr act"
      using "1.prems"(1) Some i
      by (auto simp: signalActive.simps [of c ss i] Let_def ebind_Inr_iff split: if_splits)
    have "signalActive c ss (selector_of c cond) raw (i # vis') = Inr act"
      by (rule "1.IH" [OF _ Some i(2) refl act]) (use i(1) "1.prems"(2) in auto)
    then show ?thesis
      using "1.prems" Some i act by (auto simp: signalActive.simps [of c ss i] Let_def)
  qed
qed

section \<open>Activity in a payload\<close>

text \<open>Looking a signal's activity up in a payload ends: its selectors form no cycle.\<close>

lemma signalActiveInPayload_ends:
  "signalConstraints (cd_byName c) ss i vis = Inr cs \<Longrightarrow> signalActiveInPayload c ss payload i \<noteq> None"
proof (induction "cd_byName c" ss i vis arbitrary: cs rule: signalConstraints.induct)
  case (1 ss i vis)
  have i: "i < length ss" "i \<notin> set vis"
    using "1.prems" by (auto simp: signalConstraints.simps [of _ ss i vis] split: if_splits)
  show ?case
  proof (cases "s_cond (ss ! i)")
    case None
    then show ?thesis by (simp add: signalActiveInPayload.simps [of c ss payload i])
  next
    case (Some cond)
    obtain k cs' where k: "map_of (cd_byName c) (mc_selector cond) = Some k"
      "signalConstraints (cd_byName c) ss k (i # vis) = Inr cs'"
      using "1.prems" i Some
      by (auto simp: signalConstraints.simps [of _ ss i vis] ebind_Inr_iff split: option.splits)
    have "signalActiveInPayload c ss payload k \<noteq> None"
      using "1.hyps" [OF _ i(2) Some k(1) k(2)] i(1) by simp
    then show ?thesis
      using Some k(1) by (auto simp: signalActiveInPayload.simps [of c ss payload i] selector_of_def Let_def
        split: sum.splits)
  qed
qed

lemma signalAvailable_in_payload: "signalAvailable s (length data) \<longleftrightarrow> list_all (in_payload data) (visitSignalBits s)"
proof -
  have "unat (b div 8) < n \<longleftrightarrow> unat b < n * 8" for b :: u32 and n
    by (simp add: unat_div_distrib less_mult_imp_div_less div_less_iff_less_mult)
  then have "in_payload data = (\<lambda>b. unat b < length data * 8)" by (simp add: in_payload_def fun_eq_iff)
  then show ?thesis by (simp add: signalAvailable_def)
qed

text \<open>
  When a payload holds, for every active selector, the raw value it was given, activity in
  the payload is activity under the raw values.
\<close>

lemma signalActiveInPayload_raw:
  assumes "signalConstraints (cd_byName c) ss i vis = Inr cs"
    and "signalActive c ss i raw vis = Inr b"
    and "\<And>k v. signalActive c ss k raw [] = Inr True \<Longrightarrow> map_of raw k = Some v \<Longrightarrow>
           readSignalBits payload (ss ! k) = Inr v"
  shows "signalActiveInPayload c ss payload i = Some (Inr b)"
  using assms
proof (induction "cd_byName c" ss i vis arbitrary: cs b rule: signalConstraints.induct)
  case (1 ss i vis)
  have i: "i < length ss" "i \<notin> set vis"
    using "1.prems"(1) by (auto simp: signalConstraints.simps [of _ ss i vis] split: if_splits)
  show ?case
  proof (cases "s_cond (ss ! i)")
    case None
    then show ?thesis
      using "1.prems"(2) i by (simp add: signalActiveInPayload.simps [of c ss payload i] signalActive.simps [of c ss i])
  next
    case (Some cond)
    obtain k cs' where k: "map_of (cd_byName c) (mc_selector cond) = Some k"
      "signalConstraints (cd_byName c) ss k (i # vis) = Inr cs'"
      using "1.prems"(1) i Some
      by (auto simp: signalConstraints.simps [of _ ss i vis] ebind_Inr_iff split: option.splits)
    have sel: "selector_of c cond = k" by (simp add: selector_of_def k(1))
    obtain act where act: "signalActive c ss k raw (i # vis) = Inr act"
      and b: "if act then \<exists>v. map_of raw k = Some v \<and> b = rangesContain (mc_ranges cond) v else \<not> b"
      using "1.prems"(2) i Some sel
      by (auto simp: signalActive.simps [of c ss i] Let_def ebind_Inr_iff split: option.splits if_splits)
    have ih: "signalActiveInPayload c ss payload k = Some (Inr act)"
    proof (rule "1.hyps" [OF _ i(2) Some k(1) k(2) act])
      show "\<not> length ss \<le> i" using i(1) by simp
      show "readSignalBits payload (ss ! k) = Inr v"
        if "signalActive c ss k raw [] = Inr True" "map_of raw k = Some v" for k v
        using that by (rule "1.prems"(3))
    qed
    show ?thesis
    proof (cases act)
      case True
      then obtain v where v: "map_of raw k = Some v" "b = rangesContain (mc_ranges cond) v" using b by auto
      have "signalActive c ss k raw [] = Inr True" using signalActive_visiting [OF act, of "[]"] True by simp
      then have rd: "readSignalBits payload (ss ! k) = Inr v" using "1.prems"(3) v(1) by blast
      then have "signalAvailable (ss ! k) (length payload)"
        by (auto simp: signalAvailable_in_payload readSignalBits_eq split: if_splits)
      then show ?thesis
        using Some ih True rd v(2) by (simp add: signalActiveInPayload.simps [of c ss payload i] sel Let_def)
    next
      case False
      then show ?thesis
        using Some ih b by (simp add: signalActiveInPayload.simps [of c ss payload i] sel Let_def)
    qed
  qed
qed

end
