(* ===== verification/Scalar_Values.thy ===== *)
theory Scalar_Values
  imports Scalar
begin

unbundle bit_operations_syntax

text \<open>
  What a value handed to the scalar conversion means: the integer it stands for, and that the
  exact conversions keep it. Shared by the codecs of the DBC and the CDD catalogs.
\<close>

section \<open>The integer a value stands for\<close>

definition stands_for :: "choice list \<Rightarrow> go_value \<Rightarrow> int \<Rightarrow> bool" where
  "stands_for cs v i =
     (case v of
        VInt n \<Rightarrow> i = sint n
      | VUint n \<Rightarrow> i = uint n
      | VFloat f \<Rightarrow> \<not> is_NaN f \<and> \<not> is_Inf f \<and> num f = of_int i
      | VNumber (Some j) \<Rightarrow> jn_value j = of_int i
      | VBool b \<Rightarrow> i = (if b then 1 else 0)
      | VString l \<Rightarrow> list_ex (\<lambda>c. ch_label c = l \<and> sint (ch_value c) = i) cs
      | _ \<Rightarrow> False)"

text \<open>A literal without fraction and exponent has scale 0.\<close>

definition plain_literals :: "go_value \<Rightarrow> bool" where
  "plain_literals v = (case v of VNumber (Some j) \<Rightarrow> jn_plain j \<longrightarrow> jn_scale j = 0 | _ \<Rightarrow> True)"

lemma find_label_spec:
  assumes "find_label l cs found = Inr (Some v)"
  shows "found = Some v \<or> list_ex (\<lambda>c. ch_label c = l \<and> ch_value c = v) cs"
    and "list_all (\<lambda>c. ch_label c = l \<longrightarrow> ch_value c = v) cs \<and> (found = None \<or> found = Some v)"
  using assms by (induction l cs found rule: find_label.induct) (auto split: if_splits)

lemma Label_Some: "Label cs v = Some l \<Longrightarrow> list_ex (\<lambda>c. ch_label c = l \<and> ch_value c = v) cs"
  by (induction cs v rule: Label.induct) (auto split: if_splits)

lemma is_integral_of_int: "is_integral (of_int i)"
  by (simp add: is_integral_def)

lemma is_integral_eq: "is_integral x \<Longrightarrow> x = of_int i \<longleftrightarrow> i = \<lfloor>x\<rfloor>"
  by (auto simp: is_integral_def)

lemma jn_value_integral: "jn_scale j = 0 \<Longrightarrow> is_integral (jn_value j)"
  using is_integral_of_int [of "int (jn_digits j)"] is_integral_of_int [of "- int (jn_digits j)"]
  by (simp add: jn_value_def)

lemma jsonRational_value:
  assumes "jsonRational (Some j) = Inr q"
  shows "q = jn_value j"
  using assms by (auto simp: jsonRational_def ebind_Inr_iff jn_value_def split: if_splits)

lemma sint_of_fitting: "fits_int64 i \<Longrightarrow> sint (word_of_int i :: i64) = i"
  by (simp add: fits_int64_def sint_word_of_int64)

lemma uint_of_fitting: "fits_uint64 i \<Longrightarrow> uint (word_of_int i :: u64) = i"
  by (simp add: fits_uint64_def unsigned_of_int take_bit_int_eq_self)

lemma sint_uint_small:
  assumes "unat (n :: u64) < 2 ^ 63"
  shows "sint n = uint n"
proof -
  have "int (unat n) < int (2 ^ 63)" using assms unfolding of_nat_less_iff .
  then have "uint n < 2 ^ 63" by simp
  moreover have "- (2 ^ 63) \<le> uint n" by (rule order_trans [of _ 0]) simp_all
  ultimately have "sint (word_of_int (uint n) :: i64) = uint n" by (intro sint_word_of_int64)
  then show ?thesis by simp
qed

lemma uint_sint_nonneg:
  assumes "0 \<le> sint (n :: u64)"
  shows "uint n = sint n" and "unat n < 2 ^ 63"
proof -
  have "uint (word_of_int (sint n) :: u64) = sint n"
    using assms sint_bound64 [of n] by (intro uint_of_fitting) (simp add: fits_uint64_def)
  then show "uint n = sint n" by simp
  then have "int (unat n) < int (2 ^ 63)" using sint_bound64 [of n] by simp
  then show "unat n < 2 ^ 63" unfolding of_nat_less_iff .
qed

lemma ExactSigned_stands:
  assumes "ExactSigned v = Inr n" and "plain_literals v"
  shows "stands_for cs v i \<longleftrightarrow> i = sint n"
proof (cases v)
  case (VNumber x)
  then obtain j where j: "x = Some j"
    using assms(1) by (cases x) (auto simp: ExactSigned_def jsonRational_def NumericFloat_def)
  have "fits_int64 \<lfloor>jn_value j\<rfloor> \<and> n = word_of_int \<lfloor>jn_value j\<rfloor> \<and> is_integral (jn_value j)"
    using assms VNumber j jn_value_integral [of j] jsonRational_value [of j]
    by (auto simp: ExactSigned_def plain_literals_def ebind_Inr_iff split: if_splits)
  then show ?thesis using VNumber j by (auto simp: stands_for_def is_integral_eq sint_of_fitting)
next
  case (VFloat f)
  then have "fits_int64 \<lfloor>num f\<rfloor> \<and> n = word_of_int \<lfloor>num f\<rfloor> \<and> is_integral (num f) \<and> \<not> is_NaN f \<and> \<not> is_Inf f"
    using assms(1) by (auto simp: ExactSigned_def split: if_splits)
  then show ?thesis using VFloat by (auto simp: stands_for_def is_integral_eq sint_of_fitting)
qed (use assms in \<open>auto simp: ExactSigned_def stands_for_def sint_uint_small split: if_splits\<close>)

lemma ExactUnsigned_stands:
  assumes "ExactUnsigned v = Inr n" and "plain_literals v"
  shows "stands_for cs v i \<longleftrightarrow> i = uint n"
proof (cases v)
  case (VNumber x)
  then obtain j where j: "x = Some j"
    using assms(1) by (cases x) (auto simp: ExactUnsigned_def jsonRational_def NumericFloat_def)
  have "fits_uint64 \<lfloor>jn_value j\<rfloor> \<and> n = word_of_int \<lfloor>jn_value j\<rfloor> \<and> is_integral (jn_value j)"
    using assms VNumber j jn_value_integral [of j] jsonRational_value [of j]
    by (auto simp: ExactUnsigned_def plain_literals_def ebind_Inr_iff split: if_splits)
  then show ?thesis using VNumber j by (auto simp: stands_for_def is_integral_eq uint_of_fitting)
next
  case (VFloat f)
  then have "fits_uint64 \<lfloor>num f\<rfloor> \<and> n = word_of_int \<lfloor>num f\<rfloor> \<and> is_integral (num f) \<and> \<not> is_NaN f \<and> \<not> is_Inf f"
    using assms(1) by (auto simp: ExactUnsigned_def split: if_splits)
  then show ?thesis using VFloat by (auto simp: stands_for_def is_integral_eq uint_of_fitting)
qed (use assms in \<open>auto simp: ExactUnsigned_def stands_for_def uint_sint_nonneg split: if_splits\<close>)

lemma Label_stands: "Label cs v = Some l \<Longrightarrow> stands_for cs (VString l) (sint v)"
  using Label_Some [of cs v l] by (auto simp: stands_for_def list_ex_iff)

end
