(* ===== verification/Dbc_Values.thy ===== *)
theory Dbc_Values
  imports Dbc_Codec Scalar_Values
begin

unbundle bit_operations_syntax

text \<open>
  Round trips of single signal values, \<open>encodeSignalValue\<close> against \<open>decodeSignalValue\<close>: the
  integer a value stands for survives an unscaled integer signal, and the bit pattern of a
  floating-point signal survives decoding and encoding again.
\<close>

section \<open>Decoding of an unscaled integer\<close>

lemma decode_signed_stands:
  assumes "s_type s = ValueTypeInteger" and "unscaled (s_factor s) (s_offset s)" and "s_signed s"
  shows "stands_for (s_values s) (decodeSignalValue s w) (sint (DecodeSigned (s_bits s) w))"
  using assms Label_stands [of "s_values s" "DecodeSigned (s_bits s) w"]
  by (auto simp: decodeSignalValue_def DecodeLinear_def Let_def split: option.splits) (simp add: stands_for_def)

lemma decode_unsigned_stands:
  assumes "s_type s = ValueTypeInteger" and "unscaled (s_factor s) (s_offset s)" and "\<not> s_signed s"
  shows "stands_for (s_values s) (decodeSignalValue s w) (uint w)"
  using assms Label_stands [of "s_values s" w] sint_uint_small [of w]
  by (auto simp: decodeSignalValue_def DecodeLinear_def split: option.splits if_splits) (simp_all add: stands_for_def)

text \<open>C24 Encoding a value into an unscaled integer signal and decoding it gives a value that stands
  for the same integer. An accepted value stands for exactly one integer: a number for its value,
  a Boolean in an unsigned signal for 0 or 1, a label for the value of every choice that carries it.\<close>
theorem integer_signals_round_trip:
  assumes "s_type s = ValueTypeInteger" and "unscaled (s_factor s) (s_offset s)"
    and "encodeSignalValue s v = Inr w" and "plain_literals v" and "boolValue v = None \<or> \<not> s_signed s"
  shows "\<exists>i. (\<forall>k. stands_for (s_values s) v k \<longleftrightarrow> k = i) \<and> stands_for (s_values s) (decodeSignalValue s w) i"
proof -
  note types = assms(1) value_type.distinct
  consider (label) l where "v = VString l" | (bool) b where "v = VBool b"
    | (number) "StringValue v = None" "boolValue v = None"
    by (cases v) (auto simp: StringValue_def boolValue_def)
  then show ?thesis
  proof cases
    case label
    then have "RawForLabel (s_values s) l (s_bits s) (s_signed s) = Inr w"
      using assms(3) types by (simp add: encodeSignalValue_def StringValue_def)
    then obtain x where x: "find_label l (s_values s) None = Inr (Some x)"
      "if s_signed s then EncodeSigned (s_bits s) x = Inr w else 0 \<le> sint x \<and> EncodeUnsigned (s_bits s) x = Inr w"
      by (auto simp: RawForLabel_def ebind_Inr_iff split: option.splits if_splits)
    have "stands_for (s_values s) v k \<longleftrightarrow> k = sint x" for k
      using find_label_spec [OF x(1)] label by (auto simp: stands_for_def list_ex_iff list_all_iff)
    moreover have "stands_for (s_values s) (decodeSignalValue s w) (sint x)"
    proof (cases "s_signed s")
      case True
      then show ?thesis
        using decode_signed_stands [OF assms(1,2), of w] x(2) DecodeSigned_EncodeSigned [of "s_bits s" x w] by simp
    next
      case False
      then have "w = x" "uint x = sint x"
        using x(2) EncodeUnsigned_take_bit [of "s_bits s" x w] uint_sint_nonneg(1) [of x] by simp_all
      then show ?thesis using decode_unsigned_stands [OF assms(1,2) False, of w] by simp
    qed
    ultimately show ?thesis by blast
  next
    case bool
    then have "\<not> s_signed s" "w = (if b then 1 else 0)"
      using assms(3,5) by (auto simp: encodeSignalValue_def StringValue_def boolValue_def ebind_Inr_iff split: if_splits)
    moreover from this have "uint w = (if b then 1 else 0)" by simp
    moreover have "stands_for (s_values s) v k \<longleftrightarrow> k = (if b then 1 else 0)" for k
      using bool by (simp add: stands_for_def)
    ultimately show ?thesis using decode_unsigned_stands [OF assms(1,2), of w] by auto
  next
    case number
    then have e: "encode_exact s v = Inr w" using assms(2,3) types by (simp add: encodeSignalValue_def)
    show ?thesis
    proof (cases "s_signed s")
      case True
      then obtain n where n: "ExactSigned v = Inr n" "EncodeSigned (s_bits s) n = Inr w"
        using e by (auto simp: encode_exact_def ebind_Inr_iff)
      then show ?thesis
        using ExactSigned_stands [OF n(1) assms(4)] decode_signed_stands [OF assms(1,2) True, of w]
          DecodeSigned_EncodeSigned [OF n(2)] by auto
    next
      case False
      then obtain n where n: "ExactUnsigned v = Inr n" "EncodeUnsigned (s_bits s) n = Inr w"
        using e by (auto simp: encode_exact_def ebind_Inr_iff)
      then show ?thesis
        using ExactUnsigned_stands [OF n(1) assms(4)] decode_unsigned_stands [OF assms(1,2) False, of w]
          EncodeUnsigned_take_bit [OF n(2)] by auto
    qed
  qed
qed

section \<open>Floating-point signals\<close>

text \<open>C25 Decoding an unscaled floating-point signal and encoding the value again gives back the bit
  pattern, for every finite value within the signal's limits except the negative zero.\<close>
theorem float_signals_round_trip:
  assumes "s_type s = ValueTypeFloat32 \<and> take_bit 32 raw = raw \<and> x = Float32frombits (ucast raw) \<or>
      s_type s = ValueTypeFloat64 \<and> x = Float64frombits raw"
    and "s_factor s = Fin 1" and "is_Zero (s_offset s)"
    and "\<not> is_NaN x" and "\<not> is_Inf x" and "x \<noteq> Zero True" and "validatePhysical s x = Inr ()"
  shows "decodeSignalValue s raw = VFloat x \<and> encodeSignalValue s (decodeSignalValue s raw) = Inr raw"
proof -
  obtain b where ofs: "s_offset s = Zero b" using assms(3) by (cases "s_offset s") (simp_all add: is_Zero_def)
  consider (zero) "x = Zero False" | (fin) q where "x = Fin q"
    using assms(4-6) by (cases x) (auto simp: is_NaN_def is_Inf_def)
  then have same: "f_add (f_mul x (Fin 1)) (Zero b) = x \<and> f_div (f_sub x (Zero b)) (Fin 1) = x"
  proof cases
    case zero
    then show ?thesis by (simp add: f_mul_def f_sub_def f_neg_def f_div_def is_Zero_def is_Inf_def signbit_def)
  next
    case fin
    then have "rnd64 q = Fin q"
      using assms(1) rnd64_decoded [of raw q] rnd32_decoded [of "ucast raw" q] by auto
    then show ?thesis using fin
      by (simp add: f_mul_def f_sub_def f_neg_def f_div_def is_Zero_def is_Inf_def num_def)
  qed
  have u: "unscaled (s_factor s) (s_offset s)" by (simp add: assms(2,3) unscaled_def f_eq_def)
  from assms(1) show ?thesis
  proof
    assume t: "s_type s = ValueTypeFloat32 \<and> take_bit 32 raw = raw \<and> x = Float32frombits (ucast raw)"
    have "rnd32 q = Fin q" if "x = Fin q" for q using that t rnd32_decoded [of "ucast raw" q] by simp
    then have "float32_of x = x" by (cases x) (simp_all add: float32_of_def)
    moreover have "Float32bits x = ucast raw"
      using t assms(4) Float32bits_frombits [of "ucast raw"] by (simp add: is_NaN_def)
    moreover have "ucast (ucast raw :: u32) = take_bit 32 raw"
      by (rule bit_word_eqI) (auto simp: bit_simps)
    then have "ucast (ucast raw :: u32) = raw" using t by simp
    ultimately show ?thesis
      using t same assms(2,4,5,7) ofs u
      by (simp add: decodeSignalValue_def encodeSignalValue_def StringValue_def boolValue_def encode_float_def
        NumericFloat_def Let_def)
  next
    assume t: "s_type s = ValueTypeFloat64 \<and> x = Float64frombits raw"
    then have "Float64bits x = raw" using assms(4) Float64bits_frombits [of raw] by (simp add: is_NaN_def)
    then show ?thesis
      using t same assms(2,4,5,7) ofs
      by (simp add: decodeSignalValue_def encodeSignalValue_def StringValue_def boolValue_def encode_float_def
        NumericFloat_def Let_def)
  qed
qed

section \<open>Examples\<close>

definition plain_signal :: "string \<Rightarrow> u32 \<Rightarrow> u32 \<Rightarrow> byte_order \<Rightarrow> signal" where
  "plain_signal n b w ord = \<lparr>s_name = n, s_start = b, s_bits = w, s_order = ord, s_signed = False,
     s_type = ValueTypeInteger, s_factor = Fin 1, s_offset = Zero False, s_minimum = Zero False,
     s_maximum = Zero False, s_unit = [], s_receivers = [], s_values = [], s_is_mux = False,
     s_cond = None, s_attributes = [], s_comment = []\<rparr>"

definition switch_signal :: signal where
  "switch_signal = (plain_signal ''A'' 7 4 ByteOrderBigEndian)\<lparr>s_signed := True,
     s_values := [\<lparr>ch_value = -1, ch_label = ''off''\<rparr>, \<lparr>ch_value = 3, ch_label = ''on''\<rparr>]\<rparr>"

text \<open>A Boolean passes the check of a signed one-bit signal as 1 and reads back as -1.\<close>

lemma signed_bit_reads_minus_one:
  "encodeSignalValue ((plain_signal n b 1 ord)\<lparr>s_signed := True\<rparr>) (VBool True) = Inr 1 \<and>
   decodeSignalValue ((plain_signal n b 1 ord)\<lparr>s_signed := True\<rparr>) 1 = VInt (-1)"
  by (simp add: encodeSignalValue_def decodeSignalValue_def plain_signal_def StringValue_def boolValue_def
    unscaled_def f_eq_def is_Zero_def validatePhysical_def is_NaN_def is_Inf_def DecodeLinear_def DecodeSigned_def)

theorem integer_signals_round_trip_witness:
  "\<exists>i. (\<forall>k. stands_for (s_values switch_signal) (VString ''off'') k \<longleftrightarrow> k = i) \<and>
     stands_for (s_values switch_signal) (decodeSignalValue switch_signal 15) i"
proof (rule integer_signals_round_trip)
  show "encodeSignalValue switch_signal (VString ''off'') = Inr 15" by code_simp
qed (simp_all add: switch_signal_def plain_signal_def unscaled_def f_eq_def is_Zero_def plain_literals_def
  boolValue_def)

theorem float_signals_round_trip_witness:
  "decodeSignalValue ((plain_signal ''F'' 0 32 ByteOrderLittleEndian)\<lparr>s_type := ValueTypeFloat32\<rparr>) 0xBF800000 = VFloat (Fin (-1)) \<and>
   encodeSignalValue ((plain_signal ''F'' 0 32 ByteOrderLittleEndian)\<lparr>s_type := ValueTypeFloat32\<rparr>)
     (decodeSignalValue ((plain_signal ''F'' 0 32 ByteOrderLittleEndian)\<lparr>s_type := ValueTypeFloat32\<rparr>) 0xBF800000) =
     Inr 0xBF800000"
proof (rule float_signals_round_trip)
  have "Float32frombits 0xBF800000 = Fin (-1)"
    by (simp add: Float32frombits_def float_decode_def Let_def pow2_def)
  then show "s_type ((plain_signal ''F'' 0 32 ByteOrderLittleEndian)\<lparr>s_type := ValueTypeFloat32\<rparr>) = ValueTypeFloat32 \<and>
      take_bit 32 0xBF800000 = (0xBF800000 :: u64) \<and> Fin (-1) = Float32frombits (ucast (0xBF800000 :: u64)) \<or>
    s_type ((plain_signal ''F'' 0 32 ByteOrderLittleEndian)\<lparr>s_type := ValueTypeFloat32\<rparr>) = ValueTypeFloat64 \<and>
      Fin (-1) = Float64frombits 0xBF800000"
    by simp
qed (simp_all add: plain_signal_def is_Zero_def is_NaN_def is_Inf_def validatePhysical_def)

end
