(* ===== verification/Dbc_Theorems.thy ===== *)
theory Dbc_Theorems
  imports Dbc_Compiled Dbc_Values
begin

unbundle bit_operations_syntax

text \<open>
  The DBC codec as a whole: what a frame or payload written by \<open>Encode\<close> or \<open>Patch\<close> decodes to,
  that the overlap check decides exactly whether two signals that can be active together share
  a bit, that decoding ends, and that exact values survive the trip.
\<close>

section \<open>Messages as they are resolved\<close>

text \<open>
  What \<open>dbc/resolve.go\<close> guarantees of a message: distinct signal names, every signal inside the
  declared length, float signals of their format's width, an identifier in range, and the
  compiled codec. The length
  bound keeps bit positions within the 32 bits the codec computes them in.
\<close>

definition float_width_ok :: "signal \<Rightarrow> bool" where
  "float_width_ok s \<longleftrightarrow> (s_type s = ValueTypeFloat32 \<longrightarrow> s_bits s = 32) \<and>
     (s_type s = ValueTypeFloat64 \<longrightarrow> s_bits s = 64)"

definition resolved :: "dbc_message \<Rightarrow> bool" where
  "resolved m \<longleftrightarrow> distinct (map s_name (m_signals m)) \<and>
     list_all (\<lambda>s. validateSignalLayout (m_length m) s = Inr () \<and> float_width_ok s) (m_signals m) \<and>
     m_codec m = Some (compileMessageCodec (m_signals m)) \<and> unat (m_length m) < 2 ^ 29 \<and>
     m_id m \<le> (if m_extended m then MaxExtendedID else MaxStandardID)"

lemma writable_resolved:
  assumes "resolved m" and "writableCodec (Some m) = Inr c"
  shows "compiled (m_signals m) c" and "cd_writeErr c = None" and "usableCodec (Some m) = Inr c"
  using assms
  by (auto simp: resolved_def writableCodec_def usableCodec_def compiled_def ebind_Inr_iff split: option.splits)

lemma resolved_no_wrap: "resolved m \<Longrightarrow> s \<in> set (m_signals m) \<Longrightarrow> no_wrap s"
  using layout_positions [of "m_length m" s] by (fastforce simp: resolved_def list_all_iff no_wrap_def)

lemma resolved_in_payload:
  assumes "resolved m" and "s \<in> set (m_signals m)" and "unat (m_length m) \<le> length data"
  shows "list_all (in_payload data) (visitSignalBits s)"
proof -
  have "unat (of_nat x :: u32) < length data * 8" if "x \<in> set (nat_bits s)" for x
  proof -
    have "x < unat (m_length m) * 8" using layout_positions that assms(1,2) by (auto simp: resolved_def list_all_iff)
    moreover have "x < 2 ^ 32" using resolved_no_wrap [OF assms(1,2)] that by (auto simp: no_wrap_def list_all_iff)
    ultimately show ?thesis using assms(3) by (simp add: unsigned_of_nat take_bit_nat_eq_self)
  qed
  then have "signalAvailable s (length data)"
    by (simp add: signalAvailable_def visitSignalBits_nat list_all_iff)
  then show ?thesis by (simp add: signalAvailable_in_payload)
qed

section \<open>Raw values fit their signal\<close>

lemma take_bit_ucast32: "take_bit 32 (ucast (w :: u32) :: u64) = ucast w"
  by (rule bit_word_eqI) (auto simp: bit_simps dest: bit_imp_le_length)

lemma encodeSignalValue_fits:
  assumes "encodeSignalValue s v = Inr w" and "float_width_ok s"
  shows "take_bit (unat (s_bits s)) w = w"
proof -
  have fit: "take_bit (unat (s_bits s)) w = w"
    if "EncodeSigned (s_bits s) x = Inr w \<or> EncodeUnsigned (s_bits s) x = Inr w" for x
    using that DecodeSigned_take_bit EncodeUnsigned_take_bit by blast
  consider (label) l where "StringValue v = Some l" | (bool) b where "StringValue v = None" "boolValue v = Some b"
    | (num) "StringValue v = None" "boolValue v = None" by (cases "StringValue v"; cases "boolValue v") auto
  then show ?thesis
  proof cases
    case label
    then show ?thesis
      using assms(1) fit
      by (auto simp: encodeSignalValue_def RawForLabel_def emap_Inl_iff ebind_Inr_iff split: if_splits option.splits)
  next
    case bool
    then have "s_bits s = 1" "w = 0 \<or> w = 1"
      using assms(1) by (auto simp: encodeSignalValue_def ebind_Inr_iff split: if_splits)
    then show ?thesis by auto
  next
    case num
    consider (f32) "s_type s = ValueTypeFloat32" | (f64) "s_type s = ValueTypeFloat64"
      | (int) "s_type s = ValueTypeInteger" by (cases "s_type s") auto
    then show ?thesis
    proof cases
      case f32
      then have "s_bits s = 32" "\<exists>x :: u32. w = ucast x"
        using num assms by (auto simp: encodeSignalValue_def encode_float_def float_width_ok_def Let_def
          ebind_Inr_iff split: if_splits)
      then show ?thesis by (auto simp: take_bit_ucast32)
    next
      case f64
      then show ?thesis using assms(2) by (simp add: float_width_ok_def take_bit_word_eq_self)
    next
      case int
      then have "encode_exact s v = Inr w \<or> encode_scaled s v = Inr w"
        using num assms(1) by (auto simp: encodeSignalValue_def split: if_splits)
      then have "\<exists>x. EncodeSigned (s_bits s) x = Inr w \<or> EncodeUnsigned (s_bits s) x = Inr w"
        by (auto simp: encode_exact_def encode_scaled_def ebind_Inr_iff LinearRaw_def validateIntegerRaw_def Let_def
          split: if_splits)
      then show ?thesis using fit by blast
    qed
  qed
qed

definition convert_one :: "message_codec \<Rightarrow> signal list \<Rightarrow> string \<times> go_value \<Rightarrow> raws \<Rightarrow> dbc_error + raws" where
  "convert_one c ss = (\<lambda>(name, v) raw.
     case map_of (cd_byName c) name of
       None \<Rightarrow> Inl (NoSuchSignal name)
     | Some i \<Rightarrow>
         ebind (emap (EncodeSignal name) (encodeSignalValue (ss ! i) v)) (\<lambda>w. Inr (AList.update i w raw)))"

lemma convertValues_eq: "convertValues c ss values = efold (convert_one c ss) values []"
  by (simp add: convertValues_def convert_one_def)

lemma convert_one_Inr:
  assumes "convert_one c ss (name, v) raw = Inr raw'" and "compiled ss c"
  obtains i w where "i < length ss" "s_name (ss ! i) = name" "encodeSignalValue (ss ! i) v = Inr w"
    "raw' = AList.update i w raw"
  using assms by (auto simp: convert_one_def ebind_Inr_iff compiled_byName split: option.splits)

text \<open>Converting provides a raw value for exactly the named signals.\<close>

lemma convert_spec:
  assumes "efold (convert_one c ss) entries raw0 = Inr raw" and "compiled ss c"
  shows "distinct (map fst raw0) \<Longrightarrow> distinct (map fst raw)"
    and "map_of raw i = Some w \<Longrightarrow> map_of raw0 i = Some w \<or> i < length ss \<and>
           (\<exists>v. (s_name (ss ! i), v) \<in> set entries \<and> encodeSignalValue (ss ! i) v = Inr w)"
    and "i < length ss \<Longrightarrow> s_name (ss ! i) \<notin> fst ` set entries \<Longrightarrow> map_of raw i = map_of raw0 i"
    and "distinct (map fst entries) \<Longrightarrow> (name, v) \<in> set entries \<Longrightarrow>
           \<exists>i w. i < length ss \<and> s_name (ss ! i) = name \<and> map_of raw i = Some w \<and>
             encodeSignalValue (ss ! i) v = Inr w"
  using assms(1)
proof (induction entries arbitrary: raw0 i)
  case Nil
  { case 1 then show ?case by simp next case 2 then show ?case by simp
  next case 3 then show ?case by simp next case 4 then show ?case by simp }
next
  case (Cons nv entries)
  obtain n x where nv: "nv = (n, x)" by fastforce
  have step: "\<exists>k u. k < length ss \<and> s_name (ss ! k) = n \<and> encodeSignalValue (ss ! k) x = Inr u \<and>
      efold (convert_one c ss) entries (AList.update k u r0) = Inr raw"
    if e: "efold (convert_one c ss) (nv # entries) r0 = Inr raw" for r0
  proof -
    obtain r1 where r1: "convert_one c ss (n, x) r0 = Inr r1" "efold (convert_one c ss) entries r1 = Inr raw"
      using e by (auto simp: nv ebind_Inr_iff)
    show ?thesis by (rule convert_one_Inr [OF r1(1) assms(2)]) (use r1(2) in auto)
  qed
  have inj: "i = j" if "i < length ss" "j < length ss" "s_name (ss ! i) = s_name (ss ! j)" for i j
    using that assms(2) nth_eq_iff_index_eq [of "map s_name ss" i j] by (simp add: compiled_def)
  {
    case 1
    then show ?case using step [OF 1(2)] Cons.IH(1) by (metis distinct_update)
  next
    case 2
    then obtain k u where k: "k < length ss" "s_name (ss ! k) = n" "encodeSignalValue (ss ! k) x = Inr u"
      "efold (convert_one c ss) entries (AList.update k u raw0) = Inr raw" using step by blast
    show ?case using Cons.IH(2) [OF 2(1) k(4)] k(1-3) nv by (auto simp: AList.update_conv' split: if_splits)
  next
    case 3
    then obtain k u where k: "k < length ss" "s_name (ss ! k) = n"
      "efold (convert_one c ss) entries (AList.update k u raw0) = Inr raw" using step by blast
    show ?case using Cons.IH(3) [OF 3(1) _ k(3)] k(1,2) 3(2) nv by (auto simp: AList.update_conv')
  next
    case 4
    then obtain k u where k: "k < length ss" "s_name (ss ! k) = n" "encodeSignalValue (ss ! k) x = Inr u"
      "efold (convert_one c ss) entries (AList.update k u raw0) = Inr raw" using step by blast
    show ?case
    proof (cases "(name, v) = nv")
      case True
      then have "s_name (ss ! k) \<notin> fst ` set entries" using 4(1) k(2) nv by auto
      then have "map_of raw k = Some u"
        using Cons.IH(3) [OF k(1) _ k(4)] by (simp add: AList.update_conv')
      then show ?thesis using k True nv by blast
    next
      case False
      then show ?thesis using Cons.IH(4) [OF _ _ k(4)] 4(1,2) by auto
    qed
  }
qed

lemma convertValues_spec:
  assumes "convertValues c ss values = Inr raw" and "compiled ss c"
  shows "distinct (map fst raw)"
    and "map_of raw i = Some w \<Longrightarrow> i < length ss \<and> (\<exists>v. (s_name (ss ! i), v) \<in> set values \<and>
           encodeSignalValue (ss ! i) v = Inr w)"
    and "distinct (map fst values) \<Longrightarrow> (name, v) \<in> set values \<Longrightarrow>
           \<exists>i w. i < length ss \<and> s_name (ss ! i) = name \<and> map_of raw i = Some w \<and>
             encodeSignalValue (ss ! i) v = Inr w"
  using convert_spec [OF assms(1) [unfolded convertValues_eq] assms(2)] by (simp, fastforce, blast)

section \<open>Signals active together\<close>

lemma efold_check: "efold f xs () = Inr () \<longleftrightarrow> (\<forall>x \<in> set xs. f x () = Inr ())"
  by (induction xs) (auto simp: ebind_Inr_iff)

lemma index_pairs_iff: "(l, r) \<in> set (index_pairs n) \<longleftrightarrow> l < r \<and> r < n"
  by (auto simp: index_pairs_def intro: bexI [of _ l])

text \<open>The overlap check passes exactly when compatible signals lie apart.\<close>

lemma validateOverlaps_iff:
  assumes "list_all (\<lambda>s. s_bits s \<le> 64 \<and> no_wrap s) ss"
  shows "validateOverlaps cs ss = Inr () \<longleftrightarrow>
    (\<forall>l r. l < r \<and> r < length ss \<and> constraintsCompatible (cs ! l) (cs ! r) \<longrightarrow> signals_apart (ss ! l) (ss ! r))"
proof -
  have "\<exists>y. signal_mask s = Inr y" if "s \<in> set ss" for s
    using signal_mask_bits [of s] assms that by (auto simp: list_all_iff)
  then obtain f where f: "\<And>s. s \<in> set ss \<Longrightarrow> signal_mask s = Inr (f s)" by metis
  have m: "emapM signal_mask ss = Inr (map f ss)" by (rule emapM_map) (rule f)
  have mo: "masks_overlap (map f ss ! l) (map f ss ! r) \<longleftrightarrow> \<not> signals_apart (ss ! l) (ss ! r)"
    if "l < length ss" "r < length ss" for l r
  proof -
    have "ss ! l \<in> set ss" "ss ! r \<in> set ss" using that by simp_all
    then have "masks_overlap (f (ss ! l)) (f (ss ! r)) \<longleftrightarrow> \<not> signals_apart (ss ! l) (ss ! r)"
      using assms by (intro masks_overlap_iff f) (simp_all add: list_all_iff)
    then show ?thesis using that by simp
  qed
  have "validateOverlaps cs ss = Inr () \<longleftrightarrow>
      (\<forall>x \<in> set (index_pairs (length ss)).
        \<not> (constraintsCompatible (cs ! fst x) (cs ! snd x) \<and> masks_overlap (map f ss ! fst x) (map f ss ! snd x)))"
    by (simp add: validateOverlaps_def m split_def efold_check)
  also have "\<dots> \<longleftrightarrow> (\<forall>l r. l < r \<and> r < length ss \<longrightarrow>
      \<not> (constraintsCompatible (cs ! l) (cs ! r) \<and> masks_overlap (map f ss ! l) (map f ss ! r)))"
    by (simp only: Ball_def split_paired_All index_pairs_iff fst_conv snd_conv)
  finally show ?thesis using mo less_trans by blast
qed

text \<open>Constraints that hold together are compatible: a shared selector's value is in both ranges.\<close>

lemma hold_compatible:
  assumes "constraints_hold as raw" and "constraints_hold bs raw"
  shows "constraintsCompatible as bs"
proof -
  have "rangesIntersect rs rs'" if "(k, rs) \<in> set as" "map_of bs k = Some rs'" for k rs rs'
  proof -
    have "(k, rs') \<in> set bs" using that(2) by (rule map_of_SomeD)
    then have "case map_of raw k of None \<Rightarrow> False | Some v \<Rightarrow> rangesContain rs v"
      and "case map_of raw k of None \<Rightarrow> False | Some v \<Rightarrow> rangesContain rs' v"
      using assms that(1) by (auto simp: constraints_hold_def list_all_iff)
    then obtain v where "rangesContain rs v" "rangesContain rs' v" by (auto split: option.splits)
    then obtain a b where "a \<in> set rs" "r_first a \<le> v" "v \<le> r_last a"
      and "b \<in> set rs'" "r_first b \<le> v" "v \<le> r_last b" by (auto simp: rangesContain_def list_ex_iff)
    then show ?thesis
      unfolding rangesIntersect_def list_ex_iff by (meson order_trans)
  qed
  then show ?thesis by (auto simp: constraintsCompatible_def list_all_iff split: option.split)
qed

lemma active_apart:
  assumes "compiled ss c" and "cd_writeErr c = None" and "list_all no_wrap ss"
    and "i < length ss" and "j < length ss" and "i \<noteq> j"
    and "signalActive c ss i raw [] = Inr True" and "signalActive c ss j raw [] = Inr True"
  shows "signals_apart (ss ! i) (ss ! j)"
proof -
  have all: "list_all (\<lambda>s. s_bits s \<le> 64 \<and> no_wrap s) ss"
    using compiled_bits [OF assms(1)] assms(3) by (auto simp: list_all_length)
  have hold: "constraints_hold (cd_constraints c ! k) raw"
    if "k < length ss" "signalActive c ss k raw [] = Inr True" for k
    using signalActive_constraints [OF compiled_constraints [OF assms(1) that(1)]] that(2) by blast
  have "signals_apart (ss ! l) (ss ! r)" if "l < r" "r < length ss" "signalActive c ss l raw [] = Inr True"
      "signalActive c ss r raw [] = Inr True" for l r
    using compiled_writable(1) [OF assms(1,2), unfolded validateOverlaps_iff [OF all]] that
      hold_compatible [OF hold hold, of l r] by simp
  then show ?thesis using assms(4-8) signals_apart_sym by (metis linorder_neqE_nat)
qed

section \<open>Encoding and decoding\<close>

lemma activeSignals_nth:
  assumes "activeSignals c ss raw = Inr active"
  shows "length active = length ss" and "i < length ss \<Longrightarrow> signalActive c ss i raw [] = Inr (active ! i)"
  using emapM_length [OF assms [unfolded activeSignals_def]] emapM_nth [OF assms [unfolded activeSignals_def], of i]
  by simp_all

lemma check_provided_iff:
  "check_provided ss active raw = Inr () \<longleftrightarrow> (\<forall>i < length ss. active ! i \<longleftrightarrow> map_of raw i \<noteq> None)"
  by (auto simp: check_provided_def efold_check split: if_splits)

lemma efold_writes:
  "efold (\<lambda>i. writeSignalBits (ss ! i) (g i)) is data = dbc_fields.write_all (map (\<lambda>i. (ss ! i, g i)) is) data"
proof (induction "is" arbitrary: data)
  case (Cons i "is")
  have "efold (\<lambda>i. writeSignalBits (ss ! i) (g i)) is = dbc_fields.write_all (map (\<lambda>i. (ss ! i, g i)) is)"
    by (rule ext) (rule Cons)
  then show ?case by simp
qed simp

text \<open>
  Writing a set of raw values under which all their signals are active: each reads back.
\<close>

lemma writes_read_back:
  assumes "compiled ss c" and "cd_writeErr c = None" and "list_all no_wrap ss"
    and "efold (\<lambda>i. writeSignalBits (ss ! i) (g i)) is data = Inr data'"
    and "distinct is" and "\<And>i. i \<in> set is \<Longrightarrow> i < length ss \<and> signalActive c ss i raw [] = Inr True"
    and "i \<in> set is"
  shows "readSignalBits data' (ss ! i) = Inr (take_bit (unat (s_bits (ss ! i))) (g i))"
proof (rule dbc_fields.rd_write_all_pairwise)
  let ?ws = "map (\<lambda>i. (ss ! i, g i)) is"
  show "dbc_fields.write_all ?ws data = Inr data'" using assms(4) by (simp add: efold_writes)
  have inj: "i = j" if "i < length ss" "j < length ss" "ss ! i = ss ! j" for i j
    using that assms(1) nth_eq_iff_index_eq [of "map s_name ss" i j] by (simp add: compiled_def)
  show "distinct ?ws"
    using assms(5,6) inj by (auto simp: distinct_map inj_on_def)
  show "pairwise (\<lambda>(f, u) (g, v). signals_apart f g) (set ?ws)"
  proof (rule pairwiseI)
    fix x y assume "x \<in> set ?ws" "y \<in> set ?ws" "x \<noteq> y"
    then obtain i j where ij: "i \<in> set is" "x = (ss ! i, g i)" "j \<in> set is" "y = (ss ! j, g j)" "i \<noteq> j" by auto
    then have "signals_apart (ss ! i) (ss ! j)"
      using active_apart [OF assms(1-3)] assms(6) by metis
    then show "(\<lambda>(f, u) (g, v). signals_apart f g) x y" using ij by simp
  qed
  show "(ss ! i, g i) \<in> set ?ws" using assms(7) by simp
qed

lemma writes_keep_apart:
  assumes "efold (\<lambda>i. writeSignalBits (ss ! i) (g i)) is data = Inr data'"
    and "\<And>i. i \<in> set is \<Longrightarrow> signals_apart (ss ! i) s"
  shows "readSignalBits data' s = readSignalBits data s"
  using dbc_fields.rd_write_all_apart [of "map (\<lambda>i. (ss ! i, g i)) is" data data' s] assms
  by (auto simp: efold_writes)

lemma writes_length:
  "efold (\<lambda>i. writeSignalBits (ss ! i) (g i)) is data = Inr data' \<Longrightarrow> length data' = length data"
  by (induction "is" arbitrary: data) (auto simp: ebind_Inr_iff dest: writeSignalBits_Inr(1))

text \<open>What a signal of an encoded payload is: its given value, or inactive.\<close>

definition holds_value :: "message_codec \<Rightarrow> signal list \<Rightarrow> (string \<times> go_value) list \<Rightarrow> bytes \<Rightarrow> nat \<Rightarrow> bool" where
  "holds_value c ss entries payload i =
     (case map_of entries (s_name (ss ! i)) of
        None \<Rightarrow> signalActiveInPayload c ss payload i = Some (Inr False)
      | Some v \<Rightarrow> signalActiveInPayload c ss payload i = Some (Inr True) \<and>
          is_ok (encodeSignalValue (ss ! i) v) \<and>
          readSignalBits payload (ss ! i) = encodeSignalValue (ss ! i) v)"

lemma codec_encode_holds:
  assumes "resolved m" and "writableCodec (Some m) = Inr c" and "ss = m_signals m"
    and "codec_encode c ss entries data = Inr data'" and "distinct (map fst entries)"
    and "i < length ss"
    and "\<And>s. s \<in> set ss \<Longrightarrow> readSignalBits payload s = readSignalBits data' s"
  shows "holds_value c ss entries payload i"
proof -
  note c = writable_resolved [OF assms(1,2), folded assms(3)]
  obtain raw active where r: "convertValues c ss entries = Inr raw" "activeSignals c ss raw = Inr active"
    "check_provided ss active raw = Inr ()"
    "efold (\<lambda>i. writeSignalBits (ss ! i) (the (map_of raw i))) (filter (\<lambda>i. active ! i) [0..<length ss]) data = Inr data'"
    using assms(4) by (auto simp: codec_encode_def ebind_Inr_iff)
  have nw: "list_all no_wrap ss" using resolved_no_wrap [OF assms(1)] by (simp add: list_all_iff assms(3))
  have act: "signalActive c ss k raw [] = Inr (active ! k)" if "k < length ss" for k
    using activeSignals_nth(2) [OF r(2) that] .
  have prov: "active ! k \<longleftrightarrow> map_of raw k \<noteq> None" if "k < length ss" for k
    using r(3) that by (simp add: check_provided_iff)
  have rd: "readSignalBits payload (ss ! k) = Inr w" if w: "map_of raw k = Some w" for k w
  proof -
    obtain v where v: "k < length ss" "encodeSignalValue (ss ! k) v = Inr w"
      using convertValues_spec(2) [OF r(1) c(1) w] by blast
    have "float_width_ok (ss ! k)" using assms(1,3) v(1) by (simp add: resolved_def list_all_length)
    then have fits: "take_bit (unat (s_bits (ss ! k))) w = w" using encodeSignalValue_fits v(2) by blast
    have "readSignalBits data' (ss ! k) = Inr (take_bit (unat (s_bits (ss ! k))) (the (map_of raw k)))"
      by (rule writes_read_back [OF c(1,2) nw r(4), where raw = raw]) (use act prov v(1) w in auto)
    then show ?thesis using assms(7) [of "ss ! k"] v(1) fits w by simp
  qed
  have pay: "signalActiveInPayload c ss payload i = Some (Inr (active ! i))"
    by (rule signalActiveInPayload_raw [OF compiled_constraints [OF c(1) assms(6)] act [OF assms(6)]])
      (rule rd)
  show ?thesis
  proof (cases "map_of entries (s_name (ss ! i))")
    case None
    then have "s_name (ss ! i) \<notin> fst ` set entries" by (simp add: map_of_eq_None_iff)
    then have "map_of raw i = None"
      using convert_spec(3) [OF r(1) [unfolded convertValues_eq] c(1) assms(6)] by simp
    then show ?thesis using pay prov [OF assms(6)] None by (simp add: holds_value_def)
  next
    case (Some v)
    obtain k w where k: "k < length ss" "s_name (ss ! k) = s_name (ss ! i)" "map_of raw k = Some w"
      "encodeSignalValue (ss ! k) v = Inr w"
      using convertValues_spec(3) [OF r(1) c(1) assms(5) map_of_SomeD [OF Some]] by blast
    have "k = i" using k(1,2) assms(6) c(1) nth_eq_iff_index_eq [of "map s_name ss" k i] by (simp add: compiled_def)
    then show ?thesis using pay prov [OF assms(6)] Some k rd by (simp add: holds_value_def)
  qed
qed

text \<open>Decoding the signals of such a payload.\<close>

definition decoded_value :: "(string \<times> go_value) list \<Rightarrow> signal \<Rightarrow> dbc_error + go_value" where
  "decoded_value entries s =
     (case map_of entries (s_name s) of
        None \<Rightarrow> Inl (InactiveSignal (s_name s))
      | Some v \<Rightarrow> ebind (encodeSignalValue s v) (\<lambda>raw. Inr (decodeSignalValue s raw)))"

lemma holds_value_decodes:
  assumes "usableCodec (Some m) = Inr c" and "compiled (m_signals m) c" and "length payload \<le> unat (m_length m)"
    and "i < length (m_signals m)" and "holds_value c (m_signals m) entries payload i"
  shows "DecodePayload (Some m) payload (s_name (m_signals m ! i)) = Some (decoded_value entries (m_signals m ! i))"
proof -
  have "map_of (cd_byName c) (s_name (m_signals m ! i)) = Some i"
    using compiled_byName [OF assms(2)] assms(4) by blast
  moreover have "signalAvailable (m_signals m ! i) (length payload)"
    if "readSignalBits payload (m_signals m ! i) = Inr w" for w
    using that by (auto simp: signalAvailable_in_payload readSignalBits_eq split: if_splits)
  ultimately show ?thesis
    using assms(1,3,5)
    by (auto simp: DecodePayload_def holds_value_def decoded_value_def Let_def is_ok_iff split: option.splits)
qed

lemma EncodePayload_length:
  assumes "codec_encode c ss entries data = Inr data'"
  shows "length data' = length data"
  using assms by (auto simp: codec_encode_def ebind_Inr_iff dest: writes_length)


section \<open>Frames\<close>

lemma first_at_least_le: "n \<le> first_at_least n cs"
  by (induction cs) auto

lemma legalFDLength_le: "n \<le> legalFDLength n"
  by (simp add: legalFDLength_def first_at_least_le del: first_at_least.simps)

lemma frameShape_flags:
  assumes "frameShape m = Inr (dlc, flags)"
  obtains len fd where "LengthToDLC len (Has flags FrameFD) = Inr dlc" "int (unat (m_length m)) \<le> len"
    "flags = (if m_extended m then FrameExtended else 0) OR (if fd then FrameFD else 0) OR
      (if m_brs m then FrameBitRateSwitch else 0)" "m_brs m \<Longrightarrow> fd"
proof -
  define base where "base = (if m_extended m then FrameExtended else 0)"
  define n where "n = int (unat (m_length m))"
  have fd: "Has (base OR FrameFD) FrameFD" "\<not> Has base FrameFD"
    by (simp_all add: base_def Has_def flag_defs)
  obtain fl len where k: "(case m_format m of
           FrameFormatStandardCAN \<Rightarrow> if n > 8 then Inl ExceedsClassical else Inr (base, n)
         | FrameFormatExtendedCAN \<Rightarrow> if n > 8 then Inl ExceedsClassical else Inr (base, n)
         | FrameFormatStandardCANFD \<Rightarrow> Inr (base OR FrameFD, legalFDLength n)
         | FrameFormatExtendedCANFD \<Rightarrow> Inr (base OR FrameFD, legalFDLength n)
         | FrameFormatJ1939 \<Rightarrow> if n > 8 then Inl ExceedsJ1939Frame else Inr (base, n)
         | FrameFormatUnknown \<Rightarrow> Inl UnsupportedFormat) = Inr (fl, len)"
    and l: "(if m_brs m \<and> \<not> Has fl FrameFD then Inl BRSWithoutFD
          else
            let flags = (if m_brs m then fl OR FrameBitRateSwitch else fl) in
            ebind (emap InvalidFrame (LengthToDLC len (Has flags FrameFD))) (\<lambda>dlc. Inr (dlc, flags))) = Inr (dlc, flags)"
    using assms unfolding frameShape_def Let_def base_def [symmetric] n_def [symmetric] ebind_Inr_iff by fast
  have b: "fl = base OR (if Has fl FrameFD then FrameFD else 0)" "n \<le> len"
  proof -
    have "(fl = base \<or> fl = base OR FrameFD) \<and> n \<le> len"
      using k legalFDLength_le [of n] by (cases "m_format m") (auto split: if_splits)
    then show "fl = base OR (if Has fl FrameFD then FrameFD else 0)" "n \<le> len"
      using fd by auto
  qed
  have c: "m_brs m \<Longrightarrow> Has fl FrameFD"
    "flags = fl OR (if m_brs m then FrameBitRateSwitch else 0)" "LengthToDLC len (Has flags FrameFD) = Inr dlc"
    using l by (auto simp: Let_def ebind_Inr_iff split: if_splits)
  have d: "flags = base OR (if Has fl FrameFD then FrameFD else 0) OR (if m_brs m then FrameBitRateSwitch else 0)"
    using trans [OF c(2) arg_cong [OF b(1), of "\<lambda>x. x OR (if m_brs m then FrameBitRateSwitch else 0)"]]
    by (simp only: or.assoc)
  show ?thesis by (rule that [OF c(3) b(2) [unfolded n_def] d [unfolded base_def] c(1)])
qed

lemma frameShape_spec:
  assumes "frameShape m = Inr (dlc, flags)"
  shows "flags AND NOT allFrameFlags = 0" and "\<not> Has flags FrameRemote"
    and "\<not> Has flags FrameErrorStateIndicator" and "Has flags FrameExtended \<longleftrightarrow> m_extended m"
    and "Has flags FrameBitRateSwitch \<Longrightarrow> Has flags FrameFD"
proof -
  obtain fd where f: "flags = (if m_extended m then FrameExtended else 0) OR (if fd then FrameFD else 0) OR
      (if m_brs m then FrameBitRateSwitch else 0)" "m_brs m \<Longrightarrow> fd"
    using frameShape_flags [OF assms] by metis
  note defs = Has_def flag_defs allFrameFlags_def f(1)
  show "flags AND NOT allFrameFlags = 0" "\<not> Has flags FrameRemote" "\<not> Has flags FrameErrorStateIndicator"
    "Has flags FrameExtended \<longleftrightarrow> m_extended m"
    by (cases "m_extended m"; cases fd; cases "m_brs m"; simp add: defs)+
  show "Has flags FrameFD" if "Has flags FrameBitRateSwitch"
    using that f(2) by (cases "m_extended m"; cases fd; cases "m_brs m"; simp add: defs)
qed

lemma new_frame:
  assumes "newFrame m = Inr f"
  obtains dlc flags where "frameShape m = Inr (dlc, flags)"
    "f = \<lparr>f_id = m_id m, f_data = replicate 64 0, f_dlc = dlc, f_flags = flags\<rparr>"
  using assms by (auto simp: newFrame_def ebind_Inr_iff MaxDataLength_def)

lemma shaped_frame:
  assumes "frameShape m = Inr (dlc, flags)" and "f_dlc f = dlc" and "f_flags f = flags"
  shows "DLCToLength dlc (Has flags FrameFD) = Inr (DataLength f)" and "unat (m_length m) \<le> DataLength f"
proof -
  obtain len where l: "LengthToDLC len (Has flags FrameFD) = Inr dlc" "int (unat (m_length m)) \<le> len"
    using frameShape_flags [OF assms(1)] by metis
  then obtain n where n: "DLCToLength dlc (Has flags FrameFD) = Inr n" "int n = len"
    using LengthToDLC_DLCToLength [OF l(1)] by (cases "DLCToLength dlc (Has flags FrameFD)") auto
  then have "unat (m_length m) \<le> n" using l(2) by linarith
  moreover have "DataLength f = n"
    using frameShape_spec(2) [OF assms(1)] assms(2,3) n(1) by (simp add: DataLength_def)
  ultimately show "DLCToLength dlc (Has flags FrameFD) = Inr (DataLength f)" "unat (m_length m) \<le> DataLength f"
    using n(1) by simp_all
qed

text \<open>A frame of the message's shape and identifier is one the message accepts.\<close>

lemma shaped_frame_accepted:
  assumes "resolved m" and "frameShape m = Inr (dlc, flags)"
    and "f_id f = m_id m" and "f_dlc f = dlc" and "f_flags f = flags"
  shows "validateFrame (Some m) f = Inr ()"
proof -
  have "valid_frame f"
    using frameShape_spec [OF assms(2)] shaped_frame [OF assms(2,4,5)] assms(1,3-5) DLCToLength_cases
    by (auto simp: valid_frame_def resolved_def)
  then have "Validate f = Inr ()" by (simp add: Validate_Inr_iff)
  then show ?thesis
    using frameShape_spec [OF assms(2)] shaped_frame(1) [OF assms(2,4,5)] assms(2-5)
    by (simp add: validateFrame_def)
qed

text \<open>Reading within the first bytes of a longer payload.\<close>

lemma readSignalBits_take:
  assumes "list_all (in_payload (take n data)) (visitSignalBits s)"
  shows "readSignalBits (take n data) s = readSignalBits data s"
proof -
  have "bit_at (take n data) b = bit_at data b \<and> in_payload data b" if "b \<in> set (visitSignalBits s)" for b
    using assms that by (auto simp: list_all_iff in_payload_def bit_at_def)
  then have "map (bit_at (take n data)) (signal_positions s) = map (bit_at data) (signal_positions s)"
    and "list_all (in_payload data) (visitSignalBits s)" by (auto simp: list_all_iff)
  then show ?thesis using assms by (simp only: readSignalBits_eq signal_value_def)
qed

lemma resolved_read_take:
  assumes "resolved m" and "s \<in> set (m_signals m)" and "unat (m_length m) \<le> n" and "n \<le> length data"
  shows "readSignalBits (take (unat (m_length m)) data) s = readSignalBits (take n data) s"
  using readSignalBits_take [of "unat (m_length m)" data s] readSignalBits_take [of n data s]
    resolved_in_payload [OF assms(1,2)] assms(3,4) by simp

text \<open>C20 For a resolved message, a frame built by \<open>Encode\<close> is valid and of the message's shape, and
  decoding any signal from it returns the value given for the signal, passed through its encoding
  and decoding, or reports the signal inactive when none was given.\<close>
theorem encoded_frame_decodes:
  assumes "resolved m" and "distinct (map fst entries)" and "Encode (Some m) entries = Inr f"
  shows "Validate f = Inr () \<and> wf_frame f \<and> f_id f = m_id m \<and>
    list_all (\<lambda>s. Decode (Some m) f (s_name s) = Some (decoded_value entries s)) (m_signals m)"
proof -
  obtain c f0 data where c: "writableCodec (Some m) = Inr c" "newFrame m = Inr f0"
    "codec_encode c (m_signals m) entries (payload_of f0) = Inr data"
    "f = f0\<lparr>f_data := data @ drop (DataLength f0) (f_data f0)\<rparr>"
    using assms(3) by (auto simp: Encode_def ebind_Inr_iff Let_def)
  obtain dlc flags where s: "frameShape m = Inr (dlc, flags)"
    "f0 = \<lparr>f_id = m_id m, f_data = replicate 64 0, f_dlc = dlc, f_flags = flags\<rparr>"
    by (rule new_frame [OF c(2)])
  note w = writable_resolved [OF assms(1) c(1)]
  have f: "f_id f = m_id m" "f_dlc f = dlc" "f_flags f = flags" by (simp_all add: c(4) s(2))
  have acc: "validateFrame (Some m) f = Inr ()" by (rule shaped_frame_accepted [OF assms(1) s(1) f])
  have wf0: "wf_frame f0" by (simp add: s(2) wf_frame_def MaxDataLength_def)
  have len: "length data = DataLength f0" using EncodePayload_length [OF c(3)] wf0 by simp
  have L: "unat (m_length m) \<le> DataLength f0"
    by (rule shaped_frame(2) [OF s(1)]) (simp_all add: s(2))
  define p where "p = take (unat (m_length m)) (f_data f)"
  have rd: "readSignalBits p s = readSignalBits data s" if "s \<in> set (m_signals m)" for s
  proof -
    have "p = take (unat (m_length m)) data" using L len by (simp add: p_def c(4))
    then show ?thesis using resolved_read_take [OF assms(1) that L, of data] len by simp
  qed
  have "DecodePayload (Some m) p (s_name (m_signals m ! i)) = Some (decoded_value entries (m_signals m ! i))"
    if "i < length (m_signals m)" for i
    by (rule holds_value_decodes [OF w(3,1) _ that codec_encode_holds [OF assms(1) c(1) refl c(3) assms(2) that rd]])
      (simp add: p_def)
  then have "list_all (\<lambda>s. Decode (Some m) f (s_name s) = Some (decoded_value entries s)) (m_signals m)"
    using acc by (simp add: Decode_def p_def list_all_length)
  moreover have "Validate f = Inr ()" using acc by (auto simp: validateFrame_def ebind_Inr_iff)
  moreover have "wf_frame f"
    using len wf0 DataLength_le_64 [of f0] by (simp add: c(4) wf_frame_def MaxDataLength_def)
  ultimately show ?thesis using f(1) by simp
qed

section \<open>Patching\<close>

lemma emapM_pairs:
  "emapM (\<lambda>i. ebind (g i) (\<lambda>v. Inr (i, v))) is = Inr raw \<Longrightarrow> (k, v) \<in> set raw \<Longrightarrow>
     k \<in> set is \<and> g k = Inr v"
proof (induction "is" arbitrary: raw)
  case (Cons i "is")
  then obtain x raw' where "g i = Inr x" "emapM (\<lambda>i. ebind (g i) (\<lambda>v. Inr (i, v))) is = Inr raw'"
    "raw = (i, x) # raw'" by (auto simp: ebind_Inr_iff)
  with Cons show ?case by auto
qed simp

lemma selectorValues_spec:
  assumes "selectorValues c ss data = Inr raw"
  shows "map_of raw k = Some v \<Longrightarrow> readSignalBits data (ss ! k) = Inr v \<and> cd_selectors c ! k"
  using emapM_pairs [OF assms [unfolded selectorValues_def], of k v] map_of_SomeD [of raw k v] by auto

text \<open>The selectors after the change: changed ones take their new raw value.\<close>

definition new_selectors :: "message_codec \<Rightarrow> raws \<Rightarrow> raws \<Rightarrow> raws" where
  "new_selectors c changed old = AList.updates
     (map fst (filter (\<lambda>(i, v). cd_selectors c ! i) changed))
     (map snd (filter (\<lambda>(i, v). cd_selectors c ! i) changed)) old"

lemma map_of_new_selectors:
  assumes "distinct (map fst changed)"
  shows "map_of (new_selectors c changed old) k =
    (if cd_selectors c ! k \<and> map_of changed k \<noteq> None then map_of changed k else map_of old k)"
proof -
  let ?F = "filter (\<lambda>(i, v). cd_selectors c ! i) changed"
  have d: "distinct (map fst (rev ?F))" using assms by (simp add: rev_map [symmetric] distinct_map_filter)
  have "map_of (rev ?F) k = (if cd_selectors c ! k then map_of changed k else None)"
  proof (cases "map_of (rev ?F) k")
    case None
    then have "k \<notin> fst ` set ?F" by (simp add: map_of_eq_None_iff)
    moreover have "k \<in> fst ` set ?F" if "cd_selectors c ! k" "map_of changed k = Some v" for v
      using map_of_SomeD [OF that(2)] that(1) by (auto intro: image_eqI [of _ _ "(k, v)"])
    ultimately show ?thesis unfolding None by (cases "map_of changed k") auto
  next
    case (Some v)
    then have "(k, v) \<in> set ?F" using map_of_SomeD by fastforce
    then show ?thesis unfolding Some using assms by auto
  qed
  then show ?thesis
    by (simp add: new_selectors_def AList.updates_conv' map_upds_def zip_map_fst_snd map_add_def split: option.split)
qed

lemma check_patch_iff:
  assumes "check_patch c ss old new changed = Inr ()" and "i < length ss"
  shows "new ! i \<Longrightarrow> \<not> old ! i \<Longrightarrow> map_of changed i \<noteq> None" and "map_of changed i \<noteq> None \<Longrightarrow> new ! i"
  using assms by (auto simp: check_patch_def ebind_Inr_iff efold_check split: if_splits)

lemma Patch_parts:
  assumes "Patch visit (Some m) (Some f) changes = Inr f'"
  obtains c changed old oldActive newActive data where
    "writableCodec (Some m) = Inr c" "validateFrame (Some m) f = Inr ()"
    "convertValues c (m_signals m) changes = Inr changed" "selectorValues c (m_signals m) (payload_of f) = Inr old"
    "activeSignals c (m_signals m) old = Inr oldActive"
    "activeSignals c (m_signals m) (new_selectors c changed old) = Inr newActive"
    "check_patch c (m_signals m) oldActive newActive changed = Inr ()"
    "efold (\<lambda>i. writeSignalBits (m_signals m ! i) (the (map_of changed i))) (visit (map fst changed))
       (payload_of f) = Inr data"
    "f' = f\<lparr>f_data := data @ drop (DataLength f) (f_data f)\<rparr>"
  using assms by (auto simp: Patch_def ebind_Inr_iff Let_def new_selectors_def)

lemma accepted_length:
  assumes "validateFrame (Some m) f = Inr ()"
  shows "unat (m_length m) \<le> DataLength f"
proof -
  obtain dlc flags where s: "frameShape m = Inr (dlc, flags)"
    and n: "DLCToLength dlc (Has flags FrameFD) = Inr (DataLength f)"
    using assms by (auto simp: validateFrame_def ebind_Inr_iff Let_def emap_Inr_iff split: if_splits)
  define g where "g = zero_frame\<lparr>f_dlc := dlc, f_flags := flags\<rparr>"
  have "DLCToLength dlc (Has flags FrameFD) = Inr (DataLength g)" "unat (m_length m) \<le> DataLength g"
    by (rule shaped_frame [OF s]; simp add: g_def)+
  then show ?thesis using n by simp
qed

lemma DecodePayload_eq:
  assumes "usableCodec (Some m) = Inr c" and "compiled (m_signals m) c" and "length p \<le> unat (m_length m)"
    and "i < length (m_signals m)"
  shows "DecodePayload (Some m) p (s_name (m_signals m ! i)) =
    Option.bind (signalActiveInPayload c (m_signals m) p i) (\<lambda>r. Some (ebind r (\<lambda>active.
      if \<not> active then Inl (InactiveSignal (s_name (m_signals m ! i)))
      else if \<not> signalAvailable (m_signals m ! i) (length p)
      then Inl (SignalNotPresent (s_name (m_signals m ! i)) (length p))
      else ebind (readSignalBits p (m_signals m ! i)) (\<lambda>raw. Inr (decodeSignalValue (m_signals m ! i) raw)))))"
proof -
  have "map_of (cd_byName c) (s_name (m_signals m ! i)) = Some i"
    using compiled_byName [OF assms(2)] assms(4) by blast
  then show ?thesis using assms(1,3) by (simp add: DecodePayload_def Let_def)
qed

lemma validateFrame_data [simp]: "validateFrame mo (f\<lparr>f_data := d\<rparr>) = validateFrame mo f"
proof -
  have "Validate (f\<lparr>f_data := d\<rparr>) = Validate f" "DataLength (f\<lparr>f_data := d\<rparr>) = DataLength f"
    by (simp_all add: Validate_def DataLength_def)
  then show ?thesis by (simp add: validateFrame_def cong: if_cong option.case_cong)
qed

lemma signalActive_index: "signalActive c ss k raw vis = Inr b \<Longrightarrow> k < length ss"
  by (auto simp: signalActive.simps [of c ss k] split: if_splits)

text \<open>The payload after the writes of a \<open>Patch\<close>.\<close>

lemma patched_payload:
  assumes "resolved m" and "writableCodec (Some m) = Inr c" and "ss = m_signals m"
    and "convertValues c ss changes = Inr changed" and "selectorValues c ss data0 = Inr old"
    and "activeSignals c ss old = Inr oldA" and "activeSignals c ss (new_selectors c changed old) = Inr newA"
    and "check_patch c ss oldA newA changed = Inr ()"
    and "efold (\<lambda>i. writeSignalBits (ss ! i) (the (map_of changed i))) ks data0 = Inr data"
    and "distinct ks" and "set ks = fst ` set changed"
  shows "map_of changed k = Some w \<Longrightarrow> readSignalBits data (ss ! k) = Inr w"
    and "k < length ss \<Longrightarrow> newA ! k \<Longrightarrow> map_of changed k = None \<Longrightarrow>
           readSignalBits data (ss ! k) = readSignalBits data0 (ss ! k)"
    and "(\<And>s. s \<in> set ss \<Longrightarrow> readSignalBits p s = readSignalBits data s) \<Longrightarrow> k < length ss \<Longrightarrow>
           signalActiveInPayload c ss p k = Some (Inr (newA ! k))"
proof -
  note c = writable_resolved [OF assms(1,2), folded assms(3)]
  have nw: "list_all no_wrap ss" using resolved_no_wrap [OF assms(1)] by (simp add: list_all_iff assms(3))
  let ?new = "new_selectors c changed old"
  have act: "signalActive c ss k ?new [] = Inr (newA ! k)" if "k < length ss" for k
    using activeSignals_nth(2) [OF assms(7) that] .
  have key: "k < length ss \<and> newA ! k" if "map_of changed k = Some w" for k w
    using convertValues_spec(2) [OF assms(4) c(1) that] check_patch_iff(2) [OF assms(8), of k] that by auto
  have ks: "k \<in> set ks \<longleftrightarrow> map_of changed k \<noteq> None" for k
    using assms(11) by (simp add: map_of_eq_None_iff)
  show changed: "readSignalBits data (ss ! k) = Inr w" if w: "map_of changed k = Some w" for k w
  proof -
    obtain v where v: "k < length ss" "encodeSignalValue (ss ! k) v = Inr w"
      using convertValues_spec(2) [OF assms(4) c(1) w] by blast
    have "float_width_ok (ss ! k)" using assms(1,3) v(1) by (simp add: resolved_def list_all_length)
    then have fits: "take_bit (unat (s_bits (ss ! k))) w = w" using encodeSignalValue_fits v(2) by blast
    have "readSignalBits data (ss ! k) = Inr (take_bit (unat (s_bits (ss ! k))) (the (map_of changed k)))"
      by (rule writes_read_back [OF c(1,2) nw assms(9,10), where raw = ?new]) (use act key ks w in auto)
    then show ?thesis using fits w by simp
  qed
  show kept: "readSignalBits data (ss ! k) = readSignalBits data0 (ss ! k)"
    if k: "k < length ss" "newA ! k" "map_of changed k = None" for k
  proof (rule writes_keep_apart [OF assms(9)])
    fix i assume "i \<in> set ks"
    then obtain w where "map_of changed i = Some w" using ks by auto
    then show "signals_apart (ss ! i) (ss ! k)"
      using active_apart [OF c(1,2) nw, of i k ?new] key [of i w] k act by fastforce
  qed
  show "signalActiveInPayload c ss p k = Some (Inr (newA ! k))"
    if p: "\<And>s. s \<in> set ss \<Longrightarrow> readSignalBits p s = readSignalBits data s" and k: "k < length ss" for p
  proof (rule signalActiveInPayload_raw [OF compiled_constraints [OF c(1) k] act [OF k]])
    fix j v assume j: "signalActive c ss j ?new [] = Inr True" "map_of ?new j = Some v"
    have jl: "j < length ss" by (rule signalActive_index [OF j(1)])
    have "readSignalBits data (ss ! j) = Inr v"
    proof (cases "map_of changed j")
      case None
      then have "map_of old j = Some v"
        using j(2) by (simp add: map_of_new_selectors [OF convertValues_spec(1) [OF assms(4) c(1)]])
      then show ?thesis using kept [OF jl _ None] act [OF jl] j(1) selectorValues_spec [OF assms(5)] by auto
    next
      case (Some w)
      have "cd_selectors c ! j"
      proof (rule ccontr)
        assume "\<not> cd_selectors c ! j"
        then have "map_of old j = Some v"
          using j(2) by (simp add: map_of_new_selectors [OF convertValues_spec(1) [OF assms(4) c(1)]])
        then show False using selectorValues_spec [OF assms(5)] \<open>\<not> cd_selectors c ! j\<close> by blast
      qed
      then show ?thesis
        using j(2) Some changed by (simp add: map_of_new_selectors [OF convertValues_spec(1) [OF assms(4) c(1)]])
    qed
    then show "readSignalBits p (ss ! j) = Inr v" using p jl by simp
  qed
qed

lemma payload_activity:
  assumes "compiled ss c" and "selectorValues c ss data = Inr old" and "activeSignals c ss old = Inr oldA"
    and "\<And>s. s \<in> set ss \<Longrightarrow> readSignalBits p s = readSignalBits data s" and "k < length ss"
  shows "signalActiveInPayload c ss p k = Some (Inr (oldA ! k))"
proof (rule signalActiveInPayload_raw [OF compiled_constraints [OF assms(1,5)] activeSignals_nth(2) [OF assms(3,5)]])
  fix j v assume j: "signalActive c ss j old [] = Inr True" "map_of old j = Some v"
  then show "readSignalBits p (ss ! j) = Inr v"
    using selectorValues_spec [OF assms(2) j(2)] assms(4) signalActive_index [OF j(1)] by simp
qed

text \<open>One signal of a patched payload \<open>p\<close>, against the payload \<open>p0\<close> it was made from.\<close>

lemma patched_signal:
  assumes "usableCodec (Some m) = Inr c" and "compiled (m_signals m) c" and "length p = length p0"
    and "length p0 \<le> unat (m_length m)" and i: "i < length (m_signals m)" and s: "s = m_signals m ! i"
    and "distinct (map fst changes)" and cv: "convertValues c (m_signals m) changes = Inr changed"
    and ck: "check_patch c (m_signals m) oldA newA changed = Inr ()"
    and new: "signalActiveInPayload c (m_signals m) p i = Some (Inr (newA ! i))"
    and oldp: "signalActiveInPayload c (m_signals m) p0 i = Some (Inr (oldA ! i))"
    and put: "\<And>w. map_of changed i = Some w \<Longrightarrow> readSignalBits p (m_signals m ! i) = Inr w"
    and kept: "newA ! i \<Longrightarrow> map_of changed i = None \<Longrightarrow>
      readSignalBits p (m_signals m ! i) = readSignalBits p0 (m_signals m ! i)"
  shows "case map_of changes (s_name s) of
        Some v \<Rightarrow> DecodePayload (Some m) p (s_name s) = Some (decoded_value changes s)
      | None \<Rightarrow> DecodePayload (Some m) p (s_name s) = DecodePayload (Some m) p0 (s_name s) \<or>
          DecodePayload (Some m) p (s_name s) = Some (Inl (InactiveSignal (s_name s)))"
proof (cases "map_of changes (s_name s)")
  case (Some v)
  obtain k x where k: "k < length (m_signals m)" "s_name (m_signals m ! k) = s_name s"
    "map_of changed k = Some x" "encodeSignalValue (m_signals m ! k) v = Inr x"
    using convertValues_spec(3) [OF cv assms(2,7) map_of_SomeD [OF Some]] by blast
  have ki: "k = i"
    using k(1,2) i s assms(2) nth_eq_iff_index_eq [of "map s_name (m_signals m)" k i] by (simp add: compiled_def)
  have "newA ! i" using check_patch_iff(2) [OF ck i] k(3) ki by simp
  then have "holds_value c (m_signals m) changes p i"
    using new put [of x] k(3,4) ki s Some by (simp add: holds_value_def)
  from holds_value_decodes [OF assms(1,2) _ i this] show ?thesis using Some s assms(3,4) by simp
next
  case None
  then have "s_name s \<notin> fst ` set changes" by (simp add: map_of_eq_None_iff)
  then have nc: "map_of changed i = None"
    using convert_spec(3) [OF cv [unfolded convertValues_eq] assms(2) i] s by simp
  have plen: "length p \<le> unat (m_length m)" using assms(3,4) by simp
  note eqp = DecodePayload_eq [OF assms(1,2) plen i] and eqp0 = DecodePayload_eq [OF assms(1,2,4) i]
  show ?thesis
  proof (cases "newA ! i")
    case True
    then have "oldA ! i" using check_patch_iff(1) [OF ck i] nc by auto
    then have "DecodePayload (Some m) p (s_name s) = DecodePayload (Some m) p0 (s_name s)"
      unfolding s eqp eqp0 using True assms(3) kept [OF True nc] by (simp add: new oldp)
    then show ?thesis using None by simp
  next
    case False
    then have "DecodePayload (Some m) p (s_name s) = Some (Inl (InactiveSignal (s_name s)))"
      unfolding s eqp by (simp add: new)
    then show ?thesis using None by simp
  qed
qed

text \<open>C21 For a resolved message and an accepted frame, a successful \<open>Patch\<close> changes nothing of the
  frame but payload bytes, whatever order the changed signals are written in; a changed signal then
  decodes to its new value, and every other signal decodes as it did before, unless the change of a
  multiplexor made it inactive.\<close>
theorem patched_frame_decodes:
  assumes "resolved m" and "wf_frame f" and "distinct (map fst changes)"
    and "\<And>is. distinct is \<Longrightarrow> distinct (visit is) \<and> set (visit is) = set is"
    and "Patch visit (Some m) (Some f) changes = Inr f'"
  shows "(\<exists>data. f' = f\<lparr>f_data := data @ drop (DataLength f) (f_data f)\<rparr> \<and> length data = DataLength f) \<and>
    list_all (\<lambda>s. case map_of changes (s_name s) of
        Some v \<Rightarrow> Decode (Some m) f' (s_name s) = Some (decoded_value changes s)
      | None \<Rightarrow> Decode (Some m) f' (s_name s) = Decode (Some m) f (s_name s) \<or>
          Decode (Some m) f' (s_name s) = Some (Inl (InactiveSignal (s_name s)))) (m_signals m)"
proof -
  obtain c changed old oldA newA data where
    w: "writableCodec (Some m) = Inr c" and acc: "validateFrame (Some m) f = Inr ()" and
    cv: "convertValues c (m_signals m) changes = Inr changed" and
    sv: "selectorValues c (m_signals m) (payload_of f) = Inr old" and
    oa: "activeSignals c (m_signals m) old = Inr oldA" and
    na: "activeSignals c (m_signals m) (new_selectors c changed old) = Inr newA" and
    ck: "check_patch c (m_signals m) oldA newA changed = Inr ()" and
    wr: "efold (\<lambda>i. writeSignalBits (m_signals m ! i) (the (map_of changed i))) (visit (map fst changed))
       (payload_of f) = Inr data" and
    f': "f' = f\<lparr>f_data := data @ drop (DataLength f) (f_data f)\<rparr>"
    by (rule Patch_parts [OF assms(5)])
  define ss where "ss = m_signals m"
  note c = writable_resolved [OF assms(1) w]
  note dist = convertValues_spec(1) [OF cv c(1)]
  have vis: "distinct (visit (map fst changed))" "set (visit (map fst changed)) = fst ` set changed"
    using assms(4) [OF dist] by simp_all
  note pp = patched_payload [OF assms(1) w refl cv sv oa na ck wr vis]
  have len: "length data = DataLength f" using writes_length [OF wr] assms(2) by simp
  have L: "unat (m_length m) \<le> DataLength f" by (rule accepted_length [OF acc])
  define p p0 where "p = take (unat (m_length m)) (f_data f')" and "p0 = take (unat (m_length m)) (f_data f)"
  have plen: "length p = length p0" "length p0 \<le> unat (m_length m)" "length p \<le> unat (m_length m)"
    using len L assms(2) DataLength_le_64 [of f] by (simp_all add: p_def p0_def f' wf_frame_def MaxDataLength_def)
  have rd: "readSignalBits p s = readSignalBits data s" "readSignalBits p0 s = readSignalBits (payload_of f) s"
    if s: "s \<in> set (m_signals m)" for s
  proof -
    have "p = take (unat (m_length m)) data" using L len by (simp add: p_def f')
    then show "readSignalBits p s = readSignalBits data s"
      using resolved_read_take [OF assms(1) s L, of data] len by simp
    show "readSignalBits p0 s = readSignalBits (payload_of f) s"
      using resolved_read_take [OF assms(1) s L, of "f_data f"] assms(2) DataLength_le_64 [of f]
      by (simp add: p0_def payload_of_def wf_frame_def MaxDataLength_def)
  qed
  have acc': "validateFrame (Some m) f' = Inr ()" using acc by (simp add: f')
  have dec: "Decode (Some m) f' n = DecodePayload (Some m) p n" "Decode (Some m) f n = DecodePayload (Some m) p0 n" for n
    using acc acc' by (simp_all add: Decode_def p_def p0_def)
  have "case map_of changes (s_name (m_signals m ! i)) of
        Some v \<Rightarrow> Decode (Some m) f' (s_name (m_signals m ! i)) = Some (decoded_value changes (m_signals m ! i))
      | None \<Rightarrow> Decode (Some m) f' (s_name (m_signals m ! i)) = Decode (Some m) f (s_name (m_signals m ! i)) \<or>
          Decode (Some m) f' (s_name (m_signals m ! i)) = Some (Inl (InactiveSignal (s_name (m_signals m ! i))))"
    if i: "i < length (m_signals m)" for i
    unfolding dec
  proof (rule patched_signal [OF c(3,1) plen(1,2) i refl assms(3) cv ck])
    show "signalActiveInPayload c (m_signals m) p i = Some (Inr (newA ! i))"
      by (rule pp(3)) (simp_all add: rd i)
    show "signalActiveInPayload c (m_signals m) p0 i = Some (Inr (oldA ! i))"
      by (rule payload_activity [OF c(1) sv oa]) (simp_all add: rd i)
    show "readSignalBits p (m_signals m ! i) = Inr w" if "map_of changed i = Some w" for w
      using pp(1) [OF that] rd i by simp
    show "readSignalBits p (m_signals m ! i) = readSignalBits p0 (m_signals m ! i)"
      if "newA ! i" "map_of changed i = None"
      using pp(2) [OF i that] rd i by simp
  qed
  then show ?thesis using f' len by (auto simp: list_all_length)
qed

section \<open>Overlaps and termination\<close>


text \<open>C23 Decoding ends on every message with a compiled codec, whatever the payload and the name, although
  the lookup of a signal's activity follows the multiplexors without recording its path.\<close>
theorem decoding_ends:
  assumes "m_codec m = Some (compileMessageCodec (m_signals m))" and "distinct (map s_name (m_signals m))"
  shows "\<exists>r. DecodePayload (Some m) payload name = Some r"
proof (cases "usableCodec (Some m)")
  case (Inr c)
  then have c: "compiled (m_signals m) c"
    using assms by (auto simp: usableCodec_def compiled_def split: option.splits)
  have "signalActiveInPayload c (m_signals m) payload i \<noteq> None" if "map_of (cd_byName c) name = Some i" for i
  proof -
    have "i < length (m_signals m)" using compiled_byName [OF c] that by blast
    then show ?thesis using signalActiveInPayload_ends compiled_constraints [OF c] by blast
  qed
  then show ?thesis
    using Inr by (cases "map_of (cd_byName c) name") (auto simp: DecodePayload_def Let_def)
qed (simp add: DecodePayload_def)

section \<open>An example\<close>

text \<open>A multiplexor bit that selects one of two overlapping signals.\<close>

definition example_signals :: "signal list" where
  "example_signals =
    [(plain_signal ''M'' 0 1 ByteOrderLittleEndian)\<lparr>s_is_mux := True\<rparr>,
     switch_signal\<lparr>s_cond := Some \<lparr>mc_selector = ''M'', mc_ranges = [\<lparr>r_first = 1, r_last = 1\<rparr>]\<rparr>\<rparr>,
     (plain_signal ''B'' 4 8 ByteOrderLittleEndian)\<lparr>
        s_values := [\<lparr>ch_value = 0x5a, ch_label = ''run''\<rparr>],
        s_cond := Some \<lparr>mc_selector = ''M'', mc_ranges = [\<lparr>r_first = 0, r_last = 0\<rparr>]\<rparr>\<rparr>]"

definition example_codec :: message_codec where
  "example_codec = \<lparr>cd_byName = [(''M'', 0), (''A'', 1), (''B'', 2)],
     cd_constraints = [[], [(0, [\<lparr>r_first = 1, r_last = 1\<rparr>])], [(0, [\<lparr>r_first = 0, r_last = 0\<rparr>])]],
     cd_selectors = [True, False, False], cd_err = None, cd_writeErr = None\<rparr>"

definition example_message :: dbc_message where
  "example_message = \<lparr>m_id = 0x123, m_extended = False, m_name = ''X'', m_length = 2,
     m_transmitters = [], m_signals = example_signals, m_groups = [],
     m_format = FrameFormatStandardCAN, m_attributes = [], m_comment = [], m_brs = False,
     m_codec = Some example_codec\<rparr>"

definition example_frame :: "byte \<Rightarrow> byte \<Rightarrow> frame" where
  "example_frame a b = \<lparr>f_id = 0x123, f_data = [a, b] @ replicate 62 0, f_dlc = 2, f_flags = 0\<rparr>"

lemma example_codec: "compileMessageCodec example_signals = example_codec"
  by code_simp

lemma example_layout:
  "list_all (\<lambda>s. validateSignalLayout 2 s = Inr () \<and> s_bits s \<le> 64) example_signals"
  "list_all (\<lambda>s. validateSignalLayout 2 s = Inr () \<and> float_width_ok s) example_signals"
  "distinct (map s_name example_signals)"
  by code_simp+

lemma resolved_example: "resolved example_message"
  using example_layout by (simp add: resolved_def example_message_def example_codec MaxStandardID_def)

lemma example_encodings:
  "EncodePayload (Some example_message) [(''M'', VBool True), (''A'', VString ''off'')] = Inr [0xf1, 0]"
  "Encode (Some example_message) [(''B'', VString ''run''), (''M'', VBool False)] = Inr (example_frame 0xa0 5)"
  "Patch rev (Some example_message) (Some (example_frame 0xf1 0)) [(''A'', VString ''on'')] =
     Inr (example_frame 0x31 0)"
  "wf_frame (example_frame 0xf1 0)"
  by code_simp+


theorem encoded_frame_decodes_witness:
  "Validate (example_frame 0xa0 5) = Inr () \<and> wf_frame (example_frame 0xa0 5) \<and>
    f_id (example_frame 0xa0 5) = m_id example_message \<and>
    list_all (\<lambda>s. Decode (Some example_message) (example_frame 0xa0 5) (s_name s) =
      Some (decoded_value [(''B'', VString ''run''), (''M'', VBool False)] s)) (m_signals example_message)"
  by (rule encoded_frame_decodes [OF resolved_example _ example_encodings(2)]) simp

theorem patched_frame_decodes_witness:
  "(\<exists>data. example_frame 0x31 0 =
      example_frame 0xf1 0\<lparr>f_data := data @ drop (DataLength (example_frame 0xf1 0)) (f_data (example_frame 0xf1 0))\<rparr> \<and>
      length data = DataLength (example_frame 0xf1 0)) \<and>
    list_all (\<lambda>s. case map_of [(''A'', VString ''on'')] (s_name s) of
        Some v \<Rightarrow> Decode (Some example_message) (example_frame 0x31 0) (s_name s) =
          Some (decoded_value [(''A'', VString ''on'')] s)
      | None \<Rightarrow> Decode (Some example_message) (example_frame 0x31 0) (s_name s) =
            Decode (Some example_message) (example_frame 0xf1 0) (s_name s) \<or>
          Decode (Some example_message) (example_frame 0x31 0) (s_name s) = Some (Inl (InactiveSignal (s_name s))))
      (m_signals example_message)"
  by (rule patched_frame_decodes [OF resolved_example example_encodings(4) _ _ example_encodings(3)]) simp_all


theorem decoding_ends_witness:
  "\<exists>r. DecodePayload (Some example_message) [0xf1, 0] ''A'' = Some r"
proof (rule decoding_ends)
  show "distinct (map s_name (m_signals example_message))" using example_layout(3) by (simp add: example_message_def)
qed (simp add: example_message_def example_codec)

end
