(* ===== verification/IsoTp_Frame.thy ===== *)
theory IsoTp_Frame
  imports Frame
begin

unbundle bit_operations_syntax

text \<open>
  The frames of ISO-TP (\<open>isotp/frame.go\<close> and the validators of \<open>isotp/isotp.go\<close>): the
  transmitter's configuration, the choice between a Single and a First Frame, padding to a
  legal CAN data length, and the parser of all four frame types. The central facts are that
  the parser reads back every frame the transmitter makes, and that a configuration that
  was accepted never fails to make a frame. Durations are nanoseconds.
\<close>

section \<open>Errors and protocol data units\<close>

datatype isotp_error =
    FlagsNotSupported u8
  | BitRateSwitchRequiresFD
  | BadTransmitID u32
  | BadReceiveID u32
  | BadTransmitDataLength nat
  | BadMinimumDataLength u8
  | NegativeRetryTimeout
  | NegativeSeparationTime
  | SeparationTimeNotEncodable int
  | NegativeTimeout
  | PayloadEmpty
  | PayloadTooLarge nat
  | ProtocolError
  | MakeFrameError frame_error
  | FirstFrameTimeout
  | FlowControlTimeout
  | ConsecutiveFrameTimeout
  | FlowControlOverflow
  | WaitFrameLimit
  | SendFailed nat
  | ReceiveFailed nat
  | OutOfRange
  | NegativeFirstFrameTimeout
  | ExchangeClosed
  | Blocked
  | OutOfFuel
  | Joined isotp_error isotp_error

definition frameSingle :: u8 where "frameSingle = 0"
definition frameFirst :: u8 where "frameFirst = 1"
definition frameConsecutive :: u8 where "frameConsecutive = 2"
definition frameFlowControl :: u8 where "frameFlowControl = 3"

definition flowContinue :: u8 where "flowContinue = 0"
definition flowWait :: u8 where "flowWait = 1"
definition flowOverflow :: u8 where "flowOverflow = 2"

lemmas kind_defs = frameSingle_def frameFirst_def frameConsecutive_def frameFlowControl_def
lemmas flow_defs = flowContinue_def flowWait_def flowOverflow_def

record pdu =
  pdu_kind :: u8
  pdu_payload :: bytes
  pdu_length :: u32
  pdu_dataLength :: nat
  pdu_sequence :: u8
  pdu_flowStatus :: u8
  pdu_blockSize :: u8
  pdu_separationTime :: int

record transmission =
  tm_firstFrame :: frame
  tm_payload :: bytes
  tm_offset :: nat
  tm_multiFrame :: bool

record transmitter =
  tx_transmitID :: u32
  tx_frameFlags :: u8
  tx_dataLength :: nat
  tx_minDataLength :: nat
  tx_paddingByte :: byte
  tx_maximumPayloadLength :: u32
  tx_retryTimeout :: int

section \<open>Configuration\<close>

definition defaultTransmitDataLength :: nat where "defaultTransmitDataLength = 8"

definition millisecond :: int where "millisecond = 1000000"
definition microsecond :: int where "microsecond = 1000"

definition id_ok :: "u32 \<Rightarrow> u8 \<Rightarrow> bool" where
  "id_ok ident flags \<longleftrightarrow>
     (if Has flags FrameExtended then \<not> ident > MaxExtendedID else \<not> ident > MaxStandardID)"

definition validateTransmitDataLength :: "nat \<Rightarrow> bool \<Rightarrow> isotp_error + unit" where
  "validateTransmitDataLength len fd =
     (if len = 8 \<or> fd \<and> len \<in> set [8, 12, 16, 20, 24, 32, 48, 64] then Inr ()
      else Inl (BadTransmitDataLength len))"

definition nearestCANFDLength :: "nat \<Rightarrow> nat" where
  "nearestCANFDLength len =
     (if len \<le> 8 then len else if len \<le> 12 then 12 else if len \<le> 16 then 16
      else if len \<le> 20 then 20 else if len \<le> 24 then 24 else if len \<le> 32 then 32
      else if len \<le> 48 then 48 else 64)"

definition newTransmitter :: "u32 \<Rightarrow> u8 \<Rightarrow> u8 \<Rightarrow> u8 \<Rightarrow> byte \<Rightarrow> int \<Rightarrow> isotp_error + transmitter" where
  "newTransmitter transmitID flags dataLength minDataLength paddingByte retryTimeout =
     (let unsupported = flags AND NOT (FrameExtended OR FrameFD OR FrameBitRateSwitch);
          transmitDataLength = (if unat dataLength = 0 then defaultTransmitDataLength else unat dataLength)
      in if unsupported \<noteq> 0 then Inl (FlagsNotSupported unsupported)
      else if Has flags FrameBitRateSwitch \<and> \<not> Has flags FrameFD then Inl BitRateSwitchRequiresFD
      else if \<not> id_ok transmitID flags then Inl (BadTransmitID transmitID)
      else ebind (validateTransmitDataLength transmitDataLength (Has flags FrameFD)) (\<lambda>_.
      if unat minDataLength > transmitDataLength \<or>
         nearestCANFDLength (unat minDataLength) \<noteq> unat minDataLength
        then Inl (BadMinimumDataLength minDataLength)
      else if retryTimeout < 0 then Inl NegativeRetryTimeout
      else Inr \<lparr>tx_transmitID = transmitID, tx_frameFlags = flags, tx_dataLength = transmitDataLength,
                tx_minDataLength = unat minDataLength, tx_paddingByte = paddingByte,
                tx_maximumPayloadLength = 0, tx_retryTimeout = retryTimeout\<rparr>))"

definition singleFrameCapacity :: "transmitter \<Rightarrow> u32" where
  "singleFrameCapacity tx =
     (if tx_dataLength tx \<le> 8 then word_of_nat (tx_dataLength tx) - 1
      else word_of_nat (tx_dataLength tx) - 2)"

definition configuredTimeout :: "int \<Rightarrow> int \<Rightarrow> isotp_error + int" where
  "configuredTimeout value defaultValue =
     (if value < 0 then Inl NegativeTimeout
      else if value = 0 then Inr defaultValue else Inr value)"

definition encodeSeparationTime :: "int \<Rightarrow> isotp_error + u8" where
  "encodeSeparationTime value =
     (if value < 0 then Inl NegativeSeparationTime
      else if value = 0 then Inr 0
      else if value mod millisecond = 0 \<and> value div millisecond \<le> 0x7f
        then Inr (word_of_int (value div millisecond))
      else if value mod (100 * microsecond) = 0 \<and> value div (100 * microsecond) \<ge> 1 \<and>
              value div (100 * microsecond) \<le> 9
        then Inr (0xf0 + word_of_int (value div (100 * microsecond)))
      else Inl (SeparationTimeNotEncodable value))"

definition decodeSeparationTime :: "byte \<Rightarrow> int" where
  "decodeSeparationTime v =
     (if v \<le> 0x7f then uint v * millisecond
      else if v \<ge> 0xf1 \<and> v \<le> 0xf9 then uint (v - 0xf0) * 100 * microsecond
      else 127 * millisecond)"

section \<open>Making frames\<close>

definition makeFrame :: "transmitter \<Rightarrow> bytes \<Rightarrow> bool \<Rightarrow> isotp_error + frame" where
  "makeFrame tx data fullLength =
     (if length data > tx_dataLength tx then Inl ProtocolError
      else
        let target0 = max (length data) (tx_minDataLength tx);
            targetLength = (if fullLength then tx_dataLength tx
              else if Has (tx_frameFlags tx) FrameFD then nearestCANFDLength target0 else target0)
        in if targetLength < length data \<or> targetLength > tx_dataLength tx then Inl ProtocolError
           else emap MakeFrameError (NewFrame (tx_transmitID tx)
             (if targetLength \<noteq> length data
              then data @ replicate (targetLength - length data) (tx_paddingByte tx) else data)
             (tx_frameFlags tx)))"

definition prepareTransmission :: "transmitter \<Rightarrow> bytes \<Rightarrow> isotp_error + transmission" where
  "prepareTransmission tx payload =
     (let n = length payload;
          escapeSingleFrame = n > 7 \<or> tx_minDataLength tx > 8;
          singleHeaderLength = (if escapeSingleFrame then 2 else 1)
      in if n = 0 then Inl PayloadEmpty
      else if n > unat (tx_maximumPayloadLength tx) then Inl (PayloadTooLarge n)
      else if int n \<le> int (tx_dataLength tx) - int singleHeaderLength
        then ebind (makeFrame tx ((if escapeSingleFrame then [0, word_of_nat n] else [word_of_nat n]) @ payload) False)
          (\<lambda>f. Inr \<lparr>tm_firstFrame = f, tm_payload = [], tm_offset = 0, tm_multiFrame = False\<rparr>)
      else
        let header = (if n > 0x0fff
              then [0x10, 0, ucast (drop_bit 24 (word_of_nat n :: u32)), ucast (drop_bit 16 (word_of_nat n :: u32)),
                    ucast (drop_bit 8 (word_of_nat n :: u32)), ucast (word_of_nat n :: u32)]
              else [0x10 OR word_of_nat (n div 256), word_of_nat n]);
            offset = min (tx_dataLength tx - length header) n;
            data = header @ take offset payload @ replicate (tx_dataLength tx - length header - offset) 0
        in ebind (makeFrame tx data True)
          (\<lambda>f. Inr \<lparr>tm_firstFrame = f, tm_payload = payload, tm_offset = offset, tm_multiFrame = True\<rparr>))"

section \<open>Parsing frames\<close>

definition blank_pdu :: "u8 \<Rightarrow> nat \<Rightarrow> pdu" where
  "blank_pdu kind dataLength = \<lparr>pdu_kind = kind, pdu_payload = [], pdu_length = 0,
     pdu_dataLength = dataLength, pdu_sequence = 0, pdu_flowStatus = 0, pdu_blockSize = 0,
     pdu_separationTime = 0\<rparr>"

definition parseFrame :: "frame \<Rightarrow> isotp_error + pdu" where
  "parseFrame f =
     (let dataLength = DataLength f; data = payload_of f;
          kind = drop_bit 4 (data ! 0); parsed = blank_pdu kind dataLength
      in if dataLength = 0 then Inl ProtocolError
      else if kind = frameSingle then
        (let short = unat (data ! 0 AND 0x0f) in
         if short = 0 then
           (if \<not> Has (f_flags f) FrameFD \<or> dataLength \<le> 8 \<or> dataLength < 2 then Inl ProtocolError
            else let len = unat (data ! 1) in
              if len = 0 then Inl ProtocolError
              else if int len > int dataLength - 2 then Inl ProtocolError
              else Inr (parsed\<lparr>pdu_payload := take len (drop 2 data)\<rparr>))
         else if dataLength > 8 then Inl ProtocolError
         else if int short > int dataLength - 1 then Inl ProtocolError
         else Inr (parsed\<lparr>pdu_payload := take short (drop 1 data)\<rparr>))
      else if kind = frameFirst then
        (if dataLength < 8 then Inl ProtocolError
         else let short = push_bit 8 (ucast (data ! 0 AND 0x0f) :: u32) OR ucast (data ! 1) in
           if short = 0 then
             (let long = push_bit 24 (ucast (data ! 2) :: u32) OR push_bit 16 (ucast (data ! 3)) OR
                         push_bit 8 (ucast (data ! 4)) OR ucast (data ! 5)
              in if long \<le> 0x0fff then Inl ProtocolError
                 else Inr (parsed\<lparr>pdu_length := long, pdu_payload := drop 6 data\<rparr>))
           else Inr (parsed\<lparr>pdu_length := short, pdu_payload := drop 2 data\<rparr>))
      else if kind = frameConsecutive then
        (if dataLength < 2 then Inl ProtocolError
         else Inr (parsed\<lparr>pdu_sequence := data ! 0 AND 0x0f, pdu_payload := drop 1 data\<rparr>))
      else if kind = frameFlowControl then
        (if dataLength < 3 then Inl ProtocolError
         else if data ! 0 AND 0x0f > flowOverflow then Inl ProtocolError
         else Inr (parsed\<lparr>pdu_flowStatus := data ! 0 AND 0x0f, pdu_blockSize := data ! 1,
                          pdu_separationTime := decodeSeparationTime (data ! 2)\<rparr>))
      else Inl ProtocolError)"

section \<open>Accepted configurations\<close>

definition wf_transmitter :: "transmitter \<Rightarrow> bool" where
  "wf_transmitter tx \<longleftrightarrow>
     tx_frameFlags tx AND NOT (FrameExtended OR FrameFD OR FrameBitRateSwitch) = 0 \<and>
     (Has (tx_frameFlags tx) FrameBitRateSwitch \<longrightarrow> Has (tx_frameFlags tx) FrameFD) \<and>
     id_ok (tx_transmitID tx) (tx_frameFlags tx) \<and>
     (tx_dataLength tx = 8 \<or> Has (tx_frameFlags tx) FrameFD \<and> tx_dataLength tx \<in> {8, 12, 16, 20, 24, 32, 48, 64}) \<and>
     tx_minDataLength tx \<le> tx_dataLength tx \<and>
     nearestCANFDLength (tx_minDataLength tx) = tx_minDataLength tx"

lemma newTransmitter_wf:
  assumes "newTransmitter ident flags dl mdl pad retry = Inr tx"
  shows "wf_transmitter (tx\<lparr>tx_maximumPayloadLength := m\<rparr>)"
  using assms
  by (auto simp: newTransmitter_def wf_transmitter_def Let_def ebind_Inr_iff validateTransmitDataLength_def
      split: if_splits)

lemma wf_transmitter_length:
  "wf_transmitter tx \<Longrightarrow> 8 \<le> tx_dataLength tx \<and> tx_dataLength tx \<le> 64"
  by (auto simp: wf_transmitter_def)

lemma wf_transmitter_fd: "wf_transmitter tx \<Longrightarrow> tx_dataLength tx > 8 \<Longrightarrow> Has (tx_frameFlags tx) FrameFD"
  by (auto simp: wf_transmitter_def)

lemma nearest_ge: "n \<le> 64 \<Longrightarrow> n \<le> nearestCANFDLength n"
  by (simp add: nearestCANFDLength_def)

lemma nearest_legal: "n \<le> 64 \<Longrightarrow> legal_length True (int (nearestCANFDLength n))"
  by (auto simp: nearestCANFDLength_def legal_length_def fd_lengths_def)

lemma nearest_le:
  assumes "n \<le> m" "m \<in> {8, 12, 16, 20, 24, 32, 48, 64}"
  shows "nearestCANFDLength n \<le> m"
  using assms by (auto simp: nearestCANFDLength_def)

lemma nearest_small: "n \<le> 8 \<Longrightarrow> nearestCANFDLength n = n"
  by (simp add: nearestCANFDLength_def)

text \<open>The bits the supported flags leave clear.\<close>

lemma flag_bits_supported:
  assumes "flags AND NOT (FrameExtended OR FrameFD OR FrameBitRateSwitch) = 0"
  shows "\<not> Has flags FrameRemote" "\<not> Has flags FrameErrorStateIndicator" "flags AND NOT allFrameFlags = 0"
proof -
  have sub: "flags AND m = 0" if "m AND (FrameExtended OR FrameFD OR FrameBitRateSwitch) = 0" for m
  proof -
    let ?x = "FrameExtended OR FrameFD OR FrameBitRateSwitch"
    have "flags AND m = (flags AND (m AND ?x)) OR ((flags AND NOT ?x) AND m)"
      by (rule bit_word_eqI) (auto simp: bit_simps)
    then show ?thesis unfolding that assms by simp
  qed
  show "\<not> Has flags FrameRemote" "\<not> Has flags FrameErrorStateIndicator" "flags AND NOT allFrameFlags = 0"
    unfolding Has_def not_not
    by (rule sub; simp add: flag_defs allFrameFlags_def)+
qed

text \<open>An accepted configuration makes a frame of any data that fits, and padding is all it adds.\<close>

lemma makeFrame_ok:
  assumes wf: "wf_transmitter tx" and len: "length data \<le> tx_dataLength tx"
  obtains f pad where "makeFrame tx data full = Inr f" "payload_of f = data @ replicate pad (tx_paddingByte tx)"
    "wf_frame f" "f_flags f = tx_frameFlags tx" "f_id f = tx_transmitID tx" "DataLength f = length data + pad"
    "DataLength f \<le> tx_dataLength tx" "full \<Longrightarrow> DataLength f = tx_dataLength tx" "tx_minDataLength tx \<le> DataLength f"
    "max (length data) (tx_minDataLength tx) \<le> 8 \<Longrightarrow> \<not> full \<Longrightarrow> DataLength f \<le> 8"
proof -
  let ?flags = "tx_frameFlags tx"
  define fd where "fd = Has ?flags FrameFD"
  define target0 where "target0 = max (length data) (tx_minDataLength tx)"
  define target where "target = (if full then tx_dataLength tx
    else if fd then nearestCANFDLength target0 else target0)"
  have dl: "tx_dataLength tx = 8 \<or> fd \<and> tx_dataLength tx \<in> {8, 12, 16, 20, 24, 32, 48, 64}"
    using wf by (simp add: wf_transmitter_def fd_def)
  have t0: "target0 \<le> tx_dataLength tx" "length data \<le> target0" "tx_minDataLength tx \<le> target0"
    using len wf by (simp_all add: target0_def wf_transmitter_def)
  have le64: "target0 \<le> 64" using t0 wf_transmitter_length [OF wf] by simp
  have t: "length data \<le> target" "target \<le> tx_dataLength tx" "tx_minDataLength tx \<le> target"
    using t0 le64 dl nearest_ge [OF le64] nearest_le [of target0 "tx_dataLength tx"]
    by (auto simp: target_def)
  have legal: "legal_length fd (int target)"
    using dl t0 nearest_legal [OF le64] by (auto simp: target_def legal_length_def fd_lengths_def)
  let ?data = "data @ replicate (target - length data) (tx_paddingByte tx)"
  have "is_ok (NewFrame (tx_transmitID tx) ?data ?flags)"
    using wf legal t flag_bits_supported [of ?flags]
    by (auto simp: NewFrame_ok_iff wf_transmitter_def fd_def id_ok_def not_less split: if_splits)
  then obtain f where f: "NewFrame (tx_transmitID tx) ?data ?flags = Inr f"
    by (auto simp: is_ok_iff)
  have "makeFrame tx data full = Inr f"
    using len t f unfolding makeFrame_def Let_def target0_def [symmetric] fd_def [symmetric] target_def [symmetric]
    by (cases "target = length data") auto
  moreover have "DataLength f = target"
    using NewFrame_DataLength [OF f] t by simp
  moreover have "max (length data) (tx_minDataLength tx) \<le> 8 \<Longrightarrow> \<not> full \<Longrightarrow> target \<le> 8"
    by (simp add: target_def target0_def nearest_small)
  ultimately show ?thesis
    using that [of f "target - length data"] NewFrame_payload [OF f] NewFrame_wf [OF f] NewFrame_fields [OF f] t
    by (simp add: target_def)
qed

section \<open>The parser reads back what the transmitter makes\<close>

lemma unat_u8 [simp]: "n < 256 \<Longrightarrow> unat (word_of_nat n :: u8) = n"
  by (simp add: unat_of_nat)

lemma nibble_single: "n < 16 \<Longrightarrow> drop_bit 4 (word_of_nat n :: u8) = 0 \<and> (word_of_nat n :: u8) AND 15 = word_of_nat n"
  using less_16_cases [of n] by auto

text \<open>The byte that carries a frame type and a nibble.\<close>

lemma nibble_tag:
  assumes "(s :: u8) \<le> 15"
  shows "drop_bit 4 (0x10 OR s) = 1" "(0x10 OR s) AND 15 = s"
    "drop_bit 4 (0x20 OR s) = 2" "(0x20 OR s) AND 15 = s"
    "drop_bit 4 (0x30 OR s) = 3" "(0x30 OR s) AND 15 = s"
proof -
  obtain k where "s = word_of_nat k" "k < 16" using assms by (rule u8_le_cases)
  then show "drop_bit 4 (0x10 OR s) = 1" "(0x10 OR s) AND 15 = s"
    "drop_bit 4 (0x20 OR s) = 2" "(0x20 OR s) AND 15 = s"
    "drop_bit 4 (0x30 OR s) = 3" "(0x30 OR s) AND 15 = s"
    using less_16_cases [of k] by (auto simp del: word_of_nat_eq_0_iff)
qed

text \<open>A 32 bit length in big-endian bytes, and a 12 bit one in a nibble and a byte.\<close>

lemma long_length:
  "push_bit 24 (ucast (ucast (drop_bit 24 w) :: u8) :: u32) OR push_bit 16 (ucast (ucast (drop_bit 16 w) :: u8)) OR
   push_bit 8 (ucast (ucast (drop_bit 8 w) :: u8)) OR ucast (ucast w :: u8) = (w :: u32)"
proof (rule bit_word_eqI)
  fix n
  assume "n < LENGTH(32)"
  then have "n < 8 \<or> 8 \<le> n \<and> n < 16 \<or> 16 \<le> n \<and> n < 24 \<or> 24 \<le> n \<and> n < 32" by auto
  then show "bit (push_bit 24 (ucast (ucast (drop_bit 24 w) :: u8) :: u32) OR push_bit 16 (ucast (ucast (drop_bit 16 w) :: u8)) OR
      push_bit 8 (ucast (ucast (drop_bit 8 w) :: u8)) OR ucast (ucast w :: u8)) n = bit w n"
    by (elim disjE conjE) (auto simp: bit_simps)
qed

lemma short_length:
  assumes "n < 4096"
  shows "push_bit 8 (ucast (word_of_nat (n div 256) :: u8) :: u32) OR ucast (word_of_nat n :: u8) = word_of_nat n"
    "(word_of_nat (n div 256) :: u8) \<le> 15"
proof -
  have d: "n div 256 < 16" using assms by (simp add: less_mult_imp_div_less)
  then show "(word_of_nat (n div 256) :: u8) \<le> 15"
    by (simp add: word_le_nat_alt)
  have hi: "ucast (word_of_nat (n div 256) :: u8) = (word_of_nat (n div 256) :: u32)"
    using d by (simp add: word_unat_eq_iff unsigned_ucast_eq unat_of_nat take_bit_eq_mod)
  have lo: "ucast (word_of_nat n :: u8) = (word_of_nat (n mod 256) :: u32)"
    by (simp add: word_unat_eq_iff unsigned_ucast_eq unat_of_nat take_bit_eq_mod)
  have "push_bit 8 (word_of_nat (n div 256) :: u32) AND word_of_nat (n mod 256) = 0"
  proof (rule bit_word_eqI)
    fix k
    show "bit (push_bit 8 (word_of_nat (n div 256) :: u32) AND word_of_nat (n mod 256)) k = bit (0 :: u32) k"
      using bit_take_bit_iff [of 8 n k] by (auto simp: bit_simps take_bit_eq_mod)
  qed
  then have "push_bit 8 (word_of_nat (n div 256) :: u32) OR word_of_nat (n mod 256) =
      push_bit 8 (word_of_nat (n div 256)) + word_of_nat (n mod 256)"
    by (simp add: disjunctive_add_eq_or)
  also have "\<dots> = word_of_nat (n div 256 * 256 + n mod 256)"
    unfolding of_nat_add of_nat_mult by (simp add: push_bit_eq_mult)
  finally show "push_bit 8 (ucast (word_of_nat (n div 256) :: u8) :: u32) OR ucast (word_of_nat n :: u8) = word_of_nat n"
    by (simp add: hi lo)
qed

lemma DataLength_gt8: "8 < DataLength f \<Longrightarrow> Has (f_flags f) FrameFD"
  using DataLength_classical [of f] by (cases "Has (f_flags f) FrameFD") auto

theorem single_frame_roundtrip:
  assumes wf: "wf_transmitter tx" and prep: "prepareTransmission tx payload = Inr t" and single: "\<not> tm_multiFrame t"
  shows "parseFrame (tm_firstFrame t) = Inr ((blank_pdu frameSingle (DataLength (tm_firstFrame t)))\<lparr>pdu_payload := payload\<rparr>)"
proof -
  define n where "n = length payload"
  define esc where "esc = (n > 7 \<or> tx_minDataLength tx > 8)"
  define header where "header = (if esc then [0, word_of_nat n] else [word_of_nat n] :: bytes)"
  have n: "0 < n" "int n \<le> int (tx_dataLength tx) - int (length header)"
    and make: "makeFrame tx (header @ payload) False = Inr (tm_firstFrame t)"
    using prep single unfolding prepareTransmission_def Let_def n_def [symmetric] esc_def [symmetric]
    by (auto simp: header_def ebind_Inr_iff split: if_splits)
  have fits: "length (header @ payload) \<le> tx_dataLength tx"
    using n by (simp add: n_def)
  obtain pad where f: "payload_of (tm_firstFrame t) = (header @ payload) @ replicate pad (tx_paddingByte tx)"
      "DataLength (tm_firstFrame t) = length (header @ payload) + pad"
      "tx_minDataLength tx \<le> DataLength (tm_firstFrame t)"
      "max (length (header @ payload)) (tx_minDataLength tx) \<le> 8 \<Longrightarrow> DataLength (tm_firstFrame t) \<le> 8"
    by (rule makeFrame_ok [OF wf fits, of False]) (use make in auto)
  have n256: "n < 256"
    using n(2) wf_transmitter_length [OF wf] by simp
  show ?thesis
  proof (cases esc)
    case True
    then have "8 < DataLength (tm_firstFrame t)" "header = [0, word_of_nat n]"
      using f(2,3) by (auto simp: header_def esc_def n_def)
    then show ?thesis
      using f(1,2) n256 n(1) DataLength_gt8 [of "tm_firstFrame t"]
      by (simp add: parseFrame_def Let_def kind_defs n_def)
  next
    case False
    then have "DataLength (tm_firstFrame t) \<le> 8" "header = [word_of_nat n]" "n < 8"
      using f(4) by (auto simp: header_def esc_def n_def)
    then show ?thesis
      using f(1,2) n256 n(1) nibble_single [of n]
      by (simp add: parseFrame_def Let_def kind_defs n_def)
  qed
qed

theorem first_frame_roundtrip:
  assumes wf: "wf_transmitter tx" and prep: "prepareTransmission tx payload = Inr t" and multi: "tm_multiFrame t"
  shows "parseFrame (tm_firstFrame t) = Inr ((blank_pdu frameFirst (tx_dataLength tx))
      \<lparr>pdu_length := word_of_nat (length payload), pdu_payload := take (tm_offset t) payload\<rparr>)"
    "tm_payload t = payload" "0 < tm_offset t" "tm_offset t < length payload" "7 < length payload"
    "length payload \<le> unat (tx_maximumPayloadLength tx)" "DataLength (tm_firstFrame t) = tx_dataLength tx"
proof -
  define n where "n = length payload"
  define header where "header = (if n > 0x0fff
              then [0x10, 0, ucast (drop_bit 24 (word_of_nat n :: u32)), ucast (drop_bit 16 (word_of_nat n :: u32)),
                    ucast (drop_bit 8 (word_of_nat n :: u32)), ucast (word_of_nat n :: u32)]
              else [0x10 OR word_of_nat (n div 256), word_of_nat n] :: bytes)"
  define offset where "offset = min (tx_dataLength tx - length header) n"
  define data where "data = header @ take offset payload @ replicate (tx_dataLength tx - length header - offset) 0"
  have n: "n \<le> unat (tx_maximumPayloadLength tx)" "0 < n"
    "\<not> int n \<le> int (tx_dataLength tx) - int (if n > 7 \<or> tx_minDataLength tx > 8 then 2 else 1)"
    and make: "makeFrame tx data True = Inr (tm_firstFrame t)"
    and t: "tm_payload t = payload" "tm_offset t = offset"
    using prep multi unfolding prepareTransmission_def Let_def n_def [symmetric] header_def [symmetric]
      offset_def [symmetric] data_def [symmetric]
    by (auto simp: ebind_Inr_iff split: if_splits)
  note dl = wf_transmitter_length [OF wf]
  have min: "tx_minDataLength tx > 8 \<Longrightarrow> tx_dataLength tx > 8"
    using wf by (auto simp: wf_transmitter_def)
  have "tx_dataLength tx > 8 \<Longrightarrow> tx_dataLength tx \<ge> 12"
    using wf by (auto simp: wf_transmitter_def)
  with n(3) dl min have n7: "7 < n" "int (tx_dataLength tx) - 2 < int n"
    by (auto split: if_splits)
  have hl: "length header = (if n > 4095 then 6 else 2)"
    by (simp add: header_def)
  have off: "offset = tx_dataLength tx - length header" "0 < offset" "offset < n"
    using n7 dl hl by (auto simp: offset_def min_def)
  have data: "data = header @ take offset payload" "length data = tx_dataLength tx"
    using off hl dl by (auto simp: data_def n_def)
  have f: "payload_of (tm_firstFrame t) = data" "DataLength (tm_firstFrame t) = tx_dataLength tx"
    by (rule makeFrame_ok [OF wf, of data True]; use make data(2) in auto)+
  show "tm_payload t = payload" "0 < tm_offset t" "tm_offset t < length payload" "7 < length payload"
      "length payload \<le> unat (tx_maximumPayloadLength tx)" "DataLength (tm_firstFrame t) = tx_dataLength tx"
    using t off n7 n f(2) by (simp_all add: n_def)
  have n32: "n < 4294967296"
    using n(1) unat_lt_u32 [of "tx_maximumPayloadLength tx"] by simp
  show "parseFrame (tm_firstFrame t) = Inr ((blank_pdu frameFirst (tx_dataLength tx))
      \<lparr>pdu_length := word_of_nat (length payload), pdu_payload := take (tm_offset t) payload\<rparr>)"
  proof (cases "n > 4095")
    case True
    then have h: "header = [0x10, 0, ucast (drop_bit 24 (word_of_nat n :: u32)), ucast (drop_bit 16 (word_of_nat n :: u32)),
        ucast (drop_bit 8 (word_of_nat n :: u32)), ucast (word_of_nat n :: u32)]"
      by (simp add: header_def)
    have "\<not> (word_of_nat n :: u32) \<le> 0x0fff"
      using True n32 by (simp add: word_le_nat_alt unat_of_nat)
    then show ?thesis
      using f data(1) dl long_length [of "word_of_nat n"] unfolding parseFrame_def Let_def t(2) n_def [symmetric]
      by (simp add: h kind_defs)
  next
    case False
    then have h: "header = [0x10 OR word_of_nat (n div 256), word_of_nat n]"
      by (simp add: header_def)
    note short = short_length [of n]
    have "(word_of_nat n :: u32) \<noteq> 0"
      using False n(2) by (simp add: word_unat_eq_iff unat_of_nat)
    then show ?thesis
      using f data(1) dl short nibble_tag(1,2) [OF short(2)] False unfolding parseFrame_def Let_def t(2) n_def [symmetric]
      by (simp add: h kind_defs)
  qed
qed

text \<open>A Consecutive Frame, and Flow Control.\<close>

theorem consecutive_frame_roundtrip:
  assumes wf: "wf_transmitter tx" and s: "s \<le> 15" and chunk: "0 < length chunk" "length chunk < tx_dataLength tx"
  obtains f pad where "makeFrame tx ((0x20 OR s) # chunk) False = Inr f"
    "parseFrame f = Inr ((blank_pdu frameConsecutive (DataLength f))
       \<lparr>pdu_sequence := s, pdu_payload := chunk @ replicate pad (tx_paddingByte tx)\<rparr>)"
    "Suc (length chunk) = tx_dataLength tx \<Longrightarrow> pad = 0 \<and> DataLength f = tx_dataLength tx"
proof -
  have len: "length ((0x20 OR s) # chunk) \<le> tx_dataLength tx"
    using chunk by simp
  obtain f pad where f: "makeFrame tx ((0x20 OR s) # chunk) False = Inr f"
    "payload_of f = ((0x20 OR s) # chunk) @ replicate pad (tx_paddingByte tx)"
    "DataLength f = length ((0x20 OR s) # chunk) + pad" "DataLength f \<le> tx_dataLength tx"
    by (rule makeFrame_ok [OF wf len, of False]) blast
  show ?thesis
    by (rule that [OF f(1), of pad]) (use f chunk nibble_tag(3,4) [OF s] in \<open>auto simp: parseFrame_def Let_def kind_defs\<close>)
qed

theorem flow_control_roundtrip:
  assumes wf: "wf_transmitter tx" and s: "s \<le> flowOverflow"
  obtains f where "makeFrame tx [0x30 OR s, bs, st] False = Inr f"
    "parseFrame f = Inr ((blank_pdu frameFlowControl (DataLength f))
       \<lparr>pdu_flowStatus := s, pdu_blockSize := bs, pdu_separationTime := decodeSeparationTime st\<rparr>)"
proof -
  have len: "length [0x30 OR s, bs, st] \<le> tx_dataLength tx"
    using wf_transmitter_length [OF wf] by simp
  obtain f pad where f: "makeFrame tx [0x30 OR s, bs, st] False = Inr f"
    "payload_of f = [0x30 OR s, bs, st] @ replicate pad (tx_paddingByte tx)"
    "DataLength f = length [0x30 OR s, bs, st] + pad"
    by (rule makeFrame_ok [OF wf len, of False]) blast
  have "s \<le> 15" using s by (simp add: flow_defs word_le_nat_alt)
  then show ?thesis
    by (intro that [OF f(1)]) (use f nibble_tag(5,6) [of s] s in \<open>auto simp: parseFrame_def Let_def kind_defs\<close>)
qed

section \<open>Separation times\<close>

text \<open>
  What the configuration can advertise is exactly what a byte can carry: a legal byte
  decodes to the time that encodes to it, and the reserved bytes decode to the longest time.
\<close>

definition legal_separation :: "byte \<Rightarrow> bool" where
  "legal_separation v \<longleftrightarrow> v \<le> 0x7f \<or> v \<ge> 0xf1 \<and> v \<le> 0xf9"

lemma encode_decode_separation:
  assumes "encodeSeparationTime t = Inr v"
  shows "decodeSeparationTime v = t \<and> legal_separation v"
proof -
  consider "t = 0" "v = 0"
    | k where "t = k * 1000000" "0 < k" "k \<le> 127" "v = word_of_int k"
    | k where "t = k * 100000" "1 \<le> k" "k \<le> 9" "v = 0xf0 + word_of_int k"
    using assms by (auto simp: encodeSeparationTime_def millisecond_def microsecond_def split: if_splits)
  then show ?thesis
  proof cases
    case (2 k)
    then have u: "uint v = k" by (simp add: unsigned_of_int take_bit_int_eq_self)
    then have "v \<le> 0x7f" using 2 by (simp add: word_le_def)
    then show ?thesis using u 2 by (simp add: decodeSeparationTime_def legal_separation_def millisecond_def)
  next
    case (3 k)
    then have "k = 1 \<or> k = 2 \<or> k = 3 \<or> k = 4 \<or> k = 5 \<or> k = 6 \<or> k = 7 \<or> k = 8 \<or> k = 9" by presburger
    then show ?thesis using 3 by (auto simp: decodeSeparationTime_def legal_separation_def microsecond_def)
  qed (simp add: decodeSeparationTime_def legal_separation_def)
qed

lemma decode_encode_separation:
  assumes "legal_separation v"
  shows "encodeSeparationTime (decodeSeparationTime v) = Inr v"
proof (cases "v \<le> 0x7f")
  case True
  then have u: "uint v \<le> 127" "0 \<le> uint v" by (simp_all add: word_le_def)
  show ?thesis
  proof (cases "v = 0")
    case False
    then have "uint v \<noteq> 0" by (simp add: uint_0_iff)
    then show ?thesis using True u by (simp add: encodeSeparationTime_def decodeSeparationTime_def millisecond_def)
  qed (simp add: encodeSeparationTime_def decodeSeparationTime_def)
next
  case False
  then have v: "0xf1 \<le> v" "v \<le> 0xf9" using assms by (auto simp: legal_separation_def)
  define k where "k = unat v"
  have k: "241 \<le> k" "k \<le> 249" "v = word_of_nat k"
    using v by (simp_all add: k_def word_le_nat_alt)
  then have "k = 241 \<or> k = 242 \<or> k = 243 \<or> k = 244 \<or> k = 245 \<or> k = 246 \<or> k = 247 \<or> k = 248 \<or> k = 249"
    by presburger
  then have "v = 0xf1 \<or> v = 0xf2 \<or> v = 0xf3 \<or> v = 0xf4 \<or> v = 0xf5 \<or> v = 0xf6 \<or> v = 0xf7 \<or> v = 0xf8 \<or> v = 0xf9"
    using k(3) by (elim disjE) simp_all
  then show ?thesis
    by (elim disjE) (simp_all add: encodeSeparationTime_def decodeSeparationTime_def millisecond_def microsecond_def)
qed

lemma decode_reserved_separation: "\<not> legal_separation v \<Longrightarrow> decodeSeparationTime v = 127 * millisecond"
  by (auto simp: legal_separation_def decodeSeparationTime_def)

text \<open>The encoder and the decoder of legal bytes form a codec.\<close>

interpretation separation: exact_codec encodeSeparationTime
  "\<lambda>v. if legal_separation v then Inr (decodeSeparationTime v) else Inl ()"
proof unfold_locales
  fix t v
  show "encodeSeparationTime t = Inr v \<Longrightarrow> (if legal_separation v then Inr (decodeSeparationTime v) else Inl ()) = Inr t"
    using encode_decode_separation by auto
  show "(if legal_separation v then Inr (decodeSeparationTime v) else Inl ()) = Inr t \<Longrightarrow> encodeSeparationTime t = Inr v"
    using decode_encode_separation by (auto split: if_splits)
qed

end
