(* ===== verification/IsoTp_Link.thy ===== *)
theory IsoTp_Link
  imports IsoTp_Frame Capture_Next
begin

unbundle bit_operations_syntax

text \<open>
  The ISO-TP link (\<open>isotp/isotp.go\<close>, \<open>transmit.go\<close>, \<open>receive.go\<close>, \<open>functional.go\<close> and
  \<open>internal/transport/cursor.go\<close>). An operation runs against a script of what its
  environment answers: the frames that arrive and the waits that end, the results of the
  bus sends, of the timers and of the lookups of the sent frame. The state records what the
  operation did: the frames it sent and the separation times it waited. Every behaviour of
  the bus and the peer is a script, so a theorem for all scripts is a theorem for all peers.
  A script that runs out is a peer that stays silent under a context that never ends.
\<close>

section \<open>The environment\<close>

datatype incoming = Arrive frame cursor | WaitExpired | CursorLost | WaitFailed nat

text \<open>A frame of the capture is a Go array of 64 bytes with its flags and length.\<close>

fun whole :: "incoming \<Rightarrow> bool" where
  "whole (Arrive f cu) = wf_frame f"
| "whole _ = True"

datatype next_error = DeadlineExceeded | NextOutOfRange | NextFailed nat | NeverReturns

record link =
  lk_transmitter :: transmitter
  lk_receiveKey :: frame_key
  lk_blockSize :: u8
  lk_separationTime :: u8
  lk_flowControlTimeout :: int
  lk_consecutiveFrameTimeout :: int
  lk_waitFrameLimit :: u8

record link_state =
  ls_cursor :: cursor
  ls_retaining :: bool
  ls_incoming :: "incoming list"
  ls_sends :: "nat option list"
  ls_timers :: "nat option list"
  ls_located :: "cursor option list"
  ls_sent :: "frame list"
  ls_waits :: "int list"

type_synonym 'a link_op = "link_state \<Rightarrow> (isotp_error + 'a) \<times> link_state"

definition lreturn :: "'a \<Rightarrow> 'a link_op" where
  "lreturn x s = (Inr x, s)"

definition lfail :: "isotp_error \<Rightarrow> 'a link_op" where
  "lfail e s = (Inl e, s)"

definition lbind :: "'a link_op \<Rightarrow> ('a \<Rightarrow> 'b link_op) \<Rightarrow> 'b link_op" where
  "lbind m f s = (case m s of (Inl e, s) \<Rightarrow> (Inl e, s) | (Inr x, s) \<Rightarrow> f x s)"

definition llift :: "isotp_error + 'a \<Rightarrow> 'a link_op" where
  "llift r s = (r, s)"

lemma link_op_simps [simp]:
  "lreturn x s = (Inr x, s)" "lfail e s = (Inl e, s)" "llift r s = (r, s)"
  by (simp_all add: lreturn_def lfail_def llift_def)

lemma lbind_llift [simp]: "lbind (llift (Inr x)) f = f x" "lbind (llift (Inl e)) f = lfail e"
  "lbind (lreturn x) f = f x"
  by (auto simp: lbind_def)

lemma lbind_Inr: "m s = (Inr x, s1) \<Longrightarrow> lbind m f s = f x s1"
  by (simp add: lbind_def)

lemma lbind_Inl: "m s = (Inl e, s1) \<Longrightarrow> lbind m f s = (Inl e, s1)"
  by (simp add: lbind_def)

lemma lbind_return_iff: "lbind m f s = (Inr y, s') \<longleftrightarrow> (\<exists>x s1. m s = (Inr x, s1) \<and> f x s1 = (Inr y, s'))"
  by (auto simp: lbind_def split: prod.splits sum.splits)

section \<open>Construction\<close>

record link_config =
  cf_transmitID :: u32
  cf_receiveID :: u32
  cf_frameFlags :: u8
  cf_transmitDataLength :: u8
  cf_transmitMinDataLength :: u8
  cf_paddingByte :: byte
  cf_maximumPayloadLength :: u32
  cf_blockSize :: u8
  cf_separationTime :: int
  cf_flowControlTimeout :: int
  cf_consecutiveFrameTimeout :: int
  cf_retryTimeout :: int
  cf_waitFrameLimit :: u8

definition defaultTimeout :: int where "defaultTimeout = 1000 * millisecond"
definition defaultMaximumPayloadLength :: u32 where "defaultMaximumPayloadLength = 4095"
definition defaultWaitFrameLimit :: u8 where "defaultWaitFrameLimit = 10"

definition NewLink :: "u16 \<Rightarrow> link_config \<Rightarrow> isotp_error + link" where
  "NewLink busID config =
     ebind (newTransmitter (cf_transmitID config) (cf_frameFlags config) (cf_transmitDataLength config)
       (cf_transmitMinDataLength config) (cf_paddingByte config) (cf_retryTimeout config)) (\<lambda>tx.
     if \<not> id_ok (cf_receiveID config) (cf_frameFlags config) then Inl (BadReceiveID (cf_receiveID config))
     else ebind (encodeSeparationTime (cf_separationTime config)) (\<lambda>separationTime.
     ebind (configuredTimeout (cf_flowControlTimeout config) defaultTimeout) (\<lambda>flowControlTimeout.
     ebind (configuredTimeout (cf_consecutiveFrameTimeout config) defaultTimeout) (\<lambda>consecutiveFrameTimeout.
     Inr \<lparr>lk_transmitter = tx\<lparr>tx_maximumPayloadLength :=
            (if cf_maximumPayloadLength config = 0 then defaultMaximumPayloadLength
             else cf_maximumPayloadLength config)\<rparr>,
          lk_receiveKey = \<lparr>k_id = cf_receiveID config, k_bus = busID,
            k_direction = DirectionReceive, k_extended = Has (cf_frameFlags config) FrameExtended\<rparr>,
          lk_blockSize = cf_blockSize config, lk_separationTime = separationTime,
          lk_flowControlTimeout = flowControlTimeout,
          lk_consecutiveFrameTimeout = consecutiveFrameTimeout,
          lk_waitFrameLimit = (if cf_waitFrameLimit config = 0 then defaultWaitFrameLimit
            else cf_waitFrameLimit config)\<rparr>))))"

definition NewFunctional :: "u32 \<Rightarrow> u8 \<Rightarrow> u8 \<Rightarrow> u8 \<Rightarrow> byte \<Rightarrow> int \<Rightarrow> isotp_error + transmitter" where
  "NewFunctional transmitID flags dataLength minDataLength paddingByte retryTimeout =
     ebind (newTransmitter transmitID flags dataLength minDataLength paddingByte retryTimeout)
       (\<lambda>tx. Inr (tx\<lparr>tx_maximumPayloadLength := singleFrameCapacity tx\<rparr>))"

section \<open>Primitives\<close>

definition sendFrame :: "frame \<Rightarrow> unit link_op" where
  "sendFrame f s = (case ls_sends s of
       [] \<Rightarrow> (Inr (), s\<lparr>ls_sent := ls_sent s @ [f]\<rparr>)
     | None # rest \<Rightarrow> (Inr (), s\<lparr>ls_sends := rest, ls_sent := ls_sent s @ [f]\<rparr>)
     | Some e # rest \<Rightarrow> (Inl (SendFailed e), s\<lparr>ls_sends := rest\<rparr>))"

definition nextFrame :: "link_state \<Rightarrow> (next_error + frame) \<times> link_state" where
  "nextFrame s = (case ls_incoming s of
       [] \<Rightarrow> (Inl NeverReturns, s)
     | Arrive f cu # rest \<Rightarrow> (Inr f, s\<lparr>ls_incoming := rest, ls_cursor := cu\<rparr>)
     | WaitExpired # rest \<Rightarrow> (Inl DeadlineExceeded, s\<lparr>ls_incoming := rest\<rparr>)
     | CursorLost # rest \<Rightarrow> (Inl NextOutOfRange, s\<lparr>ls_incoming := rest, ls_cursor := zero_cursor\<rparr>)
     | WaitFailed e # rest \<Rightarrow> (Inl (NextFailed e), s\<lparr>ls_incoming := rest\<rparr>))"

text \<open>The deadline of the wait itself is \<open>timeoutError\<close>; any other end is passed on.\<close>

fun next_failure :: "isotp_error \<Rightarrow> next_error \<Rightarrow> isotp_error" where
  "next_failure timeoutError DeadlineExceeded = timeoutError"
| "next_failure timeoutError NextOutOfRange = OutOfRange"
| "next_failure timeoutError (NextFailed e) = ReceiveFailed e"
| "next_failure timeoutError NeverReturns = Blocked"

definition nextPDUWithTimeout :: "isotp_error \<Rightarrow> pdu link_op" where
  "nextPDUWithTimeout timeoutError s = (case nextFrame s of
       (Inl e, s) \<Rightarrow> (Inl (next_failure timeoutError e), s)
     | (Inr f, s) \<Rightarrow> (parseFrame f, s))"

definition waitContext :: "int \<Rightarrow> unit link_op" where
  "waitContext duration s =
     (if duration \<le> 0 then (Inr (), s)
      else case ls_timers s of
          [] \<Rightarrow> (Inr (), s\<lparr>ls_waits := ls_waits s @ [duration]\<rparr>)
        | None # rest \<Rightarrow> (Inr (), s\<lparr>ls_timers := rest, ls_waits := ls_waits s @ [duration]\<rparr>)
        | Some e # rest \<Rightarrow> (Inl (ReceiveFailed e), s\<lparr>ls_timers := rest\<rparr>))"

text \<open>
  \<open>transport.SentCursor\<close> on a capture: \<open>Next\<close> under a context that has already ended, so
  it returns what the retained records hold and never waits.
\<close>

definition SentCursor :: "u16 \<Rightarrow> frame \<Rightarrow> cursor \<Rightarrow> capture \<Rightarrow> capture_error + cursor" where
  "SentCursor busID f cur c =
     ebind (nextSearchLocked \<lparr>k_id = f_id f, k_bus = busID, k_direction = DirectionTransmit,
              k_extended = Has (f_flags f) FrameExtended\<rparr> cur c) (\<lambda>search.
     ebind (find_next search) (\<lambda>found. case found of
         Some (_, cu) \<Rightarrow> Inr cu
       | None \<Rightarrow> Inl (CursorOutOfRange cur)))"

text \<open>Its scripted result within an operation; a lost cursor resets the receive position.\<close>

definition repositionCursor :: "unit link_op" where
  "repositionCursor s = (case ls_located s of
       Some cu # rest \<Rightarrow> (Inr (), s\<lparr>ls_located := rest, ls_cursor := cu\<rparr>)
     | None # rest \<Rightarrow> (Inl OutOfRange, s\<lparr>ls_located := rest, ls_cursor := zero_cursor\<rparr>)
     | [] \<Rightarrow> (Inl OutOfRange, s\<lparr>ls_cursor := zero_cursor\<rparr>))"

section \<open>Transmission\<close>

function waitFlowControl_from :: "link \<Rightarrow> nat \<Rightarrow> pdu link_op" where
  "waitFlowControl_from link waitFrames =
     lbind (nextPDUWithTimeout FlowControlTimeout) (\<lambda>control.
       if pdu_kind control \<noteq> frameFlowControl then lfail ProtocolError
       else if pdu_flowStatus control = flowContinue then lreturn control
       else if pdu_flowStatus control = flowWait then
         (if waitFrames + 1 > unat (lk_waitFrameLimit link) then lfail WaitFrameLimit
          else waitFlowControl_from link (waitFrames + 1))
       else lfail FlowControlOverflow)"
  by pat_completeness auto
termination
  by (relation "measure (\<lambda>(link, n). Suc (unat (lk_waitFrameLimit link)) - n)") auto

declare waitFlowControl_from.simps [simp del]

definition waitFlowControl :: "link \<Rightarrow> pdu link_op" where
  "waitFlowControl link = waitFlowControl_from link 0"

text \<open>
  One block of Consecutive Frames. The loop returns the next offset and sequence number.
  Each round takes a byte at least, so the payload's length is fuel enough.
\<close>

fun sendBlock :: "nat \<Rightarrow> link \<Rightarrow> pdu \<Rightarrow> bytes \<Rightarrow> nat \<Rightarrow> u8 \<Rightarrow> u8 \<Rightarrow> (nat \<times> u8) link_op" where
  "sendBlock fuel link control payload offset sequence blockCount =
     (if \<not> (offset < length payload \<and> (pdu_blockSize control = 0 \<or> blockCount < pdu_blockSize control))
      then lreturn (offset, sequence)
      else case fuel of
          0 \<Rightarrow> lfail OutOfFuel
        | Suc fuel' \<Rightarrow>
            lbind (waitContext (pdu_separationTime control)) (\<lambda>_.
            let capacity = tx_dataLength (lk_transmitter link) - 1;
                stop = min (offset + capacity) (length payload)
            in lbind (llift (makeFrame (lk_transmitter link)
                   ((0x20 OR sequence) # take (stop - offset) (drop offset payload)) False)) (\<lambda>f.
            lbind (sendFrame f) (\<lambda>_.
            sendBlock fuel' link control payload stop ((sequence + 1) AND 0x0f) (blockCount + 1)))))"

declare sendBlock.simps [simp del]

fun sendSegments :: "nat \<Rightarrow> link \<Rightarrow> bytes \<Rightarrow> nat \<Rightarrow> u8 \<Rightarrow> unit link_op" where
  "sendSegments fuel link payload offset sequence =
     (if \<not> offset < length payload then lreturn ()
      else case fuel of
          0 \<Rightarrow> lfail OutOfFuel
        | Suc fuel' \<Rightarrow>
            lbind (waitFlowControl link) (\<lambda>control.
            lbind (sendBlock (length payload) link control payload offset sequence 0) (\<lambda>(offset, sequence).
            sendSegments fuel' link payload offset sequence)))"

declare sendSegments.simps [simp del]

definition transmit :: "link \<Rightarrow> transmission \<Rightarrow> bool \<Rightarrow> unit link_op" where
  "transmit link t reposition =
     lbind (sendFrame (tm_firstFrame t)) (\<lambda>_.
     lbind (if reposition then repositionCursor else lreturn ()) (\<lambda>_.
     if \<not> tm_multiFrame t then lreturn ()
     else sendSegments (length (tm_payload t)) link (tm_payload t) (tm_offset t) 1))"

section \<open>Reception\<close>

definition sendFlowControl :: "link \<Rightarrow> u8 \<Rightarrow> unit link_op" where
  "sendFlowControl link status =
     lbind (llift (makeFrame (lk_transmitter link)
       [0x30 OR status, lk_blockSize link, lk_separationTime link] False)) sendFrame"

fun receiveLoop :: "nat \<Rightarrow> link \<Rightarrow> pdu \<Rightarrow> nat \<Rightarrow> bytes \<Rightarrow> u8 \<Rightarrow> u8 \<Rightarrow> bytes link_op" where
  "receiveLoop fuel link first expected payload expectedSequence blockCount =
     (if \<not> length payload < expected then lreturn payload
      else case fuel of
          0 \<Rightarrow> lfail OutOfFuel
        | Suc fuel' \<Rightarrow>
            lbind (nextPDUWithTimeout ConsecutiveFrameTimeout) (\<lambda>consecutive.
            if pdu_kind consecutive \<noteq> frameConsecutive then lfail ProtocolError
            else if pdu_sequence consecutive \<noteq> expectedSequence then lfail ProtocolError
            else
              let remaining = expected - length payload in
              if length (pdu_payload consecutive) < remaining \<and>
                 pdu_dataLength consecutive \<noteq> pdu_dataLength first then lfail ProtocolError
              else
                let payload = payload @ take remaining (pdu_payload consecutive);
                    blockCount = blockCount + 1
                in if lk_blockSize link > 0 \<and> blockCount = lk_blockSize link \<and> length payload < expected
                   then lbind (sendFlowControl link flowContinue) (\<lambda>_.
                     receiveLoop fuel' link first expected payload ((expectedSequence + 1) AND 0x0f) 0)
                   else receiveLoop fuel' link first expected payload ((expectedSequence + 1) AND 0x0f) blockCount))"

declare receiveLoop.simps [simp del]

definition receiveMultiFrame :: "link \<Rightarrow> pdu \<Rightarrow> bytes link_op" where
  "receiveMultiFrame link first =
     (if pdu_length first \<le> 7 then lfail ProtocolError
      else if pdu_length first > tx_maximumPayloadLength (lk_transmitter link)
        then (\<lambda>s. let payloadError = PayloadTooLarge (unat (pdu_length first)) in
          case sendFlowControl link flowOverflow s of
            (Inl e, s) \<Rightarrow> (Inl (Joined payloadError e), s)
          | (Inr _, s) \<Rightarrow> (Inl payloadError, s))
      else
        let expected = unat (pdu_length first) in
        if expected \<le> length (pdu_payload first) then lfail ProtocolError
        else lbind (sendFlowControl link flowContinue) (\<lambda>_.
          receiveLoop expected link first expected (pdu_payload first) 1 0))"

definition receive :: "link \<Rightarrow> bytes link_op" where
  "receive link s = (case nextFrame s of
       (Inl e, s) \<Rightarrow> (Inl (next_failure FirstFrameTimeout e), s)
     | (Inr f, s) \<Rightarrow> lbind (llift (parseFrame f)) (\<lambda>first.
         if pdu_kind first = frameSingle then
           (if length (pdu_payload first) > unat (tx_maximumPayloadLength (lk_transmitter link))
            then lfail (PayloadTooLarge (length (pdu_payload first)))
            else lreturn (pdu_payload first))
         else if pdu_kind first = frameFirst then receiveMultiFrame link first
         else lfail ProtocolError) s)"

section \<open>Link operations\<close>

text \<open>
  \<open>endCursor\<close> is the capture's end at the operation. The two tokens serialise operations,
  so one operation at a time runs on the state.
\<close>

definition startReception :: "cursor \<Rightarrow> bool \<Rightarrow> link_state \<Rightarrow> link_state" where
  "startReception endCursor reset s =
     s\<lparr>ls_cursor := (if reset then endCursor else ls_cursor s), ls_retaining := True\<rparr>"

definition finishReception :: "link_state \<Rightarrow> link_state" where
  "finishReception s = s\<lparr>ls_retaining := False\<rparr>"

definition RetentionCursor :: "cursor \<Rightarrow> link_state \<Rightarrow> cursor" where
  "RetentionCursor endCursor s = (if ls_retaining s then ls_cursor s else endCursor)"

definition SendPayload :: "link \<Rightarrow> cursor \<Rightarrow> bytes \<Rightarrow> unit link_op" where
  "SendPayload link endCursor payload s = (case prepareTransmission (lk_transmitter link) payload of
       Inl e \<Rightarrow> (Inl e, s)
     | Inr t \<Rightarrow>
         if tm_multiFrame t
         then (case transmit link t True (startReception endCursor True s) of (r, s) \<Rightarrow> (r, finishReception s))
         else transmit link t False s)"

definition ReceivePayload :: "link \<Rightarrow> bytes link_op" where
  "ReceivePayload link s =
     (case receive link (startReception zero_cursor False s) of (r, s) \<Rightarrow> (r, finishReception s))"

definition ResetLink :: "cursor \<Rightarrow> link_state \<Rightarrow> link_state" where
  "ResetLink endCursor s = finishReception (startReception endCursor True s)"

definition BeginExchange :: "link \<Rightarrow> cursor \<Rightarrow> bytes \<Rightarrow> unit link_op" where
  "BeginExchange link endCursor payload s = (case prepareTransmission (lk_transmitter link) payload of
       Inl e \<Rightarrow> (Inl e, s)
     | Inr t \<Rightarrow> (case transmit link t True (startReception endCursor True s) of
           (Inl e, s) \<Rightarrow> (Inl e, finishReception s)
         | (Inr u, s) \<Rightarrow> (Inr u, s)))"

definition ExchangeNext :: "link \<Rightarrow> bool \<Rightarrow> int \<Rightarrow> bytes link_op" where
  "ExchangeNext link closed firstFrameTimeout s =
     (if firstFrameTimeout < 0 then (Inl NegativeFirstFrameTimeout, s)
      else if closed then (Inl ExchangeClosed, s)
      else receive link s)"

definition FunctionalSend :: "transmitter \<Rightarrow> bytes \<Rightarrow> unit link_op" where
  "FunctionalSend tx payload s = (case prepareTransmission tx payload of
       Inl e \<Rightarrow> (Inl e, s)
     | Inr t \<Rightarrow> sendFrame (tm_firstFrame t) s)"

section \<open>The frames of a segmented payload\<close>

text \<open>
  The reference: the payload behind the First Frame is cut into chunks that fill a frame
  each, and chunk \<open>i\<close> travels in a Consecutive Frame with the sequence number \<open>i mod 16\<close>.
\<close>

function chop :: "nat \<Rightarrow> 'a list \<Rightarrow> 'a list list" where
  "chop k xs = (if k = 0 \<or> xs = [] then [] else take k xs # chop k (drop k xs))"
  by pat_completeness auto
termination by (relation "measure (\<lambda>(k, xs). length xs)") auto

declare chop.simps [simp del]

definition seq_of :: "nat \<Rightarrow> u8" where
  "seq_of i = word_of_nat (i mod 16)"

definition cf_frame :: "transmitter \<Rightarrow> nat \<Rightarrow> bytes \<Rightarrow> frame" where
  "cf_frame tx i chunk = projr (makeFrame tx ((0x20 OR seq_of i) # chunk) False)"

fun cf_frames :: "transmitter \<Rightarrow> nat \<Rightarrow> bytes list \<Rightarrow> frame list" where
  "cf_frames tx i [] = []"
| "cf_frames tx i (piece # pieces) = cf_frame tx i piece # cf_frames tx (Suc i) pieces"

definition segments :: "transmitter \<Rightarrow> bytes \<Rightarrow> nat \<Rightarrow> nat \<Rightarrow> frame list" where
  "segments tx payload i offset = cf_frames tx i (chop (tx_dataLength tx - 1) (drop offset payload))"

lemma seq_of_le: "seq_of i \<le> 15"
  by (simp add: seq_of_def word_le_nat_alt unat_of_nat less_Suc_eq_le [symmetric])

lemma seq_of_1: "seq_of (Suc 0) = 1"
  by (simp add: seq_of_def)

lemma seq_of_step: "(seq_of i + 1) AND 0x0f = seq_of (Suc i)"
proof -
  have "Suc i mod 16 = Suc (i mod 16) mod 16" by (simp add: mod_Suc_eq)
  moreover have "i mod 16 < 16" by simp
  ultimately show ?thesis
    using less_16_cases [OF \<open>i mod 16 < 16\<close>] unfolding seq_of_def by (elim disjE) simp_all
qed

lemma segments_done: "length payload \<le> offset \<Longrightarrow> segments tx payload i offset = []"
  by (simp add: segments_def chop.simps)

lemma segments_step:
  assumes wf: "wf_transmitter tx" and offset: "offset < length payload"
  defines "stop \<equiv> min (offset + (tx_dataLength tx - 1)) (length payload)"
  shows "segments tx payload i offset =
      cf_frame tx i (take (stop - offset) (drop offset payload)) # segments tx payload (Suc i) stop"
    "offset < stop" "stop \<le> length payload"
    "0 < length (take (stop - offset) (drop offset payload))"
    "length (take (stop - offset) (drop offset payload)) < tx_dataLength tx"
    "stop < length payload \<Longrightarrow> Suc (length (take (stop - offset) (drop offset payload))) = tx_dataLength tx"
proof -
  have dl: "8 \<le> tx_dataLength tx" using wf_transmitter_length [OF wf] by simp
  let ?cap = "tx_dataLength tx - 1"
  have "take ?cap (drop offset payload) = take (stop - offset) (drop offset payload)"
    by (auto simp: stop_def min_def)
  moreover have "drop ?cap (drop offset payload) = drop stop payload"
    by (auto simp: stop_def min_def add.commute)
  ultimately show "segments tx payload i offset =
      cf_frame tx i (take (stop - offset) (drop offset payload)) # segments tx payload (Suc i) stop"
    using dl offset unfolding segments_def by (subst chop.simps) simp
qed (use wf_transmitter_length [OF wf] offset in \<open>auto simp: stop_def\<close>)

lemma cf_frame_ok:
  assumes "wf_transmitter tx" "0 < length chunk" "length chunk < tx_dataLength tx"
  shows "makeFrame tx ((0x20 OR seq_of i) # chunk) False = Inr (cf_frame tx i chunk)"
  by (rule consecutive_frame_roundtrip [OF assms(1) seq_of_le [of i] assms(2,3)]) (simp add: cf_frame_def)

section \<open>A sender sends exactly the segments\<close>

text \<open>
  Whatever the script: what was sent is a prefix of the segments, all of them when the
  operation succeeds. The fuel is enough, so the loops end.
\<close>

lemma sendFrame_cases:
  obtains e where "sendFrame f s = (Inl (SendFailed e), s\<lparr>ls_sends := tl (ls_sends s)\<rparr>)"
  | s' where "sendFrame f s = (Inr (), s')" "ls_sent s' = ls_sent s @ [f]"
  by (cases "ls_sends s"; cases "hd (ls_sends s)") (auto simp: sendFrame_def)

lemma waitContext_sent: "waitContext d s = (r, s') \<Longrightarrow> ls_sent s' = ls_sent s \<and> r \<noteq> Inl OutOfFuel"
  by (auto simp: waitContext_def split: if_splits list.splits option.splits)

lemma sendBlock_step:
  assumes wf: "wf_transmitter (lk_transmitter link)"
    and more: "offset < length payload \<and> (pdu_blockSize control = 0 \<or> bc < pdu_blockSize control)"
  defines "stop \<equiv> min (offset + (tx_dataLength (lk_transmitter link) - 1)) (length payload)"
  shows "sendBlock (Suc fuel) link control payload offset (seq_of i) bc = lbind (waitContext (pdu_separationTime control)) (\<lambda>_.
        lbind (sendFrame (cf_frame (lk_transmitter link) i (take (stop - offset) (drop offset payload))))
          (\<lambda>_. sendBlock fuel link control payload stop (seq_of (Suc i)) (bc + 1)))"
  using cf_frame_ok [OF wf segments_step(4,5) [OF wf conjunct1 [OF more]], of i] more
  by (subst sendBlock.simps) (simp add: Let_def stop_def seq_of_step)

lemma sendBlock_safe:
  assumes wf: "wf_transmitter (lk_transmitter link)"
  shows "sendBlock fuel link control payload offset (seq_of i) bc s = (r, s') \<Longrightarrow>
    length payload - offset \<le> fuel \<Longrightarrow>
    \<exists>n. ls_sent s' = ls_sent s @ take n (segments (lk_transmitter link) payload i offset) \<and>
      r \<noteq> Inl OutOfFuel \<and>
      (\<forall>offset' sequence'. r = Inr (offset', sequence') \<longrightarrow> sequence' = seq_of (i + n) \<and> offset \<le> offset' \<and>
         segments (lk_transmitter link) payload (i + n) offset' = drop n (segments (lk_transmitter link) payload i offset) \<and>
         (offset < length payload \<longrightarrow> pdu_blockSize control = 0 \<or> bc < pdu_blockSize control \<longrightarrow> offset < offset'))"
proof (induction fuel arbitrary: offset i bc s)
  case 0
  then show ?case
    by (intro exI [of _ 0]) (auto simp: sendBlock.simps split: if_splits)
next
  case (Suc fuel)
  let ?tx = "lk_transmitter link"
  show ?case
  proof (cases "offset < length payload \<and> (pdu_blockSize control = 0 \<or> bc < pdu_blockSize control)")
    case False
    then show ?thesis
      using Suc.prems by (intro exI [of _ 0]) (auto simp: sendBlock.simps split: if_splits)
  next
    case True
    define stop where "stop = min (offset + (tx_dataLength ?tx - 1)) (length payload)"
    note step = segments_step [OF wf conjunct1 [OF True], folded stop_def]
    let ?f = "cf_frame ?tx i (take (stop - offset) (drop offset payload))"
    note make = cf_frame_ok [OF wf step(4,5), of i]
    obtain rw sw where w: "waitContext (pdu_separationTime control) s = (rw, sw)" by fastforce
    note ws = waitContext_sent [OF w]
    note eq = sendBlock_step [OF wf True, of fuel i, folded stop_def]
    show ?thesis
    proof (cases rw)
      case (Inl e)
      then show ?thesis
        using Suc.prems(1) ws unfolding eq
        by (intro exI [of _ 0]) (auto simp: lbind_def w)
    next
      case (Inr u)
      show ?thesis
      proof (rule sendFrame_cases [of ?f sw])
        fix e
        assume "sendFrame ?f sw = (Inl (SendFailed e), sw\<lparr>ls_sends := tl (ls_sends sw)\<rparr>)"
        then show ?thesis
          using Suc.prems(1) ws Inr unfolding eq
          by (intro exI [of _ 0]) (auto simp: lbind_def w)
      next
        fix s1
        assume s1: "sendFrame ?f sw = (Inr (), s1)" "ls_sent s1 = ls_sent sw @ [?f]"
        then have rec: "sendBlock fuel link control payload stop (seq_of (Suc i)) (bc + 1) s1 = (r, s')"
          using Suc.prems(1) Inr unfolding eq by (simp add: lbind_def w)
        have "length payload - stop \<le> fuel" using Suc.prems(2) step(2) by simp
        from Suc.IH [OF rec this] obtain n where n:
          "ls_sent s' = ls_sent s1 @ take n (segments ?tx payload (Suc i) stop)" "r \<noteq> Inl OutOfFuel"
          "\<forall>offset' sequence'. r = Inr (offset', sequence') \<longrightarrow> sequence' = seq_of (Suc i + n) \<and> stop \<le> offset' \<and>
            segments ?tx payload (Suc i + n) offset' = drop n (segments ?tx payload (Suc i) stop)"
          by blast
        show ?thesis
          by (rule exI [of _ "Suc n"]) (use n s1(2) ws step(1) [of i] step(2) in auto)
      qed
    qed
  qed
qed

lemma parseFrame_error: "parseFrame f = Inl e \<Longrightarrow> e = ProtocolError"
  by (auto simp: parseFrame_def Let_def split: if_splits)

lemma nextPDU_sent:
  assumes "nextPDUWithTimeout t s = (r, s')"
  shows "ls_sent s' = ls_sent s \<and> ls_waits s' = ls_waits s \<and> (t \<noteq> OutOfFuel \<longrightarrow> r \<noteq> Inl OutOfFuel)"
proof -
  have "next_failure t e = OutOfFuel \<Longrightarrow> t = OutOfFuel" for e by (cases e) auto
  then show ?thesis
    using assms parseFrame_error
    by (fastforce simp: nextPDUWithTimeout_def nextFrame_def split: list.splits incoming.splits)
qed

lemma waitFlowControl_from_sent:
  "waitFlowControl_from link n s = (r, s') \<Longrightarrow> ls_sent s' = ls_sent s \<and> r \<noteq> Inl OutOfFuel"
proof (induction link n arbitrary: s rule: waitFlowControl_from.induct)
  case (1 link n)
  obtain r1 s1 where r1: "nextPDUWithTimeout FlowControlTimeout s = (r1, s1)" by fastforce
  note sent = nextPDU_sent [OF r1]
  show ?case
  proof (cases r1)
    case (Inl e)
    then show ?thesis
      using "1.prems" sent r1 by (subst (asm) waitFlowControl_from.simps) (auto simp: lbind_def)
  next
    case (Inr control)
    show ?thesis
      using "1.prems" "1.IH" [of control s1] sent r1 Inr
      by (subst (asm) waitFlowControl_from.simps) (auto simp: lbind_def split: if_splits)
  qed
qed

lemma sendSegments_safe:
  assumes wf: "wf_transmitter (lk_transmitter link)"
  shows "sendSegments fuel link payload offset (seq_of i) s = (r, s') \<Longrightarrow> length payload - offset \<le> fuel \<Longrightarrow>
    \<exists>n. ls_sent s' = ls_sent s @ take n (segments (lk_transmitter link) payload i offset) \<and> r \<noteq> Inl OutOfFuel \<and>
      (r = Inr () \<longrightarrow> ls_sent s' = ls_sent s @ segments (lk_transmitter link) payload i offset)"
proof (induction fuel arbitrary: offset i s)
  case 0
  then show ?case
    by (intro exI [of _ 0]) (auto simp: sendSegments.simps segments_done split: if_splits)
next
  case (Suc fuel)
  let ?segs = "segments (lk_transmitter link) payload"
  show ?case
  proof (cases "offset < length payload")
    case False
    then show ?thesis
      using Suc.prems by (intro exI [of _ 0]) (auto simp: sendSegments.simps segments_done)
  next
    case True
    obtain r1 s1 where r1: "waitFlowControl link s = (r1, s1)" by fastforce
    have sent1: "ls_sent s1 = ls_sent s" "r1 \<noteq> Inl OutOfFuel"
      using waitFlowControl_from_sent r1 by (auto simp: waitFlowControl_def)
    show ?thesis
    proof (cases r1)
      case (Inl e)
      then show ?thesis
        using Suc.prems(1) sent1 True r1
        by (intro exI [of _ 0], subst (asm) sendSegments.simps) (auto simp: lbind_def)
    next
      case (Inr control)
      obtain r2 s2 where r2: "sendBlock (length payload) link control payload offset (seq_of i) 0 s1 = (r2, s2)"
        by fastforce
      have bs: "pdu_blockSize control = 0 \<or> 0 < pdu_blockSize control"
        by (simp add: word_gt_0)
      obtain n where n: "ls_sent s2 = ls_sent s1 @ take n (?segs i offset)" "r2 \<noteq> Inl OutOfFuel"
        "\<forall>offset' sequence'. r2 = Inr (offset', sequence') \<longrightarrow> sequence' = seq_of (i + n) \<and>
           ?segs (i + n) offset' = drop n (?segs i offset) \<and> offset < offset'"
        using sendBlock_safe [OF wf r2 diff_le_self] True bs by blast
      show ?thesis
      proof (cases r2)
        case (Inl e)
        then show ?thesis
          using Suc.prems(1) sent1 True r1 r2 n Inr
          by (intro exI [of _ n], subst (asm) sendSegments.simps) (auto simp: lbind_def)
      next
        case (Inr p)
        obtain o2 where p: "p = (o2, seq_of (i + n))" "?segs (i + n) o2 = drop n (?segs i offset)" "offset < o2"
          using n(3) Inr by (cases p) auto
        have rec: "sendSegments fuel link payload o2 (seq_of (i + n)) s2 = (r, s')"
          using Suc.prems(1) True r1 r2 \<open>r1 = Inr control\<close> Inr p(1)
          by (subst (asm) sendSegments.simps) (simp add: lbind_def)
        have "length payload - o2 \<le> fuel" using Suc.prems(2) p(3) by simp
        from Suc.IH [OF rec this] obtain m where m:
          "ls_sent s' = ls_sent s2 @ take m (?segs (i + n) o2)" "r \<noteq> Inl OutOfFuel"
          "r = Inr () \<longrightarrow> ls_sent s' = ls_sent s2 @ ?segs (i + n) o2"
          by blast
        have "take n xs @ take m (drop n xs) = take (n + m) xs" for xs :: "frame list"
          by (simp add: take_add)
        then show ?thesis
          using m n(1) sent1(1) p(2) by (intro exI [of _ "n + m"]) auto
      qed
    qed
  qed
qed

text \<open>The frames of a whole payload.\<close>

definition frames_of :: "transmitter \<Rightarrow> transmission \<Rightarrow> frame list" where
  "frames_of tx t = tm_firstFrame t # (if tm_multiFrame t then segments tx (tm_payload t) 1 (tm_offset t) else [])"

lemma repositionCursor_sent: "repositionCursor s = (r, s') \<Longrightarrow> ls_sent s' = ls_sent s \<and> r \<noteq> Inl OutOfFuel"
  by (auto simp: repositionCursor_def split: list.splits option.splits)

theorem transmit_safe:
  assumes wf: "wf_transmitter (lk_transmitter link)" and run: "transmit link t reposition s = (r, s')"
  shows "\<exists>n. ls_sent s' = ls_sent s @ take n (frames_of (lk_transmitter link) t) \<and> r \<noteq> Inl OutOfFuel \<and>
    (r = Inr () \<longrightarrow> ls_sent s' = ls_sent s @ frames_of (lk_transmitter link) t)"
proof (rule sendFrame_cases [of "tm_firstFrame t" s])
  fix e
  assume "sendFrame (tm_firstFrame t) s = (Inl (SendFailed e), s\<lparr>ls_sends := tl (ls_sends s)\<rparr>)"
  with run show ?thesis
    by (intro exI [of _ 0]) (auto simp: transmit_def lbind_def)
next
  fix s1
  assume s1: "sendFrame (tm_firstFrame t) s = (Inr (), s1)" "ls_sent s1 = ls_sent s @ [tm_firstFrame t]"
  obtain r2 s2 where r2: "(if reposition then repositionCursor else lreturn ()) s1 = (r2, s2)" by fastforce
  then have sent2: "ls_sent s2 = ls_sent s1" "r2 \<noteq> Inl OutOfFuel"
    using repositionCursor_sent by (auto split: if_splits)
  show ?thesis
  proof (cases "r2 = Inr () \<and> tm_multiFrame t")
    case False
    then show ?thesis
      using run s1 r2 sent2 by (cases r2) (auto simp: transmit_def lbind_def frames_of_def intro: exI [of _ 1])
  next
    case True
    then have rec: "sendSegments (length (tm_payload t)) link (tm_payload t) (tm_offset t) (seq_of 1) s2 = (r, s')"
      using run s1 r2 by (simp add: transmit_def lbind_def seq_of_1)
    obtain n where n: "ls_sent s' = ls_sent s2 @ take n (segments (lk_transmitter link) (tm_payload t) 1 (tm_offset t))"
      "r \<noteq> Inl OutOfFuel"
      "r = Inr () \<longrightarrow> ls_sent s' = ls_sent s2 @ segments (lk_transmitter link) (tm_payload t) 1 (tm_offset t)"
      using sendSegments_safe [OF wf rec diff_le_self] by blast
    then show ?thesis
      using s1 sent2 True by (intro exI [of _ "Suc n"]) (simp add: frames_of_def)
  qed
qed

section \<open>A receiver reassembles the segments\<close>

text \<open>
  How many Flow Control frames follow the first one: one at the end of every full block
  that is not the last. \<open>bs\<close> is the block size, \<open>bc\<close> the frames of the current block and
  the last argument the frames still to come.
\<close>

fun fc_count :: "u8 \<Rightarrow> u8 \<Rightarrow> nat \<Rightarrow> nat" where
  "fc_count bs bc 0 = 0"
| "fc_count bs bc (Suc n) =
     (if 0 < bs \<and> bc + 1 = bs \<and> 0 < n then Suc (fc_count bs 0 n) else fc_count bs (bc + 1) n)"

definition fc_frame :: "link \<Rightarrow> frame" where
  "fc_frame link = projr (makeFrame (lk_transmitter link)
     [0x30 OR flowContinue, lk_blockSize link, lk_separationTime link] False)"

lemma fc_frame_parse:
  assumes "wf_transmitter (lk_transmitter link)"
  shows "makeFrame (lk_transmitter link) [0x30 OR flowContinue, lk_blockSize link, lk_separationTime link] False = Inr (fc_frame link)"
    "parseFrame (fc_frame link) = Inr ((blank_pdu frameFlowControl (DataLength (fc_frame link)))
       \<lparr>pdu_flowStatus := flowContinue, pdu_blockSize := lk_blockSize link,
        pdu_separationTime := decodeSeparationTime (lk_separationTime link)\<rparr>)"
proof -
  have "flowContinue \<le> flowOverflow" by (simp add: flow_defs)
  then obtain f where "makeFrame (lk_transmitter link) [0x30 OR flowContinue, lk_blockSize link, lk_separationTime link] False = Inr f"
    "parseFrame f = Inr ((blank_pdu frameFlowControl (DataLength f))
       \<lparr>pdu_flowStatus := flowContinue, pdu_blockSize := lk_blockSize link,
        pdu_separationTime := decodeSeparationTime (lk_separationTime link)\<rparr>)"
    by (rule flow_control_roundtrip [OF assms])
  then show "makeFrame (lk_transmitter link) [0x30 OR flowContinue, lk_blockSize link, lk_separationTime link] False = Inr (fc_frame link)"
    "parseFrame (fc_frame link) = Inr ((blank_pdu frameFlowControl (DataLength (fc_frame link)))
       \<lparr>pdu_flowStatus := flowContinue, pdu_blockSize := lk_blockSize link,
        pdu_separationTime := decodeSeparationTime (lk_separationTime link)\<rparr>)"
    by (simp_all add: fc_frame_def)
qed

lemma sendFlowControl_ok:
  assumes "wf_transmitter (lk_transmitter link)" "ls_sends s = []"
  shows "sendFlowControl link flowContinue s = (Inr (), s\<lparr>ls_sent := ls_sent s @ [fc_frame link]\<rparr>)"
  using assms by (simp add: sendFlowControl_def fc_frame_parse(1) sendFrame_def)

lemma cf_frame_parse:
  assumes wf: "wf_transmitter tx" and chunk: "0 < length chunk" "length chunk < tx_dataLength tx"
  obtains pad where "parseFrame (cf_frame tx i chunk) = Inr ((blank_pdu frameConsecutive (DataLength (cf_frame tx i chunk)))
       \<lparr>pdu_sequence := seq_of i, pdu_payload := chunk @ replicate pad (tx_paddingByte tx)\<rparr>)"
    "Suc (length chunk) = tx_dataLength tx \<longrightarrow> pad = 0 \<and> DataLength (cf_frame tx i chunk) = tx_dataLength tx"
  by (rule consecutive_frame_roundtrip [OF wf seq_of_le [of i] chunk]) (metis cf_frame_ok [OF wf chunk] sum.inject(2))

definition arrivals :: "(frame \<Rightarrow> cursor) \<Rightarrow> frame list \<Rightarrow> incoming list" where
  "arrivals cur = map (\<lambda>f. Arrive f (cur f))"

lemma arrivals_simps [simp]:
  "arrivals cur [] = []" "arrivals cur (f # fs) = Arrive f (cur f) # arrivals cur fs"
  "arrivals cur (fs @ gs) = arrivals cur fs @ arrivals cur gs"
  by (simp_all add: arrivals_def)

lemma nextPDU_arrive:
  "ls_incoming s = Arrive f cu # rest \<Longrightarrow>
    nextPDUWithTimeout t s = (parseFrame f, s\<lparr>ls_incoming := rest, ls_cursor := cu\<rparr>)"
  by (simp add: nextPDUWithTimeout_def nextFrame_def)

lemma receiveLoop_step:
  assumes "length payload < expected" "nextPDUWithTimeout ConsecutiveFrameTimeout s = (Inr cf, s1)"
    "pdu_kind cf = frameConsecutive" "pdu_sequence cf = expectedSequence"
    "\<not> (length (pdu_payload cf) < expected - length payload \<and> pdu_dataLength cf \<noteq> pdu_dataLength first)"
    "payload @ take (expected - length payload) (pdu_payload cf) = payload'"
  shows "receiveLoop (Suc fuel) link first expected payload expectedSequence blockCount s =
    (if lk_blockSize link > 0 \<and> blockCount + 1 = lk_blockSize link \<and> length payload' < expected
     then lbind (sendFlowControl link flowContinue) (\<lambda>_.
       receiveLoop fuel link first expected payload' ((expectedSequence + 1) AND 0x0f) 0) s1
     else receiveLoop fuel link first expected payload' ((expectedSequence + 1) AND 0x0f) (blockCount + 1) s1)"
  using assms(1-5) by (subst receiveLoop.simps) (auto simp: lbind_def assms(6) Let_def)

lemma receiveLoop_segments:
  assumes tx: "wf_transmitter tx" and rx: "wf_transmitter (lk_transmitter link)"
    and first: "pdu_dataLength first = tx_dataLength tx"
  shows "length payload - offset \<le> fuel \<Longrightarrow> offset \<le> length payload \<Longrightarrow> ls_sends s = [] \<Longrightarrow>
    ls_incoming s = arrivals cur (segments tx payload i offset) @ rest \<Longrightarrow>
    \<exists>s'. receiveLoop fuel link first (length payload) (take offset payload) (seq_of i) bc s = (Inr payload, s') \<and>
      ls_incoming s' = rest \<and> ls_sends s' = [] \<and>
      ls_sent s' = ls_sent s @ replicate (fc_count (lk_blockSize link) bc (length (segments tx payload i offset))) (fc_frame link)"
proof (induction fuel arbitrary: offset i bc s)
  case 0
  then show ?case
    by (subst receiveLoop.simps) (simp add: segments_done)
next
  case (Suc fuel)
  show ?case
  proof (cases "offset < length payload")
    case False
    with Suc.prems show ?thesis
      by (subst receiveLoop.simps) (simp add: segments_done)
  next
    case True
    define stop where "stop = min (offset + (tx_dataLength tx - 1)) (length payload)"
    define piece where "piece = take (stop - offset) (drop offset payload)"
    note step = segments_step [OF tx True, folded stop_def, folded piece_def]
    obtain pad where parse: "parseFrame (cf_frame tx i piece) = Inr ((blank_pdu frameConsecutive (DataLength (cf_frame tx i piece)))
       \<lparr>pdu_sequence := seq_of i, pdu_payload := piece @ replicate pad (tx_paddingByte tx)\<rparr>)"
      "Suc (length piece) = tx_dataLength tx \<longrightarrow> pad = 0 \<and> DataLength (cf_frame tx i piece) = tx_dataLength tx"
      by (rule cf_frame_parse [OF tx step(4,5), of i])
    have len: "length piece = stop - offset" using step(2,3) by (simp add: piece_def)
    have full: "stop < length payload \<Longrightarrow> pad = 0 \<and> DataLength (cf_frame tx i piece) = tx_dataLength tx"
      using parse(2) step(6) by simp
    have taken: "take (length payload - offset) (piece @ replicate pad (tx_paddingByte tx)) = piece"
      using len step(2,3) full by (cases "stop < length payload") auto
    have fits: "\<not> (length (piece @ replicate pad (tx_paddingByte tx)) < length payload - offset \<and>
        DataLength (cf_frame tx i piece) \<noteq> tx_dataLength tx)"
      using len step(2,3) full by (cases "stop < length payload") auto
    have joined: "take offset payload @ piece = take stop payload"
      using step(2,3) unfolding piece_def by (metis add_diff_inverse_nat less_imp_le not_less take_add)
    define s1 where "s1 = s\<lparr>ls_incoming := arrivals cur (segments tx payload (Suc i) stop) @ rest,
        ls_cursor := cur (cf_frame tx i piece)\<rparr>"
    have nxt: "nextPDUWithTimeout ConsecutiveFrameTimeout s = (parseFrame (cf_frame tx i piece), s1)"
      using Suc.prems(4) by (simp add: step(1) s1_def nextPDU_arrive)
    have more: "segments tx payload (Suc i) stop = [] \<longleftrightarrow> \<not> stop < length payload"
      using segments_step(1) [OF tx, of stop payload "Suc i"] segments_done [of payload stop tx "Suc i"]
      by (cases "stop < length payload") auto
    let ?block = "0 < lk_blockSize link \<and> bc + 1 = lk_blockSize link \<and> stop < length payload"
    define s2 where "s2 = (if ?block then s1\<lparr>ls_sent := ls_sent s1 @ [fc_frame link]\<rparr> else s1)"
    have run: "receiveLoop (Suc fuel) link first (length payload) (take offset payload) (seq_of i) bc s =
        receiveLoop fuel link first (length payload) (take stop payload) (seq_of (Suc i)) (if ?block then 0 else bc + 1) s2"
    proof -
      have acc: "length (take offset payload) = offset" using True by simp
      have "receiveLoop (Suc fuel) link first (length payload) (take offset payload) (seq_of i) bc s =
          (if ?block then lbind (sendFlowControl link flowContinue) (\<lambda>_.
             receiveLoop fuel link first (length payload) (take stop payload) (seq_of (Suc i)) 0) s1
           else receiveLoop fuel link first (length payload) (take stop payload) (seq_of (Suc i)) (bc + 1) s1)"
        by (subst receiveLoop_step [OF _ nxt [unfolded parse(1)], where payload' = "take stop payload"])
          (use True fits taken joined step(3) in \<open>simp_all add: acc first seq_of_step blank_pdu_def
            del: length_append length_take\<close>, auto simp: min_def)
      then show ?thesis
        using Suc.prems(3) by (simp add: s2_def s1_def lbind_def sendFlowControl_ok [OF rx])
    qed
    have "length payload - stop \<le> fuel" using Suc.prems(1) step(2) by simp
    from Suc.IH [OF this step(3), of s2 "Suc i" "if ?block then 0 else bc + 1"]
    show ?thesis
      using Suc.prems(3) unfolding run step(1)
      by (auto simp: s2_def s1_def more)
  qed
qed

section \<open>A benign environment: both sides succeed\<close>

lemma fc_count_unlimited: "fc_count 0 bc n = 0"
  by (induction n arbitrary: bc) auto

lemma fc_count_block:
  "bc < bs \<Longrightarrow> fc_count bs bc n =
    (if n \<le> unat bs - unat bc then 0 else Suc (fc_count bs 0 (n - (unat bs - unat bc))))"
proof (induction n arbitrary: bc)
  case 0
  then show ?case by simp
next
  case (Suc n)
  have less: "unat bc < unat bs" using Suc.prems by (simp add: word_less_nat_alt)
  then have inc: "unat (bc + 1) = Suc (unat bc)"
    using unat_le_mask8 [of bs] by (simp add: unat_word_ariths)
  have bs: "0 < bs" using Suc.prems by (simp add: word_less_nat_alt)
  show ?case
  proof (cases "bc + 1 = bs")
    case True
    then have "unat bs - unat bc = 1" using inc by simp
    then show ?thesis using True bs by auto
  next
    case False
    then have "bc + 1 < bs" using less inc by (simp add: word_less_nat_alt word_unat_eq_iff)
    then show ?thesis using Suc.IH [of "bc + 1"] False inc less by auto
  qed
qed

text \<open>The control frame a sender waits for: the receiver's \<open>ContinueToSend\<close>.\<close>

definition continue_pdu :: "link \<Rightarrow> pdu" where
  "continue_pdu link = (blank_pdu frameFlowControl (DataLength (fc_frame link)))
     \<lparr>pdu_flowStatus := flowContinue, pdu_blockSize := lk_blockSize link,
      pdu_separationTime := decodeSeparationTime (lk_separationTime link)\<rparr>"

lemma waitFlowControl_arrive:
  assumes rx: "wf_transmitter (lk_transmitter rx)" and s: "ls_incoming s = Arrive (fc_frame rx) cu # rest"
  shows "waitFlowControl link s = (Inr (continue_pdu rx), s\<lparr>ls_incoming := rest, ls_cursor := cu\<rparr>)"
  using fc_frame_parse(2) [OF rx]
  unfolding waitFlowControl_def
  by (subst waitFlowControl_from.simps)
    (simp add: lbind_def nextPDU_arrive [OF s] continue_pdu_def blank_pdu_def)

definition benign :: "link_state \<Rightarrow> bool" where
  "benign s \<longleftrightarrow> ls_sends s = [] \<and> ls_timers s = []"

lemma benign_ops:
  assumes "benign s"
  shows "sendFrame f s = (Inr (), s\<lparr>ls_sent := ls_sent s @ [f]\<rparr>)"
    "\<exists>w. waitContext d s = (Inr (), s\<lparr>ls_waits := w\<rparr>)"
proof -
  show "sendFrame f s = (Inr (), s\<lparr>ls_sent := ls_sent s @ [f]\<rparr>)"
    using assms by (simp add: benign_def sendFrame_def)
  have "s = s\<lparr>ls_waits := ls_waits s\<rparr>" by simp
  then show "\<exists>w. waitContext d s = (Inr (), s\<lparr>ls_waits := w\<rparr>)"
    using assms unfolding benign_def waitContext_def by (cases "d \<le> 0") (auto intro: exI [of _ "ls_waits s"])
qed

text \<open>One block takes \<open>min n (bs - bc)\<close> frames, or all of them when the size is zero.\<close>

lemma sendBlock_benign:
  assumes wf: "wf_transmitter (lk_transmitter link)"
  shows "benign s \<Longrightarrow> length payload - offset \<le> fuel \<Longrightarrow>
    pdu_blockSize control = 0 \<or> bc \<le> pdu_blockSize control \<Longrightarrow>
    \<exists>offset' n s'. sendBlock fuel link control payload offset (seq_of i) bc s = (Inr (offset', seq_of (i + n)), s') \<and>
      n = (if pdu_blockSize control = 0 then length (segments (lk_transmitter link) payload i offset)
           else min (length (segments (lk_transmitter link) payload i offset)) (unat (pdu_blockSize control) - unat bc)) \<and>
      segments (lk_transmitter link) payload (i + n) offset' = drop n (segments (lk_transmitter link) payload i offset) \<and>
      offset + n \<le> offset' \<and> ls_incoming s' = ls_incoming s \<and> benign s'"
proof (induction fuel arbitrary: offset i bc s)
  case 0
  then have "sendBlock 0 link control payload offset (seq_of i) bc s = (Inr (offset, seq_of i), s)"
    by (subst sendBlock.simps) simp
  then show ?case
    using 0 by - (rule exI [of _ offset], rule exI [of _ 0], rule exI [of _ s], simp add: segments_done)
next
  case (Suc fuel)
  let ?tx = "lk_transmitter link" and ?bs = "pdu_blockSize control"
  show ?case
  proof (cases "offset < length payload \<and> (?bs = 0 \<or> bc < ?bs)")
    case False
    have zero: "(if ?bs = 0 then length (segments ?tx payload i offset)
        else min (length (segments ?tx payload i offset)) (unat ?bs - unat bc)) = 0"
    proof (cases "offset < length payload")
      case True
      with False Suc.prems(3) have "?bs \<noteq> 0" "bc = ?bs" by (auto simp: order_le_less)
      then show ?thesis by simp
    qed (simp add: segments_done)
    have "sendBlock (Suc fuel) link control payload offset (seq_of i) bc s = (Inr (offset, seq_of i), s)"
      using False by (subst sendBlock.simps) simp
    with zero Suc.prems show ?thesis
      by - (rule exI [of _ offset], rule exI [of _ 0], rule exI [of _ s], simp)
  next
    case True
    define stop where "stop = min (offset + (tx_dataLength ?tx - 1)) (length payload)"
    note step = segments_step [OF wf conjunct1 [OF True], folded stop_def]
    let ?f = "cf_frame ?tx i (take (stop - offset) (drop offset payload))"
    obtain w where w: "waitContext (pdu_separationTime control) s = (Inr (), s\<lparr>ls_waits := w\<rparr>)"
      using benign_ops(2) Suc.prems(1) by blast
    define s1 where "s1 = s\<lparr>ls_waits := w, ls_sent := ls_sent s @ [?f]\<rparr>"
    have b: "benign (s\<lparr>ls_waits := w\<rparr>)" "benign s1" using Suc.prems(1) by (simp_all add: benign_def s1_def)
    have eq: "sendBlock (Suc fuel) link control payload offset (seq_of i) bc s =
        sendBlock fuel link control payload stop (seq_of (Suc i)) (bc + 1) s1"
      unfolding sendBlock_step [OF wf True, of fuel i, folded stop_def]
      using w benign_ops(1) [OF b(1), of ?f] by (simp add: lbind_def s1_def)
    have fuel: "length payload - stop \<le> fuel" using Suc.prems(2) step(2) by simp
    have inc: "?bs \<noteq> 0 \<Longrightarrow> unat (bc + 1) = Suc (unat bc) \<and> unat bc < unat ?bs"
      using True unat_le_mask8 [of ?bs] by (simp add: unat_word_ariths word_less_nat_alt)
    then have bc: "?bs = 0 \<or> bc + 1 \<le> ?bs" by (cases "?bs = 0") (simp_all add: word_le_nat_alt)
    obtain o' n s' where ih: "sendBlock fuel link control payload stop (seq_of (Suc i)) (bc + 1) s1 = (Inr (o', seq_of (Suc i + n)), s')"
      "n = (if ?bs = 0 then length (segments ?tx payload (Suc i) stop)
            else min (length (segments ?tx payload (Suc i) stop)) (unat ?bs - unat (bc + 1)))"
      "segments ?tx payload (Suc i + n) o' = drop n (segments ?tx payload (Suc i) stop)"
      "stop + n \<le> o'" "ls_incoming s' = ls_incoming s1" "benign s'"
      using Suc.IH [OF b(2) fuel bc, of "Suc i"] by blast
    have "Suc n = (if ?bs = 0 then length (segments ?tx payload i offset)
        else min (length (segments ?tx payload i offset)) (unat ?bs - unat bc))"
      using ih(2) inc by (auto simp: step(1))
    moreover have "offset + Suc n \<le> o'"
      using ih(4) step(2) by auto
    moreover have "segments ?tx payload (i + Suc n) o' = drop (Suc n) (segments ?tx payload i offset)"
      using ih(3) step(1) [of i] by simp
    moreover have "sendBlock (Suc fuel) link control payload offset (seq_of i) bc s = (Inr (o', seq_of (i + Suc n)), s')"
      using eq ih(1) by simp
    moreover have "ls_incoming s' = ls_incoming s"
      by (simp add: ih(5) s1_def)
    ultimately show ?thesis
      using ih(6) by blast
  qed
qed

text \<open>How many Flow Control frames a sender of \<open>n\<close> Consecutive Frames waits for.\<close>

definition fc_needed :: "u8 \<Rightarrow> nat \<Rightarrow> nat" where
  "fc_needed bs n = (if n = 0 then 0 else Suc (fc_count bs 0 n))"

lemma fc_needed_step:
  assumes "0 < n"
  shows "fc_needed bs n = Suc (fc_needed bs (n - (if bs = 0 then n else min n (unat bs))))"
proof (cases "bs = 0")
  case True
  then show ?thesis using assms by (simp add: fc_needed_def fc_count_unlimited)
next
  case False
  then have "0 < bs" by (simp add: word_gt_0)
  from fc_count_block [OF this, of n] False assms show ?thesis
    by (auto simp: fc_needed_def min_def)
qed

lemma sendSegments_benign:
  assumes tx: "wf_transmitter (lk_transmitter link)" and rx: "wf_transmitter (lk_transmitter rx)"
  shows "benign s \<Longrightarrow> length payload - offset \<le> fuel \<Longrightarrow>
    ls_incoming s = arrivals cur (replicate (fc_needed (lk_blockSize rx)
        (length (segments (lk_transmitter link) payload i offset))) (fc_frame rx)) @ rest \<Longrightarrow>
    \<exists>s'. sendSegments fuel link payload offset (seq_of i) s = (Inr (), s') \<and> ls_incoming s' = rest \<and> benign s'"
proof (induction fuel arbitrary: offset i s)
  case 0
  then show ?case
    by (subst sendSegments.simps) (simp add: segments_done fc_needed_def)
next
  case (Suc fuel)
  let ?segs = "segments (lk_transmitter link) payload" and ?bs = "lk_blockSize rx"
  show ?case
  proof (cases "offset < length payload")
    case False
    with Suc.prems show ?thesis
      by (subst sendSegments.simps) (simp add: segments_done fc_needed_def)
  next
    case True
    let ?n = "length (?segs i offset)"
    have n: "0 < ?n" using segments_step(1) [OF tx True, of i] by simp
    define m where "m = (if ?bs = 0 then ?n else min ?n (unat ?bs))"
    have needed: "fc_needed ?bs ?n = Suc (fc_needed ?bs (?n - m))"
      using fc_needed_step [OF n, of ?bs] by (simp add: m_def)
    define s1 where "s1 = s\<lparr>ls_incoming := arrivals cur (replicate (fc_needed ?bs (?n - m)) (fc_frame rx)) @ rest,
        ls_cursor := cur (fc_frame rx)\<rparr>"
    have fc: "waitFlowControl link s = (Inr (continue_pdu rx), s1)"
      unfolding s1_def by (rule waitFlowControl_arrive [OF rx]) (simp add: Suc.prems(3) needed)
    have b1: "benign s1" using Suc.prems(1) by (simp add: benign_def s1_def)
    have bs: "pdu_blockSize (continue_pdu rx) = ?bs" by (simp add: continue_pdu_def)
    obtain o' k s2 where o': "sendBlock (length payload) link (continue_pdu rx) payload offset (seq_of i) 0 s1 =
        (Inr (o', seq_of (i + k)), s2)" "k = (if ?bs = 0 then ?n else min ?n (unat ?bs - unat (0 :: u8)))"
        "?segs (i + k) o' = drop k (?segs i offset)"
        "offset + k \<le> o'" "ls_incoming s2 = ls_incoming s1" "benign s2"
      using sendBlock_benign [OF tx b1 diff_le_self, of "continue_pdu rx" 0 payload offset i, unfolded bs] by auto
    have "k = m" using o'(2) by (simp add: m_def)
    note o' = o' [unfolded this]
    have "0 < m" using n by (auto simp: m_def word_neq_0_conv [symmetric] unat_gt_0)
    then have "length payload - o' \<le> fuel" using o'(4) Suc.prems(2) by auto
    moreover have "ls_incoming s2 = arrivals cur (replicate (fc_needed ?bs (length (?segs (i + m) o'))) (fc_frame rx)) @ rest"
      by (simp add: o'(3,5) s1_def)
    ultimately obtain s' where s': "sendSegments fuel link payload o' (seq_of (i + m)) s2 = (Inr (), s')" "ls_incoming s' = rest"
      "benign s'"
      using Suc.IH [OF o'(6)] by blast
    have "sendSegments (Suc fuel) link payload offset (seq_of i) s = (Inr (), s')"
      using True s' by (subst sendSegments.simps) (simp add: lbind_def fc o'(1))
    with s'(2,3) show ?thesis by blast
  qed
qed

section \<open>Both ends together\<close>

definition quiet :: "cursor \<Rightarrow> incoming list \<Rightarrow> link_state" where
  "quiet cu ins = \<lparr>ls_cursor = cu, ls_retaining = False, ls_incoming = ins, ls_sends = [], ls_timers = [],
     ls_located = [], ls_sent = [], ls_waits = []\<rparr>"

text \<open>
  A sender and a receiver back to back: the receiver gets what the sender sends and the
  sender gets the receiver's Flow Control, each in order and without loss.
\<close>

lemma receive_frames:
  assumes tx: "wf_transmitter tx" and rx: "wf_transmitter (lk_transmitter rx)"
    and prep: "prepareTransmission tx payload = Inr t"
    and fits: "length payload \<le> unat (tx_maximumPayloadLength (lk_transmitter rx))"
    and s: "ls_sends s = []" "ls_incoming s = arrivals cur (frames_of tx t) @ rest"
  shows "\<exists>s'. receive rx s = (Inr payload, s') \<and> ls_incoming s' = rest \<and> ls_sends s' = [] \<and>
    ls_sent s' = ls_sent s @ replicate (fc_needed (lk_blockSize rx) (length (frames_of tx t) - 1)) (fc_frame rx)"
proof -
  let ?f = "tm_firstFrame t"
  define s1 where "s1 = s\<lparr>ls_incoming := arrivals cur (tl (frames_of tx t)) @ rest, ls_cursor := cur ?f\<rparr>"
  have nxt: "nextFrame s = (Inr ?f, s1)"
    by (simp add: nextFrame_def s(2) frames_of_def s1_def)
  show ?thesis
  proof (cases "tm_multiFrame t")
    case False
    note single = single_frame_roundtrip [OF tx prep False]
    show ?thesis
      using False fits s(1) by (simp add: receive_def nxt single blank_pdu_def frames_of_def fc_needed_def s1_def)
  next
    case True
    note first = first_frame_roundtrip [OF tx prep True]
    define fp where "fp = (blank_pdu frameFirst (tx_dataLength tx))
      \<lparr>pdu_length := word_of_nat (length payload), pdu_payload := take (tm_offset t) payload\<rparr>"
    have n32: "length payload < 4294967296"
      using first(6) unat_lt_u32 [of "tx_maximumPayloadLength tx"] by simp
    have unat: "unat (word_of_nat (length payload) :: u32) = length payload"
      using n32 by (simp add: unat_of_nat)
    have fpl: "\<not> pdu_length fp \<le> 7" "\<not> pdu_length fp > tx_maximumPayloadLength (lk_transmitter rx)"
      "unat (pdu_length fp) = length payload" "\<not> length payload \<le> length (pdu_payload fp)"
      using first(4,5) fits unat by (simp_all add: fp_def word_le_nat_alt word_less_nat_alt)
    define s2 where "s2 = s1\<lparr>ls_sent := ls_sent s1 @ [fc_frame rx]\<rparr>"
    have in2: "ls_incoming s2 = arrivals cur (segments tx payload 1 (tm_offset t)) @ rest" "ls_sends s2 = []"
      using True s(1) by (simp_all add: s2_def s1_def frames_of_def first(2))
    obtain s' where s': "receiveLoop (length payload) rx fp (length payload) (take (tm_offset t) payload) (seq_of 1) 0 s2 = (Inr payload, s')"
      "ls_incoming s' = rest" "ls_sends s' = []"
      "ls_sent s' = ls_sent s2 @ replicate (fc_count (lk_blockSize rx) 0 (length (segments tx payload 1 (tm_offset t)))) (fc_frame rx)"
      using receiveLoop_segments [OF tx rx, of fp payload "tm_offset t" "length payload" s2 cur 1 rest 0] in2 first(4)
      by (auto simp: fp_def blank_pdu_def)
    have "segments tx payload 1 (tm_offset t) \<noteq> []"
      using segments_step(1) [OF tx first(4), of 1] by simp
    moreover have "receive rx s = (Inr payload, s')"
      using s'(1) fpl s(1) first(1)
      by (simp add: receive_def nxt fp_def [symmetric] receiveMultiFrame_def Let_def lbind_def
          sendFlowControl_ok [OF rx] s1_def s2_def seq_of_1) (simp add: fp_def blank_pdu_def kind_defs)
    ultimately show ?thesis
      using s'(2-4) True by (simp add: frames_of_def first(2) fc_needed_def s2_def s1_def)
  qed
qed

lemma transmit_frames:
  assumes tx: "wf_transmitter (lk_transmitter link)" and rx: "wf_transmitter (lk_transmitter rx)"
    and b: "benign s" and located: "reposition \<longrightarrow> ls_located s \<noteq> [] \<and> hd (ls_located s) \<noteq> None"
    and ins: "ls_incoming s = arrivals cur (replicate (fc_needed (lk_blockSize rx)
        (length (frames_of (lk_transmitter link) t) - 1)) (fc_frame rx)) @ rest"
  shows "\<exists>s'. transmit link t reposition s = (Inr (), s') \<and> ls_incoming s' = rest \<and> benign s' \<and>
    ls_sent s' = ls_sent s @ frames_of (lk_transmitter link) t"
proof -
  let ?f = "tm_firstFrame t"
  obtain s1 where s1: "lbind (sendFrame ?f) (\<lambda>_. if reposition then repositionCursor else lreturn ()) s = (Inr (), s1)"
    "ls_incoming s1 = ls_incoming s" "benign s1"
  proof (cases reposition)
    case True
    then obtain c locs where "ls_located s = Some c # locs" using located by (cases "ls_located s") auto
    then show ?thesis using that b True by (simp add: lbind_def benign_ops(1) repositionCursor_def) (simp add: benign_def)
  next
    case False
    then show ?thesis using that b by (simp add: lbind_def benign_ops(1)) (simp add: benign_def)
  qed
  have run: "transmit link t reposition s =
      (if \<not> tm_multiFrame t then (Inr (), s1)
       else sendSegments (length (tm_payload t)) link (tm_payload t) (tm_offset t) (seq_of 1) s1)"
    using s1(1) by (auto simp: transmit_def lbind_def benign_ops(1) [OF b] seq_of_1 split: prod.splits sum.splits)
  have "\<exists>s'. transmit link t reposition s = (Inr (), s') \<and> ls_incoming s' = rest \<and> benign s'"
  proof (cases "tm_multiFrame t")
    case True
    then have "ls_incoming s1 = arrivals cur (replicate (fc_needed (lk_blockSize rx)
        (length (segments (lk_transmitter link) (tm_payload t) 1 (tm_offset t)))) (fc_frame rx)) @ rest"
      using ins s1(2) by (simp add: frames_of_def)
    then show ?thesis using sendSegments_benign [OF tx rx s1(3) diff_le_self] True by (simp add: run)
  next
    case False
    then show ?thesis using ins s1(2,3) by (simp add: run frames_of_def fc_needed_def)
  qed
  then obtain s' where s': "transmit link t reposition s = (Inr (), s')" "ls_incoming s' = rest" "benign s'" by blast
  then show ?thesis using transmit_safe [OF tx s'(1)] by simp
qed

lemma NewLink_wf:
  assumes "NewLink bus cfg = Inr link"
  shows "wf_transmitter (lk_transmitter link)" "0 < unat (tx_maximumPayloadLength (lk_transmitter link))"
proof -
  obtain tx where tx: "newTransmitter (cf_transmitID cfg) (cf_frameFlags cfg) (cf_transmitDataLength cfg)
       (cf_transmitMinDataLength cfg) (cf_paddingByte cfg) (cf_retryTimeout cfg) = Inr tx"
    "lk_transmitter link = tx\<lparr>tx_maximumPayloadLength :=
       (if cf_maximumPayloadLength cfg = 0 then defaultMaximumPayloadLength else cf_maximumPayloadLength cfg)\<rparr>"
    using assms by (auto simp: NewLink_def ebind_Inr_iff split: if_splits)
  show "wf_transmitter (lk_transmitter link)"
    unfolding tx(2) by (rule newTransmitter_wf [OF tx(1)])
  show "0 < unat (tx_maximumPayloadLength (lk_transmitter link))"
    unfolding tx(2) by (simp add: defaultMaximumPayloadLength_def unat_gt_0)
qed

text \<open>Every payload within the configured maximum can be transmitted.\<close>

lemma prepareTransmission_ok:
  assumes wf: "wf_transmitter tx" and len: "payload \<noteq> []" "length payload \<le> unat (tx_maximumPayloadLength tx)"
  shows "\<exists>t. prepareTransmission tx payload = Inr t"
proof -
  have make: "length data \<le> tx_dataLength tx \<Longrightarrow> \<exists>f. makeFrame tx data full = Inr f" for data full
    by (rule makeFrame_ok [OF wf, of data full]) auto
  define n where "n = length payload"
  define esc where "esc = (n > 7 \<or> tx_minDataLength tx > 8)"
  define single where "single = (if esc then [0, word_of_nat n] else [word_of_nat n] :: bytes)"
  define header where "header = (if n > 0x0fff
              then [0x10, 0, ucast (drop_bit 24 (word_of_nat n :: u32)), ucast (drop_bit 16 (word_of_nat n :: u32)),
                    ucast (drop_bit 8 (word_of_nat n :: u32)), ucast (word_of_nat n :: u32)]
              else [0x10 OR word_of_nat (n div 256), word_of_nat n] :: bytes)"
  define offset where "offset = min (tx_dataLength tx - length header) n"
  define data where "data = header @ take offset payload @ replicate (tx_dataLength tx - length header - offset) 0"
  have "length header \<le> 6" by (simp add: header_def)
  then have "length data \<le> tx_dataLength tx"
    using wf_transmitter_length [OF wf] by (auto simp: data_def offset_def n_def)
  then obtain f where f: "makeFrame tx data True = Inr f" using make by blast
  have hl: "length single = (if esc then 2 else 1)" by (simp add: single_def)
  show ?thesis
  proof (cases "int n \<le> int (tx_dataLength tx) - int (length single)")
    case True
    then have "length (single @ payload) \<le> tx_dataLength tx" by (simp add: n_def)
    then obtain g where "makeFrame tx (single @ payload) False = Inr g" using make by blast
    then show ?thesis
      using True len unfolding prepareTransmission_def Let_def n_def [symmetric] esc_def [symmetric]
        single_def [symmetric] hl [symmetric] by (simp add: n_def)
  next
    case False
    then show ?thesis
      using f len unfolding prepareTransmission_def Let_def n_def [symmetric] esc_def [symmetric]
        single_def [symmetric] hl [symmetric] header_def [symmetric] offset_def [symmetric] data_def [symmetric]
      by (simp add: n_def)
  qed
qed

section \<open>Guarantees\<close>

text \<open>C11
  A client and a server link: every payload the client may send and the server may receive
  goes through, with any block size and separation time the server advertises, any padding
  and any data lengths on either side.
\<close>

theorem isotp_delivers:
  assumes client: "NewLink bus1 cfg1 = Inr tx" and server: "NewLink bus2 cfg2 = Inr rx"
    and len: "payload \<noteq> []" "length payload \<le> unat (tx_maximumPayloadLength (lk_transmitter tx))"
      "length payload \<le> unat (tx_maximumPayloadLength (lk_transmitter rx))"
  shows "\<exists>controls frames s1 s2.
    SendPayload tx c0 payload ((quiet c1 (arrivals cur1 controls))\<lparr>ls_located := [Some c2]\<rparr>) = (Inr (), s1) \<and>
    ls_sent s1 = frames \<and> ls_incoming s1 = [] \<and>
    ReceivePayload rx (quiet c3 (arrivals cur2 frames)) = (Inr payload, s2) \<and>
    ls_sent s2 = controls \<and> ls_incoming s2 = []"
proof -
  note wft = NewLink_wf(1) [OF client] and wfr = NewLink_wf(1) [OF server]
  obtain t where t: "prepareTransmission (lk_transmitter tx) payload = Inr t"
    using prepareTransmission_ok [OF wft len(1,2)] by blast
  define frames where "frames = frames_of (lk_transmitter tx) t"
  define controls where "controls = replicate (fc_needed (lk_blockSize rx) (length frames - 1)) (fc_frame rx)"
  obtain s2 where s2: "receive rx (startReception zero_cursor False (quiet c3 (arrivals cur2 frames))) = (Inr payload, s2)"
      "ls_incoming s2 = []" "ls_sent s2 = controls"
    using receive_frames [OF wft wfr t len(3), of "startReception zero_cursor False (quiet c3 (arrivals cur2 frames))" cur2 "[]"]
    by (auto simp: startReception_def quiet_def frames_def controls_def)
  define s0 where "s0 = (quiet c1 (arrivals cur1 controls))\<lparr>ls_located := [Some c2]\<rparr>"
  define s where "s = (if tm_multiFrame t then startReception c0 True s0 else s0)"
  have "benign s" "ls_located s = [Some c2]" "ls_sent s = []" "ls_incoming s = arrivals cur1 controls @ []"
    by (simp_all add: s_def s0_def quiet_def startReception_def benign_def)
  then obtain s1 where s1: "transmit tx t (tm_multiFrame t) s = (Inr (), s1)" "ls_incoming s1 = []" "ls_sent s1 = frames"
    using transmit_frames [OF wft wfr, of s "tm_multiFrame t" cur1 t "[]"] by (auto simp: frames_def controls_def)
  then have "\<exists>s1. SendPayload tx c0 payload s0 = (Inr (), s1) \<and> ls_sent s1 = frames \<and> ls_incoming s1 = []"
    by (cases "tm_multiFrame t") (simp_all add: SendPayload_def t s_def finishReception_def)
  moreover have "ReceivePayload rx (quiet c3 (arrivals cur2 frames)) = (Inr payload, finishReception s2)"
    using s2(1) by (simp add: ReceivePayload_def)
  moreover have "ls_sent (finishReception s2) = controls" "ls_incoming (finishReception s2) = []"
    using s2(2,3) by (simp_all add: finishReception_def)
  ultimately show ?thesis
    unfolding s0_def by blast
qed

text \<open>A classical CAN client and a CAN FD server that asks for blocks of two.\<close>

definition example_client :: link_config where
  "example_client = \<lparr>cf_transmitID = 0x7e0, cf_receiveID = 0x7e8, cf_frameFlags = 0, cf_transmitDataLength = 0,
     cf_transmitMinDataLength = 8, cf_paddingByte = 0xcc, cf_maximumPayloadLength = 0, cf_blockSize = 0,
     cf_separationTime = 0, cf_flowControlTimeout = 0, cf_consecutiveFrameTimeout = 0, cf_retryTimeout = 0,
     cf_waitFrameLimit = 0\<rparr>"

definition example_server :: link_config where
  "example_server = \<lparr>cf_transmitID = 0x7e8, cf_receiveID = 0x7e0, cf_frameFlags = FrameFD, cf_transmitDataLength = 64,
     cf_transmitMinDataLength = 12, cf_paddingByte = 0xaa, cf_maximumPayloadLength = 100, cf_blockSize = 2,
     cf_separationTime = 500000, cf_flowControlTimeout = 0, cf_consecutiveFrameTimeout = 0, cf_retryTimeout = 0,
     cf_waitFrameLimit = 0\<rparr>"

definition example_link :: "link_config \<Rightarrow> link" where
  "example_link cfg = projr (NewLink 1 cfg)"

lemmas link_example_defs = NewLink_def newTransmitter_def validateTransmitDataLength_def nearestCANFDLength_def
  configuredTimeout_def encodeSeparationTime_def id_ok_def flag_defs Has_def defaultTransmitDataLength_def
  millisecond_def microsecond_def MaxStandardID_def MaxExtendedID_def

lemma example_links:
  "NewLink 1 example_client = Inr (example_link example_client)"
  "NewLink 1 example_server = Inr (example_link example_server)"
  "unat (tx_maximumPayloadLength (lk_transmitter (example_link example_client))) = 4095"
  "unat (tx_maximumPayloadLength (lk_transmitter (example_link example_server))) = 100"
  by (simp_all add: example_link_def example_client_def example_server_def link_example_defs
      defaultMaximumPayloadLength_def)

theorem isotp_delivers_witness:
  "\<exists>controls frames s1 s2.
    SendPayload (example_link example_client) zero_cursor (replicate 50 0x31)
      ((quiet zero_cursor (arrivals (\<lambda>_. zero_cursor) controls))\<lparr>ls_located := [Some zero_cursor]\<rparr>) = (Inr (), s1) \<and>
    ls_sent s1 = frames \<and>
    ReceivePayload (example_link example_server) (quiet zero_cursor (arrivals (\<lambda>_. zero_cursor) frames)) = (Inr (replicate 50 0x31), s2)"
  using isotp_delivers [OF example_links(1,2), of "replicate 50 0x31"] by (simp add: example_links(3,4)) blast

text \<open>C12 Whatever the peer, the timers and the bus answer, a transmission ends, and what it has
  put on the bus is a prefix of the payload's frames: the Single Frame, or the First Frame and
  the Consecutive Frames numbered 1, 2, ... modulo 16 that cut the payload in order. When it
  succeeds it is all of them, whatever block sizes the peer granted.\<close>

theorem transmission_sends_the_payload:
  assumes "wf_transmitter (lk_transmitter link)" "prepareTransmission (lk_transmitter link) payload = Inr t"
    "SendPayload link endCursor payload s = (r, s')"
  shows "r \<noteq> Inl OutOfFuel \<and> (\<exists>n. ls_sent s' = ls_sent s @ take n (frames_of (lk_transmitter link) t)) \<and>
    (r = Inr () \<longrightarrow> ls_sent s' = ls_sent s @ frames_of (lk_transmitter link) t)"
proof (cases "tm_multiFrame t")
  case True
  obtain s1 where s1: "transmit link t True (startReception endCursor True s) = (r, s1)" "s' = finishReception s1"
    using assms(2,3) True by (auto simp: SendPayload_def split: prod.splits)
  show ?thesis
    using transmit_safe [OF assms(1) s1(1)] s1(2) by (auto simp: startReception_def finishReception_def)
next
  case False
  then show ?thesis
    using transmit_safe [OF assms(1), of t False s r s'] assms(2,3) by (auto simp: SendPayload_def)
qed

lemma example_silent_peer:
  "\<exists>t s'. prepareTransmission (lk_transmitter (example_link example_client)) [1, 2, 3] = Inr t \<and>
     SendPayload (example_link example_client) zero_cursor [1, 2, 3] (quiet zero_cursor []) = (Inr (), s')"
proof -
  let ?tx = "lk_transmitter (example_link example_client)"
  note wf = NewLink_wf(1) [OF example_links(1)]
  obtain t where t: "prepareTransmission ?tx [1, 2, 3] = Inr t"
    using prepareTransmission_ok [OF wf, of "[1, 2, 3]"] example_links(3) by auto
  have "\<not> tm_multiFrame t"
    using first_frame_roundtrip(5) [OF wf t] by auto
  then show ?thesis
    using t by (simp add: SendPayload_def transmit_def lbind_def sendFrame_def quiet_def)
qed

theorem transmission_sends_the_payload_witness:
  "\<exists>t s'. SendPayload (example_link example_client) zero_cursor [1, 2, 3] (quiet zero_cursor []) = (Inr (), s') \<and>
     ls_sent s' = frames_of (lk_transmitter (example_link example_client)) t"
proof -
  obtain t s' where t: "prepareTransmission (lk_transmitter (example_link example_client)) [1, 2, 3] = Inr t"
     "SendPayload (example_link example_client) zero_cursor [1, 2, 3] (quiet zero_cursor []) = (Inr (), s')"
    using example_silent_peer by blast
  show ?thesis
    using transmission_sends_the_payload [OF NewLink_wf(1) [OF example_links(1)] t] t(2) by (auto simp: quiet_def)
qed

lemma sendFlowControl_incoming: "sendFlowControl link status s = (r, s') \<Longrightarrow> ls_incoming s' = ls_incoming s"
  by (auto simp: sendFlowControl_def lbind_def sendFrame_def split: sum.splits list.splits option.splits)

lemma nextPDU_Inr:
  assumes "nextPDUWithTimeout t s = (Inr p, s')"
  obtains f cu where "ls_incoming s = Arrive f cu # ls_incoming s'" "parseFrame f = Inr p"
  using assms by (auto simp: nextPDUWithTimeout_def nextFrame_def split: list.splits incoming.splits)

text \<open>The Consecutive Frames \<open>ps\<close> of a reception, with sequence numbers from \<open>i\<close> on.\<close>

fun consecutive_run :: "nat \<Rightarrow> (frame \<times> cursor \<times> pdu) list \<Rightarrow> bool" where
  "consecutive_run i [] = True"
| "consecutive_run i ((f, _, p) # ps) = (parseFrame f = Inr p \<and> pdu_kind p = frameConsecutive \<and>
     pdu_sequence p = seq_of i \<and> consecutive_run (Suc i) ps)"

definition payloads_of :: "(frame \<times> cursor \<times> pdu) list \<Rightarrow> bytes" where
  "payloads_of ps = concat (map (\<lambda>(_, _, p). pdu_payload p) ps)"

lemma receiveLoop_sound:
  "receiveLoop fuel link first expected acc (seq_of i) bc s = (Inr p, s') \<Longrightarrow> length acc \<le> expected \<Longrightarrow>
    \<exists>ps. ls_incoming s = map (\<lambda>(f, cu, _). Arrive f cu) ps @ ls_incoming s' \<and> consecutive_run i ps \<and>
      p = take expected (acc @ payloads_of ps) \<and> length p = expected"
proof (induction fuel arbitrary: acc i bc s)
  case 0
  then show ?case
    by (intro exI [of _ "[]"]) (auto simp: receiveLoop.simps payloads_of_def split: if_splits)
next
  case (Suc fuel)
  show ?case
  proof (cases "length acc < expected")
    case False
    with Suc.prems show ?thesis
      by (intro exI [of _ "[]"]) (auto simp: receiveLoop.simps payloads_of_def)
  next
    case True
    obtain cf s1 where cf: "nextPDUWithTimeout ConsecutiveFrameTimeout s = (Inr cf, s1)"
        "pdu_kind cf = frameConsecutive" "pdu_sequence cf = seq_of i"
        "\<not> (length (pdu_payload cf) < expected - length acc \<and> pdu_dataLength cf \<noteq> pdu_dataLength first)"
      using Suc.prems(1) True
      by (subst (asm) receiveLoop.simps) (auto simp: lbind_return_iff Let_def split: if_splits)
    obtain f cu where f: "ls_incoming s = Arrive f cu # ls_incoming s1" "parseFrame f = Inr cf"
      using cf(1) by (rule nextPDU_Inr)
    let ?acc = "acc @ take (expected - length acc) (pdu_payload cf)"
    note step = receiveLoop_step [OF True cf(1) cf(2) cf(3) cf(4) refl, of fuel link bc, unfolded seq_of_step]
    obtain bc' s2 where rec: "receiveLoop fuel link first expected ?acc (seq_of (Suc i)) bc' s2 = (Inr p, s')"
        "ls_incoming s2 = ls_incoming s1"
      using Suc.prems(1) sendFlowControl_incoming unfolding step by (auto simp: lbind_return_iff split: if_splits)
    have "length ?acc \<le> expected" using True by simp
    from Suc.IH [OF rec(1) this] obtain ps where ps:
      "ls_incoming s2 = map (\<lambda>(f, cu, _). Arrive f cu) ps @ ls_incoming s'" "consecutive_run (Suc i) ps"
      "p = take expected (?acc @ payloads_of ps)" "length p = expected"
      by blast
    have all: "take expected (?acc @ payloads_of ps) = take expected (acc @ payloads_of ((f, cu, cf) # ps))"
      by (cases "length (pdu_payload cf) \<le> expected - length acc") (auto simp: payloads_of_def)
    have "ls_incoming s = map (\<lambda>(f, cu, _). Arrive f cu) ((f, cu, cf) # ps) @ ls_incoming s'"
      "consecutive_run i ((f, cu, cf) # ps)"
      using ps(1,2) f rec(2) cf(2,3) by simp_all
    then show ?thesis
      using ps(3,4) unfolding all by blast
  qed
qed

text \<open>
  What a reception may return: the payload of a Single Frame, or that of a First Frame
  followed by the Consecutive Frames 1, 2, ... (modulo 16), cut to the announced length.
\<close>

definition reassembled :: "frame \<Rightarrow> pdu \<Rightarrow> (frame \<times> cursor \<times> pdu) list \<Rightarrow> bytes \<Rightarrow> bool" where
  "reassembled f first ps p \<longleftrightarrow> parseFrame f = Inr first \<and>
     (if pdu_kind first = frameSingle then ps = [] \<and> p = pdu_payload first
      else pdu_kind first = frameFirst \<and> 7 < unat (pdu_length first) \<and> consecutive_run 1 ps \<and>
        p = take (unat (pdu_length first)) (pdu_payload first @ payloads_of ps) \<and>
        length p = unat (pdu_length first) \<and> ps \<noteq> [])"



lemma receiveMultiFrame_sound:
  assumes "receiveMultiFrame link first s = (Inr p, s')" "parseFrame f = Inr first" "pdu_kind first = frameFirst"
  shows "\<exists>ps. ls_incoming s = map (\<lambda>(f, cu, _). Arrive f cu) ps @ ls_incoming s' \<and> reassembled f first ps p \<and>
    length p \<le> unat (tx_maximumPayloadLength (lk_transmitter link))"
proof -
  obtain s1 where s1: "sendFlowControl link flowContinue s = (Inr (), s1)"
    "receiveLoop (unat (pdu_length first)) link first (unat (pdu_length first)) (pdu_payload first) 1 0 s1 = (Inr p, s')"
    "\<not> pdu_length first \<le> 7" "\<not> pdu_length first > tx_maximumPayloadLength (lk_transmitter link)"
    "length (pdu_payload first) < unat (pdu_length first)"
    using assms(1) by (auto simp: receiveMultiFrame_def Let_def lbind_return_iff split: if_splits prod.splits sum.splits)
  have seq: "seq_of 1 = 1" by (simp add: seq_of_1)
  obtain ps where ps: "ls_incoming s1 = map (\<lambda>(f, cu, _). Arrive f cu) ps @ ls_incoming s'" "consecutive_run 1 ps"
    "p = take (unat (pdu_length first)) (pdu_payload first @ payloads_of ps)" "length p = unat (pdu_length first)"
    using receiveLoop_sound [of _ link first _ _ 1, unfolded seq, OF s1(2)] s1(5) by auto
  have "ps \<noteq> []" using ps(3,4) s1(5) by (auto simp: payloads_of_def)
  moreover have "7 < unat (pdu_length first)" "unat (pdu_length first) \<le> unat (tx_maximumPayloadLength (lk_transmitter link))"
    using s1(3,4) by (simp_all add: word_le_nat_alt not_le not_less word_less_nat_alt)
  ultimately have "ps \<noteq> [] \<and> 7 < unat (pdu_length first) \<and> length p \<le> unat (tx_maximumPayloadLength (lk_transmitter link))"
    using ps(4) sendFlowControl_incoming [OF s1(1)] by simp
  then show ?thesis
    using ps sendFlowControl_incoming [OF s1(1)] assms(2,3)
    unfolding reassembled_def by (intro exI [of _ ps] conjI) (simp_all only: kind_defs split: if_split, simp_all)
qed

lemma receive_reassembles:
  assumes "receive link s = (Inr p, s')"
  shows "\<exists>f cu first ps. ls_incoming s = Arrive f cu # map (\<lambda>(f, cu, _). Arrive f cu) ps @ ls_incoming s' \<and>
    reassembled f first ps p \<and> length p \<le> unat (tx_maximumPayloadLength (lk_transmitter link))"
proof -
  obtain f s1 first where f: "nextFrame s = (Inr f, s1)" "parseFrame f = Inr first"
    "(pdu_kind first = frameSingle \<and> length (pdu_payload first) \<le> unat (tx_maximumPayloadLength (lk_transmitter link)) \<and>
        p = pdu_payload first \<and> s' = s1) \<or>
     (pdu_kind first = frameFirst \<and> receiveMultiFrame link first s1 = (Inr p, s'))"
    using assms by (auto simp: receive_def lbind_return_iff not_less split: prod.splits sum.splits if_splits)
  obtain cu where cu: "ls_incoming s = Arrive f cu # ls_incoming s1"
    using f(1) by (auto simp: nextFrame_def split: list.splits incoming.splits)
  from f(3) obtain ps where "ls_incoming s1 = map (\<lambda>(f, cu, _). Arrive f cu) ps @ ls_incoming s'"
    "reassembled f first ps p" "length p \<le> unat (tx_maximumPayloadLength (lk_transmitter link))"
  proof (elim disjE conjE)
    assume "pdu_kind first = frameSingle" "length (pdu_payload first) \<le> unat (tx_maximumPayloadLength (lk_transmitter link))"
      "p = pdu_payload first" "s' = s1"
    with f(2) show ?thesis by (intro that [of "[]"]) (auto simp: reassembled_def)
  next
    assume "pdu_kind first = frameFirst" "receiveMultiFrame link first s1 = (Inr p, s')"
    from receiveMultiFrame_sound [OF this(2) f(2) this(1)] that show ?thesis by blast
  qed
  with cu show ?thesis by (intro exI [of _ f] exI [of _ cu] exI [of _ first] exI [of _ ps]) simp
qed

text \<open>C13 A reception is sound whatever arrives: a payload it returns is no longer than the
  configured maximum and comes from a Single Frame, or from a First Frame and the Consecutive
  Frames right after it, which carried the sequence numbers 1, 2, ... modulo 16 in order; it
  then has exactly the length the First Frame announced, more than a Single Frame's 7 bytes. The
  frames it used are exactly those it took from the bus.\<close>

theorem receive_sound:
  assumes "ReceivePayload link s = (Inr p, s')"
  shows "\<exists>f cu first ps. ls_incoming s = Arrive f cu # map (\<lambda>(f, cu, _). Arrive f cu) ps @ ls_incoming s' \<and>
    reassembled f first ps p \<and> length p \<le> unat (tx_maximumPayloadLength (lk_transmitter link))"
proof -
  obtain s2 where "receive link (startReception zero_cursor False s) = (Inr p, s2)" "s' = finishReception s2"
    using assms by (auto simp: ReceivePayload_def split: prod.splits)
  then show ?thesis using receive_reassembles by (fastforce simp: startReception_def finishReception_def)
qed

definition single_frame :: frame where
  "single_frame = \<lparr>f_id = 0x7e8, f_data = [0x02, 0x3e, 0x00, 0xaa] @ replicate 60 0, f_dlc = 4, f_flags = 0\<rparr>"

lemma single_frame_received:
  "ReceivePayload (example_link example_server) (quiet zero_cursor (arrivals (\<lambda>_. zero_cursor) [single_frame])) =
     (Inr [0x3e, 0x00], quiet zero_cursor [])"
proof -
  have "DataLength single_frame = 4"
    by (simp add: single_frame_def DataLength_def DLCToLength_def Has_def)
  moreover have "payload_of single_frame = [0x02, 0x3e, 0x00, 0xaa]"
    using calculation by (simp add: payload_of_def single_frame_def)
  ultimately have "parseFrame single_frame = Inr ((blank_pdu 0 4)\<lparr>pdu_payload := [0x3e, 0x00]\<rparr>)"
    by (simp add: parseFrame_def Let_def kind_defs)
  then show ?thesis
    by (simp add: ReceivePayload_def startReception_def finishReception_def receive_def nextFrame_def quiet_def
        example_links(4) blank_pdu_def kind_defs)
qed

theorem receive_sound_witness:
  "ReceivePayload (example_link example_server) (quiet zero_cursor [Arrive single_frame zero_cursor]) =
      (Inr [0x3e, 0x00], quiet zero_cursor []) \<and> (\<exists>first. reassembled single_frame first [] [0x3e, 0x00])"
proof -
  from receive_sound [OF single_frame_received] obtain f cu first ps where
    p: "ls_incoming (quiet zero_cursor (arrivals (\<lambda>_. zero_cursor) [single_frame])) =
      Arrive f cu # map (\<lambda>(f, cu, _). Arrive f cu) ps @ ls_incoming (quiet zero_cursor [])"
      "reassembled f first ps [0x3e, 0x00]"
    by blast
  from p(1) have "f = single_frame" "ps = []" by (simp_all add: quiet_def)
  with p(2) show ?thesis using single_frame_received by auto
qed

end
