(* ===== verification/IsoTp_Receive.thy ===== *)
theory IsoTp_Receive
  imports IsoTp_Link
begin

unbundle bit_operations_syntax

text \<open>
  How a reception ends on an ISO-TP link, for its clients: it takes frames off the link and adds
  none, its fuel suffices, and the expiry of the wait for the first frame is told apart from every
  other failure.
\<close>

text \<open>\<open>errors.Is(err, ErrFirstFrameTimeout)\<close>, through joined errors.\<close>

fun is_first_frame_timeout :: "isotp_error \<Rightarrow> bool" where
  "is_first_frame_timeout FirstFrameTimeout = True"
| "is_first_frame_timeout (Joined a b) = (is_first_frame_timeout a \<or> is_first_frame_timeout b)"
| "is_first_frame_timeout _ = False"

text \<open>The payload arrays of the frames that arrive have their 64 bytes.\<close>

definition whole_frames :: "link_state \<Rightarrow> bool" where
  "whole_frames s = list_all whole (ls_incoming s)"

text \<open>A failure after the first frame.\<close>

definition late_failure :: "isotp_error \<Rightarrow> bool" where
  "late_failure e \<longleftrightarrow> \<not> is_first_frame_timeout e \<and> e \<noteq> OutOfFuel"

lemma makeFrame_failure: "makeFrame tx data full = Inl e \<Longrightarrow> late_failure e"
  by (auto simp: makeFrame_def late_failure_def emap_Inl_iff Let_def split: if_splits)

lemma sendFlowControl_failure: "sendFlowControl link status s = (Inl e, s') \<Longrightarrow> late_failure e"
  using makeFrame_failure
  by (auto simp: sendFlowControl_def lbind_def sendFrame_def late_failure_def split: sum.splits list.splits option.splits)

lemma parseFrame_failure: "parseFrame f = Inl e \<Longrightarrow> late_failure e"
  using parseFrame_error by (fastforce simp: late_failure_def)

lemma parseFrame_consecutive:
  assumes "parseFrame f = Inr p" and "pdu_kind p = frameConsecutive" and "wf_frame f"
  shows "pdu_payload p \<noteq> []"
proof -
  have "length (payload_of f) = DataLength f"
    using assms(3) DataLength_le_64 [of f] by (simp add: payload_of_def wf_frame_def MaxDataLength_def)
  moreover have "2 \<le> DataLength f \<and> pdu_payload p = drop 1 (payload_of f)"
    using assms(1,2) by (auto simp: parseFrame_def Let_def kind_defs blank_pdu_def split: if_splits)
  ultimately show ?thesis by (auto simp flip: length_greater_0_conv)
qed

lemma nextPDU_shorter:
  "nextPDUWithTimeout t s = (r, s') \<Longrightarrow> length (ls_incoming s') \<le> length (ls_incoming s) \<and> (whole_frames s \<longrightarrow> whole_frames s')"
  by (auto simp: nextPDUWithTimeout_def nextFrame_def whole_frames_def split: list.splits incoming.splits)

lemma nextPDU_failure: "nextPDUWithTimeout ConsecutiveFrameTimeout s = (Inl e, s') \<Longrightarrow> late_failure e"
  using parseFrame_failure
  by (auto simp: nextPDUWithTimeout_def nextFrame_def late_failure_def split: list.splits incoming.splits)

lemma sendFlowControl_shorter:
  "sendFlowControl link status s = (r, s') \<Longrightarrow> length (ls_incoming s') \<le> length (ls_incoming s) \<and> (whole_frames s \<longrightarrow> whole_frames s')"
  using sendFlowControl_incoming by (simp add: whole_frames_def)

lemma receiveLoop_ends:
  "receiveLoop fuel link first expected acc sq bc s = (r, s') \<Longrightarrow> whole_frames s \<Longrightarrow> expected - length acc \<le> fuel \<Longrightarrow>
    length (ls_incoming s') \<le> length (ls_incoming s) \<and> whole_frames s' \<and> (\<forall>e. r = Inl e \<longrightarrow> late_failure e)"
proof (induction fuel arbitrary: acc sq bc s)
  case 0
  then show ?case by (auto simp: receiveLoop.simps)
next
  case (Suc fuel)
  show ?case
  proof (cases "length acc < expected")
    case False
    with Suc.prems show ?thesis by (auto simp: receiveLoop.simps)
  next
    case True
    obtain x s1 where x: "nextPDUWithTimeout ConsecutiveFrameTimeout s = (x, s1)" by fastforce
    note s1 = nextPDU_shorter [OF x]
    have protocol: "late_failure ProtocolError" by (simp add: late_failure_def)
    show ?thesis
    proof (cases x)
      case (Inl e)
      then show ?thesis
        using Suc.prems(1,2) True x s1 nextPDU_failure
        by (subst (asm) receiveLoop.simps) (auto simp: lbind_def)
    next
      case (Inr cf)
      obtain f cu where f: "ls_incoming s = Arrive f cu # ls_incoming s1" "parseFrame f = Inr cf"
        using x unfolding Inr by (rule nextPDU_Inr)
      show ?thesis
      proof (cases "pdu_kind cf = frameConsecutive \<and> pdu_sequence cf = sq \<and>
          \<not> (length (pdu_payload cf) < expected - length acc \<and> pdu_dataLength cf \<noteq> pdu_dataLength first)")
        case False
        then have "(r, s') = (Inl ProtocolError, s1)"
          using Suc.prems(1) True x Inr by (subst (asm) receiveLoop.simps) (auto simp: lbind_def Let_def split: if_splits)
        then show ?thesis using s1 Suc.prems(2) protocol by simp
      next
        case ok: True
        let ?acc = "acc @ take (expected - length acc) (pdu_payload cf)"
        have "wf_frame f" using Suc.prems(2) f(1) by (simp add: whole_frames_def)
        then have "pdu_payload cf \<noteq> []" using parseFrame_consecutive f(2) ok by blast
        then have fuel: "expected - length ?acc \<le> fuel"
          using True Suc.prems(3) by (cases "pdu_payload cf") auto
        have run: "(r, s') = (if lk_blockSize link > 0 \<and> bc + 1 = lk_blockSize link \<and> length ?acc < expected
          then lbind (sendFlowControl link flowContinue) (\<lambda>_.
            receiveLoop fuel link first expected ?acc ((sq + 1) AND 0x0f) 0) s1
          else receiveLoop fuel link first expected ?acc ((sq + 1) AND 0x0f) (bc + 1) s1)"
          using Suc.prems(1) receiveLoop_step [OF True x [unfolded Inr] _ _ _ refl, of sq first fuel link bc] ok by simp
        show ?thesis
        proof (cases "lk_blockSize link > 0 \<and> bc + 1 = lk_blockSize link \<and> length ?acc < expected")
          case True
          obtain y s2 where y: "sendFlowControl link flowContinue s1 = (y, s2)" by fastforce
          show ?thesis
          proof (cases y)
            case (Inl e)
            then show ?thesis
              using run True y sendFlowControl_failure sendFlowControl_shorter [OF y] s1 Suc.prems(2)
              by (auto simp: lbind_def)
          next
            case (Inr u)
            then have "receiveLoop fuel link first expected ?acc ((sq + 1) AND 0x0f) 0 s2 = (r, s')"
              using run True y by (simp add: lbind_def)
            then show ?thesis
              using Suc.IH [OF _ _ fuel] sendFlowControl_shorter [OF y] s1 Suc.prems(2) by fastforce
          qed
        next
          case False
          then have "receiveLoop fuel link first expected ?acc ((sq + 1) AND 0x0f) (bc + 1) s1 = (r, s')"
            using run by (simp only: if_False)
          then show ?thesis using Suc.IH [OF _ _ fuel] s1 Suc.prems(2) by fastforce
        qed
      qed
    qed
  qed
qed

lemma receiveMultiFrame_ends:
  assumes "receiveMultiFrame link first s = (r, s')" and "whole_frames s"
  shows "length (ls_incoming s') \<le> length (ls_incoming s) \<and> whole_frames s' \<and> (\<forall>e. r = Inl e \<longrightarrow> late_failure e)"
proof -
  consider (err) e where "(r, s') = (Inl e, s)" "late_failure e"
    | (overflow) x where "sendFlowControl link flowOverflow s = (x, s')" "\<exists>e. r = Inl e \<and> late_failure e"
    | (start) e where "sendFlowControl link flowContinue s = (Inl e, s')" "r = Inl e"
    | (loop) s1 where "sendFlowControl link flowContinue s = (Inr (), s1)"
        "receiveLoop (unat (pdu_length first)) link first (unat (pdu_length first)) (pdu_payload first) 1 0 s1 = (r, s')"
    using assms(1) sendFlowControl_failure [of link flowOverflow s]
    by (fastforce simp: receiveMultiFrame_def Let_def lbind_def late_failure_def split: if_splits prod.splits sum.splits)
  then show ?thesis
  proof cases
    case (loop s1)
    then show ?thesis
      using receiveLoop_ends [OF loop(2)] sendFlowControl_shorter [OF loop(1)] assms(2) by fastforce
  qed (use assms(2) sendFlowControl_failure sendFlowControl_shorter in fastforce)+
qed

lemma receive_ends:
  assumes "receive link s = (r, s')" and "whole_frames s"
  shows "length (ls_incoming s') \<le> length (ls_incoming s) \<and> whole_frames s'"
    and "r = Inr p \<Longrightarrow> length (ls_incoming s') < length (ls_incoming s)"
    and "r = Inl e \<Longrightarrow> e \<noteq> OutOfFuel"
    and "r = Inl e \<Longrightarrow> is_first_frame_timeout e \<Longrightarrow> ls_incoming s = WaitExpired # ls_incoming s'"
proof -
  have all: "length (ls_incoming s') \<le> length (ls_incoming s) \<and> whole_frames s' \<and>
      (\<forall>e. r = Inl e \<longrightarrow> late_failure e \<or> e = FirstFrameTimeout \<and> ls_incoming s = WaitExpired # ls_incoming s')"
  proof (cases "nextFrame s")
    case (Pair x s1)
    have s1: "length (ls_incoming s1) \<le> length (ls_incoming s)" "whole_frames s1"
      using Pair assms(2) by (auto simp: nextFrame_def whole_frames_def split: list.splits incoming.splits)
    show ?thesis
    proof (cases x)
      case (Inl e)
      then have "r = Inl (next_failure FirstFrameTimeout e)" "s' = s1" using assms(1) Pair by (simp_all add: receive_def)
      then show ?thesis
        using s1 Pair Inl
        by (auto simp: nextFrame_def late_failure_def split: list.splits incoming.splits)
    next
      case (Inr f)
      consider (err) e where "(r, s') = (Inl e, s1)" "late_failure e" | (single) p where "(r, s') = (Inr p, s1)"
        | (multi) first where "receiveMultiFrame link first s1 = (r, s')"
        using assms(1) Pair Inr parseFrame_failure [of f]
        by (cases "parseFrame f") (auto simp: receive_def late_failure_def split: if_splits)
      then show ?thesis
      proof cases
        case (multi first)
        then show ?thesis using receiveMultiFrame_ends [OF multi s1(2)] s1(1) by force
      qed (use s1 in auto)
    qed
  qed
  then show "length (ls_incoming s') \<le> length (ls_incoming s) \<and> whole_frames s'"
    and "r = Inl e \<Longrightarrow> e \<noteq> OutOfFuel"
    and "r = Inl e \<Longrightarrow> is_first_frame_timeout e \<Longrightarrow> ls_incoming s = WaitExpired # ls_incoming s'"
    by (auto simp: late_failure_def)
  show "length (ls_incoming s') < length (ls_incoming s)" if "r = Inr p"
    using receive_reassembles [of link s p s'] assms(1) that by auto
qed

section \<open>Operations only take input\<close>

definition takes :: "link_state \<Rightarrow> link_state \<Rightarrow> bool" where
  "takes s s' \<longleftrightarrow> (\<exists>xs. ls_incoming s = xs @ ls_incoming s')"

lemma takes_refl [simp]: "ls_incoming s = ls_incoming s' \<Longrightarrow> takes s s'"
  by (auto simp: takes_def)

lemma takes_trans: "takes s s1 \<Longrightarrow> takes s1 s2 \<Longrightarrow> takes s s2"
  unfolding takes_def by (metis append.assoc)

lemma takes_whole: "takes s s' \<Longrightarrow> whole_frames s \<Longrightarrow> whole_frames s'"
  by (auto simp: takes_def whole_frames_def)

lemma takes_lbind:
  assumes "lbind m f s = (r, s')" and "\<And>x s1. m s = (x, s1) \<Longrightarrow> takes s s1"
    and "\<And>x s1. m s = (Inr x, s1) \<Longrightarrow> f x s1 = (r, s') \<Longrightarrow> takes s1 s'"
  shows "takes s s'"
proof (cases "m s")
  case (Pair x s1)
  then show ?thesis
    using assms(1) assms(2) [OF Pair] assms(3) by (cases x) (auto simp: lbind_def intro: takes_trans)
qed

lemma sendFrame_incoming: "sendFrame f s = (r, s') \<Longrightarrow> ls_incoming s' = ls_incoming s"
  by (auto simp: sendFrame_def split: list.splits option.splits)

lemma waitContext_incoming: "waitContext d s = (r, s') \<Longrightarrow> ls_incoming s' = ls_incoming s"
  by (auto simp: waitContext_def split: list.splits option.splits if_splits)

lemma nextPDU_takes: "nextPDUWithTimeout t s = (r, s') \<Longrightarrow> takes s s'"
  by (auto simp: nextPDUWithTimeout_def nextFrame_def takes_def split: list.splits incoming.splits)

lemma waitFlowControl_takes: "waitFlowControl_from link n s = (r, s') \<Longrightarrow> takes s s'"
proof (induction link n arbitrary: s rule: waitFlowControl_from.induct)
  case (1 link n)
  from "1.prems" show ?case
  proof (subst (asm) waitFlowControl_from.simps, elim takes_lbind)
    fix pdu s1
    assume p: "nextPDUWithTimeout FlowControlTimeout s = (Inr pdu, s1)"
      "(if pdu_kind pdu \<noteq> frameFlowControl then lfail ProtocolError
        else if pdu_flowStatus pdu = flowContinue then lreturn pdu
        else if pdu_flowStatus pdu = flowWait then
          (if n + 1 > unat (lk_waitFrameLimit link) then lfail WaitFrameLimit else waitFlowControl_from link (n + 1))
        else lfail FlowControlOverflow) s1 = (r, s')"
    then show "takes s1 s'" using "1.IH" by (auto split: if_splits)
  qed (rule nextPDU_takes)
qed

lemma sendBlock_incoming:
  "sendBlock fuel link control payload offset sq bc s = (r, s') \<Longrightarrow> ls_incoming s' = ls_incoming s"
proof (induction fuel arbitrary: offset sq bc s)
  case 0
  then show ?case by (subst (asm) sendBlock.simps) (auto split: if_splits)
next
  case (Suc fuel)
  from Suc.prems show ?case
    by (subst (asm) sendBlock.simps)
      (auto simp: lbind_def Let_def dest!: sendFrame_incoming waitContext_incoming Suc.IH split: if_splits prod.splits sum.splits)
qed

lemma sendSegments_takes: "sendSegments fuel link payload offset sq s = (r, s') \<Longrightarrow> takes s s'"
proof (induction fuel arbitrary: offset sq s)
  case 0
  then show ?case by (subst (asm) sendSegments.simps) (auto split: if_splits)
next
  case (Suc fuel)
  show ?case
  proof (cases "offset < length payload")
    case True
    then have "lbind (waitFlowControl link) (\<lambda>control.
        lbind (sendBlock (length payload) link control payload offset sq 0) (\<lambda>(offset, sq).
        sendSegments fuel link payload offset sq)) s = (r, s')"
      using Suc.prems by (subst (asm) sendSegments.simps) simp
    then show ?thesis
    proof (rule takes_lbind)
      show "takes s s1" if "waitFlowControl link s = (x, s1)" for x s1
        using that waitFlowControl_takes by (auto simp: waitFlowControl_def)
      show "takes s1 s'" if "lbind (sendBlock (length payload) link control payload offset sq 0) (\<lambda>(offset, sq).
          sendSegments fuel link payload offset sq) s1 = (r, s')" for control s1
        by (rule takes_lbind [OF that]) (auto dest!: sendBlock_incoming Suc.IH)
    qed
  qed (use Suc.prems in \<open>subst (asm) sendSegments.simps, simp\<close>)
qed

lemma transmit_takes: "transmit link t reposition s = (r, s') \<Longrightarrow> takes s s'"
  unfolding transmit_def
  by (elim takes_lbind)
    (auto simp: repositionCursor_def dest!: sendFrame_incoming sendSegments_takes split: if_splits list.splits option.splits)

lemma prepareTransmission_failure: "prepareTransmission tx p = Inl e \<Longrightarrow> e \<noteq> OutOfFuel"
  using makeFrame_failure
  by (fastforce simp: prepareTransmission_def Let_def ebind_Inl_iff late_failure_def split: if_splits)

lemma BeginExchange_ends:
  assumes "BeginExchange link e p s = (r, s')" and "wf_transmitter (lk_transmitter link)"
  shows "takes s s'" and "r \<noteq> Inl OutOfFuel" and "isl r \<Longrightarrow> \<not> ls_retaining s \<Longrightarrow> \<not> ls_retaining s'"
proof -
  have "takes s s' \<and> r \<noteq> Inl OutOfFuel \<and> (isl r \<longrightarrow> \<not> ls_retaining s \<longrightarrow> \<not> ls_retaining s')"
  proof (cases "prepareTransmission (lk_transmitter link) p")
    case (Inl e)
    then show ?thesis using assms(1) prepareTransmission_failure by (auto simp: BeginExchange_def)
  next
    case (Inr t)
    obtain x s1 where x: "transmit link t True (startReception e True s) = (x, s1)" by fastforce
    have "takes s s1" using transmit_takes [OF x] by (simp add: takes_def startReception_def)
    moreover have "x \<noteq> Inl OutOfFuel" using transmit_safe [OF assms(2) x] by blast
    ultimately show ?thesis
      using assms(1) Inr x by (cases x) (auto simp: BeginExchange_def finishReception_def takes_def)
  qed
  then show "takes s s'" and "r \<noteq> Inl OutOfFuel" and "isl r \<Longrightarrow> \<not> ls_retaining s \<Longrightarrow> \<not> ls_retaining s'"
    by simp_all
qed

section \<open>Whole transfers\<close>

text \<open>The frames of a payload, the Flow Control frames that answer them, and the payloads two links can exchange.\<close>

definition payload_frames :: "transmitter \<Rightarrow> bytes \<Rightarrow> frame list" where
  "payload_frames tx p = (case prepareTransmission tx p of Inr t \<Rightarrow> frames_of tx t | Inl _ \<Rightarrow> [])"

definition transfer_controls :: "link \<Rightarrow> transmitter \<Rightarrow> bytes \<Rightarrow> frame list" where
  "transfer_controls rx tx p =
     replicate (fc_needed (lk_blockSize rx) (length (payload_frames tx p) - 1)) (fc_frame rx)"

definition exchangeable :: "link \<Rightarrow> link \<Rightarrow> bytes \<Rightarrow> bool" where
  "exchangeable a b p \<longleftrightarrow> p \<noteq> [] \<and> length p \<le> unat (tx_maximumPayloadLength (lk_transmitter a)) \<and>
     length p \<le> unat (tx_maximumPayloadLength (lk_transmitter b))"

lemma receive_transfer:
  assumes "wf_transmitter (lk_transmitter tx)" and "wf_transmitter (lk_transmitter rx)" and "exchangeable rx tx p"
    and "ls_sends s = []" and "ls_incoming s = arrivals cur (payload_frames (lk_transmitter tx) p) @ rest"
  shows "\<exists>s'. receive rx s = (Inr p, s') \<and> ls_incoming s' = rest \<and> ls_sends s' = [] \<and>
    ls_sent s' = ls_sent s @ transfer_controls rx (lk_transmitter tx) p"
proof -
  obtain t where t: "prepareTransmission (lk_transmitter tx) p = Inr t"
    using prepareTransmission_ok [OF assms(1)] assms(3) by (auto simp: exchangeable_def)
  show ?thesis
    using receive_frames [OF assms(1,2) t _ assms(4), of cur rest] assms(3,5) t
    by (simp add: payload_frames_def transfer_controls_def exchangeable_def)
qed

lemma BeginExchange_transfer:
  assumes "wf_transmitter (lk_transmitter tx)" and "wf_transmitter (lk_transmitter rx)" and "exchangeable rx tx p"
    and "benign s" and "ls_located s = [Some c]"
    and "ls_incoming s = arrivals cur (transfer_controls rx (lk_transmitter tx) p) @ rest"
  shows "\<exists>s'. BeginExchange tx e p s = (Inr (), s') \<and> ls_incoming s' = rest \<and> ls_sends s' = [] \<and>
    ls_sent s' = ls_sent s @ payload_frames (lk_transmitter tx) p"
proof -
  obtain t where t: "prepareTransmission (lk_transmitter tx) p = Inr t"
    using prepareTransmission_ok [OF assms(1)] assms(3) by (auto simp: exchangeable_def)
  define s0 where "s0 = startReception e True s"
  have "benign s0" "ls_located s0 = [Some c]" "ls_sent s0 = ls_sent s" "ls_incoming s0 = ls_incoming s"
    using assms(4,5) by (simp_all add: s0_def startReception_def benign_def)
  then obtain s' where "transmit tx t True s0 = (Inr (), s')" "ls_incoming s' = rest" "benign s'"
    "ls_sent s' = ls_sent s @ frames_of (lk_transmitter tx) t"
    using transmit_frames [OF assms(1,2), of s0 True cur t rest] assms(6) t
    by (auto simp: transfer_controls_def payload_frames_def)
  then show ?thesis using t by (simp add: BeginExchange_def s0_def payload_frames_def benign_def)
qed

end
