(* ===== verification/Uds_Client.thy ===== *)
theory Uds_Client
  imports IsoTp_Receive
begin

unbundle bit_operations_syntax

text \<open>
  The raw UDS client, \<open>uds/uds.go\<close>: one request on an ISO-TP exchange and the wait for its final
  response, with P2 for the first response, P2* after every ResponsePending and an optional second
  wait after each expiry. An operation runs on the scripted link of \<open>IsoTp_Link\<close>; in addition a
  script gives what successive looks at the caller's context see, and the state records the limit
  of every wait for a first frame.
\<close>

section \<open>State and results\<close>

datatype uds_error =
    NilLink
  | NegativeP2
  | NegativeP2Star
  | NegativeRecovery
  | NonPositiveP2
  | NonPositiveP2Star
  | NoPositiveService u8
  | LinkError isotp_error
  | ContextEnded nat
  | P2Timeout
  | P2StarTimeout
  | InvalidResponse
  | UnexpectedResponse
  | NegativeResponse u8 u8
  | InvalidRequest
  | SubfunctionSuppresses u8
  | SubfunctionZero
  | SubfunctionReserved u8
  | LevelNotOdd u8
  | NodeRequired u8
  | NodeNotAccepted u8
  | CommunicationTypeReserved u8
  | CommunicationTypeSelectsNone u8
  | BadIOControlParameter u8
  | BadAddressLength u8
  | BadSizeLength u8
  | SizeZero
  | AddressTooWide u64
  | SizeTooWide u64
  | UdsOutOfFuel

record uds_client =
  cl_link :: link
  cl_p2Timeout :: int
  cl_p2StarTimeout :: int
  cl_recoveryTimeout :: int

record uds_config =
  ucf_p2Timeout :: int
  ucf_p2StarTimeout :: int
  ucf_recoveryTimeout :: int

record uds_request =
  rq_service :: u8
  rq_data :: bytes

record uds_response =
  rs_service :: u8
  rs_data :: bytes

text \<open>\<open>us_end\<close> is the end of the capture when the operation starts.\<close>

record uds_state =
  us_link :: link_state
  us_end :: cursor
  us_context :: "nat option list"
  us_limits :: "int list"

type_synonym 'a uds_op = "uds_state \<Rightarrow> (uds_error + 'a) \<times> uds_state"

definition ulift :: "uds_error + 'a \<Rightarrow> 'a uds_op" where
  "ulift r s = (r, s)"

definition ubind :: "'a uds_op \<Rightarrow> ('a \<Rightarrow> 'b uds_op) \<Rightarrow> 'b uds_op" where
  "ubind m f s = (case m s of (Inl e, s) \<Rightarrow> (Inl e, s) | (Inr x, s) \<Rightarrow> f x s)"

lemma ubind_ulift [simp]: "ubind (ulift (Inr x)) f = f x" "ubind (ulift (Inl e)) f = ulift (Inl e)"
  by (auto simp: ubind_def ulift_def)

lemma ulift_apply [simp]: "ulift r s = (r, s)"
  by (simp add: ulift_def)

lemma ubind_Inr_iff: "ubind m f s = (Inr y, s') \<longleftrightarrow> (\<exists>x s1. m s = (Inr x, s1) \<and> f x s1 = (Inr y, s'))"
  by (auto simp: ubind_def split: prod.splits sum.splits)

text \<open>An operation of the link, its error wrapped as the client returns it.\<close>

definition on_link :: "'a link_op \<Rightarrow> 'a uds_op" where
  "on_link m s = (case m (us_link s) of (r, l) \<Rightarrow> (emap LinkError r, s\<lparr>us_link := l\<rparr>))"

text \<open>A look at the context: the cause when it has ended. A script that runs out never ends.\<close>

definition ctx_err :: "uds_state \<Rightarrow> nat option \<times> uds_state" where
  "ctx_err s = (case us_context s of [] \<Rightarrow> (None, s) | x # rest \<Rightarrow> (x, s\<lparr>us_context := rest\<rparr>))"

section \<open>Construction\<close>

definition defaultP2Timeout :: int where "defaultP2Timeout = 100 * millisecond"
definition defaultP2StarTimeout :: int where "defaultP2StarTimeout = 5000 * millisecond"
definition responsePending :: u8 where "responsePending = 0x78"

definition uds_timeout :: "int \<Rightarrow> int \<Rightarrow> uds_error \<Rightarrow> uds_error + int" where
  "uds_timeout v d e = (if v < 0 then Inl e else if v = 0 then Inr d else Inr v)"

definition NewUds :: "link option \<Rightarrow> uds_config \<Rightarrow> uds_error + uds_client" where
  "NewUds lk cfg =
     (case lk of
        None \<Rightarrow> Inl NilLink
      | Some l \<Rightarrow>
          ebind (uds_timeout (ucf_p2Timeout cfg) defaultP2Timeout NegativeP2) (\<lambda>p2.
          ebind (uds_timeout (ucf_p2StarTimeout cfg) defaultP2StarTimeout NegativeP2Star) (\<lambda>p2star.
          if ucf_recoveryTimeout cfg < 0 then Inl NegativeRecovery
          else Inr \<lparr>cl_link = l, cl_p2Timeout = p2, cl_p2StarTimeout = p2star,
                    cl_recoveryTimeout = ucf_recoveryTimeout cfg\<rparr>)))"

section \<open>Requests and responses\<close>

definition request_payload :: "uds_request \<Rightarrow> uds_error + bytes" where
  "request_payload r =
     (if rq_service r AND 0x40 \<noteq> 0 then Inl (NoPositiveService (rq_service r))
      else Inr (rq_service r # rq_data r))"

text \<open>A parsed response is positive, or the code of a negative one.\<close>

datatype parsed = Positive uds_response | Negative u8 u8

definition parseResponse :: "u8 \<Rightarrow> bytes \<Rightarrow> uds_error + parsed" where
  "parseResponse service p =
     (case p of
        [] \<Rightarrow> Inl InvalidResponse
      | b # data \<Rightarrow>
          if b = 0x7f then
            (case data of
               [echo, code] \<Rightarrow>
                 if code = responsePending then Inr (Negative service code)
                 else if echo \<noteq> service then Inl UnexpectedResponse
                 else Inr (Negative service code)
             | _ \<Rightarrow> Inl InvalidResponse)
          else if b \<noteq> service + 0x40 then Inl UnexpectedResponse
          else Inr (Positive \<lparr>rs_service = service, rs_data = data\<rparr>))"

section \<open>Waiting for a response\<close>

definition exchange_next :: "uds_client \<Rightarrow> int \<Rightarrow> uds_state \<Rightarrow> (isotp_error + bytes) \<times> uds_state" where
  "exchange_next c limit s = (case ExchangeNext (cl_link c) False limit (us_link s) of
     (r, l) \<Rightarrow> (r, s\<lparr>us_link := l, us_limits := us_limits s @ [limit]\<rparr>))"

definition timed_out :: "isotp_error + bytes \<Rightarrow> bool" where
  "timed_out r = (case r of Inl e \<Rightarrow> is_first_frame_timeout e | Inr _ \<Rightarrow> False)"

definition recover :: "uds_client \<Rightarrow> isotp_error + bytes \<Rightarrow> uds_state \<Rightarrow> (isotp_error + bytes) \<times> uds_state" where
  "recover c r s =
     (if timed_out r \<and> cl_recoveryTimeout c > 0 then
        (case ctx_err s of
           (None, s) \<Rightarrow> exchange_next c (cl_recoveryTimeout c) s
         | (Some _, s) \<Rightarrow> (r, s))
      else (r, s))"

text \<open>The end of a wait: an ended context wins over a reply and over a timeout of the wait.\<close>

definition settle :: "uds_error \<Rightarrow> isotp_error + bytes \<Rightarrow> bytes uds_op" where
  "settle timeoutError r s =
     (if \<not> isl r \<or> timed_out r then
        (case ctx_err s of
           (Some cause, s) \<Rightarrow> (Inl (ContextEnded cause), s)
         | (None, s) \<Rightarrow> (if timed_out r then Inl timeoutError else emap LinkError r, s))
      else (emap LinkError r, s))"

definition nextWithTimeout :: "uds_client \<Rightarrow> int \<Rightarrow> uds_error \<Rightarrow> bytes uds_op" where
  "nextWithTimeout c limit timeoutError s =
     (case ctx_err s of
        (Some cause, s) \<Rightarrow> (Inl (ContextEnded cause), s)
      | (None, s) \<Rightarrow>
          (case exchange_next c limit s of (r, s) \<Rightarrow>
           case recover c r s of (r, s) \<Rightarrow> settle timeoutError r s))"

section \<open>The exchange\<close>

text \<open>Every round takes a frame off the link, so the frames still to arrive bound the rounds.\<close>

fun do_loop :: "nat \<Rightarrow> uds_client \<Rightarrow> u8 \<Rightarrow> int \<Rightarrow> uds_error \<Rightarrow> uds_response uds_op" where
  "do_loop 0 c service limit timeoutError = ulift (Inl UdsOutOfFuel)"
| "do_loop (Suc fuel) c service limit timeoutError =
     ubind (nextWithTimeout c limit timeoutError) (\<lambda>p.
     ubind (ulift (parseResponse service p)) (\<lambda>response.
       case response of
         Positive r \<Rightarrow> ulift (Inr r)
       | Negative sv code \<Rightarrow>
           if code \<noteq> responsePending then ulift (Inl (NegativeResponse sv code))
           else do_loop fuel c service (cl_p2StarTimeout c) P2StarTimeout))"

definition close_exchange :: "uds_state \<Rightarrow> uds_state" where
  "close_exchange s = s\<lparr>us_link := finishReception (us_link s)\<rparr>"

definition UdsDo :: "uds_client \<Rightarrow> uds_request \<Rightarrow> uds_response uds_op" where
  "UdsDo c request =
     ubind (ulift (request_payload request)) (\<lambda>payload.
     ubind (\<lambda>s. on_link (BeginExchange (cl_link c) (us_end s) payload) s) (\<lambda>_. (\<lambda>s.
       case do_loop (Suc (length (ls_incoming (us_link s)))) c (rq_service request)
              (cl_p2Timeout c) P2Timeout s of
         (r, s) \<Rightarrow> (r, close_exchange s))))"

definition UdsSend :: "uds_client \<Rightarrow> uds_request \<Rightarrow> unit uds_op" where
  "UdsSend c request =
     ubind (ulift (request_payload request)) (\<lambda>payload s.
       on_link (SendPayload (cl_link c) (us_end s) payload) s)"

text \<open>Initial silence is no error here; \<open>P2Timeout\<close> is never wrapped by another error.\<close>

definition DoSuppressed :: "uds_client \<Rightarrow> uds_request \<Rightarrow> uds_response option uds_op" where
  "DoSuppressed c request s =
     (case UdsDo c request s of
        (Inl e, s) \<Rightarrow> (if e = P2Timeout then Inr None else Inl e, s)
      | (Inr r, s) \<Rightarrow> (Inr (Some r), s))"

definition uds_RetentionCursor :: "uds_state \<Rightarrow> cursor" where
  "uds_RetentionCursor s = RetentionCursor (us_end s) (us_link s)"

end
