(* ===== verification/Uds_Services.thy ===== *)
theory Uds_Services
  imports Uds_Client
begin

unbundle bit_operations_syntax

text \<open>
  The typed operations of the UDS client: one standard service each (\<open>uds/services.go\<close>), the
  functionally addressed, suppressed requests (\<open>uds/functional.go\<close>) and the fault memory
  (\<open>uds/fault_memory.go\<close>). Enumerated byte types of the source are bytes here.
\<close>

section \<open>Service identifiers and byte fields\<close>

definition suppressPositiveResponse :: byte where "suppressPositiveResponse = 0x80"

definition ServiceDiagnosticSessionControl :: u8 where "ServiceDiagnosticSessionControl = 0x10"
definition ServiceECUReset :: u8 where "ServiceECUReset = 0x11"
definition ServiceClearDiagnosticInformation :: u8 where "ServiceClearDiagnosticInformation = 0x14"
definition ServiceReadDTCInformation :: u8 where "ServiceReadDTCInformation = 0x19"
definition ServiceReadDataByIdentifier :: u8 where "ServiceReadDataByIdentifier = 0x22"
definition ServiceSecurityAccess :: u8 where "ServiceSecurityAccess = 0x27"
definition ServiceCommunicationControl :: u8 where "ServiceCommunicationControl = 0x28"
definition ServiceWriteDataByIdentifier :: u8 where "ServiceWriteDataByIdentifier = 0x2e"
definition ServiceInputOutputControlByIdentifier :: u8 where "ServiceInputOutputControlByIdentifier = 0x2f"
definition ServiceRoutineControl :: u8 where "ServiceRoutineControl = 0x31"
definition ServiceRequestDownload :: u8 where "ServiceRequestDownload = 0x34"
definition ServiceTransferData :: u8 where "ServiceTransferData = 0x36"
definition ServiceRequestTransferExit :: u8 where "ServiceRequestTransferExit = 0x37"
definition ServiceTesterPresent :: u8 where "ServiceTesterPresent = 0x3e"
definition ServiceControlDTCSetting :: u8 where "ServiceControlDTCSetting = 0x85"

lemmas service_defs = ServiceDiagnosticSessionControl_def ServiceECUReset_def
  ServiceClearDiagnosticInformation_def ServiceReadDTCInformation_def ServiceReadDataByIdentifier_def
  ServiceSecurityAccess_def ServiceCommunicationControl_def ServiceWriteDataByIdentifier_def
  ServiceInputOutputControlByIdentifier_def ServiceRoutineControl_def ServiceRequestDownload_def
  ServiceTransferData_def ServiceRequestTransferExit_def ServiceTesterPresent_def
  ServiceControlDTCSetting_def

text \<open>\<open>binary.BigEndian.PutUint16\<close> and \<open>Uint16\<close>.\<close>

definition be16 :: "u16 \<Rightarrow> bytes" where
  "be16 x = [ucast (drop_bit 8 x), ucast x]"

definition be16_of :: "bytes \<Rightarrow> u16" where
  "be16_of b = push_bit 8 (ucast (b ! 0)) OR ucast (b ! 1)"

text \<open>The loop fills the destination from its end; \<open>n\<close> is the destination's length.\<close>

fun putBigEndianWidth :: "nat \<Rightarrow> u64 \<Rightarrow> bytes" where
  "putBigEndianWidth 0 v = []"
| "putBigEndianWidth (Suc n) v = putBigEndianWidth n (drop_bit 8 v) @ [ucast v]"

definition readBigEndianWidth :: "bytes \<Rightarrow> u64" where
  "readBigEndianWidth b = foldl (\<lambda>v octet. push_bit 8 v OR ucast octet) 0 b"

definition fitsWidth :: "u64 \<Rightarrow> u8 \<Rightarrow> bool" where
  "fitsWidth v width \<longleftrightarrow> width = 8 \<or> v < push_bit (unat (width * 8)) 1"

section \<open>Validation\<close>

definition validateSubfunction :: "byte \<Rightarrow> uds_error + unit" where
  "validateSubfunction v =
     (if v AND suppressPositiveResponse \<noteq> 0 then Inl (SubfunctionSuppresses v)
      else if v = 0 then Inl SubfunctionZero
      else if v = 0x7f then Inl (SubfunctionReserved v)
      else Inr ())"

definition validateSecurityLevel :: "u8 \<Rightarrow> uds_error + unit" where
  "validateSecurityLevel level =
     ebind (validateSubfunction level) (\<lambda>_. if level AND 1 = 0 then Inl (LevelNotOdd level) else Inr ())"

definition communicationControlRequest :: "u8 \<Rightarrow> u8 \<Rightarrow> u16 option \<Rightarrow> uds_error + bytes" where
  "communicationControlRequest controlType communicationType nodeID =
     (let withNode = (controlType = 0x04 \<or> controlType = 0x05) in
      if controlType AND suppressPositiveResponse \<noteq> 0 then Inl (SubfunctionSuppresses controlType)
      else if withNode \<and> nodeID = None then Inl (NodeRequired controlType)
      else if \<not> withNode \<and> nodeID \<noteq> None then Inl (NodeNotAccepted controlType)
      else if controlType = 0x7f then Inl (SubfunctionReserved controlType)
      else if communicationType AND 0x0c \<noteq> 0 then Inl (CommunicationTypeReserved communicationType)
      else if communicationType AND 0x03 = 0 then Inl (CommunicationTypeSelectsNone communicationType)
      else Inr ([controlType, communicationType] @ (case nodeID of None \<Rightarrow> [] | Some n \<Rightarrow> be16 n)))"

record memory_location =
  ml_address :: u64
  ml_size :: u64
  ml_addressLength :: u8
  ml_sizeLength :: u8

definition validateMemoryLocation :: "memory_location \<Rightarrow> uds_error + unit" where
  "validateMemoryLocation l =
     (if ml_addressLength l < 1 \<or> ml_addressLength l > 8 then Inl (BadAddressLength (ml_addressLength l))
      else if ml_sizeLength l < 1 \<or> ml_sizeLength l > 8 then Inl (BadSizeLength (ml_sizeLength l))
      else if ml_size l = 0 then Inl SizeZero
      else if \<not> fitsWidth (ml_address l) (ml_addressLength l) then Inl (AddressTooWide (ml_address l))
      else if \<not> fitsWidth (ml_size l) (ml_sizeLength l) then Inl (SizeTooWide (ml_size l))
      else Inr ())"

section \<open>Services that check an echo\<close>

definition do_service :: "uds_client \<Rightarrow> u8 \<Rightarrow> bytes \<Rightarrow> bytes uds_op" where
  "do_service c service data =
     ubind (UdsDo c \<lparr>rq_service = service, rq_data = data\<rparr>) (\<lambda>r. ulift (Inr (rs_data r)))"

definition check_echo :: "bytes \<Rightarrow> bool \<Rightarrow> bytes \<Rightarrow> uds_error + bytes" where
  "check_echo echo exact data =
     (if length data < length echo \<or> exact \<and> length data \<noteq> length echo then Inl InvalidResponse
      else if list_ex (\<lambda>(x, y). x \<noteq> y) (zip data echo) then Inl UnexpectedResponse
      else Inr (drop (length echo) data))"

definition doEchoed :: "uds_client \<Rightarrow> u8 \<Rightarrow> bytes \<Rightarrow> bytes \<Rightarrow> bool \<Rightarrow> bytes uds_op" where
  "doEchoed c service request echo exact =
     ubind (do_service c service request) (\<lambda>data. ulift (check_echo echo exact data))"

definition discard :: "'a uds_op \<Rightarrow> unit uds_op" where
  "discard m = ubind m (\<lambda>_. ulift (Inr ()))"

definition ECUReset :: "uds_client \<Rightarrow> u8 \<Rightarrow> bytes uds_op" where
  "ECUReset c resetType =
     ubind (ulift (validateSubfunction resetType)) (\<lambda>_.
       doEchoed c ServiceECUReset [resetType] [resetType] False)"

definition SendECUReset :: "uds_client \<Rightarrow> u8 \<Rightarrow> unit uds_op" where
  "SendECUReset c resetType =
     ubind (ulift (validateSubfunction resetType)) (\<lambda>_.
       UdsSend c \<lparr>rq_service = ServiceECUReset, rq_data = [resetType OR suppressPositiveResponse]\<rparr>)"

definition ReadDataByIdentifier :: "uds_client \<Rightarrow> u16 \<Rightarrow> bytes uds_op" where
  "ReadDataByIdentifier c identifier =
     doEchoed c ServiceReadDataByIdentifier (be16 identifier) (be16 identifier) False"

definition WriteDataByIdentifier :: "uds_client \<Rightarrow> u16 \<Rightarrow> bytes \<Rightarrow> unit uds_op" where
  "WriteDataByIdentifier c identifier rec =
     discard (doEchoed c ServiceWriteDataByIdentifier (be16 identifier @ rec) (be16 identifier) True)"

definition InputOutputControlByIdentifier :: "uds_client \<Rightarrow> u16 \<Rightarrow> u8 \<Rightarrow> bytes \<Rightarrow> bytes \<Rightarrow> bytes uds_op" where
  "InputOutputControlByIdentifier c identifier parameter controlState enableMask =
     (if parameter > 3 then ulift (Inl (BadIOControlParameter parameter))
      else doEchoed c ServiceInputOutputControlByIdentifier
        (be16 identifier @ [parameter] @ controlState @ enableMask) (be16 identifier @ [parameter]) False)"

definition RequestSeed :: "uds_client \<Rightarrow> u8 \<Rightarrow> bytes \<Rightarrow> bytes uds_op" where
  "RequestSeed c level rec =
     ubind (ulift (validateSecurityLevel level)) (\<lambda>_.
       doEchoed c ServiceSecurityAccess (level # rec) [level] False)"

definition SendKey :: "uds_client \<Rightarrow> u8 \<Rightarrow> bytes \<Rightarrow> unit uds_op" where
  "SendKey c level key =
     ubind (ulift (validateSecurityLevel level)) (\<lambda>_.
       discard (doEchoed c ServiceSecurityAccess ((level + 1) # key) [level + 1] True))"

definition CommunicationControl :: "uds_client \<Rightarrow> u8 \<Rightarrow> u8 \<Rightarrow> unit uds_op" where
  "CommunicationControl c controlType communicationType =
     ubind (ulift (communicationControlRequest controlType communicationType None)) (\<lambda>request.
       discard (doEchoed c ServiceCommunicationControl request (take 1 request) True))"

definition CommunicationControlWithNode :: "uds_client \<Rightarrow> u8 \<Rightarrow> u8 \<Rightarrow> u16 \<Rightarrow> unit uds_op" where
  "CommunicationControlWithNode c controlType communicationType nodeID =
     ubind (ulift (communicationControlRequest controlType communicationType (Some nodeID))) (\<lambda>request.
       discard (doEchoed c ServiceCommunicationControl request (take 1 request) True))"

definition ControlDTCSetting :: "uds_client \<Rightarrow> u8 \<Rightarrow> bytes \<Rightarrow> unit uds_op" where
  "ControlDTCSetting c settingType optionRecord =
     ubind (ulift (validateSubfunction settingType)) (\<lambda>_.
       discard (doEchoed c ServiceControlDTCSetting (settingType # optionRecord) [settingType] True))"

definition RoutineControl :: "uds_client \<Rightarrow> u8 \<Rightarrow> u16 \<Rightarrow> bytes \<Rightarrow> bytes uds_op" where
  "RoutineControl c controlType identifier optionRecord =
     ubind (ulift (validateSubfunction controlType)) (\<lambda>_.
       doEchoed c ServiceRoutineControl (controlType # be16 identifier @ optionRecord)
         (controlType # be16 identifier) False)"

definition TransferData :: "uds_client \<Rightarrow> u8 \<Rightarrow> bytes \<Rightarrow> bytes uds_op" where
  "TransferData c sequence block = doEchoed c ServiceTransferData (sequence # block) [sequence] False"

definition RequestTransferExit :: "uds_client \<Rightarrow> bytes \<Rightarrow> bytes uds_op" where
  "RequestTransferExit c rec = do_service c ServiceRequestTransferExit rec"

definition TesterPresent :: "uds_client \<Rightarrow> unit uds_op" where
  "TesterPresent c = discard (doEchoed c ServiceTesterPresent [0] [0] True)"

definition SendTesterPresent :: "uds_client \<Rightarrow> unit uds_op" where
  "SendTesterPresent c = UdsSend c \<lparr>rq_service = ServiceTesterPresent, rq_data = [suppressPositiveResponse]\<rparr>"

section \<open>Sessions\<close>

record session_timing =
  st_p2ServerMax :: int
  st_p2StarServerMax :: int

record session_control_response =
  sc_session :: u8
  sc_timing :: "session_timing option"

definition ApplySessionTiming :: "uds_client \<Rightarrow> session_timing \<Rightarrow> uds_error + uds_client" where
  "ApplySessionTiming c timing =
     (if st_p2ServerMax timing \<le> 0 then Inl NonPositiveP2
      else if st_p2StarServerMax timing \<le> 0 then Inl NonPositiveP2Star
      else Inr (c\<lparr>cl_p2Timeout := st_p2ServerMax timing, cl_p2StarTimeout := st_p2StarServerMax timing\<rparr>))"

definition parse_session_response :: "u8 \<Rightarrow> bytes \<Rightarrow> uds_error + session_control_response" where
  "parse_session_response session data =
     (if length data \<noteq> 1 \<and> length data \<noteq> 5 then Inl InvalidResponse
      else if data ! 0 \<noteq> session then Inl UnexpectedResponse
      else Inr \<lparr>sc_session = session, sc_timing =
        (if length data = 5
         then Some \<lparr>st_p2ServerMax = int (unat (be16_of (take 2 (drop 1 data)))) * millisecond,
                    st_p2StarServerMax = int (unat (be16_of (take 2 (drop 3 data)))) * 10 * millisecond\<rparr>
         else None)\<rparr>)"

definition DiagnosticSessionControl :: "uds_client \<Rightarrow> u8 \<Rightarrow> session_control_response uds_op" where
  "DiagnosticSessionControl c session =
     ubind (ulift (validateSubfunction session)) (\<lambda>_.
     ubind (do_service c ServiceDiagnosticSessionControl [session]) (\<lambda>data.
       ulift (parse_session_response session data)))"

section \<open>Downloads\<close>

definition download_request :: "u8 \<Rightarrow> memory_location \<Rightarrow> bytes" where
  "download_request dataFormat l =
     [dataFormat, push_bit 4 (ml_sizeLength l) OR ml_addressLength l] @
     putBigEndianWidth (unat (ml_addressLength l)) (ml_address l) @
     putBigEndianWidth (unat (ml_sizeLength l)) (ml_size l)"

definition parse_download_response :: "bytes \<Rightarrow> uds_error + u64" where
  "parse_download_response data =
     (case data of
        [] \<Rightarrow> Inl InvalidResponse
      | b # rest \<Rightarrow>
          if b AND 0x0f \<noteq> 0 then Inl InvalidResponse
          else let width = unat (drop_bit 4 b) in
            if width < 1 \<or> width > 8 then Inl InvalidResponse
            else if length data \<noteq> width + 1 then Inl InvalidResponse
            else let maximum = readBigEndianWidth rest in
              if maximum < 2 then Inl InvalidResponse else Inr maximum)"

definition RequestDownload :: "uds_client \<Rightarrow> u8 \<Rightarrow> memory_location \<Rightarrow> u64 uds_op" where
  "RequestDownload c dataFormat l =
     ubind (ulift (validateMemoryLocation l)) (\<lambda>_.
     ubind (do_service c ServiceRequestDownload (download_request dataFormat l)) (\<lambda>data.
       ulift (parse_download_response data)))"

section \<open>Functional requests\<close>

text \<open>A functional path is a transmitter; \<open>NewFunctional\<close> of the source only rejects a missing one.\<close>

definition FunctionalUdsSend :: "transmitter \<Rightarrow> uds_request \<Rightarrow> unit uds_op" where
  "FunctionalUdsSend tx request =
     ubind (ulift (request_payload request)) (\<lambda>payload. on_link (FunctionalSend tx payload))"

definition FunctionalTesterPresent :: "transmitter \<Rightarrow> unit uds_op" where
  "FunctionalTesterPresent tx =
     FunctionalUdsSend tx \<lparr>rq_service = ServiceTesterPresent, rq_data = [suppressPositiveResponse]\<rparr>"

definition FunctionalECUReset :: "transmitter \<Rightarrow> u8 \<Rightarrow> unit uds_op" where
  "FunctionalECUReset tx resetType =
     ubind (ulift (validateSubfunction resetType)) (\<lambda>_.
       FunctionalUdsSend tx \<lparr>rq_service = ServiceECUReset, rq_data = [resetType OR suppressPositiveResponse]\<rparr>)"

definition suppress_first :: "bytes \<Rightarrow> bytes" where
  "suppress_first data = data[0 := data ! 0 OR suppressPositiveResponse]"

definition FunctionalCommunicationControl :: "transmitter \<Rightarrow> u8 \<Rightarrow> u8 \<Rightarrow> unit uds_op" where
  "FunctionalCommunicationControl tx controlType communicationType =
     ubind (ulift (communicationControlRequest controlType communicationType None)) (\<lambda>data.
       FunctionalUdsSend tx \<lparr>rq_service = ServiceCommunicationControl, rq_data = suppress_first data\<rparr>)"

definition FunctionalCommunicationControlWithNode :: "transmitter \<Rightarrow> u8 \<Rightarrow> u8 \<Rightarrow> u16 \<Rightarrow> unit uds_op" where
  "FunctionalCommunicationControlWithNode tx controlType communicationType nodeID =
     ubind (ulift (communicationControlRequest controlType communicationType (Some nodeID))) (\<lambda>data.
       FunctionalUdsSend tx \<lparr>rq_service = ServiceCommunicationControl, rq_data = suppress_first data\<rparr>)"

definition FunctionalControlDTCSetting :: "transmitter \<Rightarrow> u8 \<Rightarrow> bytes \<Rightarrow> unit uds_op" where
  "FunctionalControlDTCSetting tx settingType optionRecord =
     ubind (ulift (validateSubfunction settingType)) (\<lambda>_.
       FunctionalUdsSend tx \<lparr>rq_service = ServiceControlDTCSetting,
         rq_data = (settingType OR suppressPositiveResponse) # optionRecord\<rparr>)"

section \<open>Fault memory\<close>

text \<open>On a decoding error the source also returns the raw data; here the error stands alone.\<close>

record dtc_record =
  dtc_number :: u32
  dtc_status :: u8

record dtc_count_response =
  dc_availability :: u8
  dc_format :: u8
  dc_count :: u16
  dc_raw :: bytes

record dtc_list_response =
  dl_availability :: u8
  dl_records :: "dtc_record list"
  dl_raw :: bytes

definition parse_dtc_count :: "bytes \<Rightarrow> uds_error + dtc_count_response" where
  "parse_dtc_count data =
     (if data \<noteq> [] \<and> data ! 0 \<noteq> 0x01 then Inl UnexpectedResponse
      else if length data \<noteq> 5 then Inl InvalidResponse
      else Inr \<lparr>dc_availability = data ! 1, dc_format = data ! 2, dc_count = be16_of (take 2 (drop 3 data)),
                dc_raw = data\<rparr>)"

definition ReadDTCCountByStatusMask :: "uds_client \<Rightarrow> u8 \<Rightarrow> dtc_count_response uds_op" where
  "ReadDTCCountByStatusMask c msk =
     ubind (do_service c ServiceReadDTCInformation [0x01, msk]) (\<lambda>data. ulift (parse_dtc_count data))"

text \<open>Trailing records of four zero bytes are padding; \<open>n\<close> is the number of records before the end.\<close>

fun padding_end :: "bytes \<Rightarrow> nat \<Rightarrow> nat" where
  "padding_end data 0 = 2"
| "padding_end data (Suc n) =
     (if take 4 (drop (2 + 4 * n) data) = [0, 0, 0, 0] then padding_end data n else 2 + 4 * Suc n)"

definition dtc_at :: "bytes \<Rightarrow> nat \<Rightarrow> dtc_record" where
  "dtc_at data offset =
     \<lparr>dtc_number = push_bit 16 (ucast (data ! offset)) OR push_bit 8 (ucast (data ! (offset + 1))) OR
        ucast (data ! (offset + 2)),
      dtc_status = data ! (offset + 3)\<rparr>"

fun dtc_records :: "u8 \<Rightarrow> bytes \<Rightarrow> nat \<Rightarrow> nat \<Rightarrow> uds_error + dtc_record list" where
  "dtc_records msk data offset 0 = Inr []"
| "dtc_records msk data offset (Suc n) =
     (if dtc_status (dtc_at data offset) AND msk = 0 then Inl InvalidResponse
      else ebind (dtc_records msk data (offset + 4) n) (\<lambda>rs. Inr (dtc_at data offset # rs)))"

definition parse_dtc_list :: "u8 \<Rightarrow> bytes \<Rightarrow> uds_error + dtc_list_response" where
  "parse_dtc_list msk data =
     (if data \<noteq> [] \<and> data ! 0 \<noteq> 0x02 then Inl UnexpectedResponse
      else if length data < 2 \<or> (length data - 2) mod 4 \<noteq> 0 then Inl InvalidResponse
      else let availability = data ! 1; stop = padding_end data ((length data - 2) div 4) in
        ebind (dtc_records (msk AND availability) data 2 ((stop - 2) div 4)) (\<lambda>rs.
          Inr \<lparr>dl_availability = availability, dl_records = rs, dl_raw = data\<rparr>))"

definition ReadDTCByStatusMask :: "uds_client \<Rightarrow> u8 \<Rightarrow> dtc_list_response uds_op" where
  "ReadDTCByStatusMask c msk =
     ubind (do_service c ServiceReadDTCInformation [0x02, msk]) (\<lambda>data. ulift (parse_dtc_list msk data))"

definition ClearDiagnosticInformation :: "uds_client \<Rightarrow> u32 \<Rightarrow> unit uds_op" where
  "ClearDiagnosticInformation c grp =
     (if grp > 0xffffff then ulift (Inl InvalidRequest)
      else ubind (do_service c ServiceClearDiagnosticInformation
          [ucast (drop_bit 16 grp), ucast (drop_bit 8 grp), ucast grp]) (\<lambda>data.
        ulift (if data \<noteq> [] then Inl InvalidResponse else Inr ())))"

end
