(* ===== verification/Uds_Theorems.thy ===== *)
theory Uds_Theorems
  imports Uds_Client
begin

unbundle bit_operations_syntax

text \<open>
  The guarantees of the raw UDS client: a request over two ISO-TP links is answered by the
  server's final response whatever number of ResponsePending responses precede it; a returned
  response is one the link reassembled and belongs to the request; every exchange ends.
\<close>

section \<open>One wait\<close>

lemma ctx_err_fields:
  "ctx_err s = (x, s') \<Longrightarrow> us_link s' = us_link s \<and> us_limits s' = us_limits s \<and> us_end s' = us_end s"
  by (auto simp: ctx_err_def split: list.splits)

lemma ctx_err_snd [simp]:
  "us_link (snd (ctx_err s)) = us_link s" "us_limits (snd (ctx_err s)) = us_limits s"
  by (auto simp: ctx_err_def split: list.splits)

abbreviation input :: "uds_state \<Rightarrow> incoming list" where
  "input s \<equiv> ls_incoming (us_link s)"

abbreviation whole_input :: "uds_state \<Rightarrow> bool" where
  "whole_input s \<equiv> whole_frames (us_link s)"

lemma exchange_next_limits:
  "exchange_next c limit s = (r, s') \<Longrightarrow> us_limits s' = us_limits s @ [limit] \<and> us_context s' = us_context s"
  by (auto simp: exchange_next_def split: prod.splits)

lemma exchange_next_ends:
  assumes "exchange_next c limit s = (r, s')" and "whole_input s"
  shows "length (input s') \<le> length (input s) \<and> whole_input s'"
    and "r = Inr p \<Longrightarrow> length (input s') < length (input s)"
    and "r \<noteq> Inl OutOfFuel"
    and "timed_out r \<Longrightarrow> input s = WaitExpired # input s'"
proof -
  consider (neg) "r = Inl NegativeFirstFrameTimeout" "us_link s' = us_link s"
    | (run) "receive (cl_link c) (us_link s) = (r, us_link s')"
    using assms(1) by (cases "limit < 0") (auto simp: exchange_next_def ExchangeNext_def split: prod.splits)
  then have "(length (input s') \<le> length (input s) \<and> whole_input s') \<and>
      (r = Inr p \<longrightarrow> length (input s') < length (input s)) \<and> r \<noteq> Inl OutOfFuel \<and>
      (timed_out r \<longrightarrow> input s = WaitExpired # input s')"
  proof cases
    case run
    show ?thesis
      using receive_ends [OF run assms(2)] by (cases r) (simp_all add: timed_out_def)
  qed (use assms(2) in \<open>simp add: timed_out_def\<close>)
  then show "length (input s') \<le> length (input s) \<and> whole_input s'"
    and "r = Inr p \<Longrightarrow> length (input s') < length (input s)"
    and "r \<noteq> Inl OutOfFuel"
    and "timed_out r \<Longrightarrow> input s = WaitExpired # input s'"
    by simp_all
qed

text \<open>
  A wait looks at the link once, or a second time when the first look expired and recovery is on;
  \<open>limits\<close> are the limits of its looks.
\<close>

lemma nextWithTimeout_looks:
  assumes "nextWithTimeout c limit te s = (r, s')"
  obtains (ended) cause where "r = Inl (ContextEnded cause)" "us_link s' = us_link s" "us_limits s' = us_limits s"
  | (once) s1 r1 s2 where "us_link s1 = us_link s" "us_limits s1 = us_limits s" "exchange_next c limit s1 = (r1, s2)"
      "us_link s' = us_link s2" "us_limits s' = us_limits s2"
      "(\<exists>cause. r = Inl (ContextEnded cause)) \<or> timed_out r1 \<and> r = Inl te \<or> \<not> timed_out r1 \<and> r = emap LinkError r1"
  | (twice) s1 r1 s2 s3 r2 s4 where "us_link s1 = us_link s" "us_limits s1 = us_limits s"
      "exchange_next c limit s1 = (r1, s2)" "timed_out r1" "cl_recoveryTimeout c > 0"
      "us_link s3 = us_link s2" "us_limits s3 = us_limits s2"
      "exchange_next c (cl_recoveryTimeout c) s3 = (r2, s4)" "us_link s' = us_link s4" "us_limits s' = us_limits s4"
      "(\<exists>cause. r = Inl (ContextEnded cause)) \<or> timed_out r2 \<and> r = Inl te \<or> \<not> timed_out r2 \<and> r = emap LinkError r2"
proof -
  have settle: "us_link u' = us_link u \<and> us_limits u' = us_limits u \<and>
      ((\<exists>cause. x = Inl (ContextEnded cause)) \<or> timed_out y \<and> x = Inl te \<or> \<not> timed_out y \<and> x = emap LinkError y)"
    if "settle te y u = (x, u')" for x y u u'
    using that ctx_err_fields [of u] by (auto simp: settle_def split: if_splits prod.splits option.splits)
  obtain x s1 where s1: "ctx_err s = (x, s1)" by fastforce
  note f1 = ctx_err_fields [OF s1]
  show thesis
  proof (cases x)
    case (Some cause)
    then show ?thesis using assms s1 f1 by (intro ended) (auto simp: nextWithTimeout_def)
  next
    case None
    obtain r1 s2 where r1: "exchange_next c limit s1 = (r1, s2)" by fastforce
    obtain r2 s4 where r2: "recover c r1 s2 = (r2, s4)" by fastforce
    have end': "settle te r2 s4 = (r, s')" using assms s1 None r1 r2 by (simp add: nextWithTimeout_def)
    show ?thesis
    proof (cases "timed_out r1 \<and> cl_recoveryTimeout c > 0 \<and> fst (ctx_err s2) = None")
      case True
      then have "exchange_next c (cl_recoveryTimeout c) (snd (ctx_err s2)) = (r2, s4)"
        using r2 by (auto simp: recover_def split: prod.splits option.splits)
      then show ?thesis
        using True f1 r1 settle [OF end'] ctx_err_fields [of s2] by (intro twice [of s1 r1 s2 "snd (ctx_err s2)" r2 s4]) auto
    next
      case False
      then have "r2 = r1 \<and> us_link s4 = us_link s2 \<and> us_limits s4 = us_limits s2"
        using r2 ctx_err_fields [of s2] by (auto simp: recover_def split: if_splits prod.splits option.splits)
      then show ?thesis using f1 r1 settle [OF end'] by (intro once [of s1 r1 s2]) auto
    qed
  qed
qed


section \<open>The loop\<close>

lemma do_loop_Suc:
  "do_loop (Suc fuel) c service limit te s =
     (case nextWithTimeout c limit te s of
        (Inl e, s) \<Rightarrow> (Inl e, s)
      | (Inr p, s) \<Rightarrow>
          (case parseResponse service p of
             Inl e \<Rightarrow> (Inl e, s)
           | Inr (Positive r) \<Rightarrow> (Inr r, s)
           | Inr (Negative sv code) \<Rightarrow>
               if code \<noteq> responsePending then (Inl (NegativeResponse sv code), s)
               else do_loop fuel c service (cl_p2StarTimeout c) P2StarTimeout s))"
  by (auto simp: ubind_def split: prod.splits sum.splits parsed.splits)

declare do_loop.simps(2) [simp del]

lemma parseResponse_cases:
  "parseResponse service p = Inl e \<Longrightarrow> e = InvalidResponse \<or> e = UnexpectedResponse"
  "parseResponse service p = Inr (Positive r) \<Longrightarrow>
     p = (service + 0x40) # rs_data r \<and> rs_service r = service \<and> service + 0x40 \<noteq> 0x7f"
  "parseResponse service p = Inr (Negative sv code) \<Longrightarrow>
     sv = service \<and> (\<exists>echo. p = [0x7f, echo, code] \<and> (code = responsePending \<or> echo = service))"
  by (auto simp: parseResponse_def split: list.splits if_splits)


text \<open>
  A payload came over the link: the input is cut into what was skipped, the frames of the payload
  and the rest.
\<close>

definition received :: "link \<Rightarrow> incoming list \<Rightarrow> bytes \<Rightarrow> incoming list \<Rightarrow> bool" where
  "received link ins p rest \<longleftrightarrow> (\<exists>skipped f cu first ps.
     ins = skipped @ Arrive f cu # map (\<lambda>(f, cu, _). Arrive f cu) ps @ rest \<and>
     reassembled f first ps p \<and> length p \<le> unat (tx_maximumPayloadLength (lk_transmitter link)))"

lemma received_skip: "received link ins p rest \<Longrightarrow> received link (xs @ ins) p rest"
  unfolding received_def by (metis append.assoc)

lemma received_prefix: "received link ins p rest \<Longrightarrow> \<exists>xs. ins = xs @ rest"
  unfolding received_def by auto

lemma exchange_next_received:
  assumes "exchange_next c limit s = (Inr p, s')"
  shows "received (cl_link c) (input s) p (input s')"
proof -
  have "receive (cl_link c) (us_link s) = (Inr p, us_link s')"
    using assms by (auto simp: exchange_next_def ExchangeNext_def split: prod.splits if_splits)
  from receive_reassembles [OF this] show ?thesis unfolding received_def by (metis append_Nil)
qed

lemma emap_eq_Inr: "emap w m = Inr y \<longleftrightarrow> m = Inr y"
  by (cases m) auto

lemma nextWithTimeout_received:
  assumes "nextWithTimeout c limit te s = (Inr p, s')" and "whole_input s"
  shows "received (cl_link c) (input s) p (input s') \<and> whole_input s'"
  using assms(1)
proof (cases rule: nextWithTimeout_looks)
  case (once s1 r1 s2)
  then have "r1 = Inr p" by (auto simp: emap_Inr_iff eq_commute [of "Inr p"])
  then show ?thesis
    using once exchange_next_received [of c limit s1 p s2] exchange_next_ends(1) [OF once(3)] assms(2) by simp
next
  case (twice s1 r1 s2 s3 r2 s4)
  then have r2: "r2 = Inr p" by (auto simp: emap_Inr_iff eq_commute [of "Inr p"])
  have "input s = [WaitExpired] @ input s3" "whole_input s3"
    using exchange_next_ends [OF twice(3)] twice assms(2) by simp_all
  then show ?thesis
    using twice(8-10) r2 exchange_next_received [of c "cl_recoveryTimeout c" s3 p s4]
      exchange_next_ends(1) [OF twice(8)] received_skip [of _ _ _ _ "[WaitExpired]"] by simp
qed simp

lemma do_loop_sound:
  "do_loop fuel c service limit te s = (r, s') \<Longrightarrow> whole_input s \<Longrightarrow> te = P2Timeout \<or> te = P2StarTimeout \<Longrightarrow>
    (r = Inr x \<longrightarrow> rs_service x = service \<and> service + 0x40 \<noteq> 0x7f \<and>
       received (cl_link c) (input s) ((service + 0x40) # rs_data x) (input s')) \<and>
    (r = Inl (NegativeResponse sv code) \<longrightarrow> sv = service \<and> code \<noteq> responsePending \<and>
       received (cl_link c) (input s) [0x7f, service, code] (input s'))"
proof (induction fuel arbitrary: limit te s)
  case (Suc fuel)
  obtain y s1 where y: "nextWithTimeout c limit te s = (y, s1)" by fastforce
  show ?case
  proof (cases y)
    case (Inl e)
    have "e \<noteq> NegativeResponse sv code"
      using y Suc.prems(3) unfolding Inl
      by (cases rule: nextWithTimeout_looks) (auto simp: emap_def eq_commute [of "Inl e"] split: sum.splits)
    then show ?thesis using Suc.prems(1) y Inl by (auto simp: do_loop_Suc)
  next
    case (Inr p)
    note n = nextWithTimeout_received [OF y [unfolded Inr] Suc.prems(2)]
    show ?thesis
    proof (cases "parseResponse service p")
      case (Inl e)
      then have "r = Inl e" using Suc.prems(1) y Inr by (simp add: do_loop_Suc)
      then show ?thesis using parseResponse_cases(1) [OF Inl] by auto
    next
      case parsed: (Inr q)
      show ?thesis
      proof (cases q)
        case (Positive z)
        then have "r = Inr z" "s' = s1" using Suc.prems(1) y Inr parsed by (simp_all add: do_loop_Suc)
        then show ?thesis using parseResponse_cases(2) [of service p z] parsed Positive n by auto
      next
        case (Negative sv' code')
        note neg = parseResponse_cases(3) [OF parsed [unfolded Negative]]
        show ?thesis
        proof (cases "code' = responsePending")
          case False
          then have "r = Inl (NegativeResponse sv' code')" "s' = s1"
            using Suc.prems(1) y Inr parsed Negative by (simp_all add: do_loop_Suc)
          then show ?thesis using neg False n by auto
        next
          case True
          then have "do_loop fuel c service (cl_p2StarTimeout c) P2StarTimeout s1 = (r, s')"
            using Suc.prems(1) y Inr parsed Negative by (simp add: do_loop_Suc)
          from Suc.IH [OF this] n show ?thesis using received_skip received_prefix by fastforce
        qed
      qed
    qed
  qed
qed auto

section \<open>A server that answers\<close>

lemma exchange_next_transfer:
  assumes "wf_transmitter (lk_transmitter (cl_link c))" and "wf_transmitter (lk_transmitter rx)"
    and "exchangeable (cl_link c) rx p" and "ls_sends (us_link s) = []" and "0 \<le> limit"
    and "input s = arrivals cur (payload_frames (lk_transmitter rx) p) @ rest"
  shows "\<exists>s'. exchange_next c limit s = (Inr p, s') \<and> input s' = rest \<and> ls_sends (us_link s') = [] \<and>
    ls_sent (us_link s') = ls_sent (us_link s) @ transfer_controls (cl_link c) (lk_transmitter rx) p \<and>
    us_limits s' = us_limits s @ [limit] \<and> us_context s' = us_context s"
proof -
  obtain l where "receive (cl_link c) (us_link s) = (Inr p, l)" "ls_incoming l = rest" "ls_sends l = []"
    "ls_sent l = ls_sent (us_link s) @ transfer_controls (cl_link c) (lk_transmitter rx) p"
    using receive_transfer [OF assms(2,1,3,4,6)] by blast
  then show ?thesis using assms(5) by (simp add: exchange_next_def ExchangeNext_def)
qed

lemma nextWithTimeout_transfer:
  assumes "wf_transmitter (lk_transmitter (cl_link c))" and "wf_transmitter (lk_transmitter rx)"
    and "exchangeable (cl_link c) rx p" and "ls_sends (us_link s) = []" and "0 \<le> limit"
    and "input s = arrivals cur (payload_frames (lk_transmitter rx) p) @ rest" and "us_context s = []"
  shows "\<exists>s'. nextWithTimeout c limit te s = (Inr p, s') \<and> input s' = rest \<and> ls_sends (us_link s') = [] \<and>
    ls_sent (us_link s') = ls_sent (us_link s) @ transfer_controls (cl_link c) (lk_transmitter rx) p \<and>
    us_limits s' = us_limits s @ [limit] \<and> us_context s' = []"
proof -
  have ctx: "ctx_err u = (None, u)" if "us_context u = []" for u using that by (simp add: ctx_err_def)
  obtain s' where s': "exchange_next c limit s = (Inr p, s')" "us_context s' = []" and
    "input s' = rest \<and> ls_sends (us_link s') = [] \<and> us_limits s' = us_limits s @ [limit] \<and>
     ls_sent (us_link s') = ls_sent (us_link s) @ transfer_controls (cl_link c) (lk_transmitter rx) p"
    using exchange_next_transfer [OF assms(1-6)] assms(7) by auto
  then show ?thesis
    using ctx [OF assms(7)] ctx [OF s'(2)]
    by (simp add: nextWithTimeout_def recover_def settle_def timed_out_def)
qed

text \<open>The Flow Control frames a client sends while it receives payloads.\<close>

definition controls_for :: "link \<Rightarrow> link \<Rightarrow> bytes list \<Rightarrow> frame list" where
  "controls_for a b ps = concat (map (transfer_controls a (lk_transmitter b)) ps)"

definition responses_arrive :: "(frame \<Rightarrow> cursor) \<Rightarrow> link \<Rightarrow> bytes list \<Rightarrow> incoming list" where
  "responses_arrive cur b ps = concat (map (\<lambda>p. arrivals cur (payload_frames (lk_transmitter b) p)) ps)"

text \<open>ResponsePending, with the echo of any service.\<close>

definition pending_response :: "u8 \<Rightarrow> bytes" where
  "pending_response echo = [0x7f, echo, responsePending]"

lemma parse_pending: "parseResponse service (pending_response echo) = Inr (Negative service responsePending)"
  by (simp add: parseResponse_def pending_response_def)

lemma do_loop_transfer:
  assumes tx: "wf_transmitter (lk_transmitter (cl_link c))" and rx: "wf_transmitter (lk_transmitter rx)"
    and star: "0 \<le> cl_p2StarTimeout c" and final: "exchangeable (cl_link c) rx p"
    and parsed: "parseResponse service p = Inr q" "case q of Positive _ \<Rightarrow> True | Negative _ code \<Rightarrow> code \<noteq> responsePending"
  shows "list_all (\<lambda>e. exchangeable (cl_link c) rx (pending_response e)) echoes \<Longrightarrow> ls_sends (us_link s) = [] \<Longrightarrow>
    0 \<le> limit \<Longrightarrow> us_context s = [] \<Longrightarrow> length echoes < fuel \<Longrightarrow>
    input s = responses_arrive cur rx (map pending_response echoes @ [p]) @ rest \<Longrightarrow>
    \<exists>s'. do_loop fuel c service limit te s =
        ((case q of Positive r \<Rightarrow> Inr r | Negative sv code \<Rightarrow> Inl (NegativeResponse sv code)), s') \<and>
      input s' = rest \<and> us_limits s' = us_limits s @ limit # replicate (length echoes) (cl_p2StarTimeout c) \<and>
      ls_sent (us_link s') = ls_sent (us_link s) @ controls_for (cl_link c) rx (map pending_response echoes @ [p])"
proof (induction echoes arbitrary: s limit te fuel)
  case Nil
  then obtain k where k: "fuel = Suc k" by (cases fuel) auto
  obtain s1 where "nextWithTimeout c limit te s = (Inr p, s1)" "input s1 = rest" "us_limits s1 = us_limits s @ [limit]"
    "ls_sent (us_link s1) = ls_sent (us_link s) @ transfer_controls (cl_link c) (lk_transmitter rx) p"
    using nextWithTimeout_transfer [OF tx rx final Nil.prems(2,3) _ Nil.prems(4), of cur rest] Nil.prems(6)
    by (auto simp: responses_arrive_def)
  then show ?case
    using parsed by (cases q) (simp_all add: k do_loop_Suc controls_for_def)
next
  case (Cons e echoes)
  then obtain k where k: "fuel = Suc k" by (cases fuel) auto
  have e: "exchangeable (cl_link c) rx (pending_response e)" using Cons.prems(1) by simp
  obtain s1 where s1: "nextWithTimeout c limit te s = (Inr (pending_response e), s1)"
    "input s1 = responses_arrive cur rx (map pending_response echoes @ [p]) @ rest" "us_limits s1 = us_limits s @ [limit]"
    "ls_sent (us_link s1) = ls_sent (us_link s) @ transfer_controls (cl_link c) (lk_transmitter rx) (pending_response e)"
    "ls_sends (us_link s1) = []" "us_context s1 = []"
    using nextWithTimeout_transfer [OF tx rx e Cons.prems(2,3) _ Cons.prems(4), of cur] Cons.prems(6)
    by (auto simp: responses_arrive_def)
  from Cons.IH [OF _ s1(5) star s1(6) _ s1(2), of k P2StarTimeout] Cons.prems(1,5) k obtain s' where
    "do_loop k c service (cl_p2StarTimeout c) P2StarTimeout s1 =
       ((case q of Positive r \<Rightarrow> Inr r | Negative sv code \<Rightarrow> Inl (NegativeResponse sv code)), s')"
    "input s' = rest" "us_limits s' = us_limits s1 @ cl_p2StarTimeout c # replicate (length echoes) (cl_p2StarTimeout c)"
    "ls_sent (us_link s') = ls_sent (us_link s1) @ controls_for (cl_link c) rx (map pending_response echoes @ [p])"
    by auto
  then show ?case
    using s1 by (simp add: k do_loop_Suc parse_pending controls_for_def)
qed

section \<open>Guarantees\<close>

text \<open>The payload a server sends for a response, and the responses that end an exchange.\<close>

fun response_payload :: "parsed \<Rightarrow> bytes" where
  "response_payload (Positive r) = (rs_service r + 0x40) # rs_data r"
| "response_payload (Negative sv code) = [0x7f, sv, code]"

fun final_for :: "u8 \<Rightarrow> parsed \<Rightarrow> bool" where
  "final_for service (Positive r) \<longleftrightarrow> rs_service r = service \<and> service \<noteq> 0x3f"
| "final_for service (Negative sv code) \<longleftrightarrow> sv = service \<and> code \<noteq> responsePending"

fun result_of :: "parsed \<Rightarrow> uds_error + uds_response" where
  "result_of (Positive r) = Inr r"
| "result_of (Negative sv code) = Inl (NegativeResponse sv code)"

lemma parse_final: "final_for service q \<Longrightarrow> parseResponse service (response_payload q) = Inr q"
  by (cases q) (auto simp: parseResponse_def)

text \<open>A link at rest, its script of input and the place of its next sent frame in the capture.\<close>

definition at_rest :: "incoming list \<Rightarrow> cursor \<Rightarrow> cursor \<Rightarrow> cursor \<Rightarrow> uds_state" where
  "at_rest ins c0 c1 sent_at = \<lparr>us_link = (quiet c1 ins)\<lparr>ls_located := [Some sent_at]\<rparr>, us_end = c0,
     us_context = [], us_limits = []\<rparr>"

lemma responses_arrive_length:
  assumes "wf_transmitter (lk_transmitter rx)" and "list_all (exchangeable lk rx) ps"
  shows "length ps \<le> length (responses_arrive cur rx ps)"
  using assms(2)
proof (induction ps)
  case (Cons p ps)
  then have "payload_frames (lk_transmitter rx) p \<noteq> []"
    using prepareTransmission_ok [OF assms(1), of p]
    by (auto simp: exchangeable_def payload_frames_def frames_of_def)
  then show ?case using Cons by (cases "payload_frames (lk_transmitter rx) p") (simp_all add: responses_arrive_def arrivals_def)
qed (simp add: responses_arrive_def)

lemma NewUds_fields:
  "NewUds (Some lk) cfg = Inr c \<Longrightarrow> cl_link c = lk \<and> 0 < cl_p2Timeout c \<and> 0 < cl_p2StarTimeout c"
  by (auto simp: NewUds_def ebind_Inr_iff uds_timeout_def defaultP2Timeout_def defaultP2StarTimeout_def
    millisecond_def split: if_splits)

text \<open>C26 A client and a server at the two ends of a link: whatever request the client may send, however
  often the server first answers ResponsePending with whatever echo, and whatever final response it
  then gives, \<open>Do\<close> returns exactly that response, positive or negative. The client's frames are the
  request's and the Flow Control of every response; it waits P2 for the first response and P2* for
  each further one, and gives the link back.\<close>
theorem request_is_answered:
  assumes "NewLink bus1 cfg1 = Inr lk" and "NewLink bus2 cfg2 = Inr rx" and "NewUds (Some lk) cfg = Inr c"
    and "rq_service r AND 0x40 = 0" and "exchangeable rx lk (rq_service r # rq_data r)"
    and "list_all (\<lambda>e. exchangeable lk rx (pending_response e)) echoes"
    and "final_for (rq_service r) q" and "exchangeable lk rx (response_payload q)"
    and "request = rq_service r # rq_data r" and "responses = map pending_response echoes @ [response_payload q]"
    and "s = at_rest (arrivals cur1 (transfer_controls rx (lk_transmitter lk) request) @ responses_arrive cur2 rx responses) c0 c1 c2"
  shows "\<exists>s'. UdsDo c r s = (result_of q, s') \<and>
    ls_sent (us_link s') = payload_frames (lk_transmitter lk) request @ controls_for lk rx responses \<and>
    us_limits s' = cl_p2Timeout c # replicate (length echoes) (cl_p2StarTimeout c) \<and>
    ls_incoming (us_link s') = [] \<and> \<not> ls_retaining (us_link s')"
proof -
  note wft = NewLink_wf(1) [OF assms(1)] and wfr = NewLink_wf(1) [OF assms(2)]
  have c: "cl_link c = lk" "0 \<le> cl_p2Timeout c" "0 \<le> cl_p2StarTimeout c" using NewUds_fields [OF assms(3)] by simp_all
  have req: "request_payload r = Inr request" by (simp add: request_payload_def assms(4,9))
  obtain l where l: "BeginExchange lk c0 request (us_link s) = (Inr (), l)"
    "ls_incoming l = responses_arrive cur2 rx responses" "ls_sends l = []"
    "ls_sent l = payload_frames (lk_transmitter lk) request"
    using BeginExchange_transfer [OF wft wfr assms(5), of "us_link s" c2 cur1] assms(9)
    by (auto simp: assms(11) at_rest_def quiet_def benign_def)
  define s1 where "s1 = s\<lparr>us_link := l\<rparr>"
  have start: "on_link (BeginExchange (cl_link c) (us_end s) request) s = (Inr (), s1)"
    using l(1) by (simp add: on_link_def c(1) s1_def assms(11) at_rest_def)
  have fuel: "length echoes < Suc (length (ls_incoming (us_link s1)))"
    using responses_arrive_length [OF wfr, of lk responses cur2] assms(6,8)
    by (simp add: s1_def l(2) assms(10) list.pred_map comp_def)
  have s1: "ls_sends (us_link s1) = []" "us_context s1 = []" "us_limits s1 = []"
    "input s1 = responses_arrive cur2 rx (map pending_response echoes @ [response_payload q]) @ []"
    by (simp_all add: s1_def l assms(10,11) at_rest_def)
  have q: "case q of Positive _ \<Rightarrow> True | Negative _ code \<Rightarrow> code \<noteq> responsePending"
    using assms(7) by (cases q) simp_all
  from do_loop_transfer [OF wft [folded c(1)] wfr c(3) assms(8) [folded c(1)] parse_final [OF assms(7)] q
      assms(6) [folded c(1)] s1(1) c(2) s1(2) fuel s1(4), of P2Timeout]
  obtain s' where "do_loop (Suc (length (ls_incoming (us_link s1)))) c (rq_service r) (cl_p2Timeout c) P2Timeout s1 =
      (result_of q, s')" "input s' = []" "us_limits s' = cl_p2Timeout c # replicate (length echoes) (cl_p2StarTimeout c)"
    "ls_sent (us_link s') = ls_sent l @ controls_for lk rx responses"
    using s1(3) by (cases q) (auto simp: s1_def c(1) assms(10))
  then show ?thesis
    using start req l(4) by (simp add: UdsDo_def ubind_def close_exchange_def finishReception_def)
qed

text \<open>The parts of an exchange that was begun.\<close>

lemma UdsDo_cases:
  assumes "UdsDo c r s = (res, s')"
  obtains (refused) e where "request_payload r = Inl e" "res = Inl e" "s' = s"
  | (unsent) e l where "request_payload r = Inr (rq_service r # rq_data r)"
      "BeginExchange (cl_link c) (us_end s) (rq_service r # rq_data r) (us_link s) = (Inl e, l)"
      "res = Inl (LinkError e)" "s' = s\<lparr>us_link := l\<rparr>"
  | (ran) l s1 where "request_payload r = Inr (rq_service r # rq_data r)"
      "BeginExchange (cl_link c) (us_end s) (rq_service r # rq_data r) (us_link s) = (Inr (), l)"
      "do_loop (Suc (length (ls_incoming l))) c (rq_service r) (cl_p2Timeout c) P2Timeout (s\<lparr>us_link := l\<rparr>) = (res, s1)"
      "s' = close_exchange s1"
proof (cases "request_payload r")
  case (Inl e)
  then show ?thesis using assms refused by (simp add: UdsDo_def)
next
  case (Inr p)
  then have p: "p = rq_service r # rq_data r" by (auto simp: request_payload_def split: if_splits)
  obtain x l where x: "BeginExchange (cl_link c) (us_end s) p (us_link s) = (x, l)" by fastforce
  obtain y s1 where y: "do_loop (Suc (length (ls_incoming l))) c (rq_service r) (cl_p2Timeout c) P2Timeout
      (s\<lparr>us_link := l\<rparr>) = (y, s1)" by fastforce
  show ?thesis
  proof (cases x)
    case (Inl e)
    then show ?thesis using assms Inr x p unsent by (simp add: UdsDo_def ubind_def on_link_def)
  next
    case (Inr u)
    then show ?thesis
      using assms \<open>request_payload r = Inr p\<close> x y p ran [of l s1] by (simp add: UdsDo_def ubind_def on_link_def)
  qed
qed

text \<open>C27 Whatever arrives on the link, a response \<open>Do\<close> returns is one the link reassembled from frames that
  arrived during the call and it answers the request: its first byte was the positive response
  identifier of the requested service; a final negative response named that service and its code
  is not ResponsePending.\<close>
theorem response_is_genuine:
  assumes "whole_frames (us_link s)" and "wf_transmitter (lk_transmitter (cl_link c))" and "UdsDo c r s = (res, s')"
  shows "(\<forall>x. res = Inr x \<longrightarrow> rs_service x = rq_service r \<and>
      received (cl_link c) (ls_incoming (us_link s)) ((rq_service r + 0x40) # rs_data x) (ls_incoming (us_link s'))) \<and>
    (\<forall>sv code. res = Inl (NegativeResponse sv code) \<longrightarrow> sv = rq_service r \<and> code \<noteq> responsePending \<and>
      received (cl_link c) (ls_incoming (us_link s)) [0x7f, rq_service r, code] (ls_incoming (us_link s')))"
  using assms(3)
proof (cases rule: UdsDo_cases)
  case (ran l s1)
  have t: "takes (us_link s) l" by (rule BeginExchange_ends(1) [OF ran(2) assms(2)])
  then obtain xs where xs: "ls_incoming (us_link s) = xs @ ls_incoming l" by (auto simp: takes_def)
  have w: "whole_input (s\<lparr>us_link := l\<rparr>)" using takes_whole [OF t assms(1)] by simp
  have same: "ls_incoming (us_link s') = input s1" by (simp add: ran(4) close_exchange_def finishReception_def)
  note sound = do_loop_sound [OF ran(3) w disjI1 [OF refl]]
  show ?thesis using sound received_skip [of _ "ls_incoming l" _ _ xs] unfolding xs same by fastforce
qed (auto simp: request_payload_def split: if_splits)


lemma do_loop_silent:
  assumes "do_loop (Suc fuel) c service limit P2Timeout s = (Inl P2Timeout, s')" and "whole_input s"
  shows "\<exists>k. input s = replicate k WaitExpired @ input s' \<and>
    (k = 1 \<and> us_limits s' = us_limits s @ [limit] \<or>
     k = 2 \<and> 0 < cl_recoveryTimeout c \<and> us_limits s' = us_limits s @ [limit, cl_recoveryTimeout c])"
proof -
  have parse: "parseResponse service p \<noteq> Inl P2Timeout" for p
    using parseResponse_cases(1) [of service p P2Timeout] by auto
  have later: "do_loop n c service l P2StarTimeout u \<noteq> (Inl P2Timeout, u')" for n l u u'
  proof (induction n arbitrary: l u)
    case (Suc n)
    obtain y u1 where y: "nextWithTimeout c l P2StarTimeout u = (y, u1)" by fastforce
    have "y \<noteq> Inl P2Timeout"
      using y by (cases rule: nextWithTimeout_looks) (auto simp: emap_def split: sum.splits)
    then show ?case
      using Suc.IH y parse by (auto simp: do_loop_Suc split: sum.splits parsed.splits if_splits)
  qed simp
  obtain y s1 where y: "nextWithTimeout c limit P2Timeout s = (y, s1)" by fastforce
  have ys: "y = Inl P2Timeout" "s' = s1"
    using assms(1) y later parse
    by (auto simp: do_loop_Suc split: sum.splits parsed.splits if_splits)
  from y [unfolded ys(1)] show ?thesis
  proof (cases rule: nextWithTimeout_looks)
    case (once u r1 u2)
    have "timed_out r1" using once(6) by (auto simp: emap_def split: sum.splits)
    then have "input s = replicate 1 WaitExpired @ input s'"
      using exchange_next_ends(4) [OF once(3)] once assms(2) ys(2) by simp
    moreover have "us_limits s' = us_limits s @ [limit]"
      using exchange_next_limits [OF once(3)] once ys(2) by simp
    ultimately show ?thesis by blast
  next
    case (twice u r1 u2 u3 r2 u4)
    have "timed_out r2" using twice(11) by (auto simp: emap_def split: sum.splits)
    moreover have "whole_input u3" using exchange_next_ends(1) [OF twice(3)] twice assms(2) by simp
    ultimately have "input s = replicate 2 WaitExpired @ input s'"
      using exchange_next_ends(4) [OF twice(3)] exchange_next_ends(4) [OF twice(8)] twice assms(2) ys(2)
      by (simp add: numeral_2_eq_2)
    moreover have "us_limits s' = us_limits s @ [limit, cl_recoveryTimeout c]"
      using exchange_next_limits [OF twice(3)] exchange_next_limits [OF twice(8)] twice ys(2) by simp
    ultimately show ?thesis using twice(5) by blast
  qed simp
qed

text \<open>C29 \<open>DoSuppressed\<close> reports initial silence only when the request went out and nothing but the expiry
  of the first wait followed, once under P2 and, with recovery enabled, possibly once more under
  the recovery limit: no frame of a response was taken off the link, and a ResponsePending rules
  the silent result out.\<close>
theorem silence_means_no_response:
  assumes "whole_frames (us_link s)" and "wf_transmitter (lk_transmitter (cl_link c))"
    and "DoSuppressed c r s = (Inr None, s')"
  shows "\<exists>l k. BeginExchange (cl_link c) (us_end s) (rq_service r # rq_data r) (us_link s) = (Inr (), l) \<and>
    ls_incoming l = replicate k WaitExpired @ ls_incoming (us_link s') \<and>
    (k = 1 \<and> us_limits s' = us_limits s @ [cl_p2Timeout c] \<or>
     k = 2 \<and> 0 < cl_recoveryTimeout c \<and> us_limits s' = us_limits s @ [cl_p2Timeout c, cl_recoveryTimeout c])"
proof -
  have "UdsDo c r s = (Inl P2Timeout, s')"
    using assms(3) by (auto simp: DoSuppressed_def split: prod.splits sum.splits if_splits)
  then show ?thesis
  proof (cases rule: UdsDo_cases)
    case (ran l s1)
    have w: "whole_input (s\<lparr>us_link := l\<rparr>)"
      using takes_whole [OF BeginExchange_ends(1) [OF ran(2) assms(2)] assms(1)] by simp
    show ?thesis
      using do_loop_silent [OF ran(3) w] ran(2) by (simp add: ran(4) close_exchange_def finishReception_def)
  qed (auto simp: request_payload_def split: if_splits)
qed

section \<open>Examples\<close>

text \<open>
  A client with recovery reads a data identifier: the first look for the response expires, then
  a ResponsePending and the response arrive.
\<close>

definition example_uds_config :: uds_config where
  "example_uds_config = \<lparr>ucf_p2Timeout = 0, ucf_p2StarTimeout = 0, ucf_recoveryTimeout = 50 * millisecond\<rparr>"

definition example_uds :: uds_client where
  "example_uds = projr (NewUds (Some (example_link example_client)) example_uds_config)"

definition example_read :: uds_request where
  "example_read = \<lparr>rq_service = 0x22, rq_data = [0xf1, 0x90]\<rparr>"

definition reply_frame :: "bytes \<Rightarrow> frame" where
  "reply_frame data = \<lparr>f_id = 0x7e8, f_data = data @ replicate (64 - length data) 0, f_dlc = 8, f_flags = 0\<rparr>"

definition example_state :: "incoming list \<Rightarrow> uds_state" where
  "example_state ins = at_rest ins zero_cursor zero_cursor zero_cursor"

definition example_input :: "incoming list" where
  "example_input = [WaitExpired, Arrive (reply_frame [3, 0x7f, 0x22, 0x78]) zero_cursor,
     Arrive (reply_frame [5, 0x62, 0xf1, 0x90, 0x41, 0x42]) zero_cursor]"

lemma example_uds_new: "NewUds (Some (example_link example_client)) example_uds_config = Inr example_uds"
  by (simp add: example_uds_def example_uds_config_def NewUds_def uds_timeout_def millisecond_def)

lemma example_uds_wf: "wf_transmitter (lk_transmitter (cl_link example_uds))"
  using NewLink_wf(1) [OF example_links(1)] NewUds_fields [OF example_uds_new] by simp

lemma example_run:
  "fst (UdsDo example_uds example_read (example_state example_input)) =
     Inr \<lparr>rs_service = 0x22, rs_data = [0xf1, 0x90, 0x41, 0x42]\<rparr>"
  "fst (DoSuppressed example_uds example_read (example_state [WaitExpired, WaitExpired])) = Inr None"
  by code_simp+

lemma example_whole:
  "whole_frames (us_link (example_state example_input))"
  "whole_frames (us_link (example_state [WaitExpired, WaitExpired]))"
  "\<not> ls_retaining (us_link (example_state ins))"
  by (simp_all add: example_state_def at_rest_def quiet_def whole_frames_def example_input_def reply_frame_def
    wf_frame_def MaxDataLength_def)

theorem request_is_answered_witness:
  "\<exists>s'. UdsDo example_uds example_read
     (at_rest (arrivals (\<lambda>_. zero_cursor)
         (transfer_controls (example_link example_server) (lk_transmitter (example_link example_client)) [0x22, 0xf1, 0x90]) @
       responses_arrive (\<lambda>_. zero_cursor) (example_link example_server) [pending_response 0x22, [0x62, 0xf1, 0x90] @ replicate 40 0])
      zero_cursor zero_cursor zero_cursor) = (Inr \<lparr>rs_service = 0x22, rs_data = [0xf1, 0x90] @ replicate 40 0\<rparr>, s') \<and>
    us_limits s' = [cl_p2Timeout example_uds, cl_p2StarTimeout example_uds]"
proof -
  have "\<exists>s'. UdsDo example_uds example_read
     (at_rest (arrivals (\<lambda>_. zero_cursor)
         (transfer_controls (example_link example_server) (lk_transmitter (example_link example_client)) [0x22, 0xf1, 0x90]) @
       responses_arrive (\<lambda>_. zero_cursor) (example_link example_server)
         (map pending_response [0x22] @ [response_payload (Positive \<lparr>rs_service = 0x22, rs_data = [0xf1, 0x90] @ replicate 40 0\<rparr>)]))
      zero_cursor zero_cursor zero_cursor) =
        (result_of (Positive \<lparr>rs_service = 0x22, rs_data = [0xf1, 0x90] @ replicate 40 0\<rparr>), s') \<and>
    ls_sent (us_link s') = payload_frames (lk_transmitter (example_link example_client)) [0x22, 0xf1, 0x90] @
      controls_for (example_link example_client) (example_link example_server)
       (map pending_response [0x22] @ [response_payload (Positive \<lparr>rs_service = 0x22, rs_data = [0xf1, 0x90] @ replicate 40 0\<rparr>)]) \<and>
    us_limits s' = cl_p2Timeout example_uds # replicate (length [0x22 :: u8]) (cl_p2StarTimeout example_uds) \<and>
    ls_incoming (us_link s') = [] \<and> \<not> ls_retaining (us_link s')"
    by (rule request_is_answered [OF example_links(1,2) example_uds_new _ _ _ _ _ _ refl refl])
      (simp_all add: example_read_def exchangeable_def example_links(3,4) pending_response_def)
  then show ?thesis by auto
qed

theorem response_is_genuine_witness:
  "\<exists>rest. received (cl_link example_uds) example_input [0x62, 0xf1, 0x90, 0x41, 0x42] rest"
proof -
  obtain s' where "UdsDo example_uds example_read (example_state example_input) =
      (Inr \<lparr>rs_service = 0x22, rs_data = [0xf1, 0x90, 0x41, 0x42]\<rparr>, s')"
    using example_run(1) by (metis prod.collapse)
  from response_is_genuine [OF example_whole(1) example_uds_wf this] show ?thesis
    by (auto simp: example_read_def example_state_def at_rest_def quiet_def)
qed


theorem silence_means_no_response_witness:
  "\<exists>l k. BeginExchange (cl_link example_uds) zero_cursor [0x22, 0xf1, 0x90]
      (us_link (example_state [WaitExpired, WaitExpired])) = (Inr (), l) \<and> 0 < k \<and>
    (\<exists>rest. ls_incoming l = replicate k WaitExpired @ rest)"
proof -
  obtain s' where "DoSuppressed example_uds example_read (example_state [WaitExpired, WaitExpired]) = (Inr None, s')"
    using example_run(2) by (metis prod.collapse)
  from silence_means_no_response [OF example_whole(2) example_uds_wf this] obtain l k where
    "BeginExchange (cl_link example_uds) (us_end (example_state [WaitExpired, WaitExpired]))
       (rq_service example_read # rq_data example_read) (us_link (example_state [WaitExpired, WaitExpired])) = (Inr (), l)"
    "ls_incoming l = replicate k WaitExpired @ ls_incoming (us_link s')" "k = 1 \<or> k = 2" by blast
  then show ?thesis by (auto simp: example_read_def example_state_def at_rest_def intro!: exI [of _ l] exI [of _ k])
qed

end
