(* ===== verification/Uds_Service_Theorems.thy ===== *)
theory Uds_Service_Theorems
  imports Uds_Services Uds_Theorems
begin

unbundle bit_operations_syntax

text \<open>
  The guarantees of the typed UDS services: what a successful call says about the exchange, the
  exactness of the encoded requests, and the fault-memory list as the inverse of its layout.
\<close>

section \<open>Byte fields\<close>

lemma readBigEndianWidth_append: "readBigEndianWidth (xs @ [b]) = push_bit 8 (readBigEndianWidth xs) OR ucast b"
  by (simp add: readBigEndianWidth_def)

lemma length_putBigEndianWidth [simp]: "length (putBigEndianWidth n v) = n"
  by (induction n arbitrary: v) simp_all

lemma read_putBigEndianWidth: "readBigEndianWidth (putBigEndianWidth n v) = take_bit (8 * n) v"
proof (induction n arbitrary: v)
  case (Suc n)
  have "push_bit 8 (take_bit (8 * n) (drop_bit 8 v)) OR ucast (ucast v :: byte) = take_bit (8 * Suc n) v"
    by (rule bit_word_eqI) (auto simp: bit_simps not_less)
  then show ?case by (simp only: putBigEndianWidth.simps readBigEndianWidth_append Suc.IH)
qed (simp add: readBigEndianWidth_def)

lemma put_readBigEndianWidth: "length b \<le> 8 \<Longrightarrow> putBigEndianWidth (length b) (readBigEndianWidth b) = b"
proof (induction b rule: rev_induct)
  case (snoc x xs)
  define r where "r = readBigEndianWidth xs"
  have "r = take_bit (8 * length xs) r"
    using read_putBigEndianWidth [of "length xs" r] snoc by (simp add: r_def)
  then have "bit r i \<Longrightarrow> i < 8 * length xs" for i by (metis bit_take_bit_iff)
  then have hi: "bit r i \<Longrightarrow> i < 56" for i using snoc.prems by fastforce
  have "drop_bit 8 (push_bit 8 r OR ucast x) = r"
  proof (rule bit_word_eqI)
    fix i assume "i < LENGTH(64)"
    have "\<not> bit x (8 + i)" by (simp add: bit_word_def not_less)
    then show "bit (drop_bit 8 (push_bit 8 r OR ucast x)) i \<longleftrightarrow> bit r i"
      using hi [of i] by (auto simp: bit_simps)
  qed
  moreover have "ucast (push_bit 8 r OR ucast x) = x"
    by (rule bit_word_eqI) (auto simp: bit_simps)
  ultimately show ?case using snoc by (simp add: readBigEndianWidth_append r_def)
qed simp

lemma unat_push_one: "n < 64 \<Longrightarrow> unat (push_bit n 1 :: u64) = 2 ^ n"
proof -
  assume n: "n < 64"
  have "(2 :: nat) ^ n < 2 ^ 64" using n by (intro power_strict_increasing) auto
  then have "unat (of_nat (2 ^ n) :: u64) = 2 ^ n"
    by (simp only: unsigned_of_nat of_nat_id len_of_numeral_defs) (rule take_bit_nat_eq_self, simp)
  then show ?thesis by simp
qed

lemma fitsWidth_take_bit:
  assumes "w \<le> 8" and "fitsWidth v w"
  shows "take_bit (8 * unat w) v = v"
proof (cases "w = 8")
  case True
  then show ?thesis by (simp add: take_bit_word_eq_self)
next
  case False
  then have w: "unat w < 8" using assms(1) by (simp add: word_le_nat_alt word_unat_eq_iff)
  then have n: "unat (w * 8) = 8 * unat w" "8 * unat w < 64" by (simp_all add: unat_word_ariths)
  have "unat v < unat (push_bit (8 * unat w) 1 :: u64)"
    using assms(2) False by (simp add: fitsWidth_def n(1) word_less_nat_alt)
  moreover have "unat (push_bit (8 * unat w) 1 :: u64) = 2 ^ (8 * unat w)"
    by (rule unat_push_one [OF n(2)])
  ultimately show ?thesis by (simp add: word_unat_eq_iff unsigned_take_bit_eq take_bit_nat_eq_self)
qed

interpretation width_field: partial_codec
  "\<lambda>v. if w \<le> 8 \<and> fitsWidth v w then Inr (putBigEndianWidth (unat w) v) else Inl (AddressTooWide v)"
  "\<lambda>b. Inr (readBigEndianWidth b) :: uds_error + u64" for w
  by unfold_locales (auto simp: read_putBigEndianWidth fitsWidth_take_bit split: if_splits)

lemma be16_of_be16: "be16_of (be16 x) = x"
proof (rule bit_word_eqI)
  fix i assume "i < LENGTH(16)"
  then show "bit (be16_of (be16 x)) i = bit x i" by (auto simp: be16_def be16_of_def bit_simps not_less)
qed

section \<open>Echoed services\<close>

text \<open>The exchange of a service: its request data and the data of the positive response.\<close>

definition answered :: "uds_client \<Rightarrow> u8 \<Rightarrow> bytes \<Rightarrow> bytes \<Rightarrow> uds_state \<Rightarrow> uds_state \<Rightarrow> bool" where
  "answered c service request data s s' \<longleftrightarrow>
     (\<exists>r. UdsDo c \<lparr>rq_service = service, rq_data = request\<rparr> s = (Inr r, s') \<and> rs_data r = data)"

lemma do_service_iff: "do_service c service request s = (Inr data, s') \<longleftrightarrow> answered c service request data s s'"
  by (auto simp: do_service_def ubind_Inr_iff answered_def)







section \<open>Downloads\<close>

lemma download_format:
  assumes "a \<le> 8" and "z \<le> 8"
  shows "(push_bit 4 z OR a) AND 0x0f = (a :: u8)" and "drop_bit 4 (push_bit 4 z OR a) = (z :: u8)"
proof -
  have small: "\<not> bit x i" if "x \<le> (8 :: u8)" "4 \<le> i" for x i
  proof -
    have "take_bit 4 x = x"
      using that(1) by (simp add: word_le_nat_alt word_unat_eq_iff unsigned_take_bit_eq take_bit_nat_eq_self)
    then show ?thesis using that(2) by (metis bit_take_bit_iff not_less)
  qed
  have m: "(0x0f :: u8) = mask 4" by (simp add: mask_eq_exp_minus_1)
  have a: "bit a i \<Longrightarrow> i < 4" and z: "bit z i \<Longrightarrow> i < 4" for i
    using small [OF assms(1)] small [OF assms(2)] not_less by blast+
  show "(push_bit 4 z OR a) AND 0x0f = a"
    unfolding m by (intro bit_word_eqI) (auto simp: bit_simps dest: a)
  show "drop_bit 4 (push_bit 4 z OR a) = z"
    by (intro bit_word_eqI) (auto simp: bit_simps dest: a z)
qed

text \<open>C31 The request of a valid download carries its location exactly: from the length byte one reads
  off both widths, and from the fields the address and the size, with nothing left over. A
  successful \<open>RequestDownload\<close> returns the maximum the server encoded in one to eight bytes, which
  leaves room for the service and sequence bytes.\<close>
theorem download_is_exact:
  assumes "validateMemoryLocation l = Inr ()" and "r = download_request fmt l"
    and "a = unat (r ! 1 AND 0x0f)" and "z = unat (drop_bit 4 (r ! 1))"
  shows "a = unat (ml_addressLength l) \<and> z = unat (ml_sizeLength l) \<and> length r = 2 + a + z \<and>
    readBigEndianWidth (take a (drop 2 r)) = ml_address l \<and> readBigEndianWidth (drop (2 + a) r) = ml_size l \<and>
    (RequestDownload c fmt l s = (Inr n, s') \<longrightarrow> 2 \<le> n \<and>
      (\<exists>w. 1 \<le> w \<and> w \<le> 8 \<and> answered c 0x34 r (push_bit 4 (of_nat w) # putBigEndianWidth w n) s s'))"
proof -
  have valid: "ml_addressLength l \<le> 8" "ml_sizeLength l \<le> 8" "fitsWidth (ml_address l) (ml_addressLength l)"
    "fitsWidth (ml_size l) (ml_sizeLength l)"
    using assms(1) by (auto simp: validateMemoryLocation_def not_less split: if_splits)
  have a: "a = unat (ml_addressLength l)" and z: "z = unat (ml_sizeLength l)"
    using download_format [OF valid(1,2)] by (simp_all add: assms(2-4) download_request_def)
  have result: "2 \<le> n \<and> (\<exists>w. 1 \<le> w \<and> w \<le> 8 \<and> data = push_bit 4 (of_nat w) # putBigEndianWidth w n)"
    if e: "parse_download_response data = Inr n" for data
  proof -
    obtain b rest where b: "data = b # rest" "b AND 0x0f = 0" "1 \<le> unat (drop_bit 4 b)" "unat (drop_bit 4 b) \<le> 8"
      "length rest = unat (drop_bit 4 b)" "n = readBigEndianWidth rest" "2 \<le> n"
      using e by (auto simp: parse_download_response_def Let_def not_less split: list.splits if_splits)
    have low: "take_bit 4 b = 0" using b(2) by (simp add: take_bit_eq_mask mask_eq_exp_minus_1)
    have "\<not> bit b i" if "i < 4" for i
      using that low bit_take_bit_iff [of 4 b i] by simp
    then have "bit (push_bit 4 (drop_bit 4 b)) i = bit b i" if "i < 8" for i
      using that by (cases "4 \<le> i") (auto simp: bit_simps not_le)
    then have "push_bit 4 (drop_bit 4 b) = b" by (intro bit_word_eqI) simp
    then have "data = push_bit 4 (of_nat (length rest)) # putBigEndianWidth (length rest) n"
      using put_readBigEndianWidth [of rest] b by simp
    then show ?thesis using b(3,4,5,7) by (intro conjI exI [of _ "length rest"]) simp_all
  qed
  have "2 \<le> n \<and> (\<exists>w. 1 \<le> w \<and> w \<le> 8 \<and> answered c 0x34 r (push_bit 4 (of_nat w) # putBigEndianWidth w n) s s')"
    if e: "RequestDownload c fmt l s = (Inr n, s')"
  proof -
    obtain data s1 where d: "answered c 0x34 r data s s1" "parse_download_response data = Inr n" "s1 = s'"
      using e by (auto simp: RequestDownload_def ubind_Inr_iff do_service_iff service_defs assms(2))
    then show ?thesis using result [OF d(2)] by blast
  qed
  then show ?thesis
    using valid by (simp add: a z assms(2) download_request_def read_putBigEndianWidth fitsWidth_take_bit)
qed

section \<open>Functional requests\<close>





section \<open>The fault-memory list\<close>

text \<open>The layout of a record: three bytes of the number, most significant first, and the status.\<close>

definition dtc_bytes :: "dtc_record \<Rightarrow> bytes" where
  "dtc_bytes r = [ucast (drop_bit 16 (dtc_number r)), ucast (drop_bit 8 (dtc_number r)), ucast (dtc_number r), dtc_status r]"

definition dtc_list_bytes :: "dtc_record list \<Rightarrow> bytes" where
  "dtc_list_bytes rs = concat (map dtc_bytes rs)"

definition dtc_fits :: "u8 \<Rightarrow> dtc_record \<Rightarrow> bool" where
  "dtc_fits m r \<longleftrightarrow> dtc_number r < 2 ^ 24 \<and> dtc_status r AND m \<noteq> 0"

lemma length_dtc_list_bytes [simp]: "length (dtc_list_bytes rs) = 4 * length rs"
  by (induction rs) (simp_all add: dtc_list_bytes_def dtc_bytes_def)

lemma four_bytes: "off + 4 \<le> length data \<Longrightarrow>
    take 4 (drop off data) = [data ! off, data ! (off + 1), data ! (off + 2), data ! (off + 3)]"
  by (simp add: take_Suc_conv_app_nth numeral_eq_Suc nth_append)

lemma number_bytes:
  fixes a b c :: byte
  defines "n \<equiv> push_bit 16 (ucast a) OR push_bit 8 (ucast b) OR (ucast c :: u32)"
  shows "ucast (drop_bit 16 n) = a" and "ucast (drop_bit 8 n) = b" and "ucast n = c" and "n < 2 ^ 24"
proof -
  show "ucast (drop_bit 16 n) = a" "ucast (drop_bit 8 n) = b" "ucast n = c"
    unfolding n_def by (rule bit_word_eqI; auto simp: bit_simps dest: bit_imp_le_length)+
  have "take_bit 24 n = n"
    unfolding n_def by (rule bit_word_eqI) (auto simp: bit_simps dest: bit_imp_le_length)
  then have "unat n = take_bit 24 (unat n)" by (metis unsigned_take_bit_eq)
  also have "\<dots> < 2 ^ 24" by (rule take_bit_nat_less_exp)
  finally show "n < 2 ^ 24" by (simp add: word_less_nat_alt)
qed

lemma bytes_number:
  assumes "(n :: u32) < 2 ^ 24"
  shows "push_bit 16 (ucast (ucast (drop_bit 16 n) :: byte)) OR push_bit 8 (ucast (ucast (drop_bit 8 n) :: byte)) OR
    (ucast (ucast n :: byte) :: u32) = n"
proof (rule bit_word_eqI)
  fix i assume "i < LENGTH(32)"
  have "take_bit 24 n = n" using assms by (simp add: word_unat_eq_iff unsigned_take_bit_eq take_bit_nat_eq_self word_less_nat_alt)
  then have hi: "bit n i \<Longrightarrow> i < 24" for i by (metis bit_take_bit_iff)
  consider "i < 8" | "8 \<le> i" "i < 16" | "16 \<le> i" "i < 24" | "24 \<le> i" by linarith
  then show "bit (push_bit 16 (ucast (ucast (drop_bit 16 n) :: byte)) OR push_bit 8 (ucast (ucast (drop_bit 8 n) :: byte)) OR
    (ucast (ucast n :: byte) :: u32)) i = bit n i"
    using hi [of i] \<open>i < LENGTH(32)\<close> by cases (auto simp: bit_simps)
qed

lemma dtc_bytes_at: "off + 4 \<le> length data \<Longrightarrow> dtc_bytes (dtc_at data off) = take 4 (drop off data)"
  by (simp only: dtc_bytes_def dtc_at_def dtc_record.simps number_bytes four_bytes)

lemma dtc_number_at: "dtc_number (dtc_at data off) < 16777216"
  using number_bytes(4) by (simp add: dtc_at_def)

lemma dtc_at_bytes: "dtc_number r < 2 ^ 24 \<Longrightarrow> take 4 (drop off data) = dtc_bytes r \<Longrightarrow> off + 4 \<le> length data \<Longrightarrow> dtc_at data off = r"
  by (cases r) (simp add: four_bytes dtc_bytes_def dtc_at_def bytes_number)

text \<open>The records at \<open>n\<close> consecutive places.\<close>

definition records_at :: "bytes \<Rightarrow> nat \<Rightarrow> nat \<Rightarrow> dtc_record list" where
  "records_at data off n = map (\<lambda>i. dtc_at data (off + 4 * i)) [0..<n]"

lemma records_at_Suc: "records_at data off (Suc n) = dtc_at data off # records_at data (off + 4) n"
  by (simp add: records_at_def upt_conv_Cons map_Suc_upt [symmetric] algebra_simps del: upt_Suc)

lemma dtc_records_eq:
  "dtc_records m data off n =
     (if list_all (\<lambda>r. dtc_status r AND m \<noteq> 0) (records_at data off n) then Inr (records_at data off n)
      else Inl InvalidResponse)"
proof (induction n arbitrary: off)
  case (Suc n)
  then show ?case by (simp add: records_at_Suc)
qed (simp add: records_at_def)

lemma records_at_bytes: "2 + 4 * n \<le> length data \<Longrightarrow> dtc_list_bytes (records_at data 2 n) = take (4 * n) (drop 2 data)"
proof (induction n)
  case (Suc n)
  have "dtc_list_bytes (records_at data 2 (Suc n)) = take (4 * n) (drop 2 data) @ take 4 (drop (2 + 4 * n) data)"
    using Suc by (simp add: records_at_def dtc_list_bytes_def dtc_bytes_at)
  also have "\<dots> = take (4 * n + 4) (drop 2 data)"
    unfolding take_add [of "4 * n" 4] by (simp add: add.commute)
  finally show ?case by (simp add: add.commute)
qed (simp add: records_at_def dtc_list_bytes_def)

lemma records_of_bytes:
  "list_all (\<lambda>r. dtc_number r < 2 ^ 24) rs \<Longrightarrow> drop off data = dtc_list_bytes rs @ tail \<Longrightarrow>
    records_at data off (length rs) = rs"
proof (induction rs arbitrary: off)
  case (Cons r rs)
  then have d: "drop off data = dtc_bytes r @ dtc_list_bytes rs @ tail" by (simp add: dtc_list_bytes_def)
  have "length (drop off data) = 4 + 4 * length rs + length tail" unfolding d by (simp add: dtc_bytes_def)
  then have len: "off + 4 \<le> length data" by simp
  have "dtc_at data off = r"
    by (rule dtc_at_bytes) (use Cons.prems(1) d len in \<open>simp_all add: dtc_bytes_def\<close>)
  moreover have "drop (off + 4) data = dtc_list_bytes rs @ tail"
    using arg_cong [OF d, of "drop 4"] by (simp add: dtc_bytes_def add.commute)
  ultimately show ?case using Cons by (simp add: records_at_Suc)
qed (simp add: records_at_def)

text \<open>The padding: what is cut off are zero records, and the last record kept is none.\<close>

lemma padding_end_spec:
  "2 + 4 * n \<le> length data \<Longrightarrow> \<exists>m \<le> n. padding_end data n = 2 + 4 * m \<and>
    take (4 * (n - m)) (drop (2 + 4 * m) data) = replicate (4 * (n - m)) 0"
proof (induction n)
  case (Suc n)
  show ?case
  proof (cases "take 4 (drop (2 + 4 * n) data) = [0, 0, 0, 0]")
    case True
    from Suc obtain m where m: "m \<le> n" "padding_end data n = 2 + 4 * m"
      "take (4 * (n - m)) (drop (2 + 4 * m) data) = replicate (4 * (n - m)) 0" by auto
    have idx: "4 * (n - m) + (2 + 4 * m) = 2 + 4 * n" "4 * (Suc n - m) = 4 * (n - m) + 4" using m(1) by simp_all
    have four: "[0, 0, 0, 0] = replicate 4 (0 :: byte)" by (simp add: numeral_eq_Suc)
    have "take (4 * (Suc n - m)) (drop (2 + 4 * m) data) = replicate (4 * (n - m)) 0 @ take 4 (drop (2 + 4 * n) data)"
      unfolding idx(2) take_add drop_drop idx(1) m(3) ..
    also have "\<dots> = replicate (4 * (Suc n - m)) 0"
      by (simp only: idx(2) replicate_add True four)
    finally show ?thesis using m(1,2) True by (intro exI [of _ m]) simp
  qed (auto intro: exI [of _ "Suc n"])
qed simp

lemma padding_end_stop:
  assumes "drop 2 data = dtc_list_bytes rs @ replicate (4 * k) 0" and "list_all (\<lambda>r. dtc_status r \<noteq> 0) rs"
  shows "j \<le> k \<Longrightarrow> padding_end data (length rs + j) = 2 + 4 * length rs"
proof (induction j)
  case 0
  show ?case
  proof (cases rs rule: rev_cases)
    case (snoc qs r)
    have "drop (2 + 4 * length qs) data = dtc_bytes r @ replicate (4 * k) 0"
      using arg_cong [OF assms(1), of "drop (4 * length qs)"] by (simp add: snoc dtc_list_bytes_def add.commute
        del: drop_append) (simp add: dtc_list_bytes_def [symmetric])
    then have "take 4 (drop (2 + 4 * length qs) data) = dtc_bytes r" by (simp add: dtc_bytes_def)
    moreover have "dtc_bytes r \<noteq> [0, 0, 0, 0]" using assms(2) by (simp add: snoc dtc_bytes_def)
    ultimately show ?thesis by (simp add: snoc)
  qed simp
next
  case (Suc j)
  then have j: "Suc j \<le> k" by simp
  have "take 4 (drop (2 + 4 * (length rs + j)) data) = take 4 (drop (4 * j) (replicate (4 * k) 0))"
    using arg_cong [OF assms(1), of "drop (4 * (length rs + j))"] by (simp add: add.commute)
  also have "\<dots> = [0, 0, 0, 0]" using j by (simp add: drop_replicate take_replicate min_def numeral_eq_Suc)
  finally show ?case using Suc j by simp
qed

text \<open>C33 Decoding a fault-memory list is exactly the inverse of its layout: the data decode if and only if
  they are the subfunction, the availability mask, records with 24-bit numbers that all match the
  requested supported status, and some number of zero records as padding; the result is then the
  mask and those records in order.\<close>
theorem dtc_list_inverts_its_layout:
  "parse_dtc_list msk data = Inr l \<longleftrightarrow> dl_raw l = data \<and>
    (\<exists>k. data = [0x02, dl_availability l] @ dtc_list_bytes (dl_records l) @ replicate (4 * k) 0) \<and>
    list_all (dtc_fits (msk AND dl_availability l)) (dl_records l)"
proof
  assume "parse_dtc_list msk data = Inr l"
  then obtain n where len: "length data = 2 + 4 * n" "data ! 0 = 2" and
    rs: "dtc_records (msk AND data ! 1) data 2 ((padding_end data n - 2) div 4) = Inr (dl_records l)"
    and l: "dl_availability l = data ! 1" "dl_raw l = data"
  proof -
    assume p: "parse_dtc_list msk data = Inr l"
    then have h: "2 \<le> length data" "(length data - 2) mod 4 = 0" "data ! 0 = 2"
      by (auto simp: parse_dtc_list_def split: if_splits)
    then obtain n where n: "length data - 2 = 4 * n" by (metis mod_0_imp_dvd dvdE)
    with p h show thesis
      by (intro that [of n]) (auto simp: parse_dtc_list_def Let_def ebind_Inr_iff split: if_splits)
  qed
  obtain m where m: "m \<le> n" "padding_end data n = 2 + 4 * m"
    "take (4 * (n - m)) (drop (2 + 4 * m) data) = replicate (4 * (n - m)) 0"
    using padding_end_spec [of n data] len(1) by auto
  have recs: "dl_records l = records_at data 2 m" "list_all (\<lambda>r. dtc_status r AND (msk AND data ! 1) \<noteq> 0) (dl_records l)"
    using rs m(2) by (auto simp: dtc_records_eq split: if_splits)
  have "data = take 2 data @ take (4 * m) (drop 2 data) @ drop (2 + 4 * m) data"
    by (metis append_take_drop_id drop_drop add.commute)
  moreover have "take 2 data = [2, data ! 1]"
    using len by (simp add: take_Suc_conv_app_nth numeral_2_eq_2)
  moreover have "drop (2 + 4 * m) data = replicate (4 * (n - m)) 0"
    using m(1,3) len(1) by simp
  moreover have "take (4 * m) (drop 2 data) = dtc_list_bytes (dl_records l)"
    unfolding recs(1) using m(1) len(1) by (intro records_at_bytes [symmetric]) simp
  ultimately have "data = [2, data ! 1] @ dtc_list_bytes (dl_records l) @ replicate (4 * (n - m)) 0" by simp
  moreover have "list_all (dtc_fits (msk AND data ! 1)) (dl_records l)"
    using recs(2) by (auto simp: recs(1) records_at_def list_all_iff dtc_fits_def dtc_number_at)
  ultimately show "dl_raw l = data \<and>
    (\<exists>k. data = [0x02, dl_availability l] @ dtc_list_bytes (dl_records l) @ replicate (4 * k) 0) \<and>
    list_all (dtc_fits (msk AND dl_availability l)) (dl_records l)"
    unfolding l by blast
next
  assume a: "dl_raw l = data \<and>
    (\<exists>k. data = [0x02, dl_availability l] @ dtc_list_bytes (dl_records l) @ replicate (4 * k) 0) \<and>
    list_all (dtc_fits (msk AND dl_availability l)) (dl_records l)"
  then obtain k where k: "data = [0x02, dl_availability l] @ dtc_list_bytes (dl_records l) @ replicate (4 * k) 0" by blast
  let ?rs = "dl_records l"
  have body: "drop 2 data = dtc_list_bytes ?rs @ replicate (4 * k) 0" by (simp add: k)
  have fits: "list_all (\<lambda>r. dtc_number r < 2 ^ 24) ?rs" "list_all (\<lambda>r. dtc_status r AND (msk AND dl_availability l) \<noteq> 0) ?rs"
    using a by (auto simp: list_all_iff dtc_fits_def)
  have "list_all (\<lambda>r. dtc_status r \<noteq> 0) ?rs" using fits(2) by (auto simp: list_all_iff)
  then have "padding_end data (length ?rs + k) = 2 + 4 * length ?rs" by (rule padding_end_stop [OF body _ order_refl])
  moreover have "records_at data 2 (length ?rs) = ?rs" by (rule records_of_bytes [OF fits(1) body])
  moreover have "(length data - 2) div 4 = length ?rs + k" "2 \<le> length data" "(length data - 2) mod 4 = 0"
    "data ! 0 = 2" "data ! 1 = dl_availability l"
    by (simp_all add: k)
  ultimately show "parse_dtc_list msk data = Inr l"
    using a fits(2) by (simp add: parse_dtc_list_def dtc_records_eq Let_def)
qed

section \<open>Examples\<close>

definition example_location :: memory_location where
  "example_location = \<lparr>ml_address = 0x8001, ml_size = 0x1000, ml_addressLength = 4, ml_sizeLength = 2\<rparr>"



theorem download_is_exact_witness:
  "readBigEndianWidth (take 4 (drop 2 (download_request 0 example_location))) = 0x8001 \<and>
   readBigEndianWidth (drop 6 (download_request 0 example_location)) = 0x1000"
proof -
  have valid: "validateMemoryLocation example_location = Inr ()" by code_simp
  have widths: "4 = unat (download_request 0 example_location ! 1 AND 0x0f)"
    "2 = unat (drop_bit 4 (download_request 0 example_location ! 1))" by code_simp+
  have "readBigEndianWidth (take 4 (drop 2 (download_request 0 example_location))) = ml_address example_location"
    "readBigEndianWidth (drop (2 + 4) (download_request 0 example_location)) = ml_size example_location"
    using download_is_exact [OF valid refl widths] by blast+
  then show ?thesis by (simp add: example_location_def)
qed


end
