(* ===== verification/Xcp_Client.thy ===== *)
theory Xcp_Client
  imports IsoTp_Link
begin

unbundle bit_operations_syntax

text \<open>
  The XCP client, \<open>xcp/xcp.go\<close>, \<open>command.go\<close> and \<open>memory.go\<close>: one command at a time, its
  response, and what the client may still believe of the session when a response is missing.
  An operation runs against scripts: \<open>xs_incoming\<close> holds the outcome of every wait for the next
  frame with the clock reading taken after it, \<open>xs_sends\<close> the results of the bus sends,
  \<open>xs_located\<close> the lookups of sent frames, \<open>xs_begins\<close> the entries into an operation and
  \<open>xs_contexts\<close> the looks at its context. A wait whose script has run out expires.
\<close>

section \<open>Commands and capabilities\<close>

definition CommandConnect :: u8 where "CommandConnect = 0xff"
definition CommandDisconnect :: u8 where "CommandDisconnect = 0xfe"
definition CommandGetStatus :: u8 where "CommandGetStatus = 0xfd"
definition CommandSynch :: u8 where "CommandSynch = 0xfc"
definition CommandGetCommModeInfo :: u8 where "CommandGetCommModeInfo = 0xfb"
definition CommandSetMTA :: u8 where "CommandSetMTA = 0xf6"
definition CommandUpload :: u8 where "CommandUpload = 0xf5"
definition CommandShortUpload :: u8 where "CommandShortUpload = 0xf4"

lemmas command_defs = CommandConnect_def CommandDisconnect_def CommandGetStatus_def CommandSynch_def
  CommandGetCommModeInfo_def CommandSetMTA_def CommandUpload_def CommandShortUpload_def

datatype xcp_error =
    BadFrameFlags u8
  | CapacityBelow8 u8
  | BadXcpFrame frame_error
  | SameIdentifiers
  | NegativeXcpTimeout
  | XcpClosed
  | XcpEnded nat
  | NotConnected
  | SynchronizationRequired
  | ResponseTimeout
  | InvalidXcpResponse
  | UnsupportedXcp
  | SessionTerminated
  | ParameterCount u8 nat
  | ReadOverflow
  | XcpNegative u8 u8
  | XcpSendFailed nat
  | XcpCursorLost
  | NoByteOrder
  | XcpOutOfFuel

datatype xcp_byte_order = LittleEndian | BigEndian

fun Uint16 :: "xcp_byte_order \<Rightarrow> bytes \<Rightarrow> u16" where
  "Uint16 LittleEndian b = ucast (b ! 0) OR push_bit 8 (ucast (b ! 1))"
| "Uint16 BigEndian b = ucast (b ! 1) OR push_bit 8 (ucast (b ! 0))"

fun Uint32 :: "xcp_byte_order \<Rightarrow> bytes \<Rightarrow> u32" where
  "Uint32 LittleEndian b = ucast (b ! 0) OR push_bit 8 (ucast (b ! 1)) OR
     push_bit 16 (ucast (b ! 2)) OR push_bit 24 (ucast (b ! 3))"
| "Uint32 BigEndian b = ucast (b ! 3) OR push_bit 8 (ucast (b ! 2)) OR
     push_bit 16 (ucast (b ! 1)) OR push_bit 24 (ucast (b ! 0))"

fun PutUint32 :: "xcp_byte_order \<Rightarrow> u32 \<Rightarrow> bytes" where
  "PutUint32 LittleEndian v = [ucast v, ucast (drop_bit 8 v), ucast (drop_bit 16 v), ucast (drop_bit 24 v)]"
| "PutUint32 BigEndian v = [ucast (drop_bit 24 v), ucast (drop_bit 16 v), ucast (drop_bit 8 v), ucast v]"

text \<open>The capabilities of a new client are all zero, and have no byte order.\<close>

record capabilities =
  cp_resources :: u8
  cp_communicationMode :: u8
  cp_byteOrder :: "xcp_byte_order option"
  cp_addressGranularity :: u8
  cp_maxCTO :: u8
  cp_maxDTO :: u16
  cp_protocolVersion :: u8
  cp_transportVersion :: u8

record xcp_request =
  xr_command :: u8
  xr_data :: bytes

record xcp_config =
  xc_transmitID :: u32
  xc_receiveID :: u32
  xc_frameFlags :: u8
  xc_transmitDataLength :: u8
  xc_padFrames :: bool
  xc_paddingByte :: byte
  xc_timeout :: int

record xcp_client =
  xc_config :: xcp_config
  xc_key :: frame_key

text \<open>
  An entry of \<open>xs_begins\<close> is an operation that may start (\<open>None\<close>), or the cause that ends it before it
  holds the gate (\<open>False\<close>) or after (\<open>True\<close>). \<open>xs_end\<close> is the end of the capture.
\<close>

record xcp_state =
  xs_capabilities :: capabilities
  xs_connected :: bool
  xs_pendingCommand :: u8
  xs_cursor :: cursor
  xs_retaining :: bool
  xs_closed :: bool
  xs_begins :: "(bool \<times> nat) option list"
  xs_contexts :: "nat option list"
  xs_end :: cursor
  xs_sends :: "nat option list"
  xs_located :: "cursor option list"
  xs_incoming :: "(time \<times> incoming) list"
  xs_now :: time
  xs_sent :: "frame list"

type_synonym 'a xcp_op = "xcp_state \<Rightarrow> (xcp_error + 'a) \<times> xcp_state"

section \<open>Construction\<close>

definition checkXcpFrame :: "u8 \<Rightarrow> nat \<Rightarrow> u32 \<Rightarrow> xcp_error + unit" where
  "checkXcpFrame flags n ident = (case NewFrame ident (replicate n 0) flags of
       Inl e \<Rightarrow> Inl (BadXcpFrame e) | Inr _ \<Rightarrow> Inr ())"

definition NewXcp :: "u16 \<Rightarrow> xcp_config \<Rightarrow> xcp_error + xcp_client" where
  "NewXcp busID cfg =
     (if xc_frameFlags cfg AND NOT (FrameExtended OR FrameFD OR FrameBitRateSwitch) \<noteq> 0
      then Inl (BadFrameFlags (xc_frameFlags cfg))
      else let capacity = (if xc_transmitDataLength cfg = 0 then 8 else xc_transmitDataLength cfg) in
        if capacity < 8 then Inl (CapacityBelow8 capacity)
        else ebind (checkXcpFrame (xc_frameFlags cfg) (unat capacity) (xc_transmitID cfg)) (\<lambda>_.
        ebind (checkXcpFrame (xc_frameFlags cfg) (unat capacity) (xc_receiveID cfg)) (\<lambda>_.
        if xc_transmitID cfg = xc_receiveID cfg then Inl SameIdentifiers
        else if xc_timeout cfg < 0 then Inl NegativeXcpTimeout
        else Inr \<lparr>xc_config = cfg\<lparr>xc_transmitDataLength := capacity,
               xc_timeout := (if xc_timeout cfg = 0 then 1000 * millisecond else xc_timeout cfg)\<rparr>,
             xc_key = \<lparr>k_id = xc_receiveID cfg, k_bus = busID, k_direction = DirectionReceive,
               k_extended = Has (xc_frameFlags cfg) FrameExtended\<rparr>\<rparr>)))"

section \<open>Entering and leaving an operation\<close>

definition finish :: "xcp_state \<Rightarrow> xcp_state" where
  "finish s = s\<lparr>xs_retaining := (xs_pendingCommand s = CommandSynch)\<rparr>"

definition xcp_begin :: "unit xcp_op" where
  "xcp_begin s =
     (let entry = (case xs_begins s of [] \<Rightarrow> None | x # _ \<Rightarrow> x);
          s = s\<lparr>xs_begins := tl (xs_begins s)\<rparr>
      in case entry of
          Some (False, e) \<Rightarrow> (Inl (if xs_closed s then XcpClosed else XcpEnded e), s)
        | Some (True, e) \<Rightarrow> (Inl (if xs_closed s then XcpClosed else XcpEnded e), finish s)
        | None \<Rightarrow> if xs_closed s then (Inl XcpClosed, finish s) else (Inr (), s))"

definition guarded :: "'a xcp_op \<Rightarrow> 'a xcp_op" where
  "guarded m s = (case xcp_begin s of
       (Inl e, s) \<Rightarrow> (Inl e, s)
     | (Inr _, s) \<Rightarrow> (case m s of (r, s) \<Rightarrow> (r, finish s)))"

definition xcp_Close :: "xcp_state \<Rightarrow> xcp_state" where
  "xcp_Close s = s\<lparr>xs_closed := True\<rparr>"

definition xcp_RetentionCursor :: "xcp_state \<Rightarrow> cursor" where
  "xcp_RetentionCursor s = (if xs_retaining s \<and> \<not> xs_closed s then xs_cursor s else xs_end s)"

text \<open>A look at the context within an operation.\<close>

definition xcp_context :: "unit xcp_op" where
  "xcp_context s = (case xs_contexts s of
       [] \<Rightarrow> (Inr (), s)
     | None # rest \<Rightarrow> (Inr (), s\<lparr>xs_contexts := rest\<rparr>)
     | Some e # rest \<Rightarrow> (Inl (XcpEnded e), s\<lparr>xs_contexts := rest\<rparr>))"

section \<open>Requests\<close>

text \<open>The least length of the response, and whether the client knows the command's effect.\<close>

definition validateRequest :: "xcp_config \<Rightarrow> xcp_request \<Rightarrow> xcp_state \<Rightarrow> xcp_error + nat \<times> bool" where
  "validateRequest cfg r s =
     (let cmd = xr_command r; data = xr_data r; pending = xs_pendingCommand s; caps = xs_capabilities s;
          maximum = (if xs_connected s \<and> cmd \<noteq> CommandConnect then unat (cp_maxCTO caps)
                     else unat (xc_transmitDataLength cfg));
          checked = (\<lambda>parameters least.
            if length data \<noteq> parameters then Inl (ParameterCount cmd parameters) else Inr (least, True));
          upload = (\<lambda>parameters.
            if cp_addressGranularity caps \<noteq> 1 then Inl UnsupportedXcp
            else case data of
                [] \<Rightarrow> Inl (ParameterCount cmd parameters)
              | count # _ \<Rightarrow>
                  let least = 1 + unat count in
                  if least < 2 \<or> least > maximum then Inl UnsupportedXcp else checked parameters least)
      in if pending \<noteq> 0 \<and> cmd \<noteq> CommandSynch \<and>
             \<not> (cmd = CommandConnect \<and> (pending = CommandConnect \<or> pending = CommandDisconnect))
         then Inl SynchronizationRequired
         else if \<not> xs_connected s \<and> cmd \<noteq> CommandConnect \<and> cmd \<noteq> CommandSynch then Inl NotConnected
         else if cmd < 0xc0 \<or> length data + 1 > maximum then Inl UnsupportedXcp
         else if cmd = CommandConnect then
           (if length data = 1 \<and> data ! 0 \<noteq> 0 then Inl UnsupportedXcp else checked 1 8)
         else if cmd = CommandDisconnect \<or> cmd = CommandSynch then checked 0 1
         else if cmd = CommandGetStatus then checked 0 6
         else if cmd = CommandGetCommModeInfo then
           (if cp_communicationMode caps AND 0x80 = 0 then Inl UnsupportedXcp else checked 0 8)
         else if cmd = CommandSetMTA then checked 7 1
         else if cmd = CommandUpload then upload 1
         else if cmd = CommandShortUpload then
           ebind (upload 7) (\<lambda>result. case cp_byteOrder caps of
               None \<Rightarrow> Inl NoByteOrder
             | Some order \<Rightarrow>
                 if uint (Uint32 order (drop 3 data)) + uint (data ! 0) > 0xffffffff then Inl ReadOverflow
                 else Inr result)
         else Inr (1, False))"

text \<open>The first length from \<open>n\<close> on that a frame can have; 64 is legal on CAN FD, 8 on classical CAN.\<close>

fun legal_from :: "nat \<Rightarrow> bool \<Rightarrow> nat \<Rightarrow> nat" where
  "legal_from 0 fd n = n"
| "legal_from (Suc fuel) fd n = (if is_ok (LengthToDLC (int n) fd) then n else legal_from fuel fd (Suc n))"

definition packet :: "xcp_config \<Rightarrow> xcp_request \<Rightarrow> bytes" where
  "packet cfg r =
     (let used = 1 + length (xr_data r);
          len = legal_from 64 (Has (xc_frameFlags cfg) FrameFD)
            (if xc_padFrames cfg then unat (xc_transmitDataLength cfg) else used)
      in take len (xr_command r # xr_data r) @ replicate (len - used) (xc_paddingByte cfg))"

section \<open>Responses\<close>

datatype verdict = Ignore | Extend | Reply bytes | Refused u8 | Terminated | Malformed

definition classify :: "xcp_config \<Rightarrow> u8 \<Rightarrow> nat \<Rightarrow> frame \<Rightarrow> verdict" where
  "classify cfg cmd least f =
     (let len = DataLength f; data = take len (f_data f) in
      if Has (f_flags f) FrameRemote \<or> Has (f_flags f) FrameFD \<noteq> Has (xc_frameFlags cfg) FrameFD then Ignore
      else if len \<noteq> 0 \<and> f_data f ! 0 \<le> 0xfc then Ignore
      else if len = 0 \<or> len > unat (xc_transmitDataLength cfg) then Malformed
      else if data ! 0 = 0xff \<or> data ! 0 = 0xfe then
        (if data ! 0 = 0xfe \<and> len < 2 then Malformed
         else if cmd = CommandSynch then
           (if data ! 0 = 0xfe \<and> data ! 1 = 0 then Reply (drop 1 data) else Ignore)
         else if data ! 0 = 0xfe then Refused (data ! 1)
         else if len < least then Malformed
         else Reply (drop 1 data))
      else if len < 2 then Malformed
      else if data ! 1 = 0x05 then Extend
      else if data ! 1 = 0x07 then Terminated
      else Ignore)"

fun receive_script :: "xcp_config \<Rightarrow> u8 \<Rightarrow> nat \<Rightarrow> time \<Rightarrow> (time \<times> incoming) list \<Rightarrow> bytes xcp_op" where
  "receive_script cfg cmd least deadline [] s =
     (Inl ResponseTimeout, s\<lparr>xs_incoming := [], xs_now := max (xs_now s) deadline\<rparr>)"
| "receive_script cfg cmd least deadline ((t, arrival) # rest) s =
     (let s = s\<lparr>xs_incoming := rest, xs_now := t\<rparr> in
      case arrival of
        CursorLost \<Rightarrow> (Inl XcpCursorLost, s)
      | WaitExpired \<Rightarrow> (Inl ResponseTimeout, s)
      | WaitFailed e \<Rightarrow> (Inl (XcpEnded e), s)
      | Arrive f cu \<Rightarrow>
          if \<not> t < deadline then (Inl ResponseTimeout, s)
          else let s = s\<lparr>xs_cursor := cu\<rparr> in
            case classify cfg cmd least f of
              Ignore \<Rightarrow> receive_script cfg cmd least deadline rest s
            | Extend \<Rightarrow> receive_script cfg cmd least (t + xc_timeout cfg) rest s
            | Reply data \<Rightarrow> (Inr data, s)
            | Refused code \<Rightarrow>
                (Inl (XcpNegative cmd code), if code \<noteq> 0 then s\<lparr>xs_pendingCommand := 0\<rparr> else s)
            | Terminated \<Rightarrow> (Inl SessionTerminated, s\<lparr>xs_connected := False, xs_pendingCommand := 0\<rparr>)
            | Malformed \<Rightarrow> (Inl InvalidXcpResponse, s))"

definition xcp_receive :: "xcp_config \<Rightarrow> u8 \<Rightarrow> nat \<Rightarrow> bytes xcp_op" where
  "xcp_receive cfg cmd least s =
     receive_script cfg cmd least (xs_now s + xc_timeout cfg) (xs_incoming s) s"

definition parseConnect :: "xcp_config \<Rightarrow> bytes \<Rightarrow> xcp_error + capabilities" where
  "parseConnect cfg data =
     (let order = (if data ! 1 AND 1 \<noteq> 0 then BigEndian else LittleEndian);
          granularity = drop_bit 1 (data ! 1) AND 3;
          maxCTO = data ! 2
      in if granularity = 3 \<or> maxCTO < 8 \<or> maxCTO > xc_transmitDataLength cfg then Inl InvalidXcpResponse
         else if data ! 5 \<noteq> 1 \<or> data ! 6 \<noteq> 1 then Inl UnsupportedXcp
         else Inr \<lparr>cp_resources = data ! 0, cp_communicationMode = data ! 1, cp_byteOrder = Some order,
                cp_addressGranularity = push_bit (unat granularity) 1, cp_maxCTO = maxCTO,
                cp_maxDTO = Uint16 order (take 2 (drop 3 data)), cp_protocolVersion = data ! 5,
                cp_transportVersion = data ! 6\<rparr>)"

section \<open>One command\<close>

definition recovering :: "u8 \<Rightarrow> xcp_state \<Rightarrow> bool" where
  "recovering cmd s \<longleftrightarrow> cmd = CommandConnect \<and>
     (xs_pendingCommand s = CommandConnect \<or> xs_pendingCommand s = CommandDisconnect)"

text \<open>Sending the packet; the cursor then stands right behind the accepted transmission.\<close>

definition xcp_send :: "xcp_config \<Rightarrow> xcp_request \<Rightarrow> bool \<Rightarrow> unit xcp_op" where
  "xcp_send cfg r known s =
     (case NewFrame (xc_transmitID cfg) (packet cfg r) (xc_frameFlags cfg) of
        Inl e \<Rightarrow> (Inl (BadXcpFrame e), s)
      | Inr f \<Rightarrow>
          let s = s\<lparr>xs_cursor := xs_end s, xs_retaining := True\<rparr>;
              result = (case xs_sends s of [] \<Rightarrow> None | x # _ \<Rightarrow> x);
              s = s\<lparr>xs_sends := tl (xs_sends s)\<rparr>
          in case result of
              Some e \<Rightarrow> (Inl (XcpSendFailed e), s)
            | None \<Rightarrow>
                let s = s\<lparr>xs_sent := xs_sent s @ [f],
                      xs_connected := (xs_connected s \<and>
                        \<not> (\<not> known \<or> xr_command r = CommandConnect \<or> xr_command r = CommandDisconnect)),
                      xs_pendingCommand := xr_command r\<rparr>
                in case xs_located s of
                    Some cu # rest \<Rightarrow> (Inr (), s\<lparr>xs_located := rest, xs_cursor := cu\<rparr>)
                  | _ \<Rightarrow> (Inl XcpCursorLost, s\<lparr>xs_located := tl (xs_located s)\<rparr>))"

definition resumes :: "xcp_request \<Rightarrow> xcp_state \<Rightarrow> bool" where
  "resumes r s \<longleftrightarrow> xr_command r = CommandSynch \<and> xs_pendingCommand s = CommandSynch"

text \<open>The part up to a trusted response, or the end of the attempt.\<close>

definition transact :: "xcp_config \<Rightarrow> xcp_request \<Rightarrow> bytes xcp_op" where
  "transact cfg r s =
     (let recoveringConnect = recovering (xr_command r) s in
      case validateRequest cfg r s of
        Inl e \<Rightarrow> (Inl e, s)
      | Inr (least, known) \<Rightarrow>
          (case xcp_context s of
             (Inl e, s) \<Rightarrow> (Inl e, s)
           | (Inr _, s) \<Rightarrow>
               (case (if resumes r s then (Inr (), s) else xcp_send cfg r known s) of
                  (Inl e, s) \<Rightarrow> (Inl e, s)
                | (Inr _, s) \<Rightarrow>
                    (case xcp_receive cfg (xr_command r) least s of
                       (Inl e, s) \<Rightarrow>
                         (Inl e, if recoveringConnect \<and> e \<noteq> SessionTerminated
                                 then s\<lparr>xs_pendingCommand := CommandConnect\<rparr> else s)
                     | (Inr data, s) \<Rightarrow> (Inr data, s)))))"

definition synch_request :: xcp_request where
  "synch_request = \<lparr>xr_command = CommandSynch, xr_data = []\<rparr>"

text \<open>
  The fuel counts the recoveries a command may nest. One is enough: the commands of a recovery are
  SYNCH, which recovers nothing, and a CONNECT after SYNCH has cleared the pending command.
\<close>

fun xcp_command :: "nat \<Rightarrow> xcp_config \<Rightarrow> xcp_request \<Rightarrow> bytes xcp_op" where
  "xcp_command fuel cfg r s =
     (let recoveringConnect = recovering (xr_command r) s in
      case transact cfg r s of
        (Inl e, s) \<Rightarrow> (Inl e, s)
      | (Inr data, s) \<Rightarrow>
          if xr_command r = CommandConnect then
            (case parseConnect cfg data of
               Inl e \<Rightarrow> (Inl e, s)
             | Inr caps \<Rightarrow>
                 if recoveringConnect then
                   (case fuel of
                      0 \<Rightarrow> (Inl XcpOutOfFuel, s)
                    | Suc fuel' \<Rightarrow>
                        (case xcp_command fuel' cfg synch_request s of
                           (Inl e, s) \<Rightarrow> (Inl e, s)
                         | (Inr _, s) \<Rightarrow> xcp_command fuel' cfg r s))
                 else (Inr data, s\<lparr>xs_capabilities := caps, xs_connected := True, xs_pendingCommand := 0\<rparr>))
          else (Inr data, s\<lparr>xs_pendingCommand := 0\<rparr>))"

declare xcp_command.simps [simp del]

abbreviation "command \<equiv> xcp_command 1"

section \<open>The client's operations\<close>

definition XcpDo :: "xcp_client \<Rightarrow> xcp_request \<Rightarrow> bytes xcp_op" where
  "XcpDo c r = guarded (\<lambda>s.
     if xr_command r = CommandSynch \<and> \<not> xs_connected s \<and> (xs_pendingCommand s = 0 \<or>
          xs_pendingCommand s = CommandConnect \<or> xs_pendingCommand s = CommandDisconnect)
     then (Inl NotConnected, s)
     else command (xc_config c) r s)"

definition connect_request :: xcp_request where
  "connect_request = \<lparr>xr_command = CommandConnect, xr_data = [0]\<rparr>"

definition Connect :: "xcp_client \<Rightarrow> capabilities xcp_op" where
  "Connect c = guarded (\<lambda>s. case command (xc_config c) connect_request s of
       (Inl e, s) \<Rightarrow> (Inl e, s)
     | (Inr _, s) \<Rightarrow> (Inr (xs_capabilities s), s))"

definition Disconnect :: "xcp_client \<Rightarrow> unit xcp_op" where
  "Disconnect c s = (case XcpDo c \<lparr>xr_command = CommandDisconnect, xr_data = []\<rparr> s of
       (r, s) \<Rightarrow> (map_sum id (\<lambda>_. ()) r, s))"

definition Synchronize :: "xcp_client \<Rightarrow> unit xcp_op" where
  "Synchronize c s = (case XcpDo c synch_request s of (r, s) \<Rightarrow> (map_sum id (\<lambda>_. ()) r, s))"

record xcp_status =
  st_session :: u8
  st_protection :: u8
  st_state :: u8
  st_configurationID :: u16

definition XcpStatus :: "xcp_client \<Rightarrow> xcp_status xcp_op" where
  "XcpStatus c = guarded (\<lambda>s. case command (xc_config c) \<lparr>xr_command = CommandGetStatus, xr_data = []\<rparr> s of
       (Inl e, s) \<Rightarrow> (Inl e, s)
     | (Inr data, s) \<Rightarrow> (case cp_byteOrder (xs_capabilities s) of
           None \<Rightarrow> (Inl NoByteOrder, s)
         | Some order \<Rightarrow> (Inr \<lparr>st_session = data ! 0, st_protection = data ! 1, st_state = data ! 2,
             st_configurationID = Uint16 order (take 2 (drop 3 data))\<rparr>, s)))"

record communication_info =
  ci_mode :: u8
  ci_maxBlockSize :: u8
  ci_minSeparationTime :: u8
  ci_queueSize :: u8
  ci_driverVersion :: u8

definition CommunicationInfo :: "xcp_client \<Rightarrow> communication_info xcp_op" where
  "CommunicationInfo c s = (case XcpDo c \<lparr>xr_command = CommandGetCommModeInfo, xr_data = []\<rparr> s of
       (Inl e, s) \<Rightarrow> (Inl e, s)
     | (Inr data, s) \<Rightarrow> (Inr \<lparr>ci_mode = data ! 1, ci_maxBlockSize = data ! 3, ci_minSeparationTime = data ! 4,
         ci_queueSize = data ! 5, ci_driverVersion = data ! 6\<rparr>, s))"

section \<open>Reading memory\<close>

text \<open>A read returns what it has received together with its error, if any.\<close>

record xcp_address =
  ad_extension :: u8
  ad_value :: u32

type_synonym read_result = "bytes \<times> xcp_error option"

fun read_loop :: "nat \<Rightarrow> xcp_config \<Rightarrow> int \<Rightarrow> int \<Rightarrow> bytes \<Rightarrow> xcp_state \<Rightarrow> read_result \<times> xcp_state" where
  "read_loop fuel cfg maximum len got s =
     (if \<not> int (length got) < len then ((got, None), s)
      else case fuel of
          0 \<Rightarrow> ((got, Some XcpOutOfFuel), s)
        | Suc fuel' \<Rightarrow>
            let count = min maximum (len - int (length got)) in
            (case command cfg \<lparr>xr_command = CommandUpload, xr_data = [word_of_int count]\<rparr> s of
               (Inl e, s) \<Rightarrow> ((got, Some e), s)
             | (Inr data, s) \<Rightarrow> read_loop fuel' cfg maximum len (got @ take (nat count) data) s))"

declare read_loop.simps [simp del]

definition read_body :: "xcp_config \<Rightarrow> xcp_address \<Rightarrow> int \<Rightarrow> bool \<Rightarrow> xcp_state \<Rightarrow> read_result \<times> xcp_state" where
  "read_body cfg a len short s =
     (let caps = xs_capabilities s; maximum = uint (cp_maxCTO caps) - 1 in
      if xs_pendingCommand s \<noteq> 0 then (([], Some SynchronizationRequired), s)
      else if \<not> xs_connected s then (([], Some NotConnected), s)
      else if cp_addressGranularity caps \<noteq> 1 then (([], Some UnsupportedXcp), s)
      else if short \<and> len > maximum then (([], Some UnsupportedXcp), s)
      else if len = 0 then (([], None), s)
      else case cp_byteOrder caps of
          None \<Rightarrow> (([], Some NoByteOrder), s)
        | Some order \<Rightarrow>
            let parameters = (\<lambda>n. [n, 0, ad_extension a] @ PutUint32 order (ad_value a)) in
            if short then
              (case command cfg \<lparr>xr_command = CommandShortUpload, xr_data = parameters (word_of_int len)\<rparr> s of
                 (Inl e, s) \<Rightarrow> (([], Some e), s)
               | (Inr data, s) \<Rightarrow> ((take (nat len) data, None), s))
            else
              (case command cfg \<lparr>xr_command = CommandSetMTA, xr_data = parameters 0\<rparr> s of
                 (Inl e, s) \<Rightarrow> (([], Some e), s)
               | (Inr _, s) \<Rightarrow> read_loop (nat len) cfg maximum len [] s))"

definition xcp_read :: "xcp_client \<Rightarrow> xcp_address \<Rightarrow> int \<Rightarrow> bool \<Rightarrow> xcp_state \<Rightarrow> read_result \<times> xcp_state" where
  "xcp_read c a len short s =
     (if len < 0 \<or> uint (ad_value a) + len > 0xffffffff then (([], Some ReadOverflow), s)
      else case xcp_begin s of
          (Inl e, s) \<Rightarrow> (([], Some e), s)
        | (Inr _, s) \<Rightarrow> (case read_body (xc_config c) a len short s of (r, s) \<Rightarrow> (r, finish s)))"

definition Read :: "xcp_client \<Rightarrow> xcp_address \<Rightarrow> int \<Rightarrow> xcp_state \<Rightarrow> read_result \<times> xcp_state" where
  "Read c a len = xcp_read c a len False"

definition ShortUpload :: "xcp_client \<Rightarrow> xcp_address \<Rightarrow> int \<Rightarrow> xcp_state \<Rightarrow> read_result \<times> xcp_state" where
  "ShortUpload c a len = xcp_read c a len True"

end
