(* ===== verification/Xcp_Theorems.thy ===== *)
theory Xcp_Theorems
  imports Xcp_Client
begin

unbundle bit_operations_syntax

text \<open>
  What the XCP client knows of its session: the outcomes of one command, the invariant every
  operation keeps, what an uncertain outcome forbids and how it is recovered.
\<close>

section \<open>Outcomes of the wait for a response\<close>

text \<open>The errors after which the client knows the outcome of its command.\<close>

fun settles :: "xcp_error \<Rightarrow> bool" where
  "settles SessionTerminated = True"
| "settles (XcpNegative _ code) \<longleftrightarrow> code \<noteq> 0"
| "settles _ = False"

lemma receive_step:
  assumes "receive_script cfg cmd least deadline ((t, arrival) # rest) s = (res, s')"
  defines "s1 \<equiv> s\<lparr>xs_incoming := rest, xs_now := t\<rparr>"
  obtains (skip) cu deadline' where "receive_script cfg cmd least deadline' rest (s1\<lparr>xs_cursor := cu\<rparr>) = (res, s')"
    | (broken) e where "res = Inl e" "s' = s1" "e = XcpCursorLost \<or> e = ResponseTimeout \<or> (\<exists>n. e = XcpEnded n)"
    | (malformed) cu where "res = Inl InvalidXcpResponse" "s' = s1\<lparr>xs_cursor := cu\<rparr>"
    | (answered) f cu data where "res = Inr data" "arrival = Arrive f cu" "t < deadline"
        "classify cfg cmd least f = Reply data" "s' = s1\<lparr>xs_cursor := cu\<rparr>"
    | (refused) cu code where "res = Inl (XcpNegative cmd code)"
        "s' = (if code \<noteq> 0 then s1\<lparr>xs_cursor := cu, xs_pendingCommand := 0\<rparr> else s1\<lparr>xs_cursor := cu\<rparr>)"
    | (terminated) cu where "res = Inl SessionTerminated"
        "s' = s1\<lparr>xs_cursor := cu, xs_connected := False, xs_pendingCommand := 0\<rparr>"
proof (cases arrival)
  case (Arrive f cu)
  show thesis
  proof (cases "t < deadline")
    case True
    note eqn = assms(1) and now = Arrive True
    show thesis
    proof (cases "classify cfg cmd least f")
      case Ignore with eqn now skip show thesis by (simp add: s1_def Let_def)
    next
      case Extend with eqn now skip show thesis by (simp add: s1_def Let_def)
    next
      case (Reply data) with eqn now answered [OF _ Arrive True, of data] show thesis by (auto simp: s1_def Let_def)
    next
      case (Refused code)
      with eqn now have "res = Inl (XcpNegative cmd code)"
        "s' = (if code \<noteq> 0 then s1\<lparr>xs_cursor := cu, xs_pendingCommand := 0\<rparr> else s1\<lparr>xs_cursor := cu\<rparr>)"
        by (auto simp: s1_def Let_def)
      then show thesis by (rule refused)
    next
      case Terminated with eqn now terminated show thesis by (auto simp: s1_def Let_def)
    next
      case Malformed with eqn now malformed show thesis by (auto simp: s1_def Let_def)
    qed
  next
    case False
    show thesis using assms(1) Arrive False by (intro broken [of ResponseTimeout]) (auto simp: s1_def Let_def)
  qed
next
  case WaitExpired
  then show thesis using assms(1) by (intro broken [of ResponseTimeout]) (auto simp: s1_def Let_def)
next
  case CursorLost
  then show thesis using assms(1) by (intro broken [of XcpCursorLost]) (auto simp: s1_def Let_def)
next
  case (WaitFailed n)
  then show thesis using assms(1) by (intro broken [of "XcpEnded n"]) (auto simp: s1_def Let_def)
qed

text \<open>What the whole wait makes of the session.\<close>

datatype wait_end = Answered bytes | Denied u8 | Dropped | Unknown xcp_error

definition wait_effect :: "u8 \<Rightarrow> u8 \<Rightarrow> bool \<Rightarrow> wait_end \<Rightarrow> xcp_error + bytes \<Rightarrow> xcp_state \<Rightarrow> bool" where
  "wait_effect cmd pending connected e res s' \<longleftrightarrow>
     (case e of
        Answered data \<Rightarrow> res = Inr data \<and> xs_pendingCommand s' = pending \<and> xs_connected s' = connected
      | Denied code \<Rightarrow> res = Inl (XcpNegative cmd code) \<and> code \<noteq> 0 \<and> xs_pendingCommand s' = 0 \<and>
          xs_connected s' = connected
      | Dropped \<Rightarrow> res = Inl SessionTerminated \<and> xs_pendingCommand s' = 0 \<and> \<not> xs_connected s'
      | Unknown x \<Rightarrow> res = Inl x \<and> \<not> settles x \<and> x \<noteq> NoByteOrder \<and> x \<noteq> XcpOutOfFuel \<and>
          xs_pendingCommand s' = pending \<and> xs_connected s' = connected)"

lemma receive_script_effect:
  "receive_script cfg cmd least deadline script s = (res, s') \<Longrightarrow> \<exists>e. wait_effect cmd (xs_pendingCommand s) (xs_connected s) e res s'"
proof (induction script arbitrary: deadline s)
  case Nil
  then show ?case by (intro exI [of _ "Unknown ResponseTimeout"]) (auto simp: wait_effect_def)
next
  case (Cons x rest)
  obtain t arrival where x: "x = (t, arrival)" by (cases x)
  from Cons.prems [unfolded x] show ?case
  proof (cases rule: receive_step)
    case (skip cu deadline')
    from Cons.IH [OF this] show ?thesis by simp
  next
    case (broken e)
    then show ?thesis by (intro exI [of _ "Unknown e"]) (auto simp: wait_effect_def)
  next
    case malformed
    then show ?thesis by (intro exI [of _ "Unknown InvalidXcpResponse"]) (simp add: wait_effect_def)
  next
    case (answered f cu data)
    then show ?thesis by (intro exI [of _ "Answered data"]) (simp add: wait_effect_def)
  next
    case (refused cu code)
    then show ?thesis
      by (intro exI [of _ "if code = 0 then Unknown (XcpNegative cmd 0) else Denied code"]) (simp add: wait_effect_def)
  next
    case terminated
    then show ?thesis by (intro exI [of _ Dropped]) (simp add: wait_effect_def)
  qed
qed

text \<open>The wait changes nothing else.\<close>

definition same_rest :: "xcp_state \<Rightarrow> xcp_state \<Rightarrow> bool" where
  "same_rest s s' \<longleftrightarrow> xs_sent s' = xs_sent s \<and> xs_capabilities s' = xs_capabilities s \<and>
     xs_begins s' = xs_begins s \<and> xs_contexts s' = xs_contexts s \<and> xs_sends s' = xs_sends s \<and>
     xs_located s' = xs_located s \<and> xs_closed s' = xs_closed s \<and> xs_end s' = xs_end s"

lemma receive_script_keeps:
  "receive_script cfg cmd least deadline script s = (res, s') \<Longrightarrow> same_rest s s'"
proof (induction script arbitrary: deadline s)
  case Nil
  then show ?case by (auto simp: same_rest_def)
next
  case (Cons x rest)
  obtain t arrival where x: "x = (t, arrival)" by (cases x)
  from Cons.prems [unfolded x] show ?case
    by (cases rule: receive_step) (use Cons.IH in \<open>fastforce simp: same_rest_def split: if_splits\<close>)+
qed

text \<open>A reply is a frame that arrived; what came before it on the key was skipped.\<close>

lemma receive_script_reply:
  "receive_script cfg cmd least deadline script s = (Inr data, s') \<Longrightarrow>
     \<exists>skipped t f cu. script = skipped @ (t, Arrive f cu) # xs_incoming s' \<and>
       classify cfg cmd least f = Reply data"
proof (induction script arbitrary: deadline s)
  case (Cons x rest)
  obtain t arrival where x: "x = (t, arrival)" by (cases x)
  from Cons.prems [unfolded x] show ?case
  proof (cases rule: receive_step)
    case (skip cu deadline')
    from Cons.IH [OF this] obtain skipped t' f' cu' where
      "rest = skipped @ (t', Arrive f' cu') # xs_incoming s'" "classify cfg cmd least f' = Reply data" by blast
    then show ?thesis by (intro exI [of _ "x # skipped"]) auto
  next
    case (answered f cu data')
    then show ?thesis by (intro exI [of _ "[]"]) (auto simp: x)
  qed auto
qed simp

text \<open>Whatever a command does, it only takes outcomes off the front of the script.\<close>

definition consumes :: "xcp_state \<Rightarrow> xcp_state \<Rightarrow> bool" where
  "consumes s s' \<longleftrightarrow> (\<exists>taken. xs_incoming s = taken @ xs_incoming s')"

lemma consumes_refl [simp]: "xs_incoming s' = xs_incoming s \<Longrightarrow> consumes s s'"
  by (simp add: consumes_def)

lemma consumes_trans [trans]: "consumes s s1 \<Longrightarrow> consumes s1 s2 \<Longrightarrow> consumes s s2"
  by (auto simp: consumes_def)

lemma receive_script_consumes:
  "receive_script cfg cmd least deadline script s = (res, s') \<Longrightarrow> \<exists>taken. script = taken @ xs_incoming s'"
proof (induction script arbitrary: deadline s)
  case (Cons x rest)
  obtain t arrival where x: "x = (t, arrival)" by (cases x)
  from Cons.prems [unfolded x] show ?case
  proof (cases rule: receive_step)
    case (skip cu deadline')
    from Cons.IH [OF this] obtain taken where "rest = taken @ xs_incoming s'" by blast
    then show ?thesis by (intro exI [of _ "x # taken"]) simp
  qed (auto intro!: exI [of _ "[x]"] split: if_splits)
qed auto

text \<open>A reply to SYNCH is its marker; a reply to any other command is a positive response.\<close>

definition synch_marker :: "frame \<Rightarrow> bool" where
  "synch_marker f \<longleftrightarrow> take 2 (payload_of f) = [0xfe, 0]"

lemma two_bytes_cases:
  obtains "xs = []" | x where "xs = [x]" | x y ys where "xs = x # y # ys"
  by (cases xs rule: remdups_adj.cases) auto

lemma classify_synch:
  "classify cfg CommandSynch least f = Reply data \<Longrightarrow> wf_frame f \<Longrightarrow> synch_marker f \<and> data = drop 1 (payload_of f)"
  using length_payload_of [of f]
  by (cases "payload_of f" rule: two_bytes_cases)
    (auto simp: classify_def Let_def payload_of_def [symmetric] synch_marker_def split: if_splits)

lemma classify_reply:
  "classify cfg cmd least f = Reply data \<Longrightarrow> cmd \<noteq> CommandSynch \<Longrightarrow>
     0 < DataLength f \<and> payload_of f ! 0 = 0xff \<and> least \<le> DataLength f \<and> data = drop 1 (payload_of f)"
  by (auto simp: classify_def Let_def payload_of_def split: if_splits)

section \<open>One command\<close>

lemma validateRequest_errors:
  "validateRequest cfg r s = Inl e \<Longrightarrow> \<not> settles e \<and> e \<noteq> XcpOutOfFuel \<and>
     (e = NoByteOrder \<longrightarrow> xs_connected s \<and> cp_byteOrder (xs_capabilities s) = None)"
  by (cases "cp_byteOrder (xs_capabilities s)")
    (auto simp: validateRequest_def Let_def ebind_Inl_iff split: if_splits list.splits)

definition keeps_session :: "u8 \<Rightarrow> bool \<Rightarrow> bool" where
  "keeps_session cmd known \<longleftrightarrow> known \<and> cmd \<noteq> CommandConnect \<and> cmd \<noteq> CommandDisconnect"

text \<open>The frames a command puts on the bus: none when it resumes an unanswered SYNCH.\<close>

definition command_frames :: "xcp_config \<Rightarrow> xcp_request \<Rightarrow> bool \<Rightarrow> frame list \<Rightarrow> bool" where
  "command_frames cfg r resumed fs \<longleftrightarrow>
     (if resumed then fs = []
      else \<exists>f. fs = [f] \<and> NewFrame (xc_transmitID cfg) (packet cfg r) (xc_frameFlags cfg) = Inr f)"

lemma xcp_send_cases:
  assumes "xcp_send cfg r known s = (res, s')"
  obtains (unsent) e where "res = Inl e" "\<not> settles e" "e \<noteq> XcpOutOfFuel" "e \<noteq> NoByteOrder"
      "xs_sent s' = xs_sent s" "xs_pendingCommand s' = xs_pendingCommand s" "xs_connected s' = xs_connected s"
      "xs_capabilities s' = xs_capabilities s"
    | (lost) f where "res = Inl XcpCursorLost" "command_frames cfg r False [f]" "xs_sent s' = xs_sent s @ [f]"
      "xs_pendingCommand s' = xr_command r" "xs_connected s' = (xs_connected s \<and> keeps_session (xr_command r) known)"
      "xs_capabilities s' = xs_capabilities s"
    | (sent) f where "res = Inr ()" "command_frames cfg r False [f]" "xs_sent s' = xs_sent s @ [f]"
      "xs_pendingCommand s' = xr_command r" "xs_connected s' = (xs_connected s \<and> keeps_session (xr_command r) known)"
      "xs_capabilities s' = xs_capabilities s" "xs_incoming s' = xs_incoming s"
proof (cases "NewFrame (xc_transmitID cfg) (packet cfg r) (xc_frameFlags cfg)")
  case (Inl e)
  with assms show thesis by (intro unsent [of "BadXcpFrame e"]) (auto simp: xcp_send_def)
next
  case (Inr f)
  show thesis
  proof (cases "case xs_sends s of [] \<Rightarrow> None | x # _ \<Rightarrow> x")
    case (Some e)
    with assms Inr show thesis by (intro unsent [of "XcpSendFailed e"]) (auto simp: xcp_send_def Let_def)
  next
    case None
    have fs: "command_frames cfg r False [f]" using Inr by (simp add: command_frames_def)
    show thesis
    proof (cases "\<exists>cu rest. xs_located s = Some cu # rest")
      case True
      with assms Inr None show thesis
        by (intro sent [OF _ fs]) (auto simp: xcp_send_def Let_def keeps_session_def)
    next
      case False
      with assms Inr None show thesis
        by (intro lost [OF _ fs]) (auto simp: xcp_send_def Let_def keeps_session_def split: list.splits option.splits)
    qed
  qed
qed

lemma xcp_context_cases:
  assumes "xcp_context s = (res, s')"
  obtains (ended) e where "res = Inl (XcpEnded e)" "s' = s\<lparr>xs_contexts := tl (xs_contexts s)\<rparr>"
    | (live) "res = Inr ()" "s' = s\<lparr>xs_contexts := tl (xs_contexts s)\<rparr>"
  using assms by (cases "xs_contexts s") (auto simp: xcp_context_def split: option.splits)

lemma transact_cases:
  assumes "transact cfg r s = (res, s')"
  obtains (unsent) e where "res = Inl e" "\<not> settles e" "e \<noteq> XcpOutOfFuel"
      "e = NoByteOrder \<Longrightarrow> xs_connected s \<and> cp_byteOrder (xs_capabilities s) = None"
      "xs_sent s' = xs_sent s" "xs_pendingCommand s' = xs_pendingCommand s" "xs_connected s' = xs_connected s"
      "xs_capabilities s' = xs_capabilities s"
    | (lost) known f where "res = Inl XcpCursorLost" "\<not> resumes r s" "command_frames cfg r False [f]" "xs_sent s' = xs_sent s @ [f]"
      "xs_pendingCommand s' = xr_command r" "xs_connected s' = (xs_connected s \<and> keeps_session (xr_command r) known)"
      "xs_capabilities s' = xs_capabilities s"
    | (waited) least known fs s1 s2 where "validateRequest cfg r s = Inr (least, known)"
      "command_frames cfg r (resumes r s) fs" "xs_sent s1 = xs_sent s @ fs"
      "xs_pendingCommand s1 = xr_command r" "xs_connected s1 = (xs_connected s \<and> keeps_session (xr_command r) known)"
      "xs_capabilities s1 = xs_capabilities s" "xs_incoming s1 = xs_incoming s"
      "xcp_receive cfg (xr_command r) least s1 = (res, s2)"
      "s' = (if recovering (xr_command r) s \<and> (\<exists>e. res = Inl e \<and> e \<noteq> SessionTerminated)
             then s2\<lparr>xs_pendingCommand := CommandConnect\<rparr> else s2)"
proof (cases "validateRequest cfg r s")
  case (Inl e)
  with assms validateRequest_errors [OF Inl] show thesis by (intro unsent [of e]) (auto simp: transact_def)
next
  case (Inr lk)
  obtain least known where lk: "lk = (least, known)" by (cases lk)
  obtain cr cs where c: "xcp_context s = (cr, cs)" by (cases "xcp_context s")
  then show thesis
  proof (cases rule: xcp_context_cases)
    case (ended e)
    with assms Inr lk c show thesis by (intro unsent [of "XcpEnded e"]) (auto simp: transact_def)
  next
    case live
    have rs: "resumes r cs = resumes r s" by (simp add: live resumes_def)
    obtain sr ss where send: "(if resumes r cs then (Inr (), cs) else xcp_send cfg r known cs) = (sr, ss)"
      by (cases "if resumes r cs then (Inr (), cs) else xcp_send cfg r known cs")
    have ok: "thesis" if sent: "sr = Inr ()" "command_frames cfg r (resumes r s) fs" "xs_sent ss = xs_sent s @ fs"
      "xs_pendingCommand ss = xr_command r" "xs_connected ss = (xs_connected s \<and> keeps_session (xr_command r) known)"
      "xs_capabilities ss = xs_capabilities s" "xs_incoming ss = xs_incoming s" for fs
    proof -
      obtain rr s2 where recv: "xcp_receive cfg (xr_command r) least ss = (rr, s2)"
        by (cases "xcp_receive cfg (xr_command r) least ss")
      have "res = rr \<and> s' = (if recovering (xr_command r) s \<and> (\<exists>e. rr = Inl e \<and> e \<noteq> SessionTerminated)
             then s2\<lparr>xs_pendingCommand := CommandConnect\<rparr> else s2)"
        using assms Inr lk c live(1) send sent(1) recv by (cases rr) (auto simp: transact_def Let_def)
      with waited [OF Inr [unfolded lk] sent(2-7)] recv show thesis by auto
    qed
    show thesis
    proof (cases "resumes r s")
      case True
      then have "known" "keeps_session (xr_command r) known"
        using Inr lk by (auto simp: validateRequest_def Let_def resumes_def keeps_session_def command_defs split: if_splits)
      with send rs True ok [of "[]"] show thesis by (auto simp: command_frames_def live resumes_def)
    next
      case False
      then have snd: "xcp_send cfg r known cs = (sr, ss)" using send rs by simp
      then show thesis
      proof (cases rule: xcp_send_cases)
        case (unsent e)
        with assms Inr lk c live rs False snd that(1) [of e] show thesis by (auto simp: transact_def Let_def)
      next
        case (lost f)
        with assms Inr lk c live rs False snd that(2) [of f known] show thesis by (auto simp: transact_def Let_def)
      next
        case (sent f)
        with ok [of "[f]"] False live show thesis by simp
      qed
    qed
  qed
qed

lemma xcp_send_incoming: "xs_incoming (snd (xcp_send cfg r known s)) = xs_incoming s"
  by (auto simp: xcp_send_def Let_def split: sum.splits option.splits list.splits)

lemma xcp_context_incoming: "xs_incoming (snd (xcp_context s)) = xs_incoming s"
  by (auto simp: xcp_context_def split: option.splits list.splits)

lemma transact_consumes:
  assumes "transact cfg r s = (res, s')"
  shows "consumes s s'"
proof (cases "validateRequest cfg r s")
  case (Inl e)
  with assms show ?thesis by (simp add: transact_def)
next
  case (Inr lk)
  obtain least known where lk: "lk = (least, known)" by (cases lk)
  obtain cr cs where c: "xcp_context s = (cr, cs)" by (cases "xcp_context s")
  obtain sr ss where send: "(if resumes r cs then (Inr (), cs) else xcp_send cfg r known cs) = (sr, ss)"
    by (cases "if resumes r cs then (Inr (), cs) else xcp_send cfg r known cs")
  obtain rr rs where recv: "xcp_receive cfg (xr_command r) least ss = (rr, rs)"
    by (cases "xcp_receive cfg (xr_command r) least ss")
  have "xs_incoming cs = xs_incoming s" using xcp_context_incoming [of s] c by simp
  moreover have "xs_incoming ss = xs_incoming cs"
    using xcp_send_incoming [of cfg r known cs] send by (auto split: if_splits)
  moreover have "consumes ss rs"
    using receive_script_consumes [OF recv [unfolded xcp_receive_def]] by (simp add: consumes_def)
  ultimately show ?thesis
    using assms Inr lk c send recv
    by (cases cr; cases sr; cases rr) (auto simp: transact_def consumes_def)
qed

section \<open>The invariant\<close>

definition wf_capabilities :: "xcp_config \<Rightarrow> capabilities \<Rightarrow> bool" where
  "wf_capabilities cfg caps \<longleftrightarrow> cp_byteOrder caps \<noteq> None \<and> cp_addressGranularity caps \<in> {1, 2, 4} \<and>
     8 \<le> cp_maxCTO caps \<and> cp_maxCTO caps \<le> xc_transmitDataLength cfg"

definition session_ok :: "xcp_config \<Rightarrow> xcp_state \<Rightarrow> bool" where
  "session_ok cfg s \<longleftrightarrow> list_all (whole \<circ> snd) (xs_incoming s) \<and>
     (xs_connected s \<longrightarrow> wf_capabilities cfg (xs_capabilities s)) \<and>
     (xs_pendingCommand s = CommandConnect \<or> xs_pendingCommand s = CommandDisconnect \<longrightarrow> \<not> xs_connected s)"

text \<open>Between operations the capture is retained for an unanswered SYNCH only.\<close>

definition idle_ok :: "xcp_config \<Rightarrow> xcp_state \<Rightarrow> bool" where
  "idle_ok cfg s \<longleftrightarrow> session_ok cfg s \<and> (xs_retaining s \<longleftrightarrow> xs_pendingCommand s = CommandSynch)"

lemma granularity_cases: "(x :: u8) AND 3 \<noteq> 3 \<Longrightarrow> push_bit (unat (x AND 3)) (1 :: u8) \<in> {1, 2, 4}"
proof -
  assume "x AND 3 \<noteq> 3"
  moreover have "unat (x AND 3) \<le> 3" using word_and_le1 [of x 3] by (simp add: word_le_nat_alt)
  then have "unat (x AND 3) \<in> {0, 1, 2, 3}" by auto
  then have "x AND 3 \<in> {0, 1, 2, 3}" by (auto simp: word_unat_eq_iff)
  ultimately have "x AND 3 \<in> {0, 1, 2}" by auto
  then show ?thesis by auto
qed

lemma parseConnect_wf: "parseConnect cfg data = Inr caps \<Longrightarrow> wf_capabilities cfg caps"
  using granularity_cases [of "drop_bit 1 (data ! 1)"]
  by (auto simp: parseConnect_def Let_def wf_capabilities_def not_less split: if_splits)

lemma consumes_whole: "consumes s s' \<Longrightarrow> session_ok cfg s \<Longrightarrow> list_all (whole \<circ> snd) (xs_incoming s')"
  by (auto simp: consumes_def session_ok_def)

lemma transact_ok:
  assumes "session_ok cfg s" "transact cfg r s = (res, s')"
  shows "session_ok cfg s' \<and> res \<noteq> Inl NoByteOrder \<and> res \<noteq> Inl XcpOutOfFuel \<and>
    (xr_command r = CommandConnect \<longrightarrow> is_ok res \<longrightarrow> \<not> xs_connected s' \<and> xs_pendingCommand s' = CommandConnect)"
proof -
  note arrays = consumes_whole [OF transact_consumes [OF assms(2)] assms(1)]
  from assms(2) show ?thesis
  proof (cases rule: transact_cases)
    case (unsent e)
    with assms(1) arrays show ?thesis by (auto simp: session_ok_def wf_capabilities_def)
  next
    case (lost known f)
    with assms(1) arrays show ?thesis by (auto simp: session_ok_def keeps_session_def)
  next
    case (waited least known fs s1 s2)
    from waited(8) have run: "receive_script cfg (xr_command r) least (xs_now s1 + xc_timeout cfg) (xs_incoming s1) s1 = (res, s2)"
      by (simp add: xcp_receive_def)
    obtain e where e: "wait_effect (xr_command r) (xs_pendingCommand s1) (xs_connected s1) e res s2"
      using receive_script_effect [OF run] by blast
    have caps: "xs_capabilities s2 = xs_capabilities s"
      using receive_script_keeps [OF run] waited(6) by (simp add: same_rest_def)
    have cc: "xs_connected s2 \<longrightarrow> xs_connected s \<and> keeps_session (xr_command r) known"
      using e waited(5) by (auto simp: wait_effect_def split: wait_end.splits)
    have pend: "xs_pendingCommand s2 = 0 \<or> xs_pendingCommand s2 = xr_command r"
      using e waited(4) by (auto simp: wait_effect_def split: wait_end.splits)
    have "list_all (whole \<circ> snd) (xs_incoming s2)" using arrays waited(9) by (simp split: if_splits)
    then have "session_ok cfg s2"
      using assms(1) caps cc pend by (auto simp: session_ok_def keeps_session_def command_defs)
    moreover have "\<not> xs_connected s2" if "xr_command r = CommandConnect"
      using cc that by (auto simp: keeps_session_def)
    moreover have "xs_pendingCommand s2 = xr_command r" if "is_ok res"
      using e that waited(4) by (auto simp: wait_effect_def split: wait_end.splits)
    moreover have "res \<noteq> Inl NoByteOrder \<and> res \<noteq> Inl XcpOutOfFuel"
      using e by (auto simp: wait_effect_def split: wait_end.splits)
    ultimately show ?thesis
      unfolding waited(9) by (auto simp: session_ok_def recovering_def)
  qed
qed

text \<open>A command that recovers nothing is its transaction and what a trusted response changes.\<close>

definition conclude :: "xcp_config \<Rightarrow> xcp_request \<Rightarrow> bytes \<Rightarrow> bytes xcp_op" where
  "conclude cfg r data s =
     (if xr_command r = CommandConnect then
        (case parseConnect cfg data of
           Inl e \<Rightarrow> (Inl e, s)
         | Inr caps \<Rightarrow> (Inr data, s\<lparr>xs_capabilities := caps, xs_connected := True, xs_pendingCommand := 0\<rparr>))
      else (Inr data, s\<lparr>xs_pendingCommand := 0\<rparr>))"

lemma plain_command:
  "\<not> recovering (xr_command r) s \<Longrightarrow> xcp_command n cfg r s =
     (case transact cfg r s of (Inl e, s) \<Rightarrow> (Inl e, s) | (Inr data, s) \<Rightarrow> conclude cfg r data s)"
  by (subst xcp_command.simps) (simp add: conclude_def split: prod.splits sum.splits)

lemma recovering_command:
  "recovering (xr_command r) s \<Longrightarrow> xcp_command (Suc n) cfg r s =
     (case transact cfg r s of
        (Inl e, s) \<Rightarrow> (Inl e, s)
      | (Inr data, s) \<Rightarrow> (case parseConnect cfg data of
          Inl e \<Rightarrow> (Inl e, s)
        | Inr _ \<Rightarrow> (case xcp_command n cfg synch_request s of
             (Inl e, s) \<Rightarrow> (Inl e, s)
           | (Inr _, s) \<Rightarrow> xcp_command n cfg r s)))"
  by (subst xcp_command.simps) (auto simp: recovering_def Let_def split: prod.splits sum.splits)

lemma synch_not_recovering [simp]: "\<not> recovering (xr_command synch_request) s"
  by (simp add: recovering_def synch_request_def command_defs)

lemma conclude_ok:
  assumes "conclude cfg r data s = (res, s')" "session_ok cfg s"
  shows "session_ok cfg s' \<and> res \<noteq> Inl NoByteOrder \<and> res \<noteq> Inl XcpOutOfFuel \<and>
    (xs_pendingCommand s' = 0 \<or> \<not> is_ok res)"
  using assms parseConnect_wf [of cfg data]
  by (auto simp: conclude_def session_ok_def command_defs parseConnect_def Let_def split: if_splits sum.splits)

lemma plain_command_ok:
  assumes "\<not> recovering (xr_command r) s" "xcp_command n cfg r s = (res, s')" "session_ok cfg s"
  shows "session_ok cfg s' \<and> res \<noteq> Inl NoByteOrder \<and> res \<noteq> Inl XcpOutOfFuel \<and>
    (xs_pendingCommand s' = 0 \<or> \<not> is_ok res)"
proof -
  obtain tr ts where t: "transact cfg r s = (tr, ts)" by (cases "transact cfg r s")
  show ?thesis
  proof (cases tr)
    case (Inl e)
    with assms(2) t transact_ok [OF assms(3) t] show ?thesis by (auto simp: plain_command [OF assms(1)])
  next
    case (Inr data)
    with assms(2) t have "conclude cfg r data ts = (res, s')" by (simp add: plain_command [OF assms(1)])
    then show ?thesis using conclude_ok transact_ok [OF assms(3) t] by blast
  qed
qed

lemma command_ok:
  assumes "command cfg r s = (res, s')" "session_ok cfg s"
  shows "session_ok cfg s' \<and> res \<noteq> Inl NoByteOrder \<and> res \<noteq> Inl XcpOutOfFuel \<and>
    (xs_pendingCommand s' = 0 \<or> \<not> is_ok res)"
proof (cases "recovering (xr_command r) s")
  case False
  then show ?thesis using plain_command_ok [OF False] assms by blast
next
  case True
  obtain tr ts where t: "transact cfg r s = (tr, ts)" by (cases "transact cfg r s")
  note tok = transact_ok [OF assms(2) t]
  obtain yr ys where y: "xcp_command 0 cfg synch_request ts = (yr, ys)" by (cases "xcp_command 0 cfg synch_request ts")
  note yok = plain_command_ok [OF synch_not_recovering y]
  show ?thesis
  proof (cases "is_ok tr \<and> is_ok (parseConnect cfg (projr tr)) \<and> is_ok yr")
    case True
    then have "\<not> recovering (xr_command r) ys" using yok tok by (auto simp: recovering_def command_defs)
    moreover have "xcp_command 0 cfg r ys = (res, s')"
      using assms(1) True \<open>recovering _ s\<close> t y
      by (auto simp: recovering_command is_ok_iff split: sum.splits)
    ultimately show ?thesis using plain_command_ok tok yok by blast
  next
    case False
    then show ?thesis
      using assms(1) \<open>recovering _ s\<close> t y tok yok
      by (auto simp: recovering_command is_ok_iff parseConnect_def Let_def split: sum.splits if_splits)
  qed
qed

section \<open>Every operation\<close>

datatype xcp_call = CallDo xcp_request | CallConnect | CallDisconnect | CallSynchronize | CallStatus | CallInfo
  | CallRead xcp_address int | CallShortUpload xcp_address int | CallClose

text \<open>A call, reduced to the error it returns.\<close>

fun failure :: "xcp_error + 'a \<Rightarrow> xcp_error option" where
  "failure (Inl e) = Some e"
| "failure (Inr x) = None"

fun perform :: "xcp_client \<Rightarrow> xcp_call \<Rightarrow> xcp_state \<Rightarrow> xcp_error option \<times> xcp_state" where
  "perform c (CallDo r) s = apfst failure (XcpDo c r s)"
| "perform c CallConnect s = apfst failure (Connect c s)"
| "perform c CallDisconnect s = apfst failure (Disconnect c s)"
| "perform c CallSynchronize s = apfst failure (Synchronize c s)"
| "perform c CallStatus s = apfst failure (XcpStatus c s)"
| "perform c CallInfo s = apfst failure (CommunicationInfo c s)"
| "perform c (CallRead a n) s = apfst snd (Read c a n s)"
| "perform c (CallShortUpload a n) s = apfst snd (ShortUpload c a n s)"
| "perform c CallClose s = (None, xcp_Close s)"

definition no_capabilities :: capabilities where
  "no_capabilities = \<lparr>cp_resources = 0, cp_communicationMode = 0, cp_byteOrder = None,
     cp_addressGranularity = 0, cp_maxCTO = 0, cp_maxDTO = 0, cp_protocolVersion = 0, cp_transportVersion = 0\<rparr>"

text \<open>
  The states of a client: it starts without a session, anything may happen around it between two
  calls, and calls happen one at a time.
\<close>

inductive xcp_reachable :: "xcp_client \<Rightarrow> xcp_state \<Rightarrow> bool" for c where
  start: "xs_capabilities s = no_capabilities \<Longrightarrow> \<not> xs_connected s \<Longrightarrow> xs_pendingCommand s = 0 \<Longrightarrow>
    \<not> xs_retaining s \<Longrightarrow> \<not> xs_closed s \<Longrightarrow> list_all (whole \<circ> snd) (xs_incoming s) \<Longrightarrow> xcp_reachable c s"
| world: "xcp_reachable c s \<Longrightarrow> xcp_reachable c (s\<lparr>xs_begins := begins, xs_contexts := contexts, xs_end := end',
    xs_sends := sends, xs_located := located, xs_incoming := incoming, xs_now := now\<rparr>)"
    if "list_all (whole \<circ> snd) incoming"
| step: "xcp_reachable c s \<Longrightarrow> xcp_reachable c (snd (perform c call s))"

abbreviation "sound_error e \<equiv> e \<noteq> Some NoByteOrder \<and> e \<noteq> Some XcpOutOfFuel"

lemma session_ok_finish: "session_ok cfg s \<Longrightarrow> idle_ok cfg (finish s)"
  by (simp add: idle_ok_def session_ok_def finish_def)

lemma begin_cases:
  assumes "xcp_begin s = (res, s')" "idle_ok cfg s"
  obtains (refused) e where "res = Inl e" "sound_error (Some e)" "\<not> settles e" "idle_ok cfg s'"
      "xs_sent s' = xs_sent s" "xs_pendingCommand s' = xs_pendingCommand s"
    | (entered) "res = Inr ()" "s' = s\<lparr>xs_begins := tl (xs_begins s)\<rparr>" "session_ok cfg s'"
proof -
  define s1 where "s1 = s\<lparr>xs_begins := tl (xs_begins s)\<rparr>"
  have idle: "idle_ok cfg s1" and open_ok: "session_ok cfg s1"
    using assms(2) by (simp_all add: s1_def idle_ok_def session_ok_def)
  note idle_finish = session_ok_finish [OF open_ok]
  define entry where "entry = (case xs_begins s of [] \<Rightarrow> None | x # _ \<Rightarrow> x)"
  note run = assms(1) [unfolded xcp_begin_def Let_def, folded s1_def entry_def]
  have s1: "xs_closed s1 = xs_closed s" "xs_sent s1 = xs_sent s" "xs_pendingCommand s1 = xs_pendingCommand s"
    by (simp_all add: s1_def)
  show thesis
  proof (cases entry)
    case None
    show thesis
    proof (cases "xs_closed s")
      case True
      with run None s1 idle_finish show thesis by (intro refused [of XcpClosed]) (auto simp: finish_def)
    next
      case False
      with run None s1 open_ok show thesis by (intro entered) (auto simp: s1_def)
    qed
  next
    case (Some x)
    with run s1 idle idle_finish show thesis
      by (intro refused [of "if xs_closed s then XcpClosed else XcpEnded (snd x)"])
        (auto simp: finish_def split: prod.splits bool.splits)
  qed
qed

lemma guarded_ok:
  assumes "idle_ok cfg s" "guarded m s = (res, s')"
    "\<And>s1 r s2. session_ok cfg s1 \<Longrightarrow> m s1 = (r, s2) \<Longrightarrow> session_ok cfg s2 \<and> sound_error (failure r)"
  shows "idle_ok cfg s' \<and> sound_error (failure res)"
proof -
  obtain br bs where b: "xcp_begin s = (br, bs)" by (cases "xcp_begin s")
  then show ?thesis using assms(1)
  proof (cases rule: begin_cases)
    case (refused e)
    with assms(2) b show ?thesis by (auto simp: guarded_def)
  next
    case entered
    obtain r s2 where "m bs = (r, s2)" by (cases "m bs")
    with assms(2,3) b entered session_ok_finish show ?thesis by (fastforce simp: guarded_def)
  qed
qed

lemma guarded_keeps:
  assumes "idle_ok cfg s"
    "\<And>s1 r s2. session_ok cfg s1 \<Longrightarrow> m s1 = (r, s2) \<Longrightarrow> session_ok cfg s2 \<and> sound_error (failure r)"
  shows "idle_ok cfg (snd (guarded m s)) \<and> sound_error (failure (fst (guarded m s)))"
  using assms by (intro guarded_ok [OF assms(1), of m]) simp_all

lemma command_sound:
  "session_ok cfg s \<Longrightarrow> command cfg r s = (res, s') \<Longrightarrow> session_ok cfg s' \<and> sound_error (failure res)"
  using command_ok [of cfg r s res s'] by (cases res) auto

text \<open>A reply carries the bytes its command needs.\<close>

lemma transact_reply_length:
  assumes "transact cfg r s = (Inr data, s')" "session_ok cfg s" "validateRequest cfg r s = Inr (least, known)"
    "xr_command r \<noteq> CommandSynch"
  shows "least \<le> Suc (length data)"
  using assms(1)
proof (cases rule: transact_cases)
  case (waited least' known' fs s1 s2)
  from receive_script_reply [OF waited(8) [unfolded xcp_receive_def]] waited(7)
  obtain skipped t f cu where "xs_incoming s = skipped @ (t, Arrive f cu) # xs_incoming s2"
    and f: "classify cfg (xr_command r) least' f = Reply data" by auto
  then have "wf_frame f" using assms(2) by (simp add: session_ok_def)
  with classify_reply [OF f assms(4)] waited(1) assms(3) length_payload_of [of f] show ?thesis by auto
qed auto

lemma command_error:
  "session_ok cfg s \<Longrightarrow> command cfg r s = (Inl e, s') \<Longrightarrow> sound_error (Some e)"
  using command_sound by fastforce

lemma upload_reply_length:
  assumes "command cfg r s = (Inr data, s')" "session_ok cfg s" "xr_command r = CommandUpload" "xr_data r = [n]"
  shows "0 < unat n \<and> unat n \<le> length data"
proof -
  have nr: "\<not> recovering (xr_command r) s" using assms(3) by (simp add: recovering_def command_defs)
  from assms(1,3) obtain s1 where t: "transact cfg r s = (Inr data, s1)"
    by (auto simp: plain_command [OF nr] conclude_def command_defs split: prod.splits sum.splits)
  then obtain least known where v: "validateRequest cfg r s = Inr (least, known)"
    by (cases "validateRequest cfg r s") (auto simp: transact_def)
  with assms(3,4) have "least = 1 + unat n \<and> 0 < unat n"
    by (auto simp: validateRequest_def Let_def command_defs split: if_splits)
  with transact_reply_length [OF t assms(2) v] assms(3) show ?thesis by (simp add: command_defs)
qed

lemma read_loop_ok:
  "read_loop fuel cfg maximum len got s = (res, s') \<Longrightarrow> session_ok cfg s \<Longrightarrow> 0 < maximum \<Longrightarrow> maximum < 256 \<Longrightarrow>
     len - int (length got) \<le> int fuel \<Longrightarrow> session_ok cfg s' \<and> sound_error (snd res)"
proof (induction fuel arbitrary: got s)
  case 0
  then show ?case by (auto simp: read_loop.simps [of 0] split: if_splits)
next
  case (Suc fuel)
  define n :: u8 where "n = word_of_int (min maximum (len - int (length got)))"
  obtain cr cs where c: "command cfg \<lparr>xr_command = CommandUpload, xr_data = [n]\<rparr> s = (cr, cs)"
    by (cases "command cfg \<lparr>xr_command = CommandUpload, xr_data = [n]\<rparr> s")
  note cok = command_sound [OF Suc.prems(2) c]
  show ?case
  proof (cases "int (length got) < len")
    case False
    with Suc.prems show ?thesis by (auto simp: read_loop.simps [of "Suc fuel"])
  next
    case more: True
    show ?thesis
    proof (cases cr)
      case (Inl e)
      with Suc.prems(1) c cok more show ?thesis
        by (auto simp: read_loop.simps [of "Suc fuel"] Let_def n_def)
    next
      case (Inr data)
      have n: "unat n = nat (min maximum (len - int (length got)))"
        using Suc.prems(3,4) more by (simp add: n_def unsigned_of_int take_bit_int_eq_self nat_eq_iff)
      have grown: "length data \<ge> nat (min maximum (len - int (length got)))"
        using upload_reply_length [OF c [unfolded Inr] Suc.prems(2)] n by simp
      have "read_loop fuel cfg maximum len (got @ take (nat (min maximum (len - int (length got)))) data) cs = (res, s')"
        using Suc.prems(1) c more Inr by (simp add: read_loop.simps [of "Suc fuel"] Let_def n_def)
      from Suc.IH [OF this] cok show ?thesis using Suc.prems(3-5) more grown by auto
    qed
  qed
qed

lemma read_body_ok:
  assumes "read_body cfg a len short s = (res, s')" "session_ok cfg s" "0 \<le> len"
  shows "session_ok cfg s' \<and> sound_error (snd res)"
proof (cases "xs_pendingCommand s \<noteq> 0 \<or> \<not> xs_connected s \<or> cp_addressGranularity (xs_capabilities s) \<noteq> 1 \<or>
    short \<and> len > uint (cp_maxCTO (xs_capabilities s)) - 1 \<or> len = 0")
  case True
  with assms show ?thesis by (auto simp: read_body_def Let_def split: if_splits)
next
  case False
  with assms(2) have wf: "wf_capabilities cfg (xs_capabilities s)" by (simp add: session_ok_def)
  then obtain order where order: "cp_byteOrder (xs_capabilities s) = Some order" by (auto simp: wf_capabilities_def)
  define maximum where "maximum = uint (cp_maxCTO (xs_capabilities s)) - 1"
  have m: "0 < maximum" "maximum < 256"
    using wf uint_lt2p [of "cp_maxCTO (xs_capabilities s)"]
    by (auto simp: maximum_def wf_capabilities_def word_le_def)
  define request where "request = \<lparr>xr_command = (if short then CommandShortUpload else CommandSetMTA),
    xr_data = [if short then word_of_int len else 0, 0, ad_extension a] @ PutUint32 order (ad_value a)\<rparr>"
  obtain cr cs where c: "command cfg request s = (cr, cs)" by (cases "command cfg request s")
  note cok = command_sound [OF assms(2) c]
  show ?thesis
  proof (cases "is_ok cr \<and> \<not> short")
    case True
    with assms(1) False order c have "read_loop (nat len) cfg maximum len [] cs = (res, s')"
      by (auto simp: read_body_def Let_def request_def maximum_def is_ok_iff)
    from read_loop_ok [OF this _ m] cok show ?thesis by simp
  next
    case failed: False
    with assms(1) False order c cok show ?thesis
      by (cases cr; cases short) (auto simp: read_body_def Let_def request_def)
  qed
qed

lemma XcpDo_ok:
  assumes "idle_ok (xc_config c) s" "XcpDo c r s = (res, s')"
  shows "idle_ok (xc_config c) s' \<and> sound_error (failure res)"
  using assms(2) command_sound unfolding XcpDo_def
  by (intro guarded_ok [OF assms(1)]) (auto split: if_splits)

lemma failure_map [simp]: "failure (map_sum id f r) = failure r"
  by (cases r) auto

lemma Do_failures:
  "apfst failure (Disconnect c s) = apfst failure (XcpDo c \<lparr>xr_command = CommandDisconnect, xr_data = []\<rparr> s)"
  "apfst failure (Synchronize c s) = apfst failure (XcpDo c synch_request s)"
  by (auto simp: Disconnect_def Synchronize_def split: prod.splits)

lemma CommunicationInfo_failure: "apfst failure (CommunicationInfo c s) =
    apfst failure (XcpDo c \<lparr>xr_command = CommandGetCommModeInfo, xr_data = []\<rparr> s)"
  by (auto simp: CommunicationInfo_def split: prod.splits sum.splits)

lemma status_body_ok:
  assumes "session_ok cfg s" "(case command cfg \<lparr>xr_command = CommandGetStatus, xr_data = []\<rparr> s of
       (Inl e, s) \<Rightarrow> (Inl e, s)
     | (Inr data, s) \<Rightarrow> (case cp_byteOrder (xs_capabilities s) of
           None \<Rightarrow> (Inl NoByteOrder, s)
         | Some order \<Rightarrow> (Inr \<lparr>st_session = data ! 0, st_protection = data ! 1, st_state = data ! 2,
             st_configurationID = Uint16 order (take 2 (drop 3 data))\<rparr>, s))) = (res, s')"
  shows "session_ok cfg s' \<and> sound_error (failure res)"
proof -
  let ?r = "\<lparr>xr_command = CommandGetStatus, xr_data = []\<rparr>"
  obtain cr cs where c: "command cfg ?r s = (cr, cs)" by (cases "command cfg ?r s")
  note cok = command_sound [OF assms(1) c]
  show ?thesis
  proof (cases cr)
    case (Inl e)
    with assms(2) c cok show ?thesis by auto
  next
    case (Inr data)
    have nr: "\<not> recovering (xr_command ?r) s" by (simp add: recovering_def command_defs)
    obtain s1 where t: "transact cfg ?r s = (Inr data, s1)" and cs: "cs = s1\<lparr>xs_pendingCommand := 0\<rparr>"
      using c [unfolded plain_command [OF nr]] Inr
      by (auto simp: conclude_def command_defs split: prod.splits sum.splits)
    have "xs_connected s \<and> xs_capabilities s1 = xs_capabilities s"
      using t
    proof (cases rule: transact_cases)
      case (waited least known fs t1 t2)
      then have "xs_connected s"
        by (auto simp: validateRequest_def Let_def command_defs split: if_splits)
      then show ?thesis
        using receive_script_keeps [OF waited(8) [unfolded xcp_receive_def]] waited(6,9) by (simp add: same_rest_def)
    qed auto
    then have "cp_byteOrder (xs_capabilities cs) \<noteq> None"
      using assms(1) cs by (simp add: session_ok_def wf_capabilities_def)
    with assms(2) c cok Inr show ?thesis by auto
  qed
qed

lemma perform_ok:
  assumes "idle_ok (xc_config c) s"
  shows "idle_ok (xc_config c) (snd (perform c call s)) \<and> sound_error (fst (perform c call s))"
proof -
  have "idle_ok (xc_config c) (snd (XcpDo c r s)) \<and> sound_error (failure (fst (XcpDo c r s)))" for r
    by (rule XcpDo_ok [OF assms]) simp
  note d = this
  have read: "idle_ok (xc_config c) (snd (xcp_read c a n short s)) \<and> sound_error (snd (fst (xcp_read c a n short s)))" for a n short
  proof -
    obtain br bs where b: "xcp_begin s = (br, bs)" by (cases "xcp_begin s")
    then show ?thesis using assms
    proof (cases rule: begin_cases)
      case (refused e)
      with assms b show ?thesis by (simp add: xcp_read_def)
    next
      case entered
      obtain r rs where r: "read_body (xc_config c) a n short bs = (r, rs)"
        by (cases "read_body (xc_config c) a n short bs")
      show ?thesis
      proof (cases "n < 0 \<or> uint (ad_value a) + n > 0xffffffff")
        case True
        with assms show ?thesis by (auto simp: xcp_read_def)
      next
        case False
        with read_body_ok [OF r entered(3)] session_ok_finish b r entered(1) show ?thesis
          by (auto simp: xcp_read_def)
      qed
    qed
  qed
  show ?thesis
  proof (cases call)
    case CallConnect
    have "idle_ok (xc_config c) (snd (Connect c s)) \<and> sound_error (failure (fst (Connect c s)))"
      unfolding Connect_def by (rule guarded_keeps [OF assms])
        (use command_sound command_error in \<open>auto split: prod.splits sum.splits\<close>)
    with CallConnect show ?thesis by (cases "Connect c s") auto
  next
    case CallStatus
    have "idle_ok (xc_config c) (snd (XcpStatus c s)) \<and> sound_error (failure (fst (XcpStatus c s)))"
      unfolding XcpStatus_def
      by (rule guarded_keeps [OF assms]) (erule (1) status_body_ok)
    with CallStatus show ?thesis by (cases "XcpStatus c s") auto
  next
    case CallClose
    with assms show ?thesis by (simp add: xcp_Close_def idle_ok_def session_ok_def)
  next
    case CallInfo
    with d show ?thesis by (simp add: CommunicationInfo_failure)
  qed (use d read in \<open>simp_all add: Do_failures Read_def ShortUpload_def\<close>)
qed

lemma reachable_ok: "xcp_reachable c s \<Longrightarrow> idle_ok (xc_config c) s"
proof (induction rule: xcp_reachable.induct)
  case (start s)
  then show ?case by (simp add: idle_ok_def session_ok_def command_defs)
next
  case (step s call)
  then show ?case using perform_ok by blast
qed (simp add: idle_ok_def session_ok_def)

section \<open>Uncertain outcomes\<close>

lemma transact_reply:
  assumes "transact cfg r s = (Inr data, s')" "session_ok cfg s"
  obtains fs skipped t f cu where "xs_sent s' = xs_sent s @ fs"
    "map payload_of fs = (if resumes r s then [] else [packet cfg r])"
    "xs_incoming s = skipped @ (t, Arrive f cu) # xs_incoming s'"
    "xr_command r = CommandSynch \<Longrightarrow> synch_marker f"
    "xr_command r \<noteq> CommandSynch \<Longrightarrow> payload_of f = 0xff # data"
    "xs_pendingCommand s' = xr_command r"
  using assms(1)
proof (cases rule: transact_cases)
  case (waited least known fs s1 s2)
  note run = waited(8) [unfolded xcp_receive_def]
  from receive_script_reply [OF run] waited(7,9)
  obtain skipped t f cu where inc: "xs_incoming s = skipped @ (t, Arrive f cu) # xs_incoming s'"
    and f: "classify cfg (xr_command r) least f = Reply data" by auto
  then have wf: "wf_frame f" using assms(2) by (simp add: session_ok_def)
  obtain e where "wait_effect (xr_command r) (xs_pendingCommand s1) (xs_connected s1) e (Inr data) s2"
    using receive_script_effect [OF run] by blast
  then have pend: "xs_pendingCommand s' = xr_command r"
    using waited(4,9) by (auto simp: wait_effect_def split: wait_end.splits)
  show thesis
  proof (rule that [OF _ _ inc _ _ pend])
    show "xs_sent s' = xs_sent s @ fs"
      using receive_script_keeps [OF run] waited(3,9) by (simp add: same_rest_def)
    show "map payload_of fs = (if resumes r s then [] else [packet cfg r])"
      using waited(2) by (auto simp: command_frames_def NewFrame_payload split: if_splits)
    show "synch_marker f" if "xr_command r = CommandSynch"
      using classify_synch wf f that by simp
    show "payload_of f = 0xff # data" if "xr_command r \<noteq> CommandSynch"
      using classify_reply [OF f that] length_payload_of [OF wf] by (cases "payload_of f") auto
  qed
qed auto

lemma blocked_command:
  assumes "xs_pendingCommand s \<noteq> 0" "xr_command r \<noteq> CommandSynch" "\<not> recovering (xr_command r) s"
  shows "command cfg r s = (Inl SynchronizationRequired, s)"
  using assms by (simp add: plain_command transact_def validateRequest_def Let_def recovering_def)

lemma uncertain_command:
  assumes "command cfg r s = (Inl e, s')" "session_ok cfg s" "\<not> recovering (xr_command r) s" "\<not> settles e"
    "xs_sent s' \<noteq> xs_sent s"
  shows "xs_pendingCommand s' = xr_command r"
proof -
  obtain tr ts where t: "transact cfg r s = (tr, ts)" by (cases "transact cfg r s")
  have "(\<exists>data. tr = Inr data \<and> s' = ts) \<or> tr = Inl e \<and> s' = ts"
    using assms(1) t by (auto simp: plain_command [OF assms(3)] conclude_def split: sum.splits if_splits)
  moreover from t have "xs_pendingCommand ts = xr_command r" if "tr = Inl e" "s' = ts"
  proof (cases rule: transact_cases)
    case (waited least known fs s1 s2)
    obtain x where "wait_effect (xr_command r) (xs_pendingCommand s1) (xs_connected s1) x tr s2"
      using receive_script_effect [OF waited(8) [unfolded xcp_receive_def]] by blast
    then show ?thesis using waited(4,9) that assms(3,4) by (auto simp: wait_effect_def split: wait_end.splits)
  qed (use that assms(4,5) in auto)
  moreover have "xs_pendingCommand ts = xr_command r" if "tr = Inr data" for data
    using t that by (auto elim!: transact_reply [OF _ assms(2)])
  ultimately show ?thesis by auto
qed

lemma recovered_connect:
  assumes "command cfg r s = (Inr data, s')" "session_ok cfg s" "recovering (xr_command r) s"
  shows "\<exists>fs before_marker t1 marker cu1 after_marker t2 f cu2. xs_sent s' = xs_sent s @ fs \<and>
    map payload_of fs = [packet cfg r, packet cfg synch_request, packet cfg r] \<and>
    xs_incoming s = before_marker @ (t1, Arrive marker cu1) # after_marker @ (t2, Arrive f cu2) # xs_incoming s' \<and>
    synch_marker marker \<and> payload_of f = 0xff # data \<and> parseConnect cfg data = Inr (xs_capabilities s') \<and>
    xs_connected s' \<and> xs_pendingCommand s' = 0"
proof -
  from assms(3) have cmd: "xr_command r = CommandConnect" by (simp add: recovering_def)
  from assms(1,3) obtain d1 s1 d2 s2 where 1: "transact cfg r s = (Inr d1, s1)"
    and 2: "xcp_command 0 cfg synch_request s1 = (Inr d2, s2)"
    and 3: "xcp_command 0 cfg r s2 = (Inr data, s')"
    by (auto simp: recovering_command split: prod.splits sum.splits)
  note ok1 = transact_ok [OF assms(2) 1]
  note ok2 = plain_command_ok [OF synch_not_recovering 2 conjunct1 [OF ok1]]
  obtain y2 where 2: "transact cfg synch_request s1 = (Inr d2, y2)" "s2 = y2\<lparr>xs_pendingCommand := 0\<rparr>"
    using 2 [unfolded plain_command [OF synch_not_recovering]]
    by (auto simp: conclude_def synch_request_def command_defs split: prod.splits sum.splits)
  have nr: "\<not> recovering (xr_command r) s2" using 2(2) by (simp add: recovering_def command_defs)
  obtain y3 where 3: "transact cfg r s2 = (Inr data, y3)" "conclude cfg r data y3 = (Inr data, s')"
    using 3 [unfolded plain_command [OF nr]] cmd
    by (auto simp: conclude_def split: prod.splits sum.splits)
  obtain fs1 k1 t1 f1 cu1 where a: "xs_sent s1 = xs_sent s @ fs1" "map payload_of fs1 = [packet cfg r]"
    "xs_incoming s = k1 @ (t1, Arrive f1 cu1) # xs_incoming s1" "xs_pendingCommand s1 = CommandConnect"
    by (rule transact_reply [OF 1 assms(2)], rule that) (use cmd in \<open>auto simp: resumes_def command_defs\<close>)
  obtain fs2 k2 t2 f2 cu2 where b: "xs_sent y2 = xs_sent s1 @ fs2" "map payload_of fs2 = [packet cfg synch_request]"
    "xs_incoming s1 = k2 @ (t2, Arrive f2 cu2) # xs_incoming y2" "synch_marker f2"
    by (rule transact_reply [OF 2(1) conjunct1 [OF ok1]], rule that)
      (use a(4) in \<open>auto simp: resumes_def synch_request_def command_defs\<close>)
  obtain fs3 k3 t3 f3 cu3 where c: "xs_sent y3 = xs_sent s2 @ fs3" "map payload_of fs3 = [packet cfg r]"
    "xs_incoming s2 = k3 @ (t3, Arrive f3 cu3) # xs_incoming y3" "payload_of f3 = 0xff # data"
    by (rule transact_reply [OF 3(1) conjunct1 [OF ok2]], rule that)
      (use cmd in \<open>auto simp: resumes_def command_defs\<close>)
  have d: "s' = y3\<lparr>xs_capabilities := xs_capabilities s', xs_connected := True, xs_pendingCommand := 0\<rparr>"
    "parseConnect cfg data = Inr (xs_capabilities s')"
    using 3(2) cmd by (auto simp: conclude_def split: sum.splits)
  have "xs_sent s' = xs_sent s @ (fs1 @ fs2 @ fs3)" by (subst d(1)) (simp add: a b c 2(2))
  moreover have "xs_incoming s = (k1 @ (t1, Arrive f1 cu1) # k2) @ (t2, Arrive f2 cu2) # k3 @ (t3, Arrive f3 cu3) # xs_incoming s'"
    by (subst d(1)) (simp add: a b c(3) [unfolded 2(2), simplified])
  moreover have "xs_connected s' \<and> xs_pendingCommand s' = 0" by (subst d(1), subst (2) d(1)) simp
  ultimately show ?thesis using a b c d(2)
    by (intro exI [of _ "fs1 @ fs2 @ fs3"] exI [of _ "k1 @ (t1, Arrive f1 cu1) # k2"] exI [of _ t2] exI [of _ f2]
        exI [of _ cu2] exI [of _ k3] exI [of _ t3] exI [of _ f3] exI [of _ cu3]) simp
qed

text \<open>What a call to \<open>Do\<close> is, once it has begun.\<close>

lemma XcpDo_cases:
  assumes "XcpDo c r s = (res, s')" "idle_ok (xc_config c) s"
  obtains (refused) e where "res = Inl e" "\<not> settles e" "xs_sent s' = xs_sent s"
      "xs_pendingCommand s' = xs_pendingCommand s"
    | (ran) s1 s2 where "s1 = s\<lparr>xs_begins := tl (xs_begins s)\<rparr>" "session_ok (xc_config c) s1"
      "command (xc_config c) r s1 = (res, s2)" "s' = finish s2"
proof -
  obtain br bs where b: "xcp_begin s = (br, bs)" by (cases "xcp_begin s")
  then show thesis using assms(2)
  proof (cases rule: begin_cases)
    case (refused e)
    with assms(1) b that(1) [of e] show thesis by (auto simp: XcpDo_def guarded_def)
  next
    case entered
    obtain cr cs where "command (xc_config c) r bs = (cr, cs)" by (cases "command (xc_config c) r bs")
    with assms(1) b entered that(1) [of NotConnected] that(2) [of bs cs] show thesis
      by (auto simp: XcpDo_def guarded_def finish_def split: if_splits)
  qed
qed

text \<open>C34 Whatever the ECU, the bus and the caller do, the client never uses a byte order it has not
  been told, never leaves the recovery of a connection unfinished for lack of recursion, and keeps its
  session consistent: a connected client holds capabilities that fit its frames, an unanswered
  CONNECT or DISCONNECT leaves it disconnected, and between calls it retains captured traffic
  for an unanswered SYNCH only.\<close>
theorem session_stays_consistent:
  assumes "xcp_reachable c s"
  shows "sound_error (fst (perform c call s)) \<and>
    (let s' = snd (perform c call s) in
      (xs_connected s' \<longrightarrow> wf_capabilities (xc_config c) (xs_capabilities s')) \<and>
      (xs_pendingCommand s' \<in> {CommandConnect, CommandDisconnect} \<longrightarrow> \<not> xs_connected s') \<and>
      (xs_retaining s' \<longleftrightarrow> xs_pendingCommand s' = CommandSynch))"
  using perform_ok [OF reachable_ok [OF assms], of call]
  by (auto simp: Let_def idle_ok_def session_ok_def)

text \<open>C35 A command without a trusted outcome blocks the client. While one is unanswered, any other
  command than SYNCH or a CONNECT that recovers it fails without sending; a command that is
  sent and ends without a trusted response is itself unanswered afterwards. SYNCH succeeds only on its
  marker, and a recovering CONNECT only after it sent CONNECT, SYNCH and CONNECT: its
  capabilities then come from a response that arrived after the marker.\<close>
theorem uncertain_outcomes_are_fenced:
  assumes "xcp_reachable c s" and "XcpDo c r s = (res, s')"
  shows "(xs_pendingCommand s \<noteq> 0 \<and> xr_command r \<noteq> CommandSynch \<and> \<not> recovering (xr_command r) s \<longrightarrow>
      \<not> is_ok res \<and> xs_sent s' = xs_sent s \<and> xs_pendingCommand s' = xs_pendingCommand s) \<and>
    (\<forall>e. res = Inl e \<and> \<not> settles e \<and> xs_sent s' \<noteq> xs_sent s \<and> \<not> recovering (xr_command r) s \<longrightarrow>
      xs_pendingCommand s' = xr_command r) \<and>
    (is_ok res \<and> xr_command r = CommandSynch \<longrightarrow> xs_pendingCommand s' = 0 \<and>
      (\<exists>late t marker cu. xs_incoming s = late @ (t, Arrive marker cu) # xs_incoming s' \<and> synch_marker marker)) \<and>
    (\<forall>data. res = Inr data \<and> recovering (xr_command r) s \<longrightarrow>
      (\<exists>fs late t1 marker cu1 later t2 f cu2. xs_sent s' = xs_sent s @ fs \<and>
        map payload_of fs = [packet (xc_config c) r, packet (xc_config c) synch_request, packet (xc_config c) r] \<and>
        xs_incoming s = late @ (t1, Arrive marker cu1) # later @ (t2, Arrive f cu2) # xs_incoming s' \<and>
        synch_marker marker \<and> payload_of f = 0xff # data \<and>
        parseConnect (xc_config c) data = Inr (xs_capabilities s') \<and> xs_connected s' \<and> xs_pendingCommand s' = 0))"
  using assms(2) reachable_ok [OF assms(1)]
proof (cases rule: XcpDo_cases)
  case (refused e)
  then show ?thesis by auto
next
  case (ran s1 s2)
  let ?cfg = "xc_config c"
  have same: "xs_sent s1 = xs_sent s" "xs_pendingCommand s1 = xs_pendingCommand s" "xs_incoming s1 = xs_incoming s"
    "recovering (xr_command r) s1 = recovering (xr_command r) s"
    "xs_sent s' = xs_sent s2" "xs_pendingCommand s' = xs_pendingCommand s2" "xs_incoming s' = xs_incoming s2"
    "xs_capabilities s' = xs_capabilities s2" "xs_connected s' = xs_connected s2"
    by (simp_all add: ran(1,4) recovering_def finish_def)
  have blocked: "\<not> is_ok res \<and> xs_sent s2 = xs_sent s \<and> xs_pendingCommand s2 = xs_pendingCommand s"
    if "xs_pendingCommand s \<noteq> 0" "xr_command r \<noteq> CommandSynch" "\<not> recovering (xr_command r) s"
    using blocked_command [of s1 r ?cfg] that ran(3) same(1,2,4) by auto
  have uncertain: "xs_pendingCommand s2 = xr_command r"
    if "res = Inl e" "\<not> settles e" "xs_sent s2 \<noteq> xs_sent s1" "\<not> recovering (xr_command r) s" for e
    using uncertain_command [OF ran(3) [unfolded that(1)] ran(2)] that same(4) by simp
  have synch: "xs_pendingCommand s2 = 0 \<and>
      (\<exists>late t marker cu. xs_incoming s1 = late @ (t, Arrive marker cu) # xs_incoming s2 \<and> synch_marker marker)"
    if synch: "is_ok res" "xr_command r = CommandSynch"
  proof -
    have nr: "\<not> recovering (xr_command r) s1" using synch(2) by (simp add: recovering_def command_defs)
    from ran(3) synch obtain data s3 where t: "transact ?cfg r s1 = (Inr data, s3)"
      and s2: "s2 = s3\<lparr>xs_pendingCommand := 0\<rparr>"
      by (auto simp: plain_command [OF nr] conclude_def command_defs is_ok_iff split: prod.splits sum.splits)
    show ?thesis by (rule transact_reply [OF t ran(2)]) (use synch s2 in auto)
  qed
  show ?thesis
    using blocked uncertain synch recovered_connect [of ?cfg r s1 _ s2] ran(2,3) unfolding same
    by (auto simp: is_ok_iff)
qed

section \<open>A run\<close>

text \<open>
  A client on classical CAN whose first CONNECT is not answered in time. The second one finds the
  late answer first; the marker and a fresh answer with other capabilities follow.
\<close>

definition example_config :: xcp_config where
  "example_config = \<lparr>xc_transmitID = 0x200, xc_receiveID = 0x201, xc_frameFlags = 0, xc_transmitDataLength = 0,
     xc_padFrames = False, xc_paddingByte = 0, xc_timeout = 0\<rparr>"

definition example_client :: xcp_client where
  "example_client = \<lparr>xc_config = example_config\<lparr>xc_transmitDataLength := 8, xc_timeout := 1000 * millisecond\<rparr>,
     xc_key = \<lparr>k_id = 0x201, k_bus = 1, k_direction = DirectionReceive, k_extended = False\<rparr>\<rparr>"

lemma example_client_new: "NewXcp 1 example_config = Inr example_client"
  by code_simp

definition example_xcp_state :: xcp_state where
  "example_xcp_state = \<lparr>xs_capabilities = no_capabilities, xs_connected = False, xs_pendingCommand = 0,
     xs_cursor = zero_cursor, xs_retaining = False, xs_closed = False, xs_begins = [], xs_contexts = [],
     xs_end = zero_cursor, xs_sends = [], xs_located = [Some zero_cursor], xs_incoming = [], xs_now = 0,
     xs_sent = []\<rparr>"

definition ecu_frame :: "bytes \<Rightarrow> frame" where
  "ecu_frame b = \<lparr>f_id = 0x201, f_data = copy_into (replicate MaxDataLength 0) b,
     f_dlc = word_of_nat (length b), f_flags = 0\<rparr>"

definition ecu_script :: "bytes list \<Rightarrow> (time \<times> incoming) list" where
  "ecu_script = map (\<lambda>b. (5, Arrive (ecu_frame b) zero_cursor))"

definition example_unanswered :: xcp_state where
  "example_unanswered = (snd (perform example_client CallConnect example_xcp_state))
     \<lparr>xs_begins := [], xs_contexts := [], xs_end := zero_cursor, xs_sends := [],
      xs_located := replicate 3 (Some zero_cursor),
      xs_incoming := ecu_script [[0xff, 0, 0, 8, 8, 0, 1, 1], [0xff], [0xfe, 0], [0xff, 5, 0, 8, 8, 0, 1, 1]],
      xs_now := 0\<rparr>"

lemma example_start: "xcp_reachable example_client example_xcp_state"
  by (rule xcp_reachable.start) (simp_all add: example_xcp_state_def)

lemma example_reachable: "xcp_reachable example_client example_unanswered"
  unfolding example_unanswered_def
  by (rule xcp_reachable.world [OF _ xcp_reachable.step [OF example_start]])
    (simp add: ecu_script_def ecu_frame_def wf_frame_def MaxDataLength_def)

theorem session_stays_consistent_witness:
  "sound_error (fst (perform example_client CallConnect example_unanswered)) \<and>
    (let s' = snd (perform example_client CallConnect example_unanswered) in
      (xs_connected s' \<longrightarrow> wf_capabilities (xc_config example_client) (xs_capabilities s')) \<and>
      (xs_pendingCommand s' \<in> {CommandConnect, CommandDisconnect} \<longrightarrow> \<not> xs_connected s') \<and>
      (xs_retaining s' \<longleftrightarrow> xs_pendingCommand s' = CommandSynch))"
  by (rule session_stays_consistent [OF example_reachable])

lemma example_recovers:
  "(case XcpDo example_client connect_request example_unanswered of (res, s') \<Rightarrow>
      res = Inr [5, 0, 8, 8, 0, 1, 1] \<and> length (xs_sent s') = 4 \<and> cp_resources (xs_capabilities s') = 5)"
  by code_simp

lemma example_recovering: "recovering (xr_command connect_request) example_unanswered"
  by code_simp

theorem uncertain_outcomes_are_fenced_witness:
  "\<exists>s' fs. XcpDo example_client connect_request example_unanswered = (Inr [5, 0, 8, 8, 0, 1, 1], s') \<and>
     cp_resources (xs_capabilities s') = 5 \<and> xs_connected s' \<and>
     xs_sent s' = xs_sent example_unanswered @ fs \<and>
     map payload_of fs = [packet (xc_config example_client) connect_request,
       packet (xc_config example_client) synch_request, packet (xc_config example_client) connect_request]"
proof -
  obtain s' where run: "XcpDo example_client connect_request example_unanswered = (Inr [5, 0, 8, 8, 0, 1, 1], s')"
    "cp_resources (xs_capabilities s') = 5"
    using example_recovers by (cases "XcpDo example_client connect_request example_unanswered") auto
  then show ?thesis
    using uncertain_outcomes_are_fenced [OF example_reachable run(1)] example_recovering by auto
qed

end
