(* ===== verification/Xcp_Memory.thy ===== *)
theory Xcp_Memory
  imports Xcp_Theorems
begin

unbundle bit_operations_syntax

text \<open>
  Memory reads against an ECU that obeys the protocol: the packets of a read, what the ECU
  answers to them from its memory, and the bytes the client returns.
\<close>

section \<open>Packets are frames\<close>

lemma legal_from_legal:
  assumes "legal_length fd (int m)" "n \<le> m" "m \<le> n + fuel"
  shows "legal_length fd (int (legal_from fuel fd n)) \<and> n \<le> legal_from fuel fd n \<and> legal_from fuel fd n \<le> m"
  using assms
proof (induction fuel arbitrary: n)
  case (Suc fuel)
  show ?case
  proof (cases "legal_length fd (int n)")
    case True
    then show ?thesis using Suc.prems by (simp add: LengthToDLC_ok_iff)
  next
    case False
    then have "n \<noteq> m" using Suc.prems(1) by auto
    then have "Suc n \<le> m" using Suc.prems(2) by simp
    from Suc.IH [OF Suc.prems(1) this] Suc.prems(3) False show ?thesis
      by (simp add: LengthToDLC_ok_iff)
  qed
qed (simp add: legal_length_def)

definition xcp_capacity :: "xcp_config \<Rightarrow> nat" where
  "xcp_capacity cfg = unat (xc_transmitDataLength cfg)"

lemma NewXcp_capacity:
  assumes "NewXcp busID raw = Inr c"
  shows "is_ok (NewFrame (xc_transmitID (xc_config c)) (replicate (xcp_capacity (xc_config c)) 0) (xc_frameFlags (xc_config c)))"
    "8 \<le> xcp_capacity (xc_config c)" "xcp_capacity (xc_config c) \<le> 64"
proof -
  show ok: "is_ok (NewFrame (xc_transmitID (xc_config c)) (replicate (xcp_capacity (xc_config c)) 0) (xc_frameFlags (xc_config c)))"
    using assms by (auto simp: NewXcp_def Let_def ebind_Inr_iff checkXcpFrame_def xcp_capacity_def is_ok_iff
        split: if_splits sum.splits)
  then show "xcp_capacity (xc_config c) \<le> 64"
    by (auto simp: is_ok_iff dest!: NewFrame_length)
  show "8 \<le> xcp_capacity (xc_config c)"
    using assms by (auto simp: NewXcp_def Let_def ebind_Inr_iff xcp_capacity_def not_less word_le_nat_alt
        split: if_splits)
qed

lemma packet_fits:
  assumes "NewXcp busID raw = Inr c" "length (xr_data r) < xcp_capacity (xc_config c)"
  obtains f pad where "NewFrame (xc_transmitID (xc_config c)) (packet (xc_config c) r) (xc_frameFlags (xc_config c)) = Inr f"
    "payload_of f = packet (xc_config c) r" "packet (xc_config c) r = xr_command r # xr_data r @ pad"
proof -
  let ?cfg = "xc_config c"
  define fd where "fd = Has (xc_frameFlags ?cfg) FrameFD"
  define start where "start = (if xc_padFrames ?cfg then xcp_capacity ?cfg else Suc (length (xr_data r)))"
  define len where "len = legal_from 64 fd start"
  note cap = NewXcp_capacity [OF assms(1)]
  have legal: "legal_length fd (int (xcp_capacity ?cfg))" using cap(1) by (simp add: NewFrame_ok_iff fd_def)
  have "start \<le> xcp_capacity ?cfg" using assms(2) by (simp add: start_def)
  from legal_from_legal [OF legal this, of 64] cap(3)
  have len: "legal_length fd (int len)" "start \<le> len" by (simp_all add: len_def)
  have used: "Suc (length (xr_data r)) \<le> start" using assms(2) by (simp add: start_def)
  have p: "packet ?cfg r = xr_command r # xr_data r @ replicate (len - Suc (length (xr_data r))) (xc_paddingByte ?cfg)"
    using len(2) used
    unfolding packet_def Let_def fd_def [symmetric] xcp_capacity_def [symmetric] plus_1_eq_Suc
      start_def [symmetric] len_def [symmetric] by simp
  then have "length (packet ?cfg r) = len" using len(2) used by simp
  then have "is_ok (NewFrame (xc_transmitID ?cfg) (packet ?cfg r) (xc_frameFlags ?cfg))"
    using cap(1) len(1) by (simp add: NewFrame_ok_iff fd_def)
  then obtain f where f: "NewFrame (xc_transmitID ?cfg) (packet ?cfg r) (xc_frameFlags ?cfg) = Inr f"
    by (auto simp: is_ok_iff)
  show thesis by (rule that [OF f NewFrame_payload [OF f] p])
qed

lemma bytes_of_u32: "ucast (ucast v :: byte) OR push_bit 8 (ucast (ucast (drop_bit 8 v) :: byte)) OR
    push_bit 16 (ucast (ucast (drop_bit 16 v) :: byte)) OR push_bit 24 (ucast (ucast (drop_bit 24 v) :: byte)) = (v :: u32)"
proof (rule bit_word_eqI)
  fix n assume "n < LENGTH(32)"
  then consider "n < 8" | "8 \<le> n" "n < 16" | "16 \<le> n" "n < 24" | "24 \<le> n" "n < 32" by force
  then show "bit (ucast (ucast v :: byte) OR push_bit 8 (ucast (ucast (drop_bit 8 v) :: byte)) OR
    push_bit 16 (ucast (ucast (drop_bit 16 v) :: byte)) OR push_bit 24 (ucast (ucast (drop_bit 24 v) :: byte)) :: u32) n = bit v n"
    by cases (auto simp: bit_simps)
qed

lemma Uint32_PutUint32 [simp]: "Uint32 order (PutUint32 order v) = v"
  using bytes_of_u32 [of v] by (cases order) (simp_all add: or.commute or.left_commute)

lemma length_PutUint32 [simp]: "length (PutUint32 order v) = 4"
  by (cases order) auto

section \<open>An ECU that obeys\<close>

text \<open>
  The ECU's transfer address is an extension and an offset. SET_MTA sets it, UPLOAD returns the
  bytes there and moves it on; anything else is refused.
\<close>

type_synonym ecu_memory = "u8 \<Rightarrow> nat \<Rightarrow> byte"

fun ecu_answers :: "ecu_memory \<Rightarrow> xcp_byte_order \<Rightarrow> u8 \<Rightarrow> nat \<Rightarrow> bytes list \<Rightarrow> bytes list" where
  "ecu_answers mem order ext offset [] = []"
| "ecu_answers mem order ext offset (p # ps) =
     (if p ! 0 = CommandSetMTA
      then [0xff] # ecu_answers mem order (p ! 3) (unat (Uint32 order (take 4 (drop 4 p)))) ps
      else if p ! 0 = CommandUpload
      then (0xff # map (mem ext) [offset ..< offset + unat (p ! 1)]) #
        ecu_answers mem order ext (offset + unat (p ! 1)) ps
      else [0xfe, 0x20] # ecu_answers mem order ext offset ps)"

text \<open>A frame carries an answer when it starts with it; the rest is transport fill.\<close>

definition carries :: "xcp_config \<Rightarrow> frame \<Rightarrow> bytes \<Rightarrow> bool" where
  "carries cfg f answer \<longleftrightarrow> \<not> Has (f_flags f) FrameRemote \<and>
     Has (f_flags f) FrameFD = Has (xc_frameFlags cfg) FrameFD \<and> wf_frame f \<and>
     DataLength f \<le> xcp_capacity cfg \<and> length answer \<le> DataLength f \<and>
     take (length answer) (payload_of f) = answer"

text \<open>The script delivers these answers, each within the timeout of its command, and nothing else.\<close>

fun served :: "xcp_config \<Rightarrow> time \<Rightarrow> (time \<times> incoming) list \<Rightarrow> bytes list \<Rightarrow> bool" where
  "served cfg now [] [] = True"
| "served cfg now ((t, Arrive f cu) # rest) (answer # answers) \<longleftrightarrow>
     t < now + xc_timeout cfg \<and> carries cfg f answer \<and> served cfg t rest answers"
| "served cfg now _ _ = False"

text \<open>The requests of a read: SET_MTA, then UPLOADs of at most \<open>maximum\<close> bytes.\<close>

fun counts :: "nat \<Rightarrow> nat \<Rightarrow> nat list" where
  "counts maximum n = (if n = 0 \<or> maximum = 0 then [] else min maximum n # counts maximum (n - min maximum n))"

declare counts.simps [simp del]

definition upload_request :: "nat \<Rightarrow> xcp_request" where
  "upload_request n = \<lparr>xr_command = CommandUpload, xr_data = [word_of_nat n]\<rparr>"

definition set_mta_request :: "xcp_byte_order \<Rightarrow> xcp_address \<Rightarrow> xcp_request" where
  "set_mta_request order a =
     \<lparr>xr_command = CommandSetMTA, xr_data = [0, 0, ad_extension a] @ PutUint32 order (ad_value a)\<rparr>"

section \<open>One answered command\<close>

definition ready :: "xcp_config \<Rightarrow> xcp_byte_order \<Rightarrow> nat \<Rightarrow> nat \<Rightarrow> xcp_state \<Rightarrow> bool" where
  "ready cfg order m n s \<longleftrightarrow> unat (cp_maxCTO (xs_capabilities s)) = Suc m \<and> xs_connected s \<and> xs_pendingCommand s = 0 \<and> wf_capabilities cfg (xs_capabilities s) \<and>
     cp_addressGranularity (xs_capabilities s) = 1 \<and> cp_byteOrder (xs_capabilities s) = Some order \<and>
     xs_contexts s = [] \<and> xs_sends s = [] \<and> n \<le> length (xs_located s) \<and> None \<notin> set (xs_located s)"

lemma classify_carries:
  assumes "carries cfg f (0xff # answer)" "cmd \<noteq> CommandSynch" "least \<le> Suc (length answer)"
  obtains pad where "classify cfg cmd least f = Reply (answer @ pad)"
proof -
  from assms(1) have len: "Suc (length answer) \<le> DataLength f" "DataLength f \<le> xcp_capacity cfg"
    "wf_frame f" "take (Suc (length answer)) (payload_of f) = 0xff # answer"
    by (simp_all add: carries_def)
  have p: "payload_of f = (0xff # answer) @ drop (Suc (length answer)) (payload_of f)"
    using append_take_drop_id [of "Suc (length answer)" "payload_of f"] unfolding len(4) by simp
  have "payload_of f ! 0 = 0xff" by (subst p) simp
  then have d0: "f_data f ! 0 = 0xff"
    using len(1) payload_of_id_less [OF len(3), of 0] by simp
  have "classify cfg cmd least f = Reply (tl (payload_of f))"
    using assms len p d0
    by (auto simp: classify_def Let_def carries_def xcp_capacity_def payload_of_def drop_Suc)
  then show thesis using that p by (metis append_Cons list.sel(3))
qed

text \<open>An ordinary command on a ready client: sent, and answered or timed out.\<close>

lemma command_runs:
  assumes new: "NewXcp busID raw = Inr c" and ready: "ready (xc_config c) order m (Suc n) s"
    and valid: "validateRequest (xc_config c) r s = Inr (least, True)"
    and cmd: "xr_command r \<notin> {CommandConnect, CommandDisconnect, CommandSynch}"
  obtains f cu where "payload_of f = packet (xc_config c) r"
    "command (xc_config c) r s = (case receive_script (xc_config c) (xr_command r) least
         (xs_now s + xc_timeout (xc_config c)) (xs_incoming s)
         (s\<lparr>xs_cursor := cu, xs_retaining := True, xs_sent := xs_sent s @ [f],
            xs_pendingCommand := xr_command r, xs_located := tl (xs_located s)\<rparr>) of
       (Inl e, s) \<Rightarrow> (Inl e, s) | (Inr data, s) \<Rightarrow> (Inr data, s\<lparr>xs_pendingCommand := 0\<rparr>))"
proof -
  let ?cfg = "xc_config c"
  from ready obtain cu rest where loc: "xs_located s = Some cu # rest"
    by (cases "xs_located s"; cases "hd (xs_located s)") (auto simp: ready_def)
  have "length (xr_data r) < unat (cp_maxCTO (xs_capabilities s))"
    using valid cmd ready by (auto simp: validateRequest_def Let_def ready_def split: if_splits)
  moreover have "unat (cp_maxCTO (xs_capabilities s)) \<le> xcp_capacity ?cfg"
    using ready by (simp add: ready_def wf_capabilities_def word_le_nat_alt xcp_capacity_def)
  ultimately obtain f pad where f: "NewFrame (xc_transmitID ?cfg) (packet ?cfg r) (xc_frameFlags ?cfg) = Inr f"
    "payload_of f = packet ?cfg r"
    by (auto intro: packet_fits [OF new, of r])
  have nr: "\<not> recovering (xr_command r) s" using cmd by (simp add: recovering_def)
  have ctx: "xcp_context s = (Inr (), s)" using ready by (simp add: xcp_context_def ready_def)
  have snd: "xcp_send ?cfg r True s = (Inr (), s\<lparr>xs_cursor := cu, xs_retaining := True, xs_sent := xs_sent s @ [f],
            xs_pendingCommand := xr_command r, xs_located := tl (xs_located s)\<rparr>)"
    using f(1) loc cmd ready by (simp add: xcp_send_def Let_def ready_def)
  show thesis
    by (rule that [OF f(2), of cu])
      (use valid nr ctx snd cmd in \<open>simp add: plain_command transact_def Let_def resumes_def xcp_receive_def
        conclude_def cong: sum.case_cong prod.case_cong split: prod.splits sum.splits\<close>)
qed

lemma command_answered:
  assumes new: "NewXcp busID raw = Inr c" and ready: "ready (xc_config c) order m (Suc n) s"
    and valid: "validateRequest (xc_config c) r s = Inr (least, True)"
    and cmd: "xr_command r \<notin> {CommandConnect, CommandDisconnect, CommandSynch}"
    and served: "served (xc_config c) (xs_now s) (xs_incoming s) ((0xff # answer) # answers)"
    and long: "least \<le> Suc (length answer)"
  obtains f pad s' where "command (xc_config c) r s = (Inr (answer @ pad), s')"
    "ready (xc_config c) order m n s'" "served (xc_config c) (xs_now s') (xs_incoming s') answers"
    "xs_sent s' = xs_sent s @ [f]" "payload_of f = packet (xc_config c) r"
proof -
  let ?cfg = "xc_config c"
  from served obtain t fr cu rest where inc: "xs_incoming s = (t, Arrive fr cu) # rest"
    and t: "t < xs_now s + xc_timeout ?cfg" "carries ?cfg fr (0xff # answer)" "served ?cfg t rest answers"
    by (cases "(?cfg, xs_now s, xs_incoming s, (0xff # answer) # answers)" rule: served.cases) auto
  obtain pad where pad: "classify ?cfg (xr_command r) least fr = Reply (answer @ pad)"
    using classify_carries [OF t(2) _ long] cmd by blast
  obtain f cu' where f: "payload_of f = packet ?cfg r"
    "command ?cfg r s = (case receive_script ?cfg (xr_command r) least (xs_now s + xc_timeout ?cfg) (xs_incoming s)
         (s\<lparr>xs_cursor := cu', xs_retaining := True, xs_sent := xs_sent s @ [f],
            xs_pendingCommand := xr_command r, xs_located := tl (xs_located s)\<rparr>) of
       (Inl e, s) \<Rightarrow> (Inl e, s) | (Inr data, s) \<Rightarrow> (Inr data, s\<lparr>xs_pendingCommand := 0\<rparr>))"
    by (rule command_runs [OF new ready valid cmd])
  let ?s = "s\<lparr>xs_cursor := cu, xs_retaining := True, xs_sent := xs_sent s @ [f], xs_pendingCommand := 0,
    xs_located := tl (xs_located s), xs_incoming := rest, xs_now := t\<rparr>"
  show thesis
  proof (rule that [of pad ?s f])
    show "command ?cfg r s = (Inr (answer @ pad), ?s)"
      using f(2) inc t(1) pad by simp
    show "ready ?cfg order m n ?s"
      using ready by (cases "xs_located s") (auto simp: ready_def)
  qed (use t(3) f(1) in simp_all)
qed

lemma command_unanswered:
  assumes new: "NewXcp busID raw = Inr c" and ready: "ready (xc_config c) order m (Suc n) s"
    and valid: "validateRequest (xc_config c) r s = Inr (least, True)"
    and cmd: "xr_command r \<notin> {CommandConnect, CommandDisconnect, CommandSynch}"
    and served: "served (xc_config c) (xs_now s) (xs_incoming s) []"
  obtains f s' where "command (xc_config c) r s = (Inl ResponseTimeout, s')"
    "xs_sent s' = xs_sent s @ [f]" "payload_of f = packet (xc_config c) r"
proof -
  let ?cfg = "xc_config c"
  have "xs_incoming s = []"
    using served by (cases "(?cfg, xs_now s, xs_incoming s, [] :: bytes list)" rule: served.cases) auto
  then show thesis
    by (rule_tac command_runs [OF new ready valid cmd], rule_tac that) auto
qed

section \<open>The loop of UPLOADs\<close>

lemma unat_count: "n \<le> m \<Longrightarrow> m < 255 \<Longrightarrow> unat (word_of_nat n :: u8) = n"
  by (simp add: unat_of_nat)

lemma ready_small: "ready cfg order m n s \<Longrightarrow> m < 255 \<and> 7 \<le> m \<and> Suc m \<le> xcp_capacity cfg"
  using unat_le_mask8 [of "cp_maxCTO (xs_capabilities s)"]
  by (auto simp: ready_def wf_capabilities_def word_le_nat_alt xcp_capacity_def)

lemma validate_upload:
  "ready cfg order m k s \<Longrightarrow> 0 < n \<Longrightarrow> n \<le> m \<Longrightarrow> validateRequest cfg (upload_request n) s = Inr (Suc n, True)"
  using unat_count [of n m] ready_small [of cfg order m k s]
  by (auto simp: validateRequest_def Let_def ready_def upload_request_def command_defs)

lemma validate_set_mta:
  "ready cfg order m k s \<Longrightarrow> validateRequest cfg (set_mta_request order a) s = Inr (1, True)"
  using ready_small [of cfg order m k s]
  by (auto simp: validateRequest_def Let_def ready_def set_mta_request_def command_defs)

abbreviation "upload_packets cfg m n \<equiv> map (\<lambda>u. packet cfg (upload_request u)) (counts m n)"

lemma upload_packet:
  assumes "NewXcp busID raw = Inr c" "n \<le> m" "m < 255"
  shows "packet (xc_config c) (upload_request n) ! 0 = CommandUpload"
    "unat (packet (xc_config c) (upload_request n) ! 1) = n"
proof -
  have "length (xr_data (upload_request n)) < xcp_capacity (xc_config c)"
    using NewXcp_capacity(2) [OF assms(1)] by (simp add: upload_request_def)
  from packet_fits [OF assms(1) this] obtain pad where
    p: "packet (xc_config c) (upload_request n) = CommandUpload # word_of_nat n # pad"
    by (auto simp: upload_request_def)
  show "packet (xc_config c) (upload_request n) ! 0 = CommandUpload"
    "unat (packet (xc_config c) (upload_request n) ! 1) = n"
    using unat_count [OF assms(2,3)] by (simp_all add: p)
qed

lemma read_loop_served:
  assumes new: "NewXcp busID raw = Inr c"
  shows "ready (xc_config c) order m (length (counts m (n - length got))) s \<Longrightarrow> length got \<le> n \<Longrightarrow>
    n - length got \<le> fuel \<Longrightarrow>
    served (xc_config c) (xs_now s) (xs_incoming s)
      (take k (ecu_answers mem order ext (base + length got) (upload_packets (xc_config c) m (n - length got)))) \<Longrightarrow>
    \<exists>fs s'. read_loop fuel (xc_config c) (int m) (int n) got s =
      ((got @ take (k * m) (map (mem ext) [base + length got ..< base + n]),
        if k < length (counts m (n - length got)) then Some ResponseTimeout else None), s') \<and>
      xs_sent s' = xs_sent s @ fs \<and>
      map payload_of fs = take (Suc k) (upload_packets (xc_config c) m (n - length got))"
proof (induction fuel arbitrary: got s k)
  case 0
  then show ?case by (simp add: read_loop.simps counts.simps [of m 0])
next
  case (Suc fuel)
  let ?cfg = "xc_config c"
  show ?case
  proof (cases "length got = n")
    case True
    then show ?thesis by (simp add: read_loop.simps counts.simps [of m 0])
  next
    case False
    define rem where "rem = n - length got"
    define u where "u = min m rem"
    have m: "m < 255" "7 \<le> m" using ready_small [OF Suc.prems(1)] by simp_all
    have rem: "0 < rem" "length got + rem = n" using False Suc.prems(2) by (simp_all add: rem_def)
    have u: "0 < u" "u \<le> m" "u \<le> rem" using m rem by (simp_all add: u_def)
    have cs: "counts m rem = u # counts m (rem - u)" using rem m by (subst counts.simps) (simp add: u_def)
    note rdy = Suc.prems(1) [folded rem_def, unfolded cs, simplified]
    note valid = validate_upload [OF rdy u(1,2)]
    have cmd: "xr_command (upload_request u) \<notin> {CommandConnect, CommandDisconnect, CommandSynch}"
      by (simp add: upload_request_def command_defs)
    have left: "min (int m) (int n - int (length got)) = int u" using rem by (simp add: u_def min_def)
    have req: "\<lparr>xr_command = CommandUpload, xr_data = [word_of_int (min (int m) (int n - int (length got)))]\<rparr> = upload_request u"
      unfolding left by (simp add: upload_request_def)
    have count: "nat (min (int m) (int n - int (length got))) = u" unfolding left by simp
    define answer where "answer = map (mem ext) [base + length got ..< base + length got + u]"
    define later where "later = ecu_answers mem order ext (base + length got + u) (upload_packets ?cfg m (rem - u))"
    have ecu: "ecu_answers mem order ext (base + length got) (upload_packets ?cfg m rem) = (0xff # answer) # later"
      using upload_packet [OF new u(2) m(1)] by (simp add: cs answer_def later_def command_defs)
    show ?thesis
    proof (cases k)
      case 0
      with Suc.prems(4) have "served ?cfg (xs_now s) (xs_incoming s) []" by simp
      then obtain f s' where "command ?cfg (upload_request u) s = (Inl ResponseTimeout, s')"
        "xs_sent s' = xs_sent s @ [f]" "payload_of f = packet ?cfg (upload_request u)"
        by (rule command_unanswered [OF new rdy valid cmd])
      then show ?thesis
        using rem cs 0 unfolding rem_def [symmetric]
        by (subst read_loop.simps) (simp add: Let_def req)
    next
      case (Suc k')
      have "served ?cfg (xs_now s) (xs_incoming s) ((0xff # answer) # take k' later)"
        using Suc.prems(4) unfolding rem_def [symmetric] ecu Suc by simp
      then obtain f pad s1 where step: "command ?cfg (upload_request u) s = (Inr (answer @ pad), s1)"
        "ready ?cfg order m (length (counts m (rem - u))) s1" "served ?cfg (xs_now s1) (xs_incoming s1) (take k' later)"
        "xs_sent s1 = xs_sent s @ [f]" "payload_of f = packet ?cfg (upload_request u)"
        by (rule command_answered [OF new rdy valid cmd]) (simp_all add: answer_def)
      have len: "length (got @ answer) = length got + u" "n - length (got @ answer) = rem - u"
        by (simp_all add: answer_def rem_def)
      have ih: "ready ?cfg order m (length (counts m (n - length (got @ answer)))) s1" "length (got @ answer) \<le> n"
        "n - length (got @ answer) \<le> fuel" "served ?cfg (xs_now s1) (xs_incoming s1) (take k'
          (ecu_answers mem order ext (base + length (got @ answer)) (upload_packets ?cfg m (n - length (got @ answer)))))"
        unfolding len(2) unfolding len(1)
        using step(2,3) u rem Suc.prems(3) by (auto simp: later_def add.assoc rem_def)
      note Suc.IH [OF ih, unfolded len(2)]
      then obtain fs s' where rest: "read_loop fuel ?cfg (int m) (int n) (got @ answer) s1 =
          (((got @ answer) @ take (k' * m) (map (mem ext) [base + length (got @ answer) ..< base + n]),
            if k' < length (counts m (rem - u)) then Some ResponseTimeout else None), s')"
        "xs_sent s' = xs_sent s1 @ fs" "map payload_of fs = take (Suc k') (upload_packets ?cfg m (rem - u))"
        by blast
      have mem: "answer @ take (k' * m) (map (mem ext) [base + length (got @ answer) ..< base + n]) =
          take (k * m) (map (mem ext) [base + length got ..< base + n])"
      proof -
        have "map (mem ext) [base + length got ..< base + n] = answer @ map (mem ext) [base + length (got @ answer) ..< base + n]"
          using u rem upt_add_eq_append [of "base + length got" "base + length got + u" "rem - u"]
          by (simp add: answer_def len add.assoc flip: map_append)
        moreover have "length answer = u" by (simp add: answer_def)
        moreover have "u = m \<or> base + length (got @ answer) = base + n" 
          using u rem by (cases "m \<le> rem") (simp_all add: u_def answer_def)
        ultimately show ?thesis using Suc u(2) by auto
      qed
      have "read_loop (Suc fuel) ?cfg (int m) (int n) got s = read_loop fuel ?cfg (int m) (int n) (got @ answer) s1"
        using step(1) rem by (subst read_loop.simps) (simp add: Let_def req count answer_def)
      with rest step(4,5) mem Suc cs show ?thesis
        unfolding rem_def [symmetric] by (intro exI [of _ "f # fs"] exI [of _ s']) auto
    qed
  qed
qed

section \<open>A whole read\<close>

lemma counts_cover: "0 < m \<Longrightarrow> n \<le> length (counts m n) * m"
proof (induction m n rule: counts.induct)
  case (1 m n)
  show ?case
  proof (cases "n = 0")
    case False
    with 1 have "n - min m n \<le> length (counts m (n - min m n)) * m" by simp
    moreover have "length (counts m n) = Suc (length (counts m (n - min m n)))"
      using False 1(2) by (subst counts.simps) simp
    ultimately show ?thesis by (simp add: min_def split: if_splits)
  qed simp
qed

lemma set_mta_packet:
  assumes "NewXcp busID raw = Inr c"
  shows "ecu_answers mem order ext offset (packet (xc_config c) (set_mta_request order a) # ps) =
    [0xff] # ecu_answers mem order (ad_extension a) (unat (ad_value a)) ps"
proof -
  have "length (xr_data (set_mta_request order a)) < xcp_capacity (xc_config c)"
    using NewXcp_capacity(2) [OF assms(1)] by (simp add: set_mta_request_def)
  from packet_fits [OF assms(1) this] obtain pad where
    "packet (xc_config c) (set_mta_request order a) =
       CommandSetMTA # 0 # 0 # ad_extension a # PutUint32 order (ad_value a) @ pad"
    by (auto simp: set_mta_request_def)
  then show ?thesis by (simp add: Let_def)
qed

text \<open>C36 A read of a memory that an obedient ECU serves returns exactly the ECU's bytes at the
  address: the client sets the transfer address, asks for chunks of what fits a response, and
  drops the transport fill. If the ECU stops answering after \<open>k\<close> responses, the client has sent
  one request more, reports the timeout and returns exactly the bytes of the uploads that were
  answered; with all answers it returns the whole range.\<close>
theorem read_returns_the_memory:
  assumes "NewXcp busID raw = Inr c" and "ready (xc_config c) order m (Suc (length (counts m n))) s"
    and "\<not> xs_closed s" and "xs_begins s = []" and "0 < n" and "uint (ad_value a) + int n \<le> 0xffffffff"
    and "served (xc_config c) (xs_now s) (xs_incoming s) (take k (ecu_answers mem order ext offset
      (packet (xc_config c) (set_mta_request order a) # upload_packets (xc_config c) m n)))"
  shows "\<exists>fs s'. Read c a (int n) s =
      ((let range = map (mem (ad_extension a)) [unat (ad_value a) ..< unat (ad_value a) + n] in
        if k \<le> length (counts m n) then (take ((k - 1) * m) range, Some ResponseTimeout) else (range, None)), s') \<and>
    xs_sent s' = xs_sent s @ fs \<and>
    map payload_of fs = take (Suc k) (packet (xc_config c) (set_mta_request order a) # upload_packets (xc_config c) m n)"
proof -
  let ?cfg = "xc_config c" and ?r = "set_mta_request order a"
  define s0 where "s0 = s\<lparr>xs_begins := []\<rparr>"
  have same: "xs_incoming s0 = xs_incoming s" "xs_now s0 = xs_now s" "xs_sent s0 = xs_sent s" by (simp_all add: s0_def)
  have begun: "xcp_begin s = (Inr (), s0)" using assms(3,4) by (simp add: xcp_begin_def s0_def)
  have rdy: "ready ?cfg order m (Suc (length (counts m n))) s0" using assms(2) by (simp add: s0_def ready_def)
  have m: "7 \<le> m" using ready_small [OF rdy] by simp
  have maximum: "uint (cp_maxCTO (xs_capabilities s0)) - 1 = int m"
    using rdy uint_nat [of "cp_maxCTO (xs_capabilities s0)"] by (simp add: ready_def)
  have body: "read_body ?cfg a (int n) False s0 =
      (case command ?cfg ?r s0 of
         (Inl e, s) \<Rightarrow> (([], Some e), s)
       | (Inr _, s) \<Rightarrow> read_loop n ?cfg (int m) (int n) [] s)"
    using rdy assms(5) unfolding read_body_def Let_def maximum nat_int by (simp add: ready_def set_mta_request_def)
  have Read: "Read c a (int n) s = (case read_body ?cfg a (int n) False s0 of (r, s) \<Rightarrow> (r, finish s))"
    using begun assms(6) by (simp add: Read_def xcp_read_def)
  note valid = validate_set_mta [OF rdy]
  have cmd: "xr_command ?r \<notin> {CommandConnect, CommandDisconnect, CommandSynch}"
    by (simp add: set_mta_request_def command_defs)
  note answers = assms(7) [unfolded set_mta_packet [OF assms(1)], folded same]
  show ?thesis
  proof (cases k)
    case 0
    with answers have "served ?cfg (xs_now s0) (xs_incoming s0) []" by simp
    then obtain f s' where "command ?cfg ?r s0 = (Inl ResponseTimeout, s')"
      "xs_sent s' = xs_sent s0 @ [f]" "payload_of f = packet ?cfg ?r"
      by (rule command_unanswered [OF assms(1) rdy valid cmd])
    then show ?thesis using 0 by (simp add: Read body same finish_def)
  next
    case (Suc k')
    with answers have "served ?cfg (xs_now s0) (xs_incoming s0) ((0xff # []) # take k'
        (ecu_answers mem order (ad_extension a) (unat (ad_value a)) (upload_packets ?cfg m n)))" by simp
    then obtain f pad s1 where step: "command ?cfg ?r s0 = (Inr ([] @ pad), s1)"
      "ready ?cfg order m (length (counts m n)) s1"
      "served ?cfg (xs_now s1) (xs_incoming s1) (take k'
        (ecu_answers mem order (ad_extension a) (unat (ad_value a)) (upload_packets ?cfg m n)))"
      "xs_sent s1 = xs_sent s0 @ [f]" "payload_of f = packet ?cfg ?r"
      by (rule command_answered [OF assms(1) rdy valid cmd]) simp
    obtain fs s2 where loop: "read_loop n ?cfg (int m) (int n) [] s1 =
        ((take (k' * m) (map (mem (ad_extension a)) [unat (ad_value a) ..< unat (ad_value a) + n]),
          if k' < length (counts m n) then Some ResponseTimeout else None), s2)"
      "xs_sent s2 = xs_sent s1 @ fs" "map payload_of fs = take (Suc k') (upload_packets ?cfg m n)"
      using read_loop_served [OF assms(1), of order m n "[]" s1 n k' mem "ad_extension a" "unat (ad_value a)"] step(2,3)
      by auto
    have full: "n \<le> k' * m" if "\<not> k' < length (counts m n)"
      using counts_cover [of m n] m that mult_le_mono1 [of "length (counts m n)" k' m] by linarith
    show ?thesis
      using loop step(1,4,5) Suc full
      by (intro exI [of _ "f # fs"] exI [of _ "finish s2"])
        (auto simp: Read body same Let_def finish_def)
  qed
qed

text \<open>
  A connected client reads nine bytes in two uploads: the first is answered, the second is not.
  The answer to SET_MTA carries two bytes of transport fill.
\<close>

definition example_memory :: ecu_memory where
  "example_memory ext offset = ext + word_of_nat offset"

definition example_connected :: xcp_state where
  "example_connected = example_xcp_state
     \<lparr>xs_capabilities := \<lparr>cp_resources = 5, cp_communicationMode = 0, cp_byteOrder = Some LittleEndian,
        cp_addressGranularity = 1, cp_maxCTO = 8, cp_maxDTO = 8, cp_protocolVersion = 1, cp_transportVersion = 1\<rparr>,
      xs_connected := True, xs_located := replicate 3 (Some zero_cursor),
      xs_incoming := ecu_script [[0xff, 0, 0], [0xff, 0x11, 0x12, 0x13, 0x14, 0x15, 0x16, 0x17]]\<rparr>"

definition example_address :: xcp_address where
  "example_address = \<lparr>ad_extension = 1, ad_value = 0x10\<rparr>"

lemma example_ready: "ready (xc_config example_client) LittleEndian 7 (Suc (length (counts 7 9))) example_connected"
  by code_simp

lemma example_served:
  "served (xc_config example_client) (xs_now example_connected) (xs_incoming example_connected)
     (take 2 (ecu_answers example_memory LittleEndian 0 0
       (packet (xc_config example_client) (set_mta_request LittleEndian example_address) #
        upload_packets (xc_config example_client) 7 9)))"
  by code_simp

theorem read_returns_the_memory_witness:
  "fst (Read example_client example_address 9 example_connected) =
     ([0x11, 0x12, 0x13, 0x14, 0x15, 0x16, 0x17], Some ResponseTimeout)"
proof -
  have "map (example_memory 1) [16 ..< 25] = [0x11, 0x12, 0x13, 0x14, 0x15, 0x16, 0x17, 0x18, 0x19]" by code_simp
  moreover have "length (counts 7 9) = 2" by code_simp
  ultimately show ?thesis
    using read_returns_the_memory [OF example_client_new example_ready _ _ _ _ example_served]
    by (auto simp: example_connected_def example_xcp_state_def example_address_def Let_def)
qed

end
