(* ===== verification/Cdd_Codec.thy ===== *)
theory Cdd_Codec
  imports Scalar Field_Store
begin

unbundle bit_operations_syntax

text \<open>
  The codec of CDD data records, \<open>cdd/codec.go\<close> with the packed accessors of \<open>cdd/bitfield.go\<close> and
  the raw limits of \<open>cdd/conversion.go\<close>. A record is laid out in whole bytes, except that the
  children of a bit field share their container. Presentation metadata is left out of the
  model's fields. A value handed in is a scalar, or a slice or array of scalars.
\<close>

section \<open>Records\<close>

datatype cdd_order = CddBig | CddLittle

datatype encoding =
    EncodingUnsigned | EncodingSigned | EncodingASCII | EncodingUTF | EncodingBCD
  | EncodingFloat | EncodingDouble | EncodingOther string

record linear_conversion =
  lc_scale :: f64
  lc_offset :: f64
  lc_minimum :: "u64 option"
  lc_maximum :: "u64 option"

record bitfield =
  bf_offset :: u32
  bf_length :: u32
  bf_order :: cdd_order

record extent =
  ex_min :: u32
  ex_max :: u32

record field =
  fd_name :: string
  fd_offset :: u32
  fd_bits :: u32
  fd_count :: u32
  fd_variable :: "extent option"
  fd_order :: cdd_order
  fd_encoding :: encoding
  fd_conversion :: "linear_conversion option"
  fd_choices :: "choice list"
  fd_bitfield :: "bitfield option"

datatype cdd_error =
    CddNilRecord
  | CddNoCodec string
  | CddRepeatedField string
  | CddNotAligned string
  | CddTooWide string u32
  | CddFloatWidth u32
  | CddDoubleWidth u32
  | CddASCIIWidth u32
  | CddUnsupportedEncoding encoding
  | CddUnknownEncoding encoding
  | CddConversionEncoding
  | CddZeroScale
  | CddNotFiniteConversion
  | CddEmptyLimits
  | CddChoicesEncoding
  | CddNoField string
  | CddMissingField string
  | CddScalar scalar_error
  | CddLabelInArray
  | CddFloatNotFinite
  | CddOutsideLimits
  | CddNotString
  | CddNotASCII u8
  | CddElementCount nat
  | CddNotArray
  | CddNotScalar
  | CddExceedsRecord string
  | CddPayloadLength nat
  | CddPartialElement nat
  | CddPanic

record cdd_codec =
  cc_names :: "string list"
  cc_err :: "cdd_error option"

record cdd_record =
  rc_name :: string
  rc_length :: u32
  rc_maxLength :: u32
  rc_fields :: "field list"
  rc_codec :: "cdd_codec option"

datatype cdd_value = Atom go_value | Elements "go_value list"

type_synonym cdd_values = "(string \<times> cdd_value) list"

definition BitSize :: "field \<Rightarrow> u32" where
  "BitSize f = fd_bits f * fd_count f"

definition MaxBitSize :: "field \<Rightarrow> u32" where
  "MaxBitSize f = (case fd_variable f of None \<Rightarrow> BitSize f | Some e \<Rightarrow> fd_bits f * ex_max e)"

section \<open>Compiling a record's codec\<close>

definition validateConversionRange :: "field \<Rightarrow> linear_conversion \<Rightarrow> cdd_error + unit" where
  "validateConversionRange f c =
     (let half = push_bit (unat (fd_bits f - 1)) 1;
          narrow = fd_bits f < 64; sgnd = (fd_encoding f = EncodingSigned);
          minimum = (if narrow \<and> sgnd then push_bit 63 1 - half else 0) :: u64;
          maximum = (if narrow then if sgnd then push_bit 63 1 + half - 1 else push_bit (unat (fd_bits f)) 1 - 1
                     else - 1)
      in if (case lc_minimum c of None \<Rightarrow> False | Some x \<Rightarrow> x > maximum) \<or>
            (case lc_maximum c of None \<Rightarrow> False | Some x \<Rightarrow> x < minimum)
         then Inl CddEmptyLimits else Inr ())"

definition isInteger :: "field \<Rightarrow> bool" where
  "isInteger f \<longleftrightarrow> fd_encoding f = EncodingUnsigned \<or> fd_encoding f = EncodingSigned"

definition validateFieldEncoding :: "field \<Rightarrow> cdd_error + unit" where
  "validateFieldEncoding f =
     ebind (case fd_encoding f of
         EncodingUnsigned \<Rightarrow> Inr ()
       | EncodingSigned \<Rightarrow> Inr ()
       | EncodingFloat \<Rightarrow> echeck (fd_bits f \<noteq> 32) (CddFloatWidth (fd_bits f))
       | EncodingDouble \<Rightarrow> echeck (fd_bits f \<noteq> 64) (CddDoubleWidth (fd_bits f))
       | EncodingASCII \<Rightarrow> echeck (fd_bits f \<noteq> 8) (CddASCIIWidth (fd_bits f))
       | EncodingBCD \<Rightarrow> Inl (CddUnsupportedEncoding (fd_encoding f))
       | EncodingUTF \<Rightarrow> Inl (CddUnsupportedEncoding (fd_encoding f))
       | EncodingOther _ \<Rightarrow> Inl (CddUnknownEncoding (fd_encoding f))) (\<lambda>_.
     ebind (case fd_conversion f of
         None \<Rightarrow> Inr ()
       | Some c \<Rightarrow>
           if \<not> isInteger f then Inl CddConversionEncoding
           else if is_Zero (lc_scale c) then Inl CddZeroScale
           else if is_NaN (lc_scale c) \<or> is_Inf (lc_scale c) \<or> is_NaN (lc_offset c) \<or> is_Inf (lc_offset c)
             then Inl CddNotFiniteConversion
           else validateConversionRange f c) (\<lambda>_.
     echeck (fd_choices f \<noteq> [] \<and> \<not> isInteger f) CddChoicesEncoding))"

fun compileFields :: "field list \<Rightarrow> string list \<Rightarrow> cdd_codec" where
  "compileFields [] names = \<lparr>cc_names = names, cc_err = None\<rparr>"
| "compileFields (f # fs) names =
     (let names' = fd_name f # names; failed = (\<lambda>names e. \<lparr>cc_names = names, cc_err = Some e\<rparr>) in
      if fd_name f \<in> set names then failed names (CddRepeatedField (fd_name f))
      else if fd_bitfield f = None \<and> (fd_offset f mod 8 \<noteq> 0 \<or> fd_bits f mod 8 \<noteq> 0)
        then failed names' (CddNotAligned (fd_name f))
      else if fd_bits f > 64 then failed names' (CddTooWide (fd_name f) (fd_bits f))
      else case validateFieldEncoding f of
          Inl e \<Rightarrow> failed names' e
        | Inr _ \<Rightarrow> compileFields fs names')"

definition compileRecordCodec :: "cdd_record \<Rightarrow> cdd_codec" where
  "compileRecordCodec r = compileFields (rc_fields r) []"

definition usableRecordCodec :: "cdd_record option \<Rightarrow> cdd_error + cdd_codec" where
  "usableRecordCodec r = (case r of
       None \<Rightarrow> Inl CddNilRecord
     | Some r \<Rightarrow> (case rc_codec r of
         None \<Rightarrow> Inl (CddNoCodec (rc_name r))
       | Some c \<Rightarrow> (case cc_err c of Some e \<Rightarrow> Inl e | None \<Rightarrow> Inr c)))"

definition CodecError :: "cdd_record option \<Rightarrow> cdd_error option" where
  "CodecError r = (case usableRecordCodec r of Inl e \<Rightarrow> Some e | Inr _ \<Rightarrow> None)"

section \<open>Bits and bytes\<close>

text \<open>The payload index and the bit within its byte; all of it in 32-bit arithmetic.\<close>

definition packedBit :: "field \<Rightarrow> bitfield \<Rightarrow> u32 \<Rightarrow> nat \<times> nat" where
  "packedBit f b n =
     (let position = fd_offset f + n;
          index = (if bf_order b = CddBig then bf_length b div 8 - 1 - position div 8 else position div 8)
      in (unat (bf_offset b div 8 + index), unat (position mod 8)))"

fun read_packed :: "bytes \<Rightarrow> field \<Rightarrow> bitfield \<Rightarrow> nat \<Rightarrow> nat \<Rightarrow> u64 \<Rightarrow> cdd_error + u64" where
  "read_packed payload f b 0 k raw = Inr raw"
| "read_packed payload f b (Suc n) k raw =
     (case packedBit f b (word_of_nat k) of (i, j) \<Rightarrow>
        if i < length payload
        then read_packed payload f b n (Suc k)
          (if payload ! i AND push_bit j 1 \<noteq> 0 then raw OR push_bit k 1 else raw)
        else Inl CddPanic)"

definition readPacked :: "bytes \<Rightarrow> field \<Rightarrow> bitfield \<Rightarrow> cdd_error + u64" where
  "readPacked payload f b = read_packed payload f b (unat (fd_bits f)) 0 0"

fun write_packed :: "field \<Rightarrow> bitfield \<Rightarrow> nat \<Rightarrow> nat \<Rightarrow> u64 \<Rightarrow> bytes \<Rightarrow> cdd_error + bytes" where
  "write_packed f b 0 k raw payload = Inr payload"
| "write_packed f b (Suc n) k raw payload =
     (case packedBit f b (word_of_nat k) of (i, j) \<Rightarrow>
        if i < length payload
        then write_packed f b n (Suc k) raw
          (let cleared = payload ! i AND NOT (push_bit j 1)
           in payload[i := if raw AND push_bit k 1 \<noteq> 0 then cleared OR push_bit j 1 else cleared])
        else Inl CddPanic)"

definition writePacked :: "field \<Rightarrow> bitfield \<Rightarrow> u64 \<Rightarrow> bytes \<Rightarrow> cdd_error + bytes" where
  "writePacked f b raw payload = write_packed f b (unat (fd_bits f)) 0 raw payload"

text \<open>The eight bytes of \<open>binary.LittleEndian.PutUint64\<close>, and the value of eight such bytes.\<close>

definition little_bytes :: "u64 \<Rightarrow> bytes" where
  "little_bytes raw = map (\<lambda>i. ucast (drop_bit (8 * i) raw)) [0..<8]"

definition little_value :: "bytes \<Rightarrow> u64" where
  "little_value bs = foldr (\<lambda>b v. push_bit 8 v OR ucast b) (take 8 bs) 0"

definition writeRaw :: "nat \<Rightarrow> u64 \<Rightarrow> cdd_order \<Rightarrow> bytes" where
  "writeRaw n raw order =
     (if order = CddLittle then take n (little_bytes raw)
      else drop (8 - n) (rev (little_bytes raw)))"

definition readRaw :: "bytes \<Rightarrow> cdd_order \<Rightarrow> u64" where
  "readRaw source order =
     (if order = CddLittle then little_value (source @ replicate (8 - length source) 0)
      else little_value (rev (replicate (8 - length source) 0 @ source)))"

section \<open>Single elements\<close>

definition validateConversionRaw :: "field \<Rightarrow> u64 \<Rightarrow> cdd_error + unit" where
  "validateConversionRaw f raw = (case fd_conversion f of
       None \<Rightarrow> Inr ()
     | Some c \<Rightarrow>
         let key = (if fd_encoding f = EncodingSigned then DecodeSigned (fd_bits f) raw XOR push_bit 63 1 else raw)
         in if (case lc_minimum c of None \<Rightarrow> False | Some x \<Rightarrow> key < x) \<or>
               (case lc_maximum c of None \<Rightarrow> False | Some x \<Rightarrow> key > x)
            then Inl CddOutsideLimits else Inr ())"

definition encodeExact :: "field \<Rightarrow> go_value \<Rightarrow> scalar_error + u64" where
  "encodeExact f v =
     (if fd_encoding f = EncodingSigned then ebind (ExactSigned v) (EncodeSigned (fd_bits f))
      else ebind (ExactUnsigned v) (EncodeUnsigned (fd_bits f)))"

definition encodeScalarValue :: "field \<Rightarrow> go_value \<Rightarrow> bool \<Rightarrow> cdd_error + u64" where
  "encodeScalarValue f v allowLabel =
     (case StringValue v of
        Some l \<Rightarrow>
          if \<not> allowLabel then Inl CddLabelInArray
          else emap CddScalar (RawForLabel (fd_choices f) l (fd_bits f) (fd_encoding f = EncodingSigned))
      | None \<Rightarrow>
          if fd_encoding f = EncodingFloat \<or> fd_encoding f = EncodingDouble then
            ebind (emap CddScalar (NumericFloat v (unat (fd_bits f)))) (\<lambda>floating.
              if is_NaN floating \<or> is_Inf floating then Inl CddFloatNotFinite
              else if fd_encoding f = EncodingFloat then Inr (ucast (Float32bits (float32_of floating)))
              else Inr (Float64bits floating))
          else case fd_conversion f of
              None \<Rightarrow> emap CddScalar (encodeExact f v)
            | Some c \<Rightarrow>
                if unscaled (lc_scale c) (lc_offset c) then emap CddScalar (encodeExact f v)
                else emap CddScalar (ebind (LinearFloat v) (\<lambda>physical.
                  LinearRaw (fd_bits f) (fd_encoding f = EncodingSigned) physical (lc_scale c) (lc_offset c))))"

definition encodeScalar :: "field \<Rightarrow> go_value \<Rightarrow> bool \<Rightarrow> cdd_error + u64" where
  "encodeScalar f v allowLabel =
     ebind (encodeScalarValue f v allowLabel) (\<lambda>raw. ebind (validateConversionRaw f raw) (\<lambda>_. Inr raw))"

definition decodeScalar :: "field \<Rightarrow> u64 \<Rightarrow> bool \<Rightarrow> go_value" where
  "decodeScalar f raw allowLabel =
     (if fd_encoding f = EncodingFloat then VFloat (Float32frombits (ucast raw))
      else if fd_encoding f = EncodingDouble then VFloat (Float64frombits raw)
      else case fd_conversion f of
          None \<Rightarrow> DecodeLinear (fd_bits f) (fd_encoding f = EncodingSigned) raw (Fin 1) (Zero False) (fd_choices f) allowLabel
        | Some c \<Rightarrow> DecodeLinear (fd_bits f) (fd_encoding f = EncodingSigned) raw (lc_scale c) (lc_offset c)
            (fd_choices f) allowLabel)"

text \<open>The element type of a decoded array, and the type assertion on every element.\<close>

datatype scalar_kind = KindFloat64 | KindInt64 | KindUint64

definition fieldScalarKind :: "field \<Rightarrow> scalar_kind" where
  "fieldScalarKind f =
     (if fd_encoding f = EncodingFloat \<or> fd_encoding f = EncodingDouble then KindFloat64
      else if (case fd_conversion f of None \<Rightarrow> False | Some c \<Rightarrow> \<not> unscaled (lc_scale c) (lc_offset c)) then KindFloat64
      else if fd_encoding f = EncodingSigned then KindInt64 else KindUint64)"

fun assert_kind :: "scalar_kind \<Rightarrow> go_value \<Rightarrow> cdd_error + go_value" where
  "assert_kind KindFloat64 (VFloat x) = Inr (VFloat x)"
| "assert_kind KindInt64 (VInt x) = Inr (VInt x)"
| "assert_kind KindUint64 (VUint x) = Inr (VUint x)"
| "assert_kind _ _ = Inl CddPanic"

section \<open>Fields\<close>

definition validateElementCount :: "field \<Rightarrow> nat \<Rightarrow> cdd_error + unit" where
  "validateElementCount f count =
     (let minimum = (case fd_variable f of None \<Rightarrow> unat (fd_count f) | Some e \<Rightarrow> unat (ex_min e));
          maximum = (case fd_variable f of None \<Rightarrow> unat (fd_count f) | Some e \<Rightarrow> unat (ex_max e))
      in echeck (count < minimum \<or> count > maximum) (CddElementCount count))"

definition elementBytes :: "field \<Rightarrow> nat" where
  "elementBytes f = unat (fd_bits f div 8)"

definition atom_text :: "cdd_value \<Rightarrow> string option" where
  "atom_text v = (case v of Atom a \<Rightarrow> StringValue a | Elements _ \<Rightarrow> None)"

definition encodeField :: "field \<Rightarrow> cdd_value \<Rightarrow> cdd_error + bytes" where
  "encodeField f v =
     (if fd_encoding f = EncodingASCII then
        (case atom_text v of
           None \<Rightarrow> Inl CddNotString
         | Some s \<Rightarrow>
             let encoded = map (\<lambda>c. word_of_nat (of_char c) :: byte) s in
             (case List.find (\<lambda>octet. octet > 0x7f) encoded of
                Some octet \<Rightarrow> Inl (CddNotASCII octet)
              | None \<Rightarrow> ebind (validateElementCount f (length encoded)) (\<lambda>_. Inr encoded)))
      else
        let encode = (\<lambda>allowLabel elements.
              ebind (emapM (\<lambda>e. encodeScalar f e allowLabel) elements) (\<lambda>raws.
                Inr (concat (map (\<lambda>raw. writeRaw (elementBytes f) raw (fd_order f)) raws))))
        in if fd_count f \<noteq> 1 \<or> fd_variable f \<noteq> None then
             (case v of
                Atom _ \<Rightarrow> Inl CddNotArray
              | Elements es \<Rightarrow> ebind (validateElementCount f (length es)) (\<lambda>_. encode False es))
           else (case v of
                Atom a \<Rightarrow> encode True [a]
              | Elements _ \<Rightarrow> Inl CddNotScalar))"

text \<open>The elements of \<open>encoded\<close>, whole ones only.\<close>

definition raw_elements :: "field \<Rightarrow> bytes \<Rightarrow> u64 list" where
  "raw_elements f encoded =
     map (\<lambda>i. readRaw (take (elementBytes f) (drop (i * elementBytes f) encoded)) (fd_order f))
       [0..<length encoded div elementBytes f]"

definition decodeField :: "field \<Rightarrow> bytes \<Rightarrow> cdd_error + cdd_value" where
  "decodeField f encoded =
     (if fd_encoding f = EncodingASCII then
        (case List.find (\<lambda>octet. octet > 0x7f) encoded of
           Some octet \<Rightarrow> Inl (CddNotASCII octet)
         | None \<Rightarrow> Inr (Atom (VString (map (\<lambda>octet. char_of (unat octet)) encoded))))
      else if elementBytes f = 0 then Inl CddPanic
      else
        ebind (case fd_conversion f of
            None \<Rightarrow> Inr []
          | Some c \<Rightarrow>
              if lc_minimum c \<noteq> None \<or> lc_maximum c \<noteq> None
              then emapM (validateConversionRaw f) (raw_elements f encoded) else Inr []) (\<lambda>_.
        if fd_count f = 1 \<and> fd_variable f = None
        then Inr (Atom (decodeScalar f (readRaw encoded (fd_order f)) True))
        else ebind (emapM (\<lambda>raw. assert_kind (fieldScalarKind f) (decodeScalar f raw False)) (raw_elements f encoded))
          (\<lambda>es. Inr (Elements es))))"

section \<open>Records, encoded and decoded\<close>

definition field_start :: "field \<Rightarrow> nat" where
  "field_start f = unat (fd_offset f div 8)"

definition splice :: "bytes \<Rightarrow> nat \<Rightarrow> bytes \<Rightarrow> bytes" where
  "splice payload start encoded = take start payload @ encoded @ drop (start + length encoded) payload"

definition to_atom :: "cdd_value \<Rightarrow> go_value" where
  "to_atom v = (case v of Atom a \<Rightarrow> a | Elements _ \<Rightarrow> VOther)"

definition encode_one :: "cdd_record \<Rightarrow> cdd_values \<Rightarrow> field \<Rightarrow> bytes \<Rightarrow> cdd_error + bytes" where
  "encode_one r vs f payload =
     (case map_of vs (fd_name f) of
        None \<Rightarrow> Inl (CddMissingField (fd_name f))
      | Some v \<Rightarrow>
          (case fd_bitfield f of
             Some b \<Rightarrow> ebind (encodeScalar f (to_atom v) True) (\<lambda>raw. writePacked f b raw payload)
           | None \<Rightarrow> ebind (encodeField f v) (\<lambda>encoded.
               let start = field_start f; stop = start + length encoded in
               if stop > length payload then
                 (if fd_variable f = None \<or> stop > unat (rc_maxLength r)
                  then Inl (CddExceedsRecord (fd_name f))
                  else Inr (splice (payload @ replicate (stop - length payload) 0) start encoded))
               else Inr (splice payload start encoded))))"

definition CddEncode :: "cdd_record \<Rightarrow> cdd_values \<Rightarrow> cdd_error + bytes" where
  "CddEncode r vs =
     ebind (usableRecordCodec (Some r)) (\<lambda>codec.
     case List.find (\<lambda>(name, _). name \<notin> set (cc_names codec)) vs of
       Some (name, _) \<Rightarrow> Inl (CddNoField name)
     | None \<Rightarrow> efold (encode_one r vs) (rc_fields r) (replicate (unat (rc_length r)) 0))"

definition validatePayloadLength :: "cdd_record \<Rightarrow> nat \<Rightarrow> cdd_error + unit" where
  "validatePayloadLength r len =
     (if len < unat (rc_length r) \<or> len > unat (rc_maxLength r) then Inl (CddPayloadLength len)
      else if rc_length r = rc_maxLength r then Inr ()
      else if rc_fields r = [] then Inl CddPanic
      else let f = last (rc_fields r); start = field_start f in
        if len < start then Inl (CddPartialElement len)
        else if elementBytes f = 0 then Inl CddPanic
        else if (len - start) mod elementBytes f \<noteq> 0 then Inl (CddPartialElement len)
        else case fd_variable f of
            None \<Rightarrow> Inl CddPanic
          | Some e \<Rightarrow>
              let count = (len - start) div elementBytes f in
              echeck (count < unat (ex_min e) \<or> count > unat (ex_max e)) (CddElementCount count))"

definition decode_one :: "bytes \<Rightarrow> field \<Rightarrow> cdd_error + string \<times> cdd_value" where
  "decode_one payload f =
     (case fd_bitfield f of
        Some b \<Rightarrow> ebind (readPacked payload f b) (\<lambda>raw.
          ebind (validateConversionRaw f raw) (\<lambda>_. Inr (fd_name f, Atom (decodeScalar f raw True))))
      | None \<Rightarrow>
          let start = field_start f;
              stop = (if fd_variable f = None then start + unat (BitSize f div 8) else length payload)
          in if start > stop \<or> stop > length payload then Inl CddPanic
             else ebind (decodeField f (take (stop - start) (drop start payload))) (\<lambda>v. Inr (fd_name f, v)))"

definition CddDecode :: "cdd_record \<Rightarrow> bytes \<Rightarrow> cdd_error + cdd_values" where
  "CddDecode r payload =
     ebind (usableRecordCodec (Some r)) (\<lambda>_.
     ebind (validatePayloadLength r (length payload)) (\<lambda>_.
     emapM (decode_one payload) (rc_fields r)))"

end
