(* ===== verification/Cdd_Layout.thy ===== *)
theory Cdd_Layout
  imports Cdd_Codec
begin

unbundle bit_operations_syntax

text \<open>
  Where the fields of a CDD record lie in its payload, and that what is written to a field is
  read back and leaves the fields apart from it alone: the contract of \<open>field_store\<close> for packed
  fields and for fields of whole bytes.
\<close>

section \<open>The bits of a packed field\<close>

definition bit_of :: "bytes \<Rightarrow> nat \<times> nat \<Rightarrow> bool" where
  "bit_of payload p = bit (payload ! fst p) (snd p)"

abbreviation packed_at :: "field \<Rightarrow> bitfield \<Rightarrow> nat \<Rightarrow> nat \<times> nat" where
  "packed_at f b n \<equiv> packedBit f b (word_of_nat n)"

lemma snd_packed_at: "snd (packedBit f b n) < 8"
  by (simp add: packedBit_def Let_def unat_mod)

lemma packed_at_inj:
  assumes "packed_at f b m = packed_at f b n" "m < 2 ^ 32" "n < 2 ^ 32"
  shows "m = n"
proof -
  define p q where "p = fd_offset f + word_of_nat m" and "q = fd_offset f + word_of_nat n"
  from assms(1) have "p mod 8 = q mod 8 \<and> p div 8 = q div 8"
    by (auto simp: packedBit_def Let_def p_def q_def word_unat_eq_iff [symmetric] split: if_splits)
  then have "p = q" by (metis word_mod_div_equality)
  then have "word_of_nat m = (word_of_nat n :: u32)" by (simp add: p_def q_def)
  with assms(2,3) show ?thesis by (simp add: word_of_nat_eq_iff take_bit_nat_eq_self)
qed

lemma read_packed_bits:
  assumes "\<forall>i. k \<le> i \<and> i < k + n \<longrightarrow> fst (packed_at f b i) < length payload"
  shows "\<exists>v. read_packed payload f b n k raw = Inr v \<and>
    (\<forall>m<64. bit v m \<longleftrightarrow> bit raw m \<or> k \<le> m \<and> m < k + n \<and> bit_of payload (packed_at f b m))"
  using assms
proof (induction n arbitrary: k raw)
  case (Suc n)
  obtain i j where p: "packed_at f b k = (i, j)" by (cases "packed_at f b k")
  have i: "i < length payload" using Suc.prems [rule_format, of k] p by simp
  let ?raw = "if payload ! i AND push_bit j 1 \<noteq> 0 then raw OR push_bit k 1 else raw"
  obtain v where v: "read_packed payload f b n (Suc k) ?raw = Inr v"
    "\<forall>m<64. bit v m \<longleftrightarrow> bit ?raw m \<or> Suc k \<le> m \<and> m < Suc k + n \<and> bit_of payload (packed_at f b m)"
    using Suc.IH [of "Suc k" ?raw] Suc.prems by auto
  have at: "payload ! i AND push_bit j 1 \<noteq> 0 \<longleftrightarrow> bit_of payload (packed_at f b k)"
    by (simp add: bit_of_def p and_exp_eq_0_iff_not_bit)
  show ?case
  proof (intro exI conjI allI impI)
    show "read_packed payload f b (Suc n) k raw = Inr v" using v(1) p i by simp
    fix m :: nat assume m: "m < 64"
    show "bit v m \<longleftrightarrow> bit raw m \<or> k \<le> m \<and> m < k + Suc n \<and> bit_of payload (packed_at f b m)"
      using v(2) [rule_format, OF m] m at by (cases "m = k") (auto simp: bit_simps)
  qed
qed auto

lemma write_packed_bits:
  assumes "\<forall>i. k \<le> i \<and> i < k + n \<longrightarrow> fst (packed_at f b i) < length payload" "k + n \<le> 2 ^ 32"
  shows "\<exists>d. write_packed f b n k raw payload = Inr d \<and> length d = length payload \<and>
    (\<forall>m. k \<le> m \<and> m < k + n \<longrightarrow> bit_of d (packed_at f b m) = bit raw m) \<and>
    (\<forall>p. p \<notin> packed_at f b ` {k..<k + n} \<and> fst p < length payload \<longrightarrow> bit_of d p = bit_of payload p)"
  using assms
proof (induction n arbitrary: k payload)
  case (Suc n)
  obtain i j where p: "packed_at f b k = (i, j)" by (cases "packed_at f b k")
  have i: "i < length payload" using Suc.prems(1) [rule_format, of k] p by simp
  have j: "j < 8" using snd_packed_at [of f b "word_of_nat k"] p by simp
  let ?byte = "if raw AND push_bit k 1 \<noteq> 0 then payload ! i AND NOT (push_bit j 1) OR push_bit j 1
    else payload ! i AND NOT (push_bit j 1)"
  let ?p = "payload[i := ?byte]"
  have byte: "bit ?byte l = (if l = j then bit raw k else bit (payload ! i) l)" if "l < 8" for l
    using that j by (auto simp: Let_def bit_simps and_exp_eq_0_iff_not_bit)
  obtain d where d: "write_packed f b n (Suc k) raw ?p = Inr d" "length d = length payload"
    "\<forall>m. Suc k \<le> m \<and> m < Suc k + n \<longrightarrow> bit_of d (packed_at f b m) = bit raw m"
    "\<forall>p. p \<notin> packed_at f b ` {Suc k..<Suc k + n} \<and> fst p < length payload \<longrightarrow> bit_of d p = bit_of ?p p"
    using Suc.IH [of "Suc k" ?p] Suc.prems by auto
  have new: "packed_at f b k \<notin> packed_at f b ` {Suc k..<Suc k + n}"
  proof
    assume "packed_at f b k \<in> packed_at f b ` {Suc k..<Suc k + n}"
    then obtain m where "m \<in> {Suc k..<Suc k + n}" "packed_at f b k = packed_at f b m" by auto
    with packed_at_inj [of f b k m] Suc.prems(2) show False by simp
  qed
  show ?case
  proof (intro exI conjI allI impI)
    show "write_packed f b (Suc n) k raw payload = Inr d"
      using d(1) p i by (cases "raw AND push_bit k 1 = 0") (simp_all add: Let_def)
    show "length d = length payload" by (rule d(2))
  next
    fix m assume m: "k \<le> m \<and> m < k + Suc n"
    show "bit_of d (packed_at f b m) = bit raw m"
    proof (cases "m = k")
      case True
      have "bit_of d (packed_at f b k) = bit_of ?p (packed_at f b k)" using d(4) new p i by simp
      also have "\<dots> = bit raw k" using byte [OF j] i by (simp only: p bit_of_def fst_conv snd_conv) simp
      finally show ?thesis by (simp add: True)
    qed (use d(3) m in simp)
  next
    fix q assume q: "q \<notin> packed_at f b ` {k..<k + Suc n} \<and> fst q < length payload"
    then have "q \<noteq> (i, j)" "q \<notin> packed_at f b ` {Suc k..<Suc k + n}" using p by force+
    then have "bit_of d q = bit_of ?p q" using d(4) q by blast
    also have "\<dots> = bit_of payload q"
    proof (cases "fst q = i \<and> snd q < 8")
      case True
      with byte [of "snd q"] i \<open>q \<noteq> (i, j)\<close> show ?thesis by (cases q) (simp add: bit_of_def)
    next
      case False
      then show ?thesis using i by (cases "fst q = i") (auto simp: bit_of_def dest: bit_imp_le_length)
    qed
    finally show "bit_of d q = bit_of payload q" .
  qed
qed auto

lemma packed_out_of_range:
  assumes "k \<le> i" "i < k + n" "\<not> fst (packed_at f b i) < length payload"
  shows "read_packed payload f b n k raw = Inl CddPanic" "write_packed f b n k raw payload = Inl CddPanic"
  using assms
proof (induction n arbitrary: k raw payload)
  case (Suc n)
  {
    case 1
    then show ?case using Suc.IH(1) [of "Suc k"] by (cases "i = k") (auto split: prod.splits)
  next
    case 2
    then show ?case using Suc.IH(2) [of "Suc k"] by (cases "i = k") (auto simp: Let_def split: prod.splits)
  }
qed simp_all

section \<open>The positions of a field\<close>

definition occupied :: "field \<Rightarrow> nat" where
  "occupied f = unat (BitSize f div 8)"

text \<open>A field of variable length counts with its least length here.\<close>

definition positions :: "field \<Rightarrow> (nat \<times> nat) list" where
  "positions f = (case fd_bitfield f of
       Some b \<Rightarrow> map (packed_at f b) [0..<unat (fd_bits f)]
     | None \<Rightarrow> List.product [field_start f..<field_start f + occupied f] [0..<8])"

definition fields_apart :: "field \<Rightarrow> field \<Rightarrow> bool" where
  "fields_apart f g \<longleftrightarrow> list_all (\<lambda>p. p \<notin> set (positions g)) (positions f)"

lemma fields_apart_sym: "fields_apart f g \<Longrightarrow> fields_apart g f"
  by (auto simp: fields_apart_def list_all_iff)

section \<open>Fields as a store\<close>

text \<open>What the codec stores for a field: the raw value of a packed field, the bytes of any other.\<close>

datatype stored = Packed u64 | Whole bytes

definition fetch :: "field \<Rightarrow> bytes \<Rightarrow> cdd_error + stored" where
  "fetch f payload = (case fd_bitfield f of
       Some b \<Rightarrow> ebind (readPacked payload f b) (\<lambda>raw. Inr (Packed raw))
     | None \<Rightarrow> if field_start f + occupied f \<le> length payload
         then Inr (Whole (take (occupied f) (drop (field_start f) payload))) else Inl CddPanic)"

definition put :: "field \<Rightarrow> stored \<Rightarrow> bytes \<Rightarrow> cdd_error + bytes" where
  "put f v payload = (case (fd_bitfield f, v) of
       (Some b, Packed raw) \<Rightarrow> writePacked f b raw payload
     | (None, Whole encoded) \<Rightarrow>
         if length encoded = occupied f \<and> field_start f + occupied f \<le> length payload
         then Inr (splice payload (field_start f) encoded) else Inl CddPanic
     | _ \<Rightarrow> Inl CddPanic)"

definition kept :: "field \<Rightarrow> stored \<Rightarrow> stored" where
  "kept f v = (case v of Packed raw \<Rightarrow> Packed (take_bit (unat (fd_bits f)) raw) | Whole b \<Rightarrow> Whole b)"

lemma nth_splice:
  assumes "start + length encoded \<le> length payload" "i < length payload"
  shows "splice payload start encoded ! i =
    (if start \<le> i \<and> i < start + length encoded then encoded ! (i - start) else payload ! i)"
  using assms by (auto simp: splice_def nth_append)

lemma length_splice: "start + length encoded \<le> length payload \<Longrightarrow> length (splice payload start encoded) = length payload"
  by (simp add: splice_def)

text \<open>A write keeps the length and every bit outside the field.\<close>

lemma put_keeps:
  assumes "put f v payload = Inr d"
  shows "length d = length payload"
    and "p \<notin> set (positions f) \<Longrightarrow> fst p < length payload \<Longrightarrow> bit_of d p = bit_of payload p"
    and "q \<in> set (positions f) \<Longrightarrow> fst q < length payload"
proof -
  have "length d = length payload \<and>
    (p \<notin> set (positions f) \<and> fst p < length payload \<longrightarrow> bit_of d p = bit_of payload p) \<and>
    (q \<in> set (positions f) \<longrightarrow> fst q < length payload)"
  proof (cases "fd_bitfield f")
    case None
    then obtain e where e: "v = Whole e" "length e = occupied f" "field_start f + occupied f \<le> length payload"
      "d = splice payload (field_start f) e"
      using assms by (auto simp: put_def split: stored.splits if_splits)
    have "bit_of d p = bit_of payload p" if "p \<notin> set (positions f)" "fst p < length payload"
    proof (cases "snd p < 8")
      case True
      with that None have "\<not> (field_start f \<le> fst p \<and> fst p < field_start f + occupied f)"
        by (cases p) (auto simp: positions_def)
      with that(2) e show ?thesis by (auto simp: bit_of_def nth_splice)
    qed (auto simp: bit_of_def dest: bit_imp_le_length)
    then show ?thesis using e None by (auto simp: length_splice positions_def)
  next
    case (Some b)
    then obtain raw where raw: "v = Packed raw" "write_packed f b (unat (fd_bits f)) 0 raw payload = Inr d"
      using assms by (auto simp: put_def writePacked_def split: stored.splits)
    then have range: "\<forall>i. 0 \<le> i \<and> i < 0 + unat (fd_bits f) \<longrightarrow> fst (packed_at f b i) < length payload"
      using packed_out_of_range(2) [of 0 _ "unat (fd_bits f)" f b payload raw] by fastforce
    have "0 + unat (fd_bits f) \<le> 2 ^ 32" using unat_lt_u32 [of "fd_bits f"] by simp
    from write_packed_bits [OF range this, of raw] raw(2)
    have "length d = length payload"
      "p \<notin> packed_at f b ` {0..<0 + unat (fd_bits f)} \<and> fst p < length payload \<longrightarrow> bit_of d p = bit_of payload p"
      by (auto simp del: split_paired_All)
    moreover have "set (positions f) = packed_at f b ` {0..<0 + unat (fd_bits f)}"
      using Some by (simp add: positions_def)
    ultimately show ?thesis using range by auto
  qed
  then show "length d = length payload"
    "p \<notin> set (positions f) \<Longrightarrow> fst p < length payload \<Longrightarrow> bit_of d p = bit_of payload p"
    "q \<in> set (positions f) \<Longrightarrow> fst q < length payload" by auto
qed

text \<open>What a field reads depends on its own bits only.\<close>

lemma fetch_cong:
  assumes "length d = length payload"
    and "\<And>p. p \<in> set (positions f) \<Longrightarrow> fst p < length payload \<Longrightarrow> bit_of d p = bit_of payload p"
  shows "fetch f d = fetch f payload"
proof (cases "fd_bitfield f")
  case None
  have "take (occupied f) (drop (field_start f) d) = take (occupied f) (drop (field_start f) payload)"
    if "field_start f + occupied f \<le> length payload"
  proof (rule nth_equalityI)
    fix i assume "i < length (take (occupied f) (drop (field_start f) d))"
    then have i: "i < occupied f" "field_start f + i < length payload" using that assms(1) by auto
    have "d ! (field_start f + i) = payload ! (field_start f + i)"
    proof (rule bit_word_eqI)
      fix j assume "j < LENGTH(8)"
      with assms(2) [of "(field_start f + i, j)"] i None
      show "bit (d ! (field_start f + i)) j = bit (payload ! (field_start f + i)) j"
        by (simp add: positions_def bit_of_def)
    qed
    with i assms(1) show "take (occupied f) (drop (field_start f) d) ! i = take (occupied f) (drop (field_start f) payload) ! i"
      by simp
  qed (simp add: assms(1))
  with None assms(1) show ?thesis by (simp add: fetch_def)
next
  case (Some b)
  show ?thesis
  proof (cases "\<forall>i. 0 \<le> i \<and> i < 0 + unat (fd_bits f) \<longrightarrow> fst (packed_at f b i) < length payload")
    case True
    note range = True
    obtain v where v: "read_packed payload f b (unat (fd_bits f)) 0 0 = Inr v"
      "\<forall>m<64. bit v m \<longleftrightarrow> m < unat (fd_bits f) \<and> bit_of payload (packed_at f b m)"
      using read_packed_bits [OF True, of 0] by auto
    obtain w where w: "read_packed d f b (unat (fd_bits f)) 0 0 = Inr w"
      "\<forall>m<64. bit w m \<longleftrightarrow> m < unat (fd_bits f) \<and> bit_of d (packed_at f b m)"
      using read_packed_bits [of 0 "unat (fd_bits f)" f b d 0] range assms(1) by auto
    have "w = v"
    proof (rule bit_word_eqI)
      fix m assume "m < LENGTH(64)"
      with v(2) w(2) assms(2) [of "packed_at f b m"] range Some show "bit w m = bit v m"
        by (auto simp: positions_def)
    qed
    with v w Some show ?thesis by (simp add: fetch_def readPacked_def)
  next
    case False
    then obtain i where "0 \<le> i" "i < 0 + unat (fd_bits f)" "\<not> fst (packed_at f b i) < length payload" by auto
    from packed_out_of_range(1) [OF this] packed_out_of_range(1) [of 0 i "unat (fd_bits f)" f b d] this assms(1) Some
    show ?thesis by (simp add: fetch_def readPacked_def)
  qed
qed

lemma fetch_put:
  assumes "put f v payload = Inr d"
  shows "fetch f d = Inr (kept f v)"
proof (cases "fd_bitfield f")
  case None
  then obtain e where e: "v = Whole e" "length e = occupied f" "field_start f + occupied f \<le> length payload"
    "d = splice payload (field_start f) e"
    using assms by (auto simp: put_def split: stored.splits if_splits)
  then show ?thesis using None by (simp add: fetch_def kept_def splice_def)
next
  case (Some b)
  then obtain raw where raw: "v = Packed raw" "write_packed f b (unat (fd_bits f)) 0 raw payload = Inr d"
    using assms by (auto simp: put_def writePacked_def split: stored.splits)
  then have range: "\<forall>i. 0 \<le> i \<and> i < 0 + unat (fd_bits f) \<longrightarrow> fst (packed_at f b i) < length payload"
    using packed_out_of_range(2) [of 0 _ "unat (fd_bits f)" f b payload raw] by fastforce
  have "0 + unat (fd_bits f) \<le> 2 ^ 32" using unat_lt_u32 [of "fd_bits f"] by simp
  from write_packed_bits [OF range this, of raw] raw(2)
  have bits: "length d = length payload" "\<forall>m < unat (fd_bits f). bit_of d (packed_at f b m) = bit raw m" by auto
  obtain w where w: "read_packed d f b (unat (fd_bits f)) 0 0 = Inr w"
    "\<forall>m<64. bit w m \<longleftrightarrow> m < unat (fd_bits f) \<and> bit_of d (packed_at f b m)"
    using read_packed_bits [of 0 "unat (fd_bits f)" f b d 0] range bits(1) by auto
  have "w = take_bit (unat (fd_bits f)) raw"
    using w(2) bits(2) by (intro bit_word_eqI) (auto simp: bit_simps)
  with w(1) Some raw(1) show ?thesis by (simp add: fetch_def readPacked_def kept_def)
qed

interpretation cdd_fields: field_store fetch put kept fields_apart
proof unfold_locales
  show "fetch f d = Inr (kept f v)" if "put f v payload = Inr d" for f v payload d
    by (rule fetch_put [OF that])
  show "fetch g d = fetch g payload" if "put f v payload = Inr d" "fields_apart f g" for f v payload d g
  proof (rule fetch_cong)
    show "bit_of d p = bit_of payload p" if "p \<in> set (positions g)" "fst p < length payload" for p
    proof (rule put_keeps(2) [OF \<open>put f v payload = Inr d\<close> _ that(2)])
      show "p \<notin> set (positions f)" using that(1) \<open>fields_apart f g\<close> unfolding fields_apart_def list_all_iff by blast
    qed
  qed (rule put_keeps(1) [OF that(1)])
qed

end
