(* ===== verification/Cdd_Values.thy ===== *)
theory Cdd_Values
  imports Cdd_Layout Scalar_Values
begin

unbundle bit_operations_syntax

text \<open>
  Single values of a CDD field: raw elements and their bytes, the raw values an encoder accepts,
  and what a field reads back after it was written.
\<close>

section \<open>Elements and their bytes\<close>

lemma bit_little_fold:
  "m < 64 \<Longrightarrow> bit (foldr (\<lambda>b v. push_bit 8 v OR ucast b) bs (0 :: u64)) m \<longleftrightarrow>
     m div 8 < length bs \<and> bit ((bs :: bytes) ! (m div 8)) (m mod 8)"
proof (induction bs arbitrary: m)
  case (Cons b bs)
  show ?case
  proof (cases "m < 8")
    case False
    then have "m div 8 = Suc ((m - 8) div 8)" "m mod 8 = (m - 8) mod 8" by (simp_all add: le_div_geq le_mod_geq)
    with False Cons show ?thesis by (auto simp: bit_simps dest: bit_imp_le_length)
  qed (use Cons.prems in \<open>auto simp: bit_simps\<close>)
qed simp

lemma bit_little_value:
  "length bs = 8 \<Longrightarrow> m < 64 \<Longrightarrow> bit (little_value bs) m = bit (bs ! (m div 8)) (m mod 8)"
  using bit_little_fold [of m bs] by (auto simp: little_value_def)

lemma length_writeRaw: "n \<le> 8 \<Longrightarrow> length (writeRaw n raw ord) = n"
  by (simp add: writeRaw_def little_bytes_def)

lemma little_value_padded:
  assumes "n \<le> 8"
  shows "little_value (take n (little_bytes raw) @ replicate (8 - n) 0) = take_bit (8 * n) raw"
proof (rule bit_word_eqI)
  fix m assume "m < LENGTH(64)"
  then have m: "m < 64" "m div 8 < 8" by auto
  let ?bs = "take n (little_bytes raw) @ replicate (8 - n) 0"
  have len: "length (little_bytes raw) = 8" by (simp add: little_bytes_def)
  have "bit (little_value ?bs) m = bit (?bs ! (m div 8)) (m mod 8)"
    using m(1) assms by (intro bit_little_value) (simp_all add: len)
  also have "\<dots> \<longleftrightarrow> m div 8 < n \<and> bit raw m"
  proof (cases "m div 8 < n")
    case True
    then have "?bs ! (m div 8) = ucast (drop_bit (8 * (m div 8)) raw)"
      using assms m(2) by (simp add: nth_append little_bytes_def len)
    then show ?thesis using True by (simp add: bit_simps)
  next
    case False
    then have "?bs ! (m div 8) = 0" using assms m(2) by (simp add: nth_append len)
    then show ?thesis using False by simp
  qed
  also have "\<dots> = bit (take_bit (8 * n) raw) m" by (auto simp: bit_simps less_mult_imp_div_less)
  finally show "bit (little_value ?bs) m = bit (take_bit (8 * n) raw) m" .
qed

lemma readRaw_writeRaw:
  assumes "n \<le> 8"
  shows "readRaw (writeRaw n raw ord) ord = take_bit (8 * n) raw"
proof (cases "ord = CddLittle")
  case True
  then show ?thesis
    using little_value_padded [OF assms, of raw] assms by (simp add: readRaw_def writeRaw_def little_bytes_def)
next
  case False
  have "rev (drop (8 - n) (rev (little_bytes raw))) = take n (little_bytes raw)"
    using assms by (simp add: rev_drop little_bytes_def)
  with False show ?thesis
    using little_value_padded [OF assms, of raw] assms by (simp add: readRaw_def writeRaw_def little_bytes_def)
qed

text \<open>Cutting a concatenation of blocks of one length gives the blocks.\<close>

lemma blocks_of_concat:
  assumes "\<forall>b \<in> set bs. length b = n" and "i < length bs"
  shows "take n (drop (i * n) (concat bs)) = bs ! i"
  using assms
proof (induction bs arbitrary: i)
  case (Cons b bs)
  show ?case
  proof (cases i)
    case (Suc j)
    then have "drop (i * n) (concat (b # bs)) = drop (j * n) (concat bs)" using Cons.prems by simp
    with Suc Cons show ?thesis by simp
  qed (use Cons.prems in simp)
qed simp

lemma length_blocks: "\<forall>b \<in> set bs. length b = n \<Longrightarrow> length (concat bs) = length bs * n"
  by (induction bs) auto

lemma raw_elements_concat:
  assumes "0 < elementBytes f" "elementBytes f \<le> 8"
  shows "raw_elements f (concat (map (\<lambda>raw. writeRaw (elementBytes f) raw (fd_order f)) raws)) =
    map (take_bit (8 * elementBytes f)) raws"
proof -
  let ?bs = "map (\<lambda>raw. writeRaw (elementBytes f) raw (fd_order f)) raws"
  have b: "\<forall>b \<in> set ?bs. length b = elementBytes f" using assms by (auto simp: length_writeRaw)
  show ?thesis unfolding raw_elements_def
  proof (rule nth_equalityI)
    show "length (map (\<lambda>i. readRaw (take (elementBytes f) (drop (i * elementBytes f) (concat ?bs))) (fd_order f))
        [0..<length (concat ?bs) div elementBytes f]) = length (map (take_bit (8 * elementBytes f)) raws)"
      using length_blocks [OF b] assms by simp
  next
    fix i
    assume "i < length (map (\<lambda>i. readRaw (take (elementBytes f) (drop (i * elementBytes f) (concat ?bs))) (fd_order f))
        [0..<length (concat ?bs) div elementBytes f])"
    then have i: "i < length raws" "i < length (concat ?bs) div elementBytes f"
      using length_blocks [OF b] assms by simp_all
    have "take (elementBytes f) (drop (i * elementBytes f) (concat ?bs)) = writeRaw (elementBytes f) (raws ! i) (fd_order f)"
      using blocks_of_concat [OF b, of i] i(1) by simp
    with i assms show "map (\<lambda>i. readRaw (take (elementBytes f) (drop (i * elementBytes f) (concat ?bs))) (fd_order f))
        [0..<length (concat ?bs) div elementBytes f] ! i = map (take_bit (8 * elementBytes f)) raws ! i"
      by (simp add: readRaw_writeRaw)
  qed
qed

section \<open>Raw values an encoder accepts\<close>

definition usable_field :: "field \<Rightarrow> bool" where
  "usable_field f \<longleftrightarrow> validateFieldEncoding f = Inr () \<and> fd_bits f \<le> 64 \<and>
     (fd_bitfield f = None \<longrightarrow> unat (fd_offset f) mod 8 = 0 \<and> unat (fd_bits f) mod 8 = 0)"

lemma word_aligned_iff: "(x :: u32) mod 8 = 0 \<longleftrightarrow> unat x mod 8 = 0"
proof -
  have "unat (x mod 8) = unat x mod 8" unfolding unat_mod by simp
  then show ?thesis by (metis unat_eq_zero)
qed

lemma compileFields_usable:
  assumes "cc_err (compileFields fs names) = None"
  shows "list_all usable_field fs \<and> distinct (map fd_name fs) \<and> set (map fd_name fs) \<inter> set names = {} \<and>
    cc_names (compileFields fs names) = rev (map fd_name fs) @ names"
  using assms
proof (induction fs names rule: compileFields.induct)
  case (2 f fs names)
  obtain u where f: "fd_name f \<notin> set names" "fd_bits f \<le> 64" "validateFieldEncoding f = Inr u"
    "fd_bitfield f = None \<longrightarrow> unat (fd_offset f) mod 8 = 0 \<and> unat (fd_bits f) mod 8 = 0"
    "compileFields (f # fs) names = compileFields fs (fd_name f # names)"
    using 2(2) by (auto simp: Let_def not_le word_aligned_iff split: if_splits sum.splits)
  then have u: "usable_field f" by (simp add: usable_field_def)
  have "list_all usable_field fs \<and> distinct (map fd_name fs) \<and>
      set (map fd_name fs) \<inter> set (fd_name f # names) = {} \<and>
      cc_names (compileFields fs (fd_name f # names)) = rev (map fd_name fs) @ (fd_name f # names)"
    by (rule 2(1) [OF refl refl _ _ _ f(3)]) (use f 2(2) in \<open>auto simp: not_le word_aligned_iff\<close>)
  with f u show ?case by auto
qed simp

lemma usable_width:
  assumes "usable_field f"
  shows "fd_encoding f = EncodingFloat \<Longrightarrow> fd_bits f = 32" "fd_encoding f = EncodingDouble \<Longrightarrow> fd_bits f = 64"
    "fd_encoding f = EncodingASCII \<Longrightarrow> fd_bits f = 8"
    "\<not> isInteger f \<Longrightarrow> fd_conversion f = None \<and> fd_choices f = []"
  using assms by (auto simp: usable_field_def validateFieldEncoding_def ebind_Inr_iff split: option.splits if_splits)

lemma encodeExact_fits: "encodeExact f v = Inr raw \<Longrightarrow> take_bit (unat (fd_bits f)) raw = raw"
  by (auto simp: encodeExact_def ebind_Inr_iff DecodeSigned_take_bit EncodeUnsigned_take_bit split: if_splits)

lemma RawForLabel_fits: "RawForLabel cs l bits sgnd = Inr raw \<Longrightarrow> take_bit (unat bits) raw = raw"
  by (auto simp: RawForLabel_def ebind_Inr_iff DecodeSigned_take_bit EncodeUnsigned_take_bit
    split: if_splits option.splits)

lemma LinearRaw_fits: "LinearRaw bits sgnd p s q = Inr raw \<Longrightarrow> take_bit (unat bits) raw = raw"
  by (auto simp: LinearRaw_def Let_def DecodeSigned_take_bit EncodeUnsigned_take_bit split: if_splits)

lemma encodeScalar_fits:
  assumes "encodeScalar f v allow = Inr raw" "usable_field f"
  shows "take_bit (unat (fd_bits f)) raw = raw" and "validateConversionRaw f raw = Inr ()"
proof -
  have e: "encodeScalarValue f v allow = Inr raw" "validateConversionRaw f raw = Inr ()"
    using assms(1) by (auto simp: encodeScalar_def ebind_Inr_iff)
  show "validateConversionRaw f raw = Inr ()" by (rule e(2))
  have float: "take_bit 32 (ucast (x :: u32) :: u64) = ucast x" for x
    by (rule bit_word_eqI) (auto simp: bit_simps dest: bit_imp_le_length)
  have "take_bit 64 raw = raw" by (simp add: take_bit_word_eq_self)
  with e(1) usable_width(1,2) [OF assms(2)] show "take_bit (unat (fd_bits f)) raw = raw"
    by (auto simp: encodeScalarValue_def ebind_Inr_iff encodeExact_fits RawForLabel_fits LinearRaw_fits float
      split: option.splits if_splits)
qed

lemma emapM_encodeScalar:
  assumes "emapM (\<lambda>e. encodeScalar f e allow) es = Inr raws" "usable_field f"
  shows "map (take_bit (unat (fd_bits f))) raws = raws" and "emapM (validateConversionRaw f) raws = Inr (map (\<lambda>_. ()) raws)"
  using assms(1)
  by (induction es arbitrary: raws) (auto simp: ebind_Inr_iff encodeScalar_fits [OF _ assms(2)])

lemma emapM_Inr [simp]: "emapM (\<lambda>x. Inr (g x)) xs = Inr (map g xs)"
  by (induction xs) simp_all

lemma assert_kind_decodeScalar:
  "assert_kind (fieldScalarKind f) (decodeScalar f raw False) = Inr (decodeScalar f raw False)"
  by (auto simp: fieldScalarKind_def decodeScalar_def DecodeLinear_def Let_def unscaled_def f_eq_def is_Zero_def
    is_NaN_def split: option.splits)

section \<open>A field written and read\<close>

text \<open>
  What a field reads back when its raw elements survive: the same text, or every element sent
  through its own encoding and decoding, with labels for a single scalar only.
\<close>

definition passed_through :: "field \<Rightarrow> cdd_value \<Rightarrow> cdd_error + cdd_value" where
  "passed_through f v =
     (if fd_encoding f = EncodingASCII \<and> fd_bitfield f = None then
        (case atom_text v of None \<Rightarrow> Inl CddNotString | Some s \<Rightarrow> Inr (Atom (VString s)))
      else (case v of
          Atom a \<Rightarrow> ebind (encodeScalar f a True) (\<lambda>raw. Inr (Atom (decodeScalar f raw True)))
        | Elements es \<Rightarrow> ebind (emapM (\<lambda>e. encodeScalar f e False) es)
            (\<lambda>raws. Inr (Elements (map (\<lambda>raw. decodeScalar f raw False) raws)))))"

lemma element_width:
  assumes "usable_field f" "fd_bitfield f = None"
  shows "8 * elementBytes f = unat (fd_bits f)" and "elementBytes f \<le> 8"
proof -
  have "unat (fd_bits f) mod 8 = 0" using assms by (simp add: usable_field_def)
  then show e: "8 * elementBytes f = unat (fd_bits f)" by (auto simp: elementBytes_def unat_div)
  have "unat (fd_bits f) \<le> 64" using assms by (simp add: usable_field_def width_le_64)
  with e show "elementBytes f \<le> 8" by simp
qed

lemma find_None_all: "List.find P xs = None \<longleftrightarrow> list_all (\<lambda>x. \<not> P x) xs"
  by (auto simp: find_None_iff list_all_iff)

definition in_count :: "field \<Rightarrow> nat \<Rightarrow> bool" where
  "in_count f n \<longleftrightarrow> validateElementCount f n = Inr ()"

lemma decodeField_encodeField:
  assumes "encodeField f v = Inr encoded" "usable_field f" "fd_bitfield f = None" "0 < fd_bits f"
  shows "ebind (decodeField f encoded) Inr = passed_through f v" "is_ok (passed_through f v)"
    "\<exists>n. length encoded = n * elementBytes f \<and> in_count f n"
proof -
  have w: "8 * elementBytes f = unat (fd_bits f)" "elementBytes f \<le> 8" by (rule element_width [OF assms(2,3)])+
  have "0 < unat (fd_bits f)" using assms(4) by (simp add: word_less_nat_alt)
  with w have pos: "0 < elementBytes f" by simp
  have all: "ebind (decodeField f encoded) Inr = passed_through f v \<and> is_ok (passed_through f v) \<and>
    (\<exists>n. length encoded = n * elementBytes f \<and> in_count f n)"
  proof (cases "fd_encoding f = EncodingASCII")
    case True
    then obtain s where s: "atom_text v = Some s" "encoded = map (\<lambda>c. word_of_nat (of_char c)) s"
      "List.find (\<lambda>octet. octet > 0x7f) encoded = None" "in_count f (length encoded)"
      using assms(1) by (auto simp: encodeField_def Let_def ebind_Inr_iff in_count_def split: option.splits)
    have "char_of (unat (word_of_nat (of_char c) :: byte)) = c" for c :: char
      by (simp add: unat_of_nat)
    then have "map (\<lambda>octet. char_of (unat octet)) encoded = s" by (simp add: s(2) comp_def)
    moreover have "elementBytes f = 1" using usable_width(3) [OF assms(2) True] by (simp add: elementBytes_def)
    ultimately show ?thesis using True s(1,3,4) assms(3) by (simp add: decodeField_def passed_through_def)
  next
    case False
    let ?blocks = "\<lambda>raws. concat (map (\<lambda>raw. writeRaw (elementBytes f) raw (fd_order f)) raws)"
    have len: "length (?blocks raws) = length raws * elementBytes f" for raws
      using length_blocks [of "map (\<lambda>raw. writeRaw (elementBytes f) raw (fd_order f)) raws" "elementBytes f"] w
      by (auto simp: length_writeRaw)
    have valid: "ebind (case fd_conversion f of None \<Rightarrow> Inr [] | Some c \<Rightarrow>
          if lc_minimum c \<noteq> None \<or> lc_maximum c \<noteq> None then emapM (validateConversionRaw f) raws else Inr []) (\<lambda>_. k) = k"
      if "emapM (validateConversionRaw f) raws = Inr (map (\<lambda>_. ()) raws)" for raws and k :: "cdd_error + cdd_value"
      using that by (auto split: option.splits)
    show ?thesis
    proof (cases "fd_count f \<noteq> 1 \<or> fd_variable f \<noteq> None")
      case True
      then obtain es raws where e: "v = Elements es" "in_count f (length es)"
        "emapM (\<lambda>e. encodeScalar f e False) es = Inr raws" "encoded = ?blocks raws"
        using assms(1) False
        by (auto simp: encodeField_def Let_def ebind_Inr_iff in_count_def split: cdd_value.splits)
      have r: "raw_elements f encoded = raws" "length raws = length es"
        using raw_elements_concat [OF pos w(2), of raws] emapM_encodeScalar(1) [OF e(3) assms(2)] emapM_length [OF e(3)]
        by (simp_all add: e(4) w(1))
      have "decodeField f encoded = Inr (Elements (map (\<lambda>raw. decodeScalar f raw False) raws))"
        using True False pos
        unfolding decodeField_def r(1) valid [OF emapM_encodeScalar(2) [OF e(3) assms(2)]] assert_kind_decodeScalar
        by auto
      then show ?thesis
        using False e len r(2) by (auto simp: passed_through_def)
    next
      case scalar: False
      then obtain a raw where e: "v = Atom a" "encodeScalar f a True = Inr raw"
        "encoded = writeRaw (elementBytes f) raw (fd_order f)"
        using assms(1) False by (auto simp: encodeField_def Let_def ebind_Inr_iff split: cdd_value.splits)
      have fits: "take_bit (8 * elementBytes f) raw = raw" "validateConversionRaw f raw = Inr ()"
        using encodeScalar_fits [OF e(2) assms(2)] by (simp_all add: w(1))
      then have r: "raw_elements f encoded = [raw]" "readRaw encoded (fd_order f) = raw"
        using raw_elements_concat [OF pos w(2), of "[raw]"] readRaw_writeRaw [OF w(2), of raw] e(3) by simp_all
      have "decodeField f encoded = Inr (Atom (decodeScalar f raw True))"
        using scalar False pos fits(2) unfolding decodeField_def r by (auto split: option.splits)
      then show ?thesis
        using False scalar e(1,2) w(2) by (auto simp: passed_through_def in_count_def validateElementCount_def Let_def
          e(3) length_writeRaw intro: exI [of _ 1])
    qed
  qed
  then show "ebind (decodeField f encoded) Inr = passed_through f v" "is_ok (passed_through f v)"
    "\<exists>n. length encoded = n * elementBytes f \<and> in_count f n" by auto
qed

end
