(* ===== verification/Cdd_Record.thy ===== *)
theory Cdd_Record
  imports Cdd_Values
begin

unbundle bit_operations_syntax

text \<open>
  Whole CDD records: how the fields must lie in a record for its codec to be a codec, and that a
  payload the encoder builds decodes to the values it was built from.
\<close>

section \<open>Layouts\<close>

definition plain_field :: "nat \<Rightarrow> field \<Rightarrow> bool" where
  "plain_field n f \<longleftrightarrow> 0 < fd_bits f \<and> list_all (\<lambda>p. fst p < n) (positions f) \<and>
     (fd_bitfield f = None \<longrightarrow> occupied f = unat (fd_count f) * elementBytes f \<and> field_start f + occupied f \<le> n)"

text \<open>Only the last field may have a variable length; it starts behind all the others and ends the record.\<close>

definition laid_out :: "cdd_record \<Rightarrow> bool" where
  "laid_out r \<longleftrightarrow>
     (let fs = rc_fields r; n = unat (rc_length r); m = unat (rc_maxLength r) in
      sorted_wrt fields_apart fs \<and> list_all (plain_field n) fs \<and>
      list_all (\<lambda>f. fd_variable f = None) (butlast fs) \<and>
      (case (if fs = [] then None else fd_variable (last fs)) of
         None \<Rightarrow> m = n
       | Some e \<Rightarrow> let f = last fs in
           fd_bitfield f = None \<and> ex_min e = fd_count f \<and> ex_min e < ex_max e \<and>
           field_start f + unat (ex_min e) * elementBytes f = n \<and>
           field_start f + unat (ex_max e) * elementBytes f = m \<and>
           list_all (plain_field (field_start f)) (butlast fs)))"

section \<open>A field of fixed length\<close>

definition stored_of :: "field \<Rightarrow> cdd_value \<Rightarrow> cdd_error + stored" where
  "stored_of f v = (case fd_bitfield f of
       Some b \<Rightarrow> ebind (encodeScalar f (to_atom v) True) (\<lambda>raw. Inr (Packed raw))
     | None \<Rightarrow> ebind (encodeField f v) (\<lambda>encoded. Inr (Whole encoded)))"

lemma kept_stored:
  assumes "stored_of f v = Inr s" "usable_field f"
  shows "kept f s = s"
  using assms by (auto simp: stored_of_def kept_def ebind_Inr_iff encodeScalar_fits split: option.splits)

lemma encode_one_put:
  assumes "encode_one r vs f payload = Inr d" "usable_field f" "plain_field n f" "n \<le> length payload"
    "fd_variable f = None"
  obtains (written) v s where "map_of vs (fd_name f) = Some v" "stored_of f v = Inr s" "put f s payload = Inr d"
proof (cases "fd_bitfield f")
  case (Some b)
  then obtain v raw where "map_of vs (fd_name f) = Some v" "encodeScalar f (to_atom v) True = Inr raw"
    "writePacked f b raw payload = Inr d"
    using assms(1) by (auto simp: encode_one_def ebind_Inr_iff split: option.splits)
  with Some show ?thesis by (intro written [of v "Packed raw"]) (simp_all add: stored_of_def put_def)
next
  case None
  then obtain v encoded where e: "map_of vs (fd_name f) = Some v" "encodeField f v = Inr encoded"
    using assms(1) by (auto simp: encode_one_def ebind_Inr_iff split: option.splits)
  obtain k where "length encoded = k * elementBytes f" "in_count f k"
    using decodeField_encodeField(3) [OF e(2) assms(2) None] assms(3) by (auto simp: plain_field_def)
  then have "length encoded = occupied f" "field_start f + occupied f \<le> length payload"
    using assms(3-5) None by (auto simp: in_count_def validateElementCount_def Let_def plain_field_def)
  with e None assms(1) show ?thesis
    by (intro written [of v "Whole encoded"]) (simp_all add: stored_of_def put_def encode_one_def Let_def)
qed

lemma encode_writes:
  assumes "efold (encode_one r vs) fs payload = Inr d"
    and "list_all usable_field fs" "list_all (plain_field n) fs" "list_all (\<lambda>f. fd_variable f = None) fs"
    and "n \<le> length payload"
  obtains (written) ws where "map fst ws = fs" "cdd_fields.write_all ws payload = Inr d"
    "\<forall>(f, s) \<in> set ws. \<exists>v. map_of vs (fd_name f) = Some v \<and> stored_of f v = Inr s"
    "length d = length payload"
    "\<forall>p. fst p < length payload \<and> (\<forall>f \<in> set fs. p \<notin> set (positions f)) \<longrightarrow> bit_of d p = bit_of payload p"
proof -
  have "\<exists>ws. map fst ws = fs \<and> cdd_fields.write_all ws payload = Inr d \<and>
    (\<forall>(f, s) \<in> set ws. \<exists>v. map_of vs (fd_name f) = Some v \<and> stored_of f v = Inr s) \<and>
    length d = length payload \<and>
    (\<forall>p. fst p < length payload \<and> (\<forall>f \<in> set fs. p \<notin> set (positions f)) \<longrightarrow> bit_of d p = bit_of payload p)"
    using assms
  proof (induction fs arbitrary: payload)
    case (Cons f fs)
    obtain d1 where d1: "encode_one r vs f payload = Inr d1" "efold (encode_one r vs) fs d1 = Inr d"
      using Cons.prems(1) by (auto simp: ebind_Inr_iff)
    obtain v s where s: "map_of vs (fd_name f) = Some v" "stored_of f v = Inr s" "put f s payload = Inr d1"
      by (rule encode_one_put [OF d1(1), of n]) (use Cons.prems in auto)
    note keeps = put_keeps [OF s(3)]
    obtain ws where ws: "map fst ws = fs" "cdd_fields.write_all ws d1 = Inr d"
      "\<forall>(f, s) \<in> set ws. \<exists>v. map_of vs (fd_name f) = Some v \<and> stored_of f v = Inr s" "length d = length d1"
      "\<forall>p. fst p < length d1 \<and> (\<forall>f \<in> set fs. p \<notin> set (positions f)) \<longrightarrow> bit_of d p = bit_of d1 p"
      using Cons.IH [OF d1(2)] Cons.prems keeps(1) by (auto simp del: split_paired_All)
    show ?case
    proof (intro exI [of _ "(f, s) # ws"] conjI allI impI)
      fix p assume p: "fst p < length payload \<and> (\<forall>g \<in> set (f # fs). p \<notin> set (positions g))"
      then have "bit_of d p = bit_of d1 p" using ws(5) [rule_format, of p] keeps(1) by simp
      also have "\<dots> = bit_of payload p" using keeps(2) [of p] p by simp
      finally show "bit_of d p = bit_of payload p" .
    qed (use ws s keeps in auto)
  qed auto
  with written show ?thesis by blast
qed

text \<open>What the codec decodes for a field after it stored the value of the field.\<close>

lemma decode_fetched:
  assumes "fetch f payload = Inr s" "stored_of f v = Inr s" "usable_field f" "plain_field n f" "fd_variable f = None"
  shows "decode_one payload f = ebind (passed_through f v) (\<lambda>u. Inr (fd_name f, u))" "is_ok (passed_through f v)"
proof -
  have "decode_one payload f = ebind (passed_through f v) (\<lambda>u. Inr (fd_name f, u)) \<and> is_ok (passed_through f v)"
  proof (cases "fd_bitfield f")
    case (Some b)
    then obtain raw where raw: "readPacked payload f b = Inr raw" "encodeScalar f (to_atom v) True = Inr raw"
      using assms(1,2) by (auto simp: fetch_def stored_of_def ebind_Inr_iff)
    from raw(2) obtain a where "v = Atom a"
      using usable_width(4) [OF assms(3)]
      by (cases v) (auto simp: to_atom_def encodeScalar_def encodeScalarValue_def StringValue_def ebind_Inr_iff
        NumericFloat_def LinearFloat_def encodeExact_def ExactSigned_def ExactUnsigned_def split: option.splits if_splits)
    with Some raw encodeScalar_fits(2) [OF raw(2) assms(3)] show ?thesis
      by (simp add: decode_one_def passed_through_def to_atom_def)
  next
    case None
    then obtain encoded where e: "encodeField f v = Inr encoded" "field_start f + occupied f \<le> length payload"
      "encoded = take (occupied f) (drop (field_start f) payload)"
      using assms(1,2) by (auto simp: fetch_def stored_of_def ebind_Inr_iff split: if_splits)
    have "0 < fd_bits f" using assms(4) by (simp add: plain_field_def)
    note u = decodeField_encodeField [OF e(1) assms(3) None this]
    have "ebind m Inr = (m :: cdd_error + cdd_value)" for m by (cases m) simp_all
    with u e(2,3) None assms(5) show ?thesis by (simp add: decode_one_def occupied_def [symmetric] Let_def)
  qed
  then show "decode_one payload f = ebind (passed_through f v) (\<lambda>u. Inr (fd_name f, u))" "is_ok (passed_through f v)"
    by auto
qed

section \<open>A field of variable length\<close>

lemma read_packed_take:
  assumes "\<forall>i. k \<le> i \<and> i < k + m \<longrightarrow> fst (packed_at f b i) < n" "n \<le> length payload"
  shows "read_packed (take n payload) f b m k raw = read_packed payload f b m k raw"
  using assms
proof (induction m arbitrary: k raw)
  case (Suc m)
  have "fst (packed_at f b k) < n" using Suc.prems(1) [rule_format, of k] by simp
  then show ?case using Suc.IH [of "Suc k"] Suc.prems
    by (cases "packed_at f b k") (auto split: prod.splits)
qed simp

lemma fetch_take:
  assumes "plain_field n f" "n \<le> length payload"
  shows "fetch f (take n payload) = fetch f payload"
proof (cases "fd_bitfield f")
  case (Some b)
  then have "\<forall>i. 0 \<le> i \<and> i < 0 + unat (fd_bits f) \<longrightarrow> fst (packed_at f b i) < n"
    using assms(1) by (auto simp: plain_field_def positions_def list_all_iff)
  from read_packed_take [OF this assms(2), of 0] Some show ?thesis by (simp add: fetch_def readPacked_def)
next
  case None
  with assms show ?thesis by (auto simp: fetch_def plain_field_def drop_take min_def)
qed

lemma fetch_prefix:
  assumes "plain_field n f" "take n d = take n payload" "n \<le> length payload" "n \<le> length d"
  shows "fetch f d = fetch f payload"
  using fetch_take [OF assms(1,3)] fetch_take [OF assms(1,4)] assms(2) by simp

lemma encode_variable:
  assumes "encode_one r vs f payload = Inr d" "usable_field f" "0 < fd_bits f" "fd_bitfield f = None"
    "fd_variable f = Some e" "ex_min e = fd_count f"
    "field_start f + unat (ex_min e) * elementBytes f = length payload"
    "field_start f + unat (ex_max e) * elementBytes f = unat (rc_maxLength r)"
  obtains (written) v k where "map_of vs (fd_name f) = Some v"
    "decode_one d f = ebind (passed_through f v) (\<lambda>u. Inr (fd_name f, u))" "is_ok (passed_through f v)"
    "length d = field_start f + k * elementBytes f" "unat (ex_min e) \<le> k" "k \<le> unat (ex_max e)"
    "take (field_start f) d = take (field_start f) payload"
proof -
  obtain v encoded where e: "map_of vs (fd_name f) = Some v" "encodeField f v = Inr encoded"
    using assms(1,4) by (auto simp: encode_one_def ebind_Inr_iff split: option.splits)
  note u = decodeField_encodeField [OF e(2) assms(2,4,3)]
  from u(3) obtain k where k: "length encoded = k * elementBytes f" "in_count f k" by blast
  from k(2) assms(5) have k': "unat (ex_min e) \<le> k" "k \<le> unat (ex_max e)"
    by (auto simp: in_count_def validateElementCount_def Let_def)
  have len: "length payload \<le> field_start f + length encoded" "field_start f + length encoded \<le> unat (rc_maxLength r)"
    using assms(7,8) k(1) k' by (metis add_le_cancel_left mult_le_mono1)+
  have "d = take (field_start f) payload @ encoded"
    using assms(1,4,5) e len
    by (cases "field_start f + length encoded = length payload")
       (simp_all add: encode_one_def Let_def splice_def assms(7) [symmetric] split: if_splits)
  moreover have "field_start f \<le> length payload" using assms(7) by simp
  ultimately have d: "length d = field_start f + length encoded" "drop (field_start f) d = encoded"
    "take (field_start f) d = take (field_start f) payload" by simp_all
  have "ebind m Inr = (m :: cdd_error + cdd_value)" for m by (cases m) simp_all
  then have "decode_one d f = ebind (passed_through f v) (\<lambda>u. Inr (fd_name f, u))"
    using u(1) d assms(4,5) by (simp add: decode_one_def Let_def)
  with e(1) u(2) d k k' show ?thesis by (intro written [of v k]) simp_all
qed


section \<open>Records\<close>

definition record_ready :: "cdd_record \<Rightarrow> bool" where
  "record_ready r \<longleftrightarrow> laid_out r \<and> rc_codec r = Some (compileRecordCodec r)"

lemma ready_fields:
  assumes "record_ready r" "usableRecordCodec (Some r) = Inr c"
  shows "list_all usable_field (rc_fields r)" "distinct (map fd_name (rc_fields r))" "distinct (rc_fields r)"
proof -
  have "cc_err (compileFields (rc_fields r) []) = None"
    using assms by (auto simp: record_ready_def usableRecordCodec_def compileRecordCodec_def split: option.splits)
  from compileFields_usable [OF this]
  show "list_all usable_field (rc_fields r)" "distinct (map fd_name (rc_fields r))" "distinct (rc_fields r)"
    by (auto simp: distinct_map)
qed

lemma apart_of_sorted:
  assumes "sorted_wrt fields_apart fs" "f \<in> set fs" "g \<in> set fs" "f \<noteq> g"
  shows "fields_apart f g"
proof -
  obtain i j where "i < length fs" "j < length fs" "f = fs ! i" "g = fs ! j" "i \<noteq> j"
    using assms(2-4) by (metis in_set_conv_nth)
  with assms(1) fields_apart_sym show ?thesis
    by (metis linorder_neq_iff sorted_wrt_iff_nth_less)
qed

text \<open>A run over fields of fixed length stores every field's value.\<close>

lemma fixed_fields_stored:
  assumes "efold (encode_one r vs) fs payload = Inr d" "list_all usable_field fs" "list_all (plain_field n) fs"
    "list_all (\<lambda>f. fd_variable f = None) fs" "n \<le> length payload" "sorted_wrt fields_apart fs" "distinct fs"
  shows "length d = length payload"
    and "f \<in> set fs \<Longrightarrow> \<exists>v s. map_of vs (fd_name f) = Some v \<and> stored_of f v = Inr s \<and> fetch f d = Inr s"
    and "fst p < length payload \<Longrightarrow> \<forall>f \<in> set fs. p \<notin> set (positions f) \<Longrightarrow> bit_of d p = bit_of payload p"
proof -
  obtain ws where ws: "map fst ws = fs" "cdd_fields.write_all ws payload = Inr d"
    "\<forall>(f, s) \<in> set ws. \<exists>v. map_of vs (fd_name f) = Some v \<and> stored_of f v = Inr s" "length d = length payload"
    "\<forall>p. fst p < length payload \<and> (\<forall>f \<in> set fs. p \<notin> set (positions f)) \<longrightarrow> bit_of d p = bit_of payload p"
    by (rule encode_writes [OF assms(1-5)])
  show "length d = length payload" by (rule ws(4))
  show "bit_of d p = bit_of payload p" if "fst p < length payload" "\<forall>f \<in> set fs. p \<notin> set (positions f)"
    using ws(5) that by blast
  show "\<exists>v s. map_of vs (fd_name f) = Some v \<and> stored_of f v = Inr s \<and> fetch f d = Inr s" if f: "f \<in> set fs"
  proof -
    obtain s where s: "(f, s) \<in> set ws" using f ws(1) by fastforce
    then obtain v where v: "map_of vs (fd_name f) = Some v" "stored_of f v = Inr s" using ws(3) by blast
    have d: "distinct ws" using assms(7) ws(1) distinct_map [of fst ws] by simp
    have "pairwise (\<lambda>(f, u) (g, v). fields_apart f g) (set ws)"
    proof (rule pairwiseI)
      fix x y assume xy: "x \<in> set ws" "y \<in> set ws" "x \<noteq> y"
      have "distinct (map fst ws)" using assms(7) ws(1) by simp
      then have "fst x \<noteq> fst y" using xy eq_key_imp_eq_value [of ws "fst x" "snd x" "snd y"]
        by (metis prod.collapse)
      moreover have "fst x \<in> set fs" "fst y \<in> set fs" using xy ws(1) by auto
      ultimately show "(case x of (f, u) \<Rightarrow> \<lambda>(g, v). fields_apart f g) y"
        using apart_of_sorted [OF assms(6)] by (simp add: case_prod_beta)
    qed
    from cdd_fields.rd_write_all_pairwise [OF ws(2) this d s]
    have "fetch f d = Inr (kept f s)" .
    moreover have "usable_field f" using f assms(2) by (simp add: list_all_iff)
    ultimately show ?thesis using v kept_stored [OF v(2)] by auto
  qed
qed

definition read_back :: "cdd_values \<Rightarrow> field \<Rightarrow> cdd_error + string \<times> cdd_value" where
  "read_back vs f = (case map_of vs (fd_name f) of
       None \<Rightarrow> Inl (CddMissingField (fd_name f))
     | Some v \<Rightarrow> ebind (passed_through f v) (\<lambda>u. Inr (fd_name f, u)))"

lemma emapM_cong_ok:
  assumes "\<forall>x \<in> set xs. f x = g x \<and> is_ok (g x)"
  shows "emapM f xs = emapM g xs" "is_ok (emapM g xs)"
  using assms by (induction xs) (auto simp: is_ok_iff)

lemma encode_run:
  assumes "CddEncode r vs = Inr payload"
  shows "\<exists>c. usableRecordCodec (Some r) = Inr c"
    "efold (encode_one r vs) (rc_fields r) (replicate (unat (rc_length r)) 0) = Inr payload"
  using assms by (auto simp: CddEncode_def ebind_Inr_iff split: option.splits prod.splits)

lemma decode_ready:
  assumes "usableRecordCodec (Some r) = Inr c" "validatePayloadLength r (length payload) = Inr ()"
    and "\<forall>f \<in> set (rc_fields r). decode_one payload f = read_back vs f \<and> is_ok (read_back vs f)"
  shows "CddDecode r payload = emapM (read_back vs) (rc_fields r)" "is_ok (CddDecode r payload)"
  using emapM_cong_ok [OF assms(3)] assms(1,2) by (simp_all add: CddDecode_def)

definition reserved :: "cdd_record \<Rightarrow> nat \<times> nat \<Rightarrow> bool" where
  "reserved r p \<longleftrightarrow> fst p < unat (rc_length r) \<and> (\<forall>f \<in> set (rc_fields r). p \<notin> set (positions f))"

lemma fixed_record:
  assumes "record_ready r" "CddEncode r vs = Inr payload" "list_all (\<lambda>f. fd_variable f = None) (rc_fields r)"
  shows "length payload = unat (rc_length r)" "rc_maxLength r = rc_length r"
    "CddDecode r payload = emapM (read_back vs) (rc_fields r)" "is_ok (CddDecode r payload)"
    "reserved r p \<Longrightarrow> \<not> bit_of payload p"
proof -
  let ?zero = "replicate (unat (rc_length r)) (0 :: byte)"
  obtain c where c: "usableRecordCodec (Some r) = Inr c" using encode_run(1) [OF assms(2)] by blast
  note fields = ready_fields [OF assms(1) c]
  have lay: "sorted_wrt fields_apart (rc_fields r)" "list_all (plain_field (unat (rc_length r))) (rc_fields r)"
    using assms(1) by (simp_all add: record_ready_def laid_out_def Let_def)
  show m: "rc_maxLength r = rc_length r"
    using assms(1,3) last_in_set [of "rc_fields r"]
    by (auto simp: record_ready_def laid_out_def Let_def list_all_iff word_unat_eq_iff split: option.splits if_splits)
  note st = fixed_fields_stored [OF encode_run(2) [OF assms(2)] fields(1) lay(2) assms(3) _ lay(1) fields(3)]
  show len: "length payload = unat (rc_length r)" using st(1) by simp
  have "decode_one payload f = read_back vs f \<and> is_ok (read_back vs f)" if f: "f \<in> set (rc_fields r)" for f
  proof -
    obtain v s where v: "map_of vs (fd_name f) = Some v" "stored_of f v = Inr s" "fetch f payload = Inr s"
      using st(2) [OF _ f] by auto
    have "usable_field f" "plain_field (unat (rc_length r)) f" "fd_variable f = None"
      using f fields(1) lay(2) assms(3) by (simp_all add: list_all_iff)
    from decode_fetched [OF v(3,2) this] v(1) show ?thesis by (auto simp: read_back_def is_ok_iff)
  qed
  moreover have "validatePayloadLength r (length payload) = Inr ()" by (simp add: validatePayloadLength_def m len)
  ultimately show "CddDecode r payload = emapM (read_back vs) (rc_fields r)" "is_ok (CddDecode r payload)"
    using decode_ready [OF c, of payload vs] by simp_all
  show "\<not> bit_of payload p" if "reserved r p"
    using st(3) [of p] that by (simp add: reserved_def bit_of_def)
qed


lemma variable_record:
  assumes "record_ready r" "CddEncode r vs = Inr payload" "\<not> list_all (\<lambda>f. fd_variable f = None) (rc_fields r)"
  shows "unat (rc_length r) \<le> length payload" "length payload \<le> unat (rc_maxLength r)"
    "CddDecode r payload = emapM (read_back vs) (rc_fields r)" "is_ok (CddDecode r payload)"
    "reserved r p \<Longrightarrow> \<not> bit_of payload p"
proof -
  let ?n = "unat (rc_length r)"
  let ?zero = "replicate ?n (0 :: byte)"
  obtain c where c: "usableRecordCodec (Some r) = Inr c" using encode_run(1) [OF assms(2)] by blast
  note fields = ready_fields [OF assms(1) c]
  have ne: "rc_fields r \<noteq> []" using assms(3) by auto
  then obtain gs f where fs: "rc_fields r = gs @ [f]" by (metis append_butlast_last_id)
  have lay: "sorted_wrt fields_apart gs" "list_all (plain_field ?n) (gs @ [f])" "list_all (\<lambda>f. fd_variable f = None) gs"
    using assms(1) by (simp_all add: record_ready_def laid_out_def Let_def fs sorted_wrt_append)
  then obtain e where e: "fd_variable f = Some e" using assms(3) by (auto simp: fs)
  have var: "fd_bitfield f = None" "ex_min e = fd_count f" "ex_min e < ex_max e"
    "field_start f + unat (ex_min e) * elementBytes f = ?n"
    "field_start f + unat (ex_max e) * elementBytes f = unat (rc_maxLength r)" "list_all (plain_field (field_start f)) gs"
    using assms(1) e by (auto simp: record_ready_def laid_out_def Let_def fs)
  have f: "usable_field f" "0 < fd_bits f" using fields(1) lay(2) by (simp_all add: fs plain_field_def)
  obtain d where d: "efold (encode_one r vs) gs ?zero = Inr d" "encode_one r vs f d = Inr payload"
    using encode_run(2) [OF assms(2)] by (auto simp: fs efold_append ebind_Inr_iff)
  note st = fixed_fields_stored [OF d(1) _ _ lay(3) _ lay(1), of ?n]
  have lend: "length d = ?n" using st(1) fields lay(2) by (simp add: fs)
  have min_len: "field_start f + unat (ex_min e) * elementBytes f = length d" using var(4) lend by simp
  obtain v k where w: "map_of vs (fd_name f) = Some v"
    "decode_one payload f = ebind (passed_through f v) (\<lambda>u. Inr (fd_name f, u))" "is_ok (passed_through f v)"
    "length payload = field_start f + k * elementBytes f" "unat (ex_min e) \<le> k" "k \<le> unat (ex_max e)"
    "take (field_start f) payload = take (field_start f) d"
    by (rule encode_variable [OF d(2) f var(1) e var(2) min_len var(5)], rule that)
  have k: "unat (ex_min e) * elementBytes f \<le> k * elementBytes f"
    "k * elementBytes f \<le> unat (ex_max e) * elementBytes f" by (rule mult_le_mono1 [OF w(5)], rule mult_le_mono1 [OF w(6)])
  show len: "?n \<le> length payload" "length payload \<le> unat (rc_maxLength r)"
    unfolding w(4) var(4,5) [symmetric] by (rule add_left_mono [OF k(1)], rule add_left_mono [OF k(2)])
  have start: "field_start f \<le> ?n" using var(4) by simp
  have "decode_one payload g = read_back vs g \<and> is_ok (read_back vs g)" if "g \<in> set (gs @ [f])" for g
  proof (cases "g = f")
    case True
    then show ?thesis using w(1-3) by (auto simp: read_back_def is_ok_iff)
  next
    case False
    then have g: "g \<in> set gs" using that by simp
    then obtain u s where u: "map_of vs (fd_name g) = Some u" "stored_of g u = Inr s" "fetch g d = Inr s"
      using st(2) [of g] fields lay(2) by (auto simp: fs)
    have pg: "plain_field (field_start f) g" using g var(6) by (simp add: list_all_iff)
    have "fetch g payload = Inr s" using fetch_prefix [OF pg w(7)] start lend len(1) u(3) by simp
    moreover have "usable_field g" "fd_variable g = None"
      using g fields(1) lay(3) by (simp_all add: list_all_iff fs)
    ultimately have "decode_one payload g = ebind (passed_through g u) (\<lambda>u. Inr (fd_name g, u))" "is_ok (passed_through g u)"
      using decode_fetched [OF _ u(2) _ pg] by simp_all
    then show ?thesis using u(1) by (auto simp: read_back_def is_ok_iff)
  qed
  moreover have "validatePayloadLength r (length payload) = Inr ()"
  proof -
    have "0 < elementBytes f" using element_width(1) [OF f(1) var(1)] f(2) by (simp add: word_less_nat_alt)
    then show ?thesis
      using w(4-6) len e ne by (simp add: validatePayloadLength_def Let_def fs ebind_echeck echeck_def)
  qed
  ultimately show "CddDecode r payload = emapM (read_back vs) (rc_fields r)" "is_ok (CddDecode r payload)"
    using decode_ready [OF c, of payload vs] by (simp_all add: fs)
  show "\<not> bit_of payload p" if p: "reserved r p"
  proof (cases "snd p < 8")
    case True
    have i: "fst p < ?n" "\<forall>g \<in> set (gs @ [f]). p \<notin> set (positions g)" using p by (simp_all add: reserved_def fs)
    have "occupied f = unat (ex_min e) * elementBytes f" using lay(2) var(1,2) by (simp add: plain_field_def)
    with i True var(1,4) have below: "fst p < field_start f"
      by (cases p) (auto simp: positions_def not_less)
    have "bit_of d p = bit_of ?zero p"
      using st(3) [of p] i lend fields lay(2) by (simp add: fs)
    moreover have "payload ! fst p = d ! fst p"
      using w(7) below by (metis nth_take)
    ultimately show ?thesis using i(1) by (simp add: bit_of_def)
  next
    case False
    then show ?thesis by (auto simp: bit_of_def dest: bit_imp_le_length)
  qed
qed

section \<open>Integers\<close>

text \<open>An unscaled integer field keeps the integer a number or a label stands for.\<close>

lemma unscaled_field_keeps:
  assumes "encodeScalar f a allow = Inr raw" "isInteger f" "plain_literals a"
    "case fd_conversion f of None \<Rightarrow> True | Some c \<Rightarrow> unscaled (lc_scale c) (lc_offset c)"
  shows "\<exists>i. (\<forall>k. stands_for (fd_choices f) a k \<longleftrightarrow> k = i) \<and> stands_for (fd_choices f) (decodeScalar f raw allow) i"
proof -
  let ?signed = "fd_encoding f = EncodingSigned"
  have one: "unscaled (Fin 1) (Zero False)" by (simp add: unscaled_def f_eq_def is_Zero_def)
  have enc: "encodeScalarValue f a allow = Inr raw" using assms(1) by (auto simp: encodeScalar_def ebind_Inr_iff)
  obtain scl ofs where lin: "unscaled scl ofs"
    "decodeScalar f raw allow = DecodeLinear (fd_bits f) ?signed raw scl ofs (fd_choices f) allow"
    using assms(2,4) one by (cases "fd_conversion f") (auto simp: decodeScalar_def isInteger_def)
  have signed: "stands_for (fd_choices f) (decodeScalar f raw allow) (sint (DecodeSigned (fd_bits f) raw))" if ?signed
    using that lin Label_stands [of "fd_choices f" "DecodeSigned (fd_bits f) raw"]
    by (auto simp: DecodeLinear_def Let_def split: option.splits) (simp_all add: stands_for_def)
  have unsigned: "stands_for (fd_choices f) (decodeScalar f raw allow) (uint raw)" if "\<not> ?signed"
    using that lin Label_stands [of "fd_choices f" raw] sint_uint_small [of raw]
    by (auto simp: DecodeLinear_def split: option.splits if_splits) (simp_all add: stands_for_def)
  show ?thesis
  proof (cases "StringValue a")
    case (Some l)
    then have a: "a = VString l" by (cases a) (auto simp: StringValue_def)
    obtain x where x: "find_label l (fd_choices f) None = Inr (Some x)"
      "if ?signed then EncodeSigned (fd_bits f) x = Inr raw else 0 \<le> sint x \<and> EncodeUnsigned (fd_bits f) x = Inr raw"
      using enc Some by (auto simp: encodeScalarValue_def RawForLabel_def ebind_Inr_iff split: option.splits if_splits)
    have "stands_for (fd_choices f) a k \<longleftrightarrow> k = sint x" for k
      using find_label_spec [OF x(1)] a by (auto simp: stands_for_def list_ex_iff list_all_iff)
    moreover have "stands_for (fd_choices f) (decodeScalar f raw allow) (sint x)"
      using x(2) signed unsigned DecodeSigned_EncodeSigned [of "fd_bits f" x raw]
        EncodeUnsigned_take_bit [of "fd_bits f" x raw] uint_sint_nonneg(1) [of x] by (auto split: if_splits)
    ultimately show ?thesis by blast
  next
    case None
    then have "encodeExact f a = Inr raw"
      using enc assms(2,4) by (auto simp: encodeScalarValue_def isInteger_def split: option.splits)
    then obtain x where "if ?signed then ExactSigned a = Inr x \<and> EncodeSigned (fd_bits f) x = Inr raw
        else ExactUnsigned a = Inr x \<and> EncodeUnsigned (fd_bits f) x = Inr raw"
      by (auto simp: encodeExact_def ebind_Inr_iff split: if_splits)
    then show ?thesis
      using signed unsigned ExactSigned_stands [of a x] ExactUnsigned_stands [of a x] assms(3)
        DecodeSigned_EncodeSigned [of "fd_bits f" x raw] EncodeUnsigned_take_bit [of "fd_bits f" x raw]
      by (auto split: if_splits)
  qed
qed

end
