(* ===== verification/Cdd_Theorems.thy ===== *)
theory Cdd_Theorems
  imports Cdd_Record
begin

unbundle bit_operations_syntax

text \<open>
  The CDD record codec: an encoded record decodes to what was encoded. With the resolver of the
  catalog follows that every record of a document has such a codec, or reports why it has none.
\<close>

section \<open>Encoding and decoding a record\<close>

definition unscaled_field :: "field \<Rightarrow> bool" where
  "unscaled_field f \<longleftrightarrow> isInteger f \<and>
     (case fd_conversion f of None \<Rightarrow> True | Some c \<Rightarrow> unscaled (lc_scale c) (lc_offset c))"

text \<open>The value read back for a field stands for exactly the integer the given value stands for.\<close>

definition keeps_integer :: "cdd_values \<Rightarrow> field \<Rightarrow> bool" where
  "keeps_integer vs f \<longleftrightarrow> (case map_of vs (fd_name f) of
       Some (Atom a) \<Rightarrow> unscaled_field f \<and> plain_literals a \<longrightarrow>
         (\<exists>u i. read_back vs f = Inr (fd_name f, Atom u) \<and>
            (\<forall>k. stands_for (fd_choices f) a k \<longleftrightarrow> k = i) \<and> stands_for (fd_choices f) u i)
     | _ \<Rightarrow> True)"

lemma read_back_keeps_integer:
  assumes "is_ok (read_back vs f)"
  shows "keeps_integer vs f"
proof -
  have "\<exists>u i. read_back vs f = Inr (fd_name f, Atom u) \<and>
      (\<forall>k. stands_for (fd_choices f) a k \<longleftrightarrow> k = i) \<and> stands_for (fd_choices f) u i"
    if a: "map_of vs (fd_name f) = Some (Atom a)" "unscaled_field f" "plain_literals a" for a
  proof -
    have "isInteger f" "fd_encoding f \<noteq> EncodingASCII" using a(2) by (auto simp: unscaled_field_def isInteger_def)
    then obtain raw where raw: "encodeScalar f a True = Inr raw"
      "read_back vs f = Inr (fd_name f, Atom (decodeScalar f raw True))"
      using assms a(1) by (auto simp: read_back_def passed_through_def is_ok_iff ebind_Inr_iff)
    from unscaled_field_keeps [OF raw(1) \<open>isInteger f\<close> a(3)] a(2) raw(2) show ?thesis
      by (auto simp: unscaled_field_def)
  qed
  then show ?thesis by (auto simp: keeps_integer_def split: option.splits cdd_value.splits)
qed

lemma emapM_ok_all: "is_ok (emapM f xs) \<Longrightarrow> list_all (\<lambda>x. is_ok (f x)) xs"
  by (induction xs) (auto simp: is_ok_iff ebind_Inr_iff)

lemma ready_round_trip:
  assumes "record_ready r" and "CddEncode r vs = Inr payload"
  shows "unat (rc_length r) \<le> length payload \<and> length payload \<le> unat (rc_maxLength r) \<and>
    (\<forall>p. reserved r p \<longrightarrow> \<not> bit_of payload p) \<and>
    CddDecode r payload = emapM (read_back vs) (rc_fields r) \<and> is_ok (CddDecode r payload)"
  using fixed_record [OF assms] variable_record [OF assms]
  by (cases "list_all (\<lambda>f. fd_variable f = None) (rc_fields r)") (simp_all del: split_paired_All)

text \<open>C37 A payload that \<open>Encode\<close> builds for a record whose fields are laid out apart has a length the
  record allows and zeros in its reserved bits, and \<open>Decode\<close> returns from it one value per field, in
  order: the text of an ASCII field, and for any other field each element passed through its own
  encoding and decoding. A number or label in an unscaled integer field comes back as a value that
  stands for the same integer.\<close>
theorem cdd_records_round_trip:
  assumes "record_ready r" and "CddEncode r vs = Inr payload"
  shows "unat (rc_length r) \<le> length payload \<and> length payload \<le> unat (rc_maxLength r) \<and>
    (\<forall>p. reserved r p \<longrightarrow> \<not> bit_of payload p) \<and>
    CddDecode r payload = emapM (read_back vs) (rc_fields r) \<and> is_ok (CddDecode r payload) \<and>
    list_all (keeps_integer vs) (rc_fields r)"
proof -
  note trip = ready_round_trip [OF assms]
  moreover from trip have "list_all (keeps_integer vs) (rc_fields r)"
    using emapM_ok_all [of "read_back vs" "rc_fields r"] by (auto simp: list_all_iff read_back_keeps_integer)
  ultimately show ?thesis by blast
qed

section \<open>Examples\<close>

definition demo_field :: "string \<Rightarrow> u32 \<Rightarrow> u32 \<Rightarrow> field" where
  "demo_field n offset bits = \<lparr>fd_name = n, fd_offset = offset, fd_bits = bits, fd_count = 1, fd_variable = None,
     fd_order = CddBig, fd_encoding = EncodingUnsigned, fd_conversion = None, fd_choices = [], fd_bitfield = None\<rparr>"

definition demo_container :: bitfield where
  "demo_container = \<lparr>bf_offset = 0, bf_length = 16, bf_order = CddBig\<rparr>"

definition demo_fields :: "field list" where
  "demo_fields =
     [(demo_field ''low'' 0 5)\<lparr>fd_bitfield := Some demo_container\<rparr>,
      (demo_field ''high'' 7 6)\<lparr>fd_bitfield := Some demo_container, fd_encoding := EncodingSigned\<rparr>,
      (demo_field ''mode'' 16 16)\<lparr>fd_order := CddLittle, fd_choices := [\<lparr>ch_value = 300, ch_label = ''on''\<rparr>]\<rparr>,
      (demo_field ''name'' 32 8)\<lparr>fd_encoding := EncodingASCII, fd_count := 2\<rparr>,
      (demo_field ''rest'' 48 16)\<lparr>fd_variable := Some \<lparr>ex_min = 1, ex_max = 3\<rparr>\<rparr>]"

definition demo_record :: cdd_record where
  "demo_record = (let r = \<lparr>rc_name = ''demo'', rc_length = 8, rc_maxLength = 12, rc_fields = demo_fields, rc_codec = None\<rparr>
     in r\<lparr>rc_codec := Some (compileRecordCodec r)\<rparr>)"

definition demo_values :: cdd_values where
  "demo_values = [(''rest'', Elements [VUint 1, VInt 0x203]), (''name'', Atom (VString ''AZ'')),
     (''mode'', Atom (VString ''on'')), (''high'', Atom (VInt (- 3))), (''low'', Atom (VUint 21))]"

lemma demo_ready: "record_ready demo_record"
  by code_simp

lemma demo_encoded:
  "CddEncode demo_record demo_values = Inr [0x1E, 0x95, 0x2C, 0x01, 0x41, 0x5A, 0x00, 0x01, 0x02, 0x03]"
  by code_simp

theorem cdd_records_round_trip_witness:
  "CddDecode demo_record [0x1E, 0x95, 0x2C, 0x01, 0x41, 0x5A, 0x00, 0x01, 0x02, 0x03] =
     emapM (read_back demo_values) (rc_fields demo_record) \<and> list_all (keeps_integer demo_values) (rc_fields demo_record)"
  using cdd_records_round_trip [OF demo_ready demo_encoded] by blast

end
