(* ===== verification/Cdd_Document.thy ===== *)
theory Cdd_Document
  imports Cdd_Codec
begin

unbundle bit_operations_syntax

text \<open>
  The decoded XML of a CDD document, \<open>cdd/xml.go\<close>, with the parts of \<open>strings\<close> and \<open>strconv\<close>
  the resolver reads attributes with, and the table of references of \<open>cdd/catalog.go\<close>. An element
  is a tree; the nil element is \<open>None\<close>. The identity of a node matters to the code only for nodes
  found by an XML id that no other node of the document has, where equal trees are equal nodes.
\<close>

section \<open>Text\<close>

text \<open>\<open>unicode.IsSpace\<close>, each space as its UTF-8 bytes.\<close>

definition utf8_spaces :: "string list" where
  "utf8_spaces =
     [[CHR 0x09], [CHR 0x0A], [CHR 0x0B], [CHR 0x0C], [CHR 0x0D], [CHR 0x20], [CHR 0xC2, CHR 0x85], [CHR 0xC2, CHR 0xA0],
      [CHR 0xE1, CHR 0x9A, CHR 0x80],
      [CHR 0xE2, CHR 0x80, CHR 0x80], [CHR 0xE2, CHR 0x80, CHR 0x81], [CHR 0xE2, CHR 0x80, CHR 0x82], [CHR 0xE2, CHR 0x80, CHR 0x83],
      [CHR 0xE2, CHR 0x80, CHR 0x84], [CHR 0xE2, CHR 0x80, CHR 0x85], [CHR 0xE2, CHR 0x80, CHR 0x86], [CHR 0xE2, CHR 0x80, CHR 0x87],
      [CHR 0xE2, CHR 0x80, CHR 0x88], [CHR 0xE2, CHR 0x80, CHR 0x89], [CHR 0xE2, CHR 0x80, CHR 0x8A], [CHR 0xE2, CHR 0x80, CHR 0xA8],
      [CHR 0xE2, CHR 0x80, CHR 0xA9], [CHR 0xE2, CHR 0x80, CHR 0xAF], [CHR 0xE2, CHR 0x81, CHR 0x9F], [CHR 0xE3, CHR 0x80, CHR 0x80]]"

fun strip :: "string list \<Rightarrow> nat \<Rightarrow> string \<Rightarrow> string" where
  "strip ws 0 s = s"
| "strip ws (Suc n) s =
     (case List.find (\<lambda>w. take (length w) s = w) ws of
        None \<Rightarrow> s
      | Some w \<Rightarrow> strip ws n (drop (length w) s))"

text \<open>A stripped space has at least one byte, so as many rounds as bytes are enough.\<close>

definition TrimSpace :: "string \<Rightarrow> string" where
  "TrimSpace s =
     (let left = strip utf8_spaces (length s) s
      in rev (strip (map rev utf8_spaces) (length left) (rev left)))"

definition TrimPrefix :: "string \<Rightarrow> string \<Rightarrow> string" where
  "TrimPrefix s p = (if take (length p) s = p then drop (length p) s else s)"

definition TrimSuffix :: "string \<Rightarrow> string \<Rightarrow> string" where
  "TrimSuffix s p = rev (TrimPrefix (rev s) (rev p))"

text \<open>\<open>strings.Split\<close> at a separator of one byte.\<close>

fun Split :: "char \<Rightarrow> string \<Rightarrow> string list" where
  "Split c [] = [[]]"
| "Split c (x # xs) = (if x = c then [] # Split c xs
     else (case Split c xs of [] \<Rightarrow> [[x]] | t # ts \<Rightarrow> (x # t) # ts))"

section \<open>Numbers\<close>

definition digit :: "char \<Rightarrow> nat option" where
  "digit c = (let n = of_char c :: nat in if 48 \<le> n \<and> n \<le> 57 then Some (n - 48) else None)"

definition hex_digit :: "char \<Rightarrow> nat option" where
  "hex_digit c = (let n = of_char c :: nat in
     if 48 \<le> n \<and> n \<le> 57 then Some (n - 48)
     else if 97 \<le> n \<and> n \<le> 102 then Some (n - 87)
     else if 65 \<le> n \<and> n \<le> 70 then Some (n - 55) else None)"

fun decimal :: "string \<Rightarrow> nat \<Rightarrow> nat option" where
  "decimal [] n = Some n"
| "decimal (c # cs) n = (case digit c of None \<Rightarrow> None | Some d \<Rightarrow> decimal cs (10 * n + d))"

text \<open>\<open>strconv.ParseUint(s, 10, bits)\<close>, \<open>strconv.ParseInt(s, 10, bits)\<close> and \<open>strconv.Atoi\<close>.\<close>

definition ParseUint :: "string \<Rightarrow> nat \<Rightarrow> nat option" where
  "ParseUint s bits =
     (if s = [] then None
      else case decimal s 0 of None \<Rightarrow> None | Some n \<Rightarrow> if int n < 2 ^ bits then Some n else None)"

definition ParseInt :: "string \<Rightarrow> nat \<Rightarrow> int option" where
  "ParseInt s bits =
     (if s = [] then None
      else
        let neg = hd s = CHR ''-''; s' = (if neg \<or> hd s = CHR ''+'' then tl s else s)
        in (case ParseUint s' bits of
              None \<Rightarrow> None
            | Some n \<Rightarrow>
                if \<not> neg \<and> int n \<ge> 2 ^ (bits - 1) \<or> neg \<and> int n > 2 ^ (bits - 1) then None
                else Some (if neg then - int n else int n)))"

definition Atoi :: "string \<Rightarrow> int option" where
  "Atoi s = ParseInt s 64"

text \<open>
  \<open>strconv.ParseFloat(s, 64)\<close> as far as it gives a finite value: a decimal or hexadecimal literal
  with underscores between digits. The spelled infinities and NaN are rejected by the caller.
\<close>

definition lower :: "char \<Rightarrow> char" where
  "lower c = (let n = of_char c :: nat in if 65 \<le> n \<and> n \<le> 90 then char_of (n + 32) else c)"

text \<open>The mantissa: digits so far, their number behind the point, whether a point and a digit were seen.\<close>

fun mantissa :: "bool \<Rightarrow> string \<Rightarrow> nat \<Rightarrow> nat \<Rightarrow> bool \<Rightarrow> bool \<Rightarrow> (nat \<times> nat \<times> bool \<times> string)" where
  "mantissa hex [] m behind dot seen = (m, behind, seen, [])"
| "mantissa hex (c # cs) m behind dot seen =
     (if c = CHR ''_'' then mantissa hex cs m behind dot seen
      else if c = CHR ''.'' then if dot then (m, behind, seen, c # cs) else mantissa hex cs m behind True seen
      else case (if hex then hex_digit c else digit c) of
          None \<Rightarrow> (m, behind, seen, c # cs)
        | Some d \<Rightarrow> mantissa hex cs ((if hex then 16 else 10) * m + d) (if dot then behind + 1 else behind) dot True)"

fun exponent_digits :: "string \<Rightarrow> nat \<Rightarrow> nat option" where
  "exponent_digits [] e = Some e"
| "exponent_digits (c # cs) e =
     (if c = CHR ''_'' then exponent_digits cs e
      else case digit c of
          None \<Rightarrow> None
        | Some d \<Rightarrow> exponent_digits cs (if e < 10000 then 10 * e + d else e))"

text \<open>What was read last: nothing or anything else, a digit, or an underscore.\<close>

datatype saw = SawOther | SawDigit | SawUnderscore

fun underscores :: "bool \<Rightarrow> saw \<Rightarrow> string \<Rightarrow> bool" where
  "underscores hex saw [] = (saw \<noteq> SawUnderscore)"
| "underscores hex saw (c # cs) =
     (if (if hex then hex_digit c else digit c) \<noteq> None then underscores hex SawDigit cs
      else if c = CHR ''_'' then saw = SawDigit \<and> underscores hex SawUnderscore cs
      else saw \<noteq> SawUnderscore \<and> underscores hex SawOther cs)"

definition unsigned_part :: "string \<Rightarrow> string" where
  "unsigned_part s = (if s \<noteq> [] \<and> (hd s = CHR ''-'' \<or> hd s = CHR ''+'') then tl s else s)"

definition underscoreOK :: "string \<Rightarrow> bool" where
  "underscoreOK s =
     (let t = unsigned_part s in
      if length t \<ge> 2 \<and> t ! 0 = CHR ''0'' \<and> lower (t ! 1) \<in> set ''box''
      then underscores (lower (t ! 1) = CHR ''x'') SawDigit (drop 2 t)
      else underscores False SawOther t)"

definition ParseFiniteFloat :: "string \<Rightarrow> f64 option" where
  "ParseFiniteFloat s =
     (let neg = (s \<noteq> [] \<and> hd s = CHR ''-''); t = unsigned_part s;
          hex = (length t > 2 \<and> t ! 0 = CHR ''0'' \<and> lower (t ! 1) = CHR ''x'')
      in case mantissa hex (if hex then drop 2 t else t) 0 0 False False of (m, behind, seen, rest) \<Rightarrow>
        let e = (if rest = [] then if hex then None else Some 0
              else if lower (hd rest) = (if hex then CHR ''p'' else CHR ''e'') then
                let sgn = (if length rest > 1 \<and> rest ! 1 = CHR ''-'' then -1 else 1 :: int);
                    ds = unsigned_part (tl rest)
                in if ds = [] \<or> digit (hd ds) = None then None
                   else map_option (\<lambda>n. sgn * int n) (exponent_digits ds 0)
              else None)
        in (case e of
              None \<Rightarrow> None
            | Some e \<Rightarrow>
                if \<not> seen \<or> CHR ''_'' \<in> set s \<and> \<not> underscoreOK s then None
                else if m = 0 then Some (Zero neg)
                else let base = (if hex then 2 else 10 :: rat); k = e - (if hex then 4 * int behind else int behind);
                         x = of_nat m * (if k \<ge> 0 then base ^ nat k else 1 / base ^ nat (- k));
                         f = rnd64 (if neg then - x else x)
                     in if is_Inf f then None else Some f))"

text \<open>Comparisons with \<open>math.MaxUint32\<close>, computed in the integers.\<close>

definition beyond_u32 :: "nat \<Rightarrow> bool" where
  "beyond_u32 n \<longleftrightarrow> int n > 4294967295"

lemma beyond_u32_iff: "beyond_u32 n \<longleftrightarrow> n > 4294967295"
  by (simp add: beyond_u32_def)

section \<open>Elements\<close>

datatype element = Element (el_name: string) (el_attrs: "(string \<times> string) list")
  (el_children: "element list") (el_text: string)

definition attributeValue :: "element option \<Rightarrow> string \<Rightarrow> string option" where
  "attributeValue node n = (case node of None \<Rightarrow> None | Some e \<Rightarrow> map_of (el_attrs e) n)"

definition attr :: "element option \<Rightarrow> string \<Rightarrow> string" where
  "attr node n = (case attributeValue node n of None \<Rightarrow> [] | Some v \<Rightarrow> v)"

definition child :: "element option \<Rightarrow> string \<Rightarrow> element option" where
  "child node n = (case node of None \<Rightarrow> None | Some e \<Rightarrow> List.find (\<lambda>c. el_name c = n) (el_children e))"

definition childrenNamed :: "element option \<Rightarrow> string \<Rightarrow> element list" where
  "childrenNamed node n = (case node of None \<Rightarrow> [] | Some e \<Rightarrow> filter (\<lambda>c. el_name c = n) (el_children e))"

definition childText :: "element option \<Rightarrow> string \<Rightarrow> string" where
  "childText node n = (case child node n of None \<Rightarrow> [] | Some e \<Rightarrow> TrimSpace (el_text e))"

section \<open>References\<close>

record state =
  st_index :: nat
  st_groupIndex :: nat
  st_groupSpec :: string

text \<open>
  The maps of the code are lists of bindings here, the newest first. A repeated id maps to the
  nil element. \<open>rs_states\<close> is set when a variant is selected.
\<close>

record resolver =
  rs_ecuDoc :: element
  rs_byID :: "(string \<times> element option) list"
  rs_datatypes :: "(string \<times> element option) list"
  rs_states :: "state list"

fun index_node :: "element \<Rightarrow> (string \<times> element option) list \<Rightarrow> (string \<times> element option) list" where
  "index_node (Element n as cs t) m =
     (let node = Element n as cs t; i = attr (Some node) ''id'';
          m' = (if i = [] then m else (i, if map_of m i = None then Some node else None) # m)
      in fold index_node cs m')"

text \<open>A lookup that gives nil for a missing key.\<close>

definition node_at :: "(string \<times> element option) list \<Rightarrow> string \<Rightarrow> element option" where
  "node_at m i = (case map_of m i of None \<Rightarrow> None | Some e \<Rightarrow> e)"

definition newResolver :: "element \<Rightarrow> resolver" where
  "newResolver ecuDoc =
     (let byID = index_node ecuDoc [];
          ids = (case child (Some ecuDoc) ''DATATYPES'' of
                   None \<Rightarrow> [] | Some d \<Rightarrow> filter (\<lambda>i. i \<noteq> []) (map (\<lambda>c. attr (Some c) ''id'') (el_children d)))
      in \<lparr>rs_ecuDoc = ecuDoc, rs_byID = byID, rs_datatypes = map (\<lambda>i. (i, node_at byID i)) ids, rs_states = []\<rparr>)"

text \<open>Errors by the part of the resolver that reports them.\<close>

datatype reference_problem = DoesNotResolve | AmbiguousReference | WrongKind string

datatype conversion_problem =
    ConversionWithout string
  | ConversionInvalid string string
  | ConversionZeroDivisor
  | ConversionScale
  | ConversionLimit string string
  | ConversionReversed

datatype field_problem =
    UnknownDatatype string
  | AmbiguousDeclarations
  | NoCodedType
  | InvalidBitLength string
  | UnsupportedFieldEncoding string
  | InvalidSizeBounds string string
  | EmptyField
  | BitLengthOverflows
  | UnsupportedQuantity string
  | UnknownByteOrder string
  | BadConversion conversion_problem
  | LINCOMPWithoutCOMP
  | InvalidChoiceRange string string
  | ChoiceWithoutLabel

datatype struct_problem =
    StructContainer
  | StructTooLong
  | StructArrayNotIdent
  | StructArrayElements
  | StructAtomic
  | StructChild string
  | InvalidStructGap string
  | NestedStruct
  | UnsupportedStructItem string
  | StructOverfull
  | ReverseDeclaration
  | ReverseNotEnum
  | ReverseRepeated
  | ReverseValue string

datatype record_problem =
    NoQualifier
  | NestingTooDeep
  | VariableFollowed string string
  | InvalidGap string
  | GapNotAligned
  | DIDReferenceUnresolved string
  | DIDReferenceCycle string
  | NoStructure string
  | UnsupportedItem string
  | RecordTooLong
  | ManyContainers string
  | NoContainer string
  | ManyProxies string
  | NoProxy string

datatype state_problem =
    NotExecUnsupported
  | TemplateMayBeExecUnsupported
  | InvalidMayBeExec string
  | MayBeExecState string
  | TemplateTransUnsupported
  | InvalidTrans string
  | TransUnpaired string
  | TransState string
  | TransCrossesGroups string nat nat
  | TransConflict string nat

datatype service_problem =
    ServiceTemplateForeign string string
  | NoREQ
  | NoServiceID
  | UnsupportedProxyDestination string
  | UnsupportedComponent string
  | ManyDataComponents
  | ParameterDatatype string string
  | StaticBindings string nat
  | StaticValues string nat
  | ParameterWidth string string
  | ParameterNoValue string
  | ParameterValue string nat string

datatype did_problem =
    DIDMessage
  | DIDDisagree
  | NoDIDIdentifier
  | DIDNameAmbiguous string
  | DIDIdentifierAmbiguous u16

datatype select_problem = NotParsed | NoChoices string | ManyChoices string nat | ChoiceIndex string int nat

datatype catalog_error =
    ReferenceError string string reference_problem
  | FieldError string field_problem
  | StructError struct_problem
  | RecordError record_problem
  | StateError state_problem
  | ServiceError service_problem
  | DIDError did_problem
  | CodecProblem cdd_error
  | SelectError select_problem

definition reference :: "resolver \<Rightarrow> string \<Rightarrow> string \<Rightarrow> catalog_error + element" where
  "reference r i kind =
     (case map_of (rs_byID r) i of
        None \<Rightarrow> Inl (ReferenceError kind i DoesNotResolve)
      | Some None \<Rightarrow> Inl (ReferenceError kind i AmbiguousReference)
      | Some (Some node) \<Rightarrow> if el_name node \<noteq> kind then Inl (ReferenceError kind i (WrongKind (el_name node))) else Inr node)"

end
