(* ===== verification/Cdd_Resolver.thy ===== *)
theory Cdd_Resolver
  imports Cdd_Document
begin

unbundle bit_operations_syntax

text \<open>
  How the records of a CDD document are laid out: \<open>cdd/parse.go\<close>, the bit fields of
  \<open>cdd/bitfield.go\<close> and the conversions of \<open>cdd/conversion.go\<close>. Bit offsets are \<open>uint64\<close> in the
  code and natural numbers here: one stays below 2^32 before an item adds less than 2^32 to it.
  Presentation metadata, and the groups made of it, are left out.
\<close>

section \<open>Conversions\<close>

definition conversion_number :: "element \<Rightarrow> string \<Rightarrow> f64 option \<Rightarrow> conversion_problem + f64" where
  "conversion_number cnv n fallback =
     (case (attributeValue (Some cnv) n, fallback) of
        (None, Some d) \<Rightarrow> Inr d
      | (None, None) \<Rightarrow> Inl (ConversionWithout n)
      | (Some v, _) \<Rightarrow> (case ParseFiniteFloat v of None \<Rightarrow> Inl (ConversionInvalid n v) | Some x \<Rightarrow> Inr x))"

text \<open>A raw limit, kept as an unsigned key: a signed value has its sign bit flipped.\<close>

definition conversion_limit :: "element \<Rightarrow> bool \<Rightarrow> string \<Rightarrow> conversion_problem + u64 option" where
  "conversion_limit cnv sgnd n =
     (case attributeValue (Some cnv) n of
        None \<Rightarrow> Inr None
      | Some v \<Rightarrow>
          (case (if sgnd then map_option (\<lambda>i. word_of_int i XOR push_bit 63 1) (ParseInt v 64)
                 else map_option word_of_nat (ParseUint v 64)) of
             None \<Rightarrow> Inl (ConversionLimit n v)
           | Some key \<Rightarrow> Inr (Some key)))"

definition parseConversion :: "element \<Rightarrow> bool \<Rightarrow> conversion_problem + linear_conversion" where
  "parseConversion cnv sgnd =
     ebind (conversion_number cnv ''f'' None) (\<lambda>factor.
     ebind (conversion_number cnv ''o'' None) (\<lambda>offset.
     ebind (conversion_number cnv ''div'' (Some (Fin 1))) (\<lambda>divisor.
     if is_Zero divisor then Inl ConversionZeroDivisor
     else let scl = f_div factor divisor in
       if is_Inf scl \<or> \<not> is_Zero factor \<and> is_Zero scl then Inl ConversionScale
       else
         ebind (conversion_limit cnv sgnd ''s'') (\<lambda>minimum.
         ebind (conversion_limit cnv sgnd ''e'') (\<lambda>maximum.
         if (case (minimum, maximum) of (Some a, Some b) \<Rightarrow> a > b | _ \<Rightarrow> False) then Inl ConversionReversed
         else Inr \<lparr>lc_scale = scl, lc_offset = offset, lc_minimum = minimum, lc_maximum = maximum\<rparr>)))))"

section \<open>Fields\<close>

definition parseBound :: "string \<Rightarrow> int option" where
  "parseBound v = ParseInt (TrimSuffix (TrimPrefix (TrimSpace v) ''('') '')'') 64"

definition parseEncoding :: "string \<Rightarrow> encoding" where
  "parseEncoding s =
     (if s = ''uns'' then EncodingUnsigned else if s = ''sgn'' then EncodingSigned
      else if s = ''asc'' then EncodingASCII else if s = ''utf'' then EncodingUTF
      else if s = ''bcd'' then EncodingBCD else if s = ''flt'' then EncodingFloat
      else if s = ''dbl'' then EncodingDouble else EncodingOther s)"

definition known_encoding :: "encoding \<Rightarrow> bool" where
  "known_encoding e = (case e of EncodingOther _ \<Rightarrow> False | _ \<Rightarrow> True)"

text \<open>The choices a datatype declares; a labelled range is skipped.\<close>

fun text_choices :: "element list \<Rightarrow> field_problem + choice list" where
  "text_choices [] = Inr []"
| "text_choices (t # ts) =
     (case (parseBound (attr (Some t) ''s''), parseBound (attr (Some t) ''e'')) of
        (Some first, Some final) \<Rightarrow>
          if first \<noteq> final then text_choices ts
          else let l = childText (child (Some t) ''TEXT'') ''TUV'' in
            if l = [] then Inl ChoiceWithoutLabel
            else ebind (text_choices ts) (\<lambda>cs. Inr (\<lparr>ch_value = word_of_int first, ch_label = l\<rparr> # cs))
      | _ \<Rightarrow> Inl (InvalidChoiceRange (attr (Some t) ''s'') (attr (Some t) ''e'')))"

text \<open>The count and the extent of a coded element that may repeat.\<close>

definition coded_quantity :: "element \<Rightarrow> u32 \<Rightarrow> field_problem + u32 \<times> extent option" where
  "coded_quantity coded bits =
     (let qty = attr (Some coded) ''qty'' in
      if qty = ''field'' then
        let least = attr (Some coded) ''minsz''; most = attr (Some coded) ''maxsz'' in
        (case (ParseUint least 32, ParseUint most 32) of
           (Some minimum, Some maximum) \<Rightarrow>
             if minimum > maximum then Inl (InvalidSizeBounds least most)
             else if maximum = 0 then Inl EmptyField
             else if int maximum > 4294967295 div uint bits then Inl BitLengthOverflows
             else Inr (word_of_nat minimum,
               if minimum \<noteq> maximum then Some \<lparr>ex_min = word_of_nat minimum, ex_max = word_of_nat maximum\<rparr> else None)
         | _ \<Rightarrow> Inl (InvalidSizeBounds least most))
      else if qty \<noteq> [] \<and> qty \<noteq> ''atom'' then Inl (UnsupportedQuantity qty)
      else Inr (1, None))"

definition coded_order :: "element \<Rightarrow> field_problem + cdd_order" where
  "coded_order coded =
     (let bo = attr (Some coded) ''bo'' in
      if bo = ''21'' then Inr CddBig else if bo = ''12'' then Inr CddLittle else Inl (UnknownByteOrder bo))"

definition field_of_datatype :: "element \<Rightarrow> string \<Rightarrow> nat \<Rightarrow> field_problem + field" where
  "field_of_datatype datatype name offset =
     (if length (childrenNamed (Some datatype) ''CVALUETYPE'') > 1 \<or> length (childrenNamed (Some datatype) ''COMP'') > 1
      then Inl AmbiguousDeclarations
      else case child (Some datatype) ''CVALUETYPE'' of
          None \<Rightarrow> Inl NoCodedType
        | Some coded \<Rightarrow>
            (case ParseUint (attr (Some coded) ''bl'') 32 of
               None \<Rightarrow> Inl (InvalidBitLength (attr (Some coded) ''bl''))
             | Some n \<Rightarrow>
                 if n = 0 then Inl (InvalidBitLength (attr (Some coded) ''bl''))
                 else let bits = word_of_nat n; enc = parseEncoding (attr (Some coded) ''enc'') in
                   if \<not> known_encoding enc then Inl (UnsupportedFieldEncoding (attr (Some coded) ''enc''))
                   else ebind (coded_quantity coded bits) (\<lambda>(count, ext).
                     ebind (coded_order coded) (\<lambda>ord.
                     ebind (case child (Some datatype) ''COMP'' of
                         Some cnv \<Rightarrow> emap BadConversion (ebind (parseConversion cnv (enc = EncodingSigned)) (\<lambda>c. Inr (Some c)))
                       | None \<Rightarrow> if el_name datatype = ''LINCOMP'' then Inl LINCOMPWithoutCOMP else Inr None) (\<lambda>conversion.
                     ebind (text_choices (childrenNamed (Some datatype) ''TEXTMAP'')) (\<lambda>choices.
                     Inr \<lparr>fd_name = name, fd_offset = word_of_nat offset, fd_bits = bits, fd_count = count,
                       fd_variable = ext, fd_order = ord, fd_encoding = enc, fd_conversion = conversion,
                       fd_choices = choices, fd_bitfield = None\<rparr>))))))"

definition resolveFieldDatatype :: "resolver \<Rightarrow> element \<Rightarrow> string \<Rightarrow> nat \<Rightarrow> catalog_error + field" where
  "resolveFieldDatatype r data name offset =
     (case node_at (rs_datatypes r) (attr (Some data) ''dtref'') of
        None \<Rightarrow> Inl (FieldError name (UnknownDatatype (attr (Some data) ''dtref'')))
      | Some datatype \<Rightarrow> emap (FieldError name) (field_of_datatype datatype name offset))"

definition resolveField :: "resolver \<Rightarrow> element \<Rightarrow> nat \<Rightarrow> catalog_error + field" where
  "resolveField r data offset =
     (let name = childText (Some data) ''QUAL'' in
      if name = [] then Inl (RecordError NoQualifier) else resolveFieldDatatype r data name offset)"

section \<open>Bit fields\<close>

text \<open>
  The declaration of the attribute among the document's datatype attributes, and the enumeration
  values of a datatype that refer to it.
\<close>

fun find_declaration :: "resolver \<Rightarrow> element list \<Rightarrow> element option \<Rightarrow> catalog_error + element option" where
  "find_declaration r [] declaration = Inr declaration"
| "find_declaration r (c # cs) declaration =
     (if childText (Some c) ''QUAL'' \<noteq> ''ReverseBitfieldBytes'' \<and> childText (Some c) ''QUAL'' \<noteq> ''ReverseBitFieldBytes''
      then find_declaration r cs declaration
      else if declaration \<noteq> None \<or> el_name c \<noteq> ''ENUMDEF'' then Inl (StructError ReverseDeclaration)
      else ebind (reference r (attr (Some c) ''id'') ''ENUMDEF'') (\<lambda>d. find_declaration r cs (Some d)))"

fun find_override :: "resolver \<Rightarrow> element option \<Rightarrow> element list \<Rightarrow> element option \<Rightarrow> catalog_error + element option" where
  "find_override r declaration [] override = Inr override"
| "find_override r declaration (a # as) override =
     (if el_name a \<noteq> ''ENUM'' then
        if declaration \<noteq> None \<and> attr (Some a) ''attrref'' = attr declaration ''id'' then Inl (StructError ReverseNotEnum)
        else find_override r declaration as override
      else ebind (reference r (attr (Some a) ''attrref'') ''ENUMDEF'') (\<lambda>target.
        if Some target \<noteq> declaration then find_override r declaration as override
        else if override \<noteq> None then Inl (StructError ReverseRepeated)
        else find_override r declaration as (Some a)))"

definition reverseBitfieldBytes :: "resolver \<Rightarrow> element \<Rightarrow> catalog_error + bool" where
  "reverseBitfieldBytes r datatype =
     (let scopes = childrenNamed (child (Some (rs_ecuDoc r)) ''DEFATTS'') ''DATATYPEATTS'';
          candidates = concat (map el_children scopes)
      in ebind (find_declaration r candidates None) (\<lambda>declaration.
         ebind (find_override r declaration (el_children datatype) None) (\<lambda>override.
         if declaration = None then Inr False
         else let v = (if override \<noteq> None then attr override ''v'' else attr declaration ''v'') in
           (case ParseInt v 64 of None \<Rightarrow> Inl (StructError (ReverseValue v)) | Some n \<Rightarrow> Inr (n \<noteq> 0)))))"

definition presentation :: "string \<Rightarrow> bool" where
  "presentation n \<longleftrightarrow> n = ''NAME'' \<or> n = ''QUAL'' \<or> n = ''DESC''"

text \<open>One child of a STRUCT: the fields so far and the position in the container.\<close>

definition struct_child :: "resolver \<Rightarrow> bitfield \<Rightarrow> element \<Rightarrow> field list \<times> nat \<Rightarrow> catalog_error + field list \<times> nat" where
  "struct_child r b c st = (case st of (fs, position) \<Rightarrow>
     ebind (if presentation (el_name c) then Inr (fs, position)
       else if el_name c = ''DATAOBJ'' then
         ebind (resolveField r c position) (\<lambda>f.
           if fd_variable f \<noteq> None \<or> fd_count f \<noteq> 1 \<or>
              attr (child (node_at (rs_datatypes r) (attr (Some c) ''dtref'')) ''CVALUETYPE'') ''qty'' = ''field'' \<or>
              \<not> isInteger f \<or> fd_bits f > 64
           then Inl (StructError (StructChild (fd_name f)))
           else Inr (fs @ [f\<lparr>fd_bitfield := Some b\<rparr>], position + unat (fd_bits f)))
       else if el_name c = ''GAPDATAOBJ'' then
         (case ParseUint (attr (Some c) ''bl'') 32 of
            None \<Rightarrow> Inl (StructError (InvalidStructGap (attr (Some c) ''bl'')))
          | Some gap \<Rightarrow> Inr (fs, position + gap))
       else if el_name c = ''STRUCT'' then Inl (StructError NestedStruct)
       else Inl (StructError (UnsupportedStructItem (el_name c)))) (\<lambda>(fs', position').
     if position' > unat (bf_length b) then Inl (StructError StructOverfull) else Inr (fs', position')))"

text \<open>The byte order of a container: its own, or for an array of bytes the document's choice.\<close>

definition container_order :: "resolver \<Rightarrow> element \<Rightarrow> field \<Rightarrow> catalog_error + cdd_order" where
  "container_order r datatype container =
     (if attr (child (Some datatype) ''CVALUETYPE'') ''qty'' = ''field'' then
        if el_name datatype \<noteq> ''IDENT'' then Inl (StructError StructArrayNotIdent)
        else if fd_bits container \<noteq> 8 \<or> \<not> isInteger container \<and> fd_encoding container \<noteq> EncodingASCII
          then Inl (StructError StructArrayElements)
        else ebind (reverseBitfieldBytes r datatype) (\<lambda>reversed. Inr (if reversed then CddLittle else CddBig))
      else if fd_bits container > 64 \<or> \<not> isInteger container then Inl (StructError StructAtomic)
      else Inr (fd_order container))"

definition appendBitfield :: "resolver \<Rightarrow> element \<Rightarrow> field list \<times> nat \<Rightarrow> catalog_error + field list \<times> nat" where
  "appendBitfield r node st = (case st of (fs, offset) \<Rightarrow>
     ebind (resolveFieldDatatype r node ''STRUCT'' offset) (\<lambda>container.
     case node_at (rs_datatypes r) (attr (Some node) ''dtref'') of
       None \<Rightarrow> Inl (StructError StructContainer)
     | Some datatype \<Rightarrow>
         if el_name datatype \<noteq> ''IDENT'' \<and> el_name datatype \<noteq> ''TEXTTBL'' \<or> fd_conversion container \<noteq> None \<or>
            fd_variable container \<noteq> None \<or> BitSize container mod 8 \<noteq> 0 \<or> offset mod 8 \<noteq> 0
         then Inl (StructError StructContainer)
         else if beyond_u32 (offset + unat (BitSize container)) then Inl (StructError StructTooLong)
         else ebind (container_order r datatype container) (\<lambda>ord.
           let b = \<lparr>bf_offset = word_of_nat offset, bf_length = BitSize container, bf_order = ord\<rparr> in
           ebind (efold (struct_child r b) (el_children node) (fs, 0)) (\<lambda>(fs', _).
           Inr (fs', offset + unat (bf_length b))))))"

section \<open>Records\<close>

text \<open>One item of a record; \<open>nested\<close> appends the fields of a shared DID at the next level.\<close>

definition append_item :: "resolver \<Rightarrow> (string list \<Rightarrow> element list \<Rightarrow> field list \<times> nat \<Rightarrow> catalog_error + field list \<times> nat) \<Rightarrow>
    string list \<Rightarrow> element \<Rightarrow> field list \<times> nat \<Rightarrow> catalog_error + field list \<times> nat" where
  "append_item r nested active item st = (case st of (fs, offset) \<Rightarrow>
     if fs \<noteq> [] \<and> fd_variable (last fs) \<noteq> None \<and> \<not> presentation (el_name item)
     then Inl (RecordError (VariableFollowed (fd_name (last fs)) (el_name item)))
     else ebind (if presentation (el_name item) then Inr (fs, offset)
       else if el_name item = ''DATAOBJ'' then
         ebind (resolveField r item offset) (\<lambda>f. Inr (fs @ [f], offset + unat (BitSize f)))
       else if el_name item = ''GAPDATAOBJ'' then
         (case ParseUint (attr (Some item) ''bl'') 32 of
            None \<Rightarrow> Inl (RecordError (InvalidGap (attr (Some item) ''bl'')))
          | Some gap \<Rightarrow>
              if gap mod 8 \<noteq> 0 \<or> offset mod 8 \<noteq> 0 then Inl (RecordError GapNotAligned)
              else Inr (fs, offset + gap))
       else if el_name item = ''STRUCT'' then appendBitfield r item (fs, offset)
       else if el_name item = ''DIDDATAREF'' then
         let ref = attr (Some item) ''didRef'' in
         (case node_at (rs_byID r) ref of
            None \<Rightarrow> Inl (RecordError (DIDReferenceUnresolved ref))
          | Some shared \<Rightarrow>
              if el_name shared \<noteq> ''DID'' then Inl (RecordError (DIDReferenceUnresolved ref))
              else if ref \<in> set active then Inl (RecordError (DIDReferenceCycle ref))
              else (case child (Some shared) ''STRUCTURE'' of
                  None \<Rightarrow> Inl (RecordError (NoStructure ref))
                | Some structure \<Rightarrow> nested (ref # active) (el_children structure) (fs, offset)))
       else Inl (RecordError (UnsupportedItem (el_name item)))) (\<lambda>(fs', offset').
     if beyond_u32 offset' then Inl (RecordError RecordTooLong) else Inr (fs', offset')))"

text \<open>The first argument counts the nesting levels left.\<close>

primrec append_fields :: "nat \<Rightarrow> resolver \<Rightarrow> string list \<Rightarrow> element list \<Rightarrow> field list \<times> nat \<Rightarrow>
    catalog_error + field list \<times> nat" where
  "append_fields 0 r active items st = Inl (RecordError NestingTooDeep)"
| "append_fields (Suc levels) r active items st = efold (append_item r (append_fields levels r) active) items st"

definition maxRecordNesting :: nat where
  "maxRecordNesting = 256"

definition appendFields :: "resolver \<Rightarrow> element list \<Rightarrow> catalog_error + field list \<times> nat" where
  "appendFields r items = append_fields (Suc maxRecordNesting) r [] items ([], 0)"

fun resolveFields :: "resolver \<Rightarrow> element \<Rightarrow> catalog_error + field list \<times> u32 \<times> u32" where
  "resolveFields r (Element name attrs items txt) =
     ebind (appendFields r items) (\<lambda>(fs, offset).
       let maximum = (if fs = [] then offset
             else offset + (unat (MaxBitSize (last fs)) - unat (BitSize (last fs)))) in
       if beyond_u32 maximum then Inl (RecordError RecordTooLong)
       else Inr (fs, word_of_nat offset, word_of_nat maximum))"

fun find_proxy :: "string \<Rightarrow> string \<Rightarrow> element list \<Rightarrow> element option \<Rightarrow> catalog_error + element option" where
  "find_proxy template component [] matched = Inr matched"
| "find_proxy template component (p # ps) matched =
     (if attr (Some p) ''dest'' \<noteq> ''data'' \<or> attr (Some p) ''id'' = [] \<or>
         component \<notin> set (map (\<lambda>c. attr (Some c) ''idref'') (childrenNamed (Some p) ''PROXYCOMPREF''))
      then find_proxy template component ps matched
      else if matched \<noteq> None then Inl (RecordError (ManyProxies template))
      else find_proxy template component ps (Some p))"

definition dataProxy :: "element \<Rightarrow> string \<Rightarrow> catalog_error + element" where
  "dataProxy classTemplate component =
     ebind (find_proxy (attr (Some classTemplate) ''id'') component (childrenNamed (Some classTemplate) ''SHPROXY'') None)
       (\<lambda>matched. case matched of
          None \<Rightarrow> Inl (RecordError (NoProxy (attr (Some classTemplate) ''id'')))
        | Some p \<Rightarrow> Inr p)"

definition resolveRecord :: "resolver \<Rightarrow> string \<Rightarrow> element \<Rightarrow> element \<Rightarrow> string \<Rightarrow> catalog_error + cdd_record" where
  "resolveRecord r name instance classTemplate component =
     ebind (dataProxy classTemplate component) (\<lambda>proxy.
     let i = attr (Some proxy) ''id'' in
     ebind (reference r i ''SHPROXY'') (\<lambda>_.
     case filter (\<lambda>c. attr (Some c) ''shproxyref'' = i) (childrenNamed (Some instance) ''SIMPLECOMPCONT'') of
       [] \<Rightarrow> Inl (RecordError (NoContainer i))
     | [selected] \<Rightarrow>
         ebind (resolveFields r selected) (\<lambda>(fs, bitLength, maxBitLength).
           let rec = \<lparr>rc_name = name, rc_length = word_of_nat ((unat bitLength + 7) div 8),
                 rc_maxLength = word_of_nat ((unat maxBitLength + 7) div 8), rc_fields = fs, rc_codec = None\<rparr>
           in Inr (rec\<lparr>rc_codec := Some (compileRecordCodec rec)\<rparr>))
     | _ \<Rightarrow> Inl (RecordError (ManyContainers i))))"

end
