(* ===== verification/Cdd_Catalog.thy ===== *)
theory Cdd_Catalog
  imports Cdd_Resolver
begin

text \<open>
  The catalog of one ECU variant: \<open>cdd/catalog.go\<close>, \<open>cdd/precondition.go\<close>, \<open>cdd/transition.go\<close>
  and the selection of \<open>cdd/document.go\<close>. Presentation metadata is left out but for the
  qualifiers that name instances. A joined error is the list of its parts. The diagnostics
  keep their path, as a list of steps, their kind and their error.
\<close>

section \<open>State lists\<close>

record precondition =
  pc_allowed :: "state list"
  pc_sessions :: "state list"
  pc_securityLevels :: "state list"
  pc_err :: "catalog_error option"

record transition_rule =
  tr_pairs :: "(state \<times> state) list"
  tr_err :: "catalog_error option"

text \<open>The text between the parentheses of a list.\<close>

definition list_body :: "string \<Rightarrow> string option" where
  "list_body v =
     (let l = TrimSpace v in
      if length l < 3 \<or> l ! 0 \<noteq> CHR ''('' \<or> l ! (length l - 1) \<noteq> CHR '')'' then None
      else Some (take (length l - 2) (drop 1 l)))"

definition state_position :: "state list \<Rightarrow> string \<Rightarrow> nat option" where
  "state_position states token =
     (case Atoi (TrimSpace token) of
        None \<Rightarrow> None
      | Some p \<Rightarrow> if p < 1 \<or> p > int (length states) then None else Some (nat p))"

definition resolveStateList :: "resolver \<Rightarrow> string option \<Rightarrow> string option \<Rightarrow> string option \<Rightarrow> string option \<Rightarrow>
    catalog_error + state list" where
  "resolveStateList r mayBeExec notExec templateMayBeExec templateNotExec =
     (if notExec \<noteq> None \<or> templateNotExec \<noteq> None then Inl (StateError NotExecUnsupported)
      else if templateMayBeExec \<noteq> None then Inl (StateError TemplateMayBeExecUnsupported)
      else case mayBeExec of
          None \<Rightarrow> Inr []
        | Some v \<Rightarrow>
            (case list_body v of
               None \<Rightarrow> Inl (StateError (InvalidMayBeExec v))
             | Some body \<Rightarrow>
                 ebind (emapM (\<lambda>t. case state_position (rs_states r) t of
                     None \<Rightarrow> Inl (StateError (MayBeExecState v)) | Some p \<Rightarrow> Inr p) (Split (CHR '','') body)) (\<lambda>positions.
                 Inr (map (\<lambda>k. rs_states r ! k) (filter (\<lambda>k. Suc k \<in> set positions) [0..<length (rs_states r)])))))"

fun precondition_of :: "resolver \<Rightarrow> element \<Rightarrow> element option \<Rightarrow> catalog_error option \<Rightarrow> precondition" where
  "precondition_of r node template (Some e) =
     \<lparr>pc_allowed = [], pc_sessions = [], pc_securityLevels = [], pc_err = Some e\<rparr>"
| "precondition_of r node template None =
     (case resolveStateList r (attributeValue (Some node) ''mayBeExec'')
         (attributeValue (Some node) ''notExecInStateGroups'') (attributeValue template ''mayBeExec'')
         (attributeValue template ''notExecInStateGroups'') of
        Inl e \<Rightarrow> \<lparr>pc_allowed = [], pc_sessions = [], pc_securityLevels = [], pc_err = Some e\<rparr>
      | Inr states \<Rightarrow> \<lparr>pc_allowed = states, pc_sessions = filter (\<lambda>s. st_groupSpec s = ''session'') states,
          pc_securityLevels = filter (\<lambda>s. st_groupSpec s = ''security'') states, pc_err = None\<rparr>)"

text \<open>The pairs of a flat list of states, with the destinations assigned so far.\<close>

fun transition_pairs :: "string \<Rightarrow> state list \<Rightarrow> (nat \<times> nat) list \<Rightarrow> catalog_error + (state \<times> state) list" where
  "transition_pairs v (from # to # rest) destinations =
     (if st_groupIndex from \<noteq> st_groupIndex to
        then Inl (StateError (TransCrossesGroups v (st_index from) (st_index to)))
      else if (case map_of destinations (st_index from) of None \<Rightarrow> False | Some p \<Rightarrow> p \<noteq> st_index to)
        then Inl (StateError (TransConflict v (st_index from)))
      else ebind (transition_pairs v rest ((st_index from, st_index to) # destinations))
             (\<lambda>pairs. Inr ((from, to) # pairs)))"
| "transition_pairs v _ destinations = Inr []"

definition transitionPairs :: "resolver \<Rightarrow> string \<Rightarrow> catalog_error + (state \<times> state) list" where
  "transitionPairs r v =
     (case list_body v of
        None \<Rightarrow> Inl (StateError (InvalidTrans v))
      | Some body \<Rightarrow>
          let tokens = Split (CHR '','') body in
          if length tokens mod 2 \<noteq> 0 then Inl (StateError (TransUnpaired v))
          else ebind (emapM (\<lambda>t. case state_position (rs_states r) t of
              None \<Rightarrow> Inl (StateError (TransState v)) | Some p \<Rightarrow> Inr (rs_states r ! (p - 1))) tokens) (\<lambda>states.
            transition_pairs v states []))"

fun transitions_of :: "resolver \<Rightarrow> element \<Rightarrow> element option \<Rightarrow> catalog_error option \<Rightarrow> transition_rule" where
  "transitions_of r node template (Some e) = \<lparr>tr_pairs = [], tr_err = Some e\<rparr>"
| "transitions_of r node template None =
     (if attributeValue template ''trans'' \<noteq> None
      then \<lparr>tr_pairs = [], tr_err = Some (StateError TemplateTransUnsupported)\<rparr>
      else case attributeValue (Some node) ''trans'' of
          None \<Rightarrow> \<lparr>tr_pairs = [], tr_err = None\<rparr>
        | Some v \<Rightarrow> (case transitionPairs r v of
              Inl e \<Rightarrow> \<lparr>tr_pairs = [], tr_err = Some e\<rparr>
            | Inr pairs \<Rightarrow> \<lparr>tr_pairs = pairs, tr_err = None\<rparr>))"

section \<open>Messages\<close>

record parameter =
  pa_spec :: string
  pa_value :: "string option"
  pa_numeric :: "u64 option"
  pa_bits :: u32
  pa_err :: "catalog_error list"

record cdd_message =
  ms_parameters :: "parameter list"
  ms_record :: "cdd_record option"
  ms_err :: "catalog_error list"

definition problem_of :: "catalog_error + 'a \<Rightarrow> catalog_error list" where
  "problem_of m = (case m of Inl e \<Rightarrow> [e] | Inr _ \<Rightarrow> [])"

text \<open>The static binding of a component: its value, if one is found, and what went wrong.\<close>

definition static_value :: "resolver \<Rightarrow> element \<Rightarrow> element \<Rightarrow> string \<Rightarrow> string option \<times> catalog_error list" where
  "static_value r instance classTemplate i =
     (let statics = filter (\<lambda>s. i \<in> set (map (\<lambda>c. attr (Some c) ''idref'') (childrenNamed (Some s) ''STATICCOMPREF'')))
            (childrenNamed (Some classTemplate) ''SHSTATIC'')
      in (case statics of
            [s] \<Rightarrow>
              (let j = attr (Some s) ''id'';
                   problems = problem_of (reference r j ''SHSTATIC'');
                   given = filter (\<lambda>v. attr (Some v) ''shstaticref'' = j) (childrenNamed (Some instance) ''STATICVALUE'')
               in (case given of
                     [v] \<Rightarrow> (attributeValue (Some v) ''v'', problems)
                   | _ \<Rightarrow> (None, problems @ [ServiceError (StaticValues j (length given))])))
          | _ \<Rightarrow> (None, [ServiceError (StaticBindings i (length statics))])))"

definition resolveParameter :: "resolver \<Rightarrow> element \<Rightarrow> element \<Rightarrow> element \<Rightarrow> parameter" where
  "resolveParameter r instance classTemplate component =
     (let i = attr (Some component) ''id'';
          err0 = (if el_name component = ''STATICCOMP'' \<or> i \<noteq> [] then problem_of (reference r i (el_name component)) else []);
          dt = attr (Some component) ''dtref'';
          (width, err1) = (if dt = [] then (attr (Some component) ''bl'', [])
            else case node_at (rs_datatypes r) dt of
                None \<Rightarrow> (attr (Some component) ''bl'', [ServiceError (ParameterDatatype i dt)])
              | Some datatype \<Rightarrow> (attr (child (Some datatype) ''CVALUETYPE'') ''bl'', []));
          (given, err2) = (if el_name component = ''CONSTCOMP'' then (attributeValue (Some component) ''v'', [])
            else static_value r instance classTemplate i);
          err = err0 @ err1 @ err2;
          p = \<lparr>pa_spec = attr (Some component) ''spec'', pa_value = given, pa_numeric = None, pa_bits = 0, pa_err = err\<rparr>
      in (case ParseUint width 32 of
            None \<Rightarrow> p\<lparr>pa_err := err @ [ServiceError (ParameterWidth i width)]\<rparr>
          | Some bits \<Rightarrow>
              if bits = 0 \<or> bits > 64 then p\<lparr>pa_err := err @ [ServiceError (ParameterWidth i width)]\<rparr>
              else let p = p\<lparr>pa_bits := word_of_nat bits\<rparr> in
                (case given of
                   None \<Rightarrow> p\<lparr>pa_err := err @ [ServiceError (ParameterNoValue i)]\<rparr>
                 | Some v \<Rightarrow>
                     (case ParseUint v bits of
                        None \<Rightarrow> p\<lparr>pa_err := err @ [ServiceError (ParameterValue i bits v)]\<rparr>
                      | Some n \<Rightarrow> if err = [] then p\<lparr>pa_numeric := Some (word_of_nat n)\<rparr> else p))))"

text \<open>One component of a message: the parameters, the problems and the data components so far.\<close>

definition message_component :: "resolver \<Rightarrow> element \<Rightarrow> element \<Rightarrow> element \<Rightarrow>
    parameter list \<times> catalog_error list \<times> element list \<Rightarrow> parameter list \<times> catalog_error list \<times> element list" where
  "message_component r instance classTemplate c st = (case st of (ps, problems, ds) \<Rightarrow>
     if presentation (el_name c) then (ps, problems, ds)
     else if el_name c = ''CONSTCOMP'' \<or> el_name c = ''STATICCOMP'' then
       let p = resolveParameter r instance classTemplate c in (ps @ [p], problems @ pa_err p, ds)
     else if el_name c = ''SIMPLEPROXYCOMP'' then
       if attr (Some c) ''dest'' = ''data'' then (ps, problems, ds @ [c])
       else (ps, problems @ [ServiceError (UnsupportedProxyDestination (attr (Some c) ''dest''))], ds)
     else (ps, problems @ [ServiceError (UnsupportedComponent (el_name c))], ds))"

text \<open>The record of a message's only data component.\<close>

fun data_record :: "resolver \<Rightarrow> element \<Rightarrow> element \<Rightarrow> element \<Rightarrow> catalog_error + cdd_record" where
  "data_record r instance classTemplate (Element name attrs items txt) =
     (let i = attr (Some (Element name attrs items txt)) ''id'' in
      ebind (reference r i ''SIMPLEPROXYCOMP'') (\<lambda>_.
      resolveRecord r (childText (Some instance) ''QUAL'') instance classTemplate i))"

fun resolveMessage :: "resolver \<Rightarrow> element \<Rightarrow> element \<Rightarrow> element option \<Rightarrow> cdd_message option" where
  "resolveMessage r instance classTemplate None = None"
| "resolveMessage r instance classTemplate (Some node) =
     (case fold (message_component r instance classTemplate) (el_children node) ([], [], []) of (ps, problems, ds) \<Rightarrow>
        (case ds of
           [] \<Rightarrow> Some \<lparr>ms_parameters = ps, ms_record = None, ms_err = problems\<rparr>
         | [c] \<Rightarrow>
             (case data_record r instance classTemplate c of
                Inl e \<Rightarrow> Some \<lparr>ms_parameters = ps, ms_record = None, ms_err = problems @ [e]\<rparr>
              | Inr rec \<Rightarrow> Some \<lparr>ms_parameters = ps, ms_record = Some rec, ms_err = problems\<rparr>)
         | _ \<Rightarrow> Some \<lparr>ms_parameters = ps, ms_record = None, ms_err = problems @ [ServiceError ManyDataComponents]\<rparr>))"

section \<open>Services\<close>

record service =
  sv_index :: nat
  sv_protocol :: bool
  sv_serviceID :: "u8 option"
  sv_requirements :: precondition
  sv_transitions :: transition_rule
  sv_request :: "cdd_message option"
  sv_positiveResponse :: "cdd_message option"
  sv_err :: "catalog_error option"

fun serviceID :: "cdd_message option \<Rightarrow> catalog_error + u8" where
  "serviceID None = Inl (ServiceError NoREQ)"
| "serviceID (Some m) =
     (let sids = filter (\<lambda>p. pa_spec p = ''sid'') (ms_parameters m);
          found = List.map_filter (\<lambda>p. if pa_err p = [] \<and> pa_bits p = 8 then map_option (\<lambda>n. ucast n) (pa_numeric p)
            else None) sids
      in if length sids \<noteq> 1 \<or> found = [] then Inl (ServiceError NoServiceID) else Inr (last found))"

definition directChild :: "element \<Rightarrow> element \<Rightarrow> bool" where
  "directChild parent candidate \<longleftrightarrow> candidate \<in> set (el_children parent)"

fun resolveService :: "resolver \<Rightarrow> element \<Rightarrow> element option \<Rightarrow> element \<Rightarrow> nat \<Rightarrow> service" where
  "resolveService r instance classTemplate (Element name attrs items txt) index =
     (let node = Element name attrs items txt; tmpl = attr (Some node) ''tmplref'';
          found = reference r tmpl ''DCLSRVTMPL'';
          template = (case found of Inl _ \<Rightarrow> None | Inr t \<Rightarrow> Some t);
          bound = ebind found (\<lambda>t. case classTemplate of
              None \<Rightarrow> Inl (ServiceError (ServiceTemplateForeign tmpl (attr (Some instance) ''tmplref'')))
            | Some ct \<Rightarrow> if directChild ct t then Inr (ct, t)
                else Inl (ServiceError (ServiceTemplateForeign tmpl (attr (Some instance) ''tmplref''))));
          bindingErr = (case bound of Inl e \<Rightarrow> Some e | Inr _ \<Rightarrow> None);
          s = \<lparr>sv_index = index, sv_protocol = False, sv_serviceID = None,
               sv_requirements = precondition_of r node template bindingErr,
               sv_transitions = transitions_of r node template bindingErr,
               sv_request = None, sv_positiveResponse = None, sv_err = None\<rparr>
      in (case ebind bound (\<lambda>(ct, t). ebind (reference r (attr (Some t) ''tmplref'') ''PROTOCOLSERVICE'') (\<lambda>p. Inr (ct, p))) of
            Inl e \<Rightarrow> s\<lparr>sv_err := Some e\<rparr>
          | Inr (ct, protocol) \<Rightarrow>
              let request = resolveMessage r instance ct (child (Some protocol) ''REQ'');
                  positive = resolveMessage r instance ct (child (Some protocol) ''POS'');
                  s = s\<lparr>sv_protocol := True, sv_request := request, sv_positiveResponse := positive\<rparr>
              in (case serviceID request of
                    Inl e \<Rightarrow> s\<lparr>sv_err := Some e\<rparr>
                  | Inr sid \<Rightarrow> s\<lparr>sv_serviceID := Some sid\<rparr>)))"

section \<open>The catalog\<close>

datatype step = Step string nat | Part string

datatype diagnostic_kind =
    DiagnosticReference | DiagnosticMessage | DiagnosticCodec | DiagnosticPrecondition | DiagnosticTransition | DiagnosticDID

record cdd_diagnostic =
  dg_path :: "step list"
  dg_kind :: diagnostic_kind
  dg_errors :: "catalog_error list"

record catalog_instance =
  in_qualifier :: string
  in_services :: "service list"
  in_err :: "catalog_error option"

record did =
  did_instance :: string
  did_identifier :: u16
  did_read :: "service list"
  did_write :: "service list"

record catalog_class =
  cl_instances :: "catalog_instance list"
  cl_err :: "catalog_error option"

datatype catalog_entry = ClassEntry catalog_class | InstanceEntry catalog_instance

text \<open>The lookup maps are lists of bindings, the newest first. An ambiguous name or identifier maps to
  \<open>None\<close>, where the code has the index -1.\<close>

record database =
  db_entries :: "catalog_entry list"
  db_dids :: "did list"
  db_states :: "state list"
  db_sessions :: "state list"
  db_securityLevels :: "state list"
  db_diagnostics :: "cdd_diagnostic list"
  db_didsByName :: "(string \<times> nat option) list"
  db_didsByIdentifier :: "(u16 \<times> nat option) list"

definition report :: "step list \<Rightarrow> diagnostic_kind \<Rightarrow> catalog_error list \<Rightarrow> database \<Rightarrow> database" where
  "report path kind errors db =
     (if errors = [] then db
      else db\<lparr>db_diagnostics := db_diagnostics db @ [\<lparr>dg_path = path, dg_kind = kind, dg_errors = errors\<rparr>]\<rparr>)"

definition errors_of :: "'a option \<Rightarrow> 'a list" where
  "errors_of e = (case e of None \<Rightarrow> [] | Some x \<Rightarrow> [x])"

definition dataIdentifierSpec :: "string \<Rightarrow> bool" where
  "dataIdentifierSpec spec \<longleftrightarrow> spec = ''id'' \<or> spec = ''did''"

text \<open>The identifier parameters of one message, with the identifier found in an earlier one.\<close>

fun message_identifier :: "parameter list \<Rightarrow> nat \<Rightarrow> u16 option \<Rightarrow> did_problem + u16 option" where
  "message_identifier [] count identifier = Inr identifier"
| "message_identifier (p # ps) count identifier =
     (if \<not> dataIdentifierSpec (pa_spec p) then message_identifier ps count identifier
      else if count \<ge> 1 \<or> pa_err p \<noteq> [] \<or> pa_bits p \<noteq> 16 then Inl DIDMessage
      else case pa_numeric p of
          None \<Rightarrow> Inl DIDMessage
        | Some n \<Rightarrow>
            if identifier \<noteq> None \<and> identifier \<noteq> Some (ucast n) then Inl DIDDisagree
            else message_identifier ps (Suc count) (Some (ucast n)))"

definition didIdentifier :: "service \<Rightarrow> catalog_error + u16" where
  "didIdentifier s =
     emap DIDError
       (ebind (efold (\<lambda>m. message_identifier (ms_parameters m) 0)
          (errors_of (sv_request s) @ errors_of (sv_positiveResponse s)) None) (\<lambda>identifier.
        case identifier of None \<Rightarrow> Inl NoDIDIdentifier | Some i \<Rightarrow> Inr i))"

text \<open>A DID is added with its entries in both lookup tables; an entry that exists becomes ambiguous.\<close>

definition add_did :: "step list \<Rightarrow> string \<Rightarrow> u16 \<Rightarrow> database \<Rightarrow> database" where
  "add_did path name i db =
     (let k = length (db_dids db);
          db = db\<lparr>db_dids := db_dids db @ [\<lparr>did_instance = name, did_identifier = i, did_read = [], did_write = []\<rparr>]\<rparr>;
          db = (if name = [] then db
            else if map_of (db_didsByName db) name \<noteq> None
            then report path DiagnosticDID [DIDError (DIDNameAmbiguous name)]
              (db\<lparr>db_didsByName := (name, None) # db_didsByName db\<rparr>)
            else db\<lparr>db_didsByName := (name, Some k) # db_didsByName db\<rparr>)
      in if map_of (db_didsByIdentifier db) i \<noteq> None
         then report path DiagnosticDID [DIDError (DIDIdentifierAmbiguous i)]
           (db\<lparr>db_didsByIdentifier := (i, None) # db_didsByIdentifier db\<rparr>)
         else db\<lparr>db_didsByIdentifier := (i, Some k) # db_didsByIdentifier db\<rparr>)"

definition attach :: "service \<Rightarrow> did \<Rightarrow> did" where
  "attach s d = (if sv_serviceID s = Some 0x22 then d\<lparr>did_read := did_read d @ [s]\<rparr>
     else d\<lparr>did_write := did_write d @ [s]\<rparr>)"

text \<open>One service of an instance: \<open>mine\<close> maps the identifiers this instance has added to their index.\<close>

definition collect_service :: "step list \<Rightarrow> string \<Rightarrow> service \<Rightarrow> database \<times> (u16 \<times> nat) list \<Rightarrow>
    database \<times> (u16 \<times> nat) list" where
  "collect_service path name s st = (case st of (db, mine) \<Rightarrow>
     if sv_err s \<noteq> None \<or> sv_serviceID s \<noteq> Some 0x22 \<and> sv_serviceID s \<noteq> Some 0x2E then (db, mine)
     else case didIdentifier s of
         Inl e \<Rightarrow> (report (path @ [Step ''SERVICE'' (sv_index s)]) DiagnosticDID [e] db, mine)
       | Inr i \<Rightarrow>
           let (db, mine) = (if map_of mine i = None then (add_did path name i db, (i, length (db_dids db)) # mine) else (db, mine))
           in (db\<lparr>db_dids := (db_dids db)[the (map_of mine i) := attach s (db_dids db ! the (map_of mine i))]\<rparr>, mine))"

definition collectDIDs :: "step list \<Rightarrow> catalog_instance \<Rightarrow> database \<Rightarrow> database" where
  "collectDIDs path i db = fst (fold (collect_service path (in_qualifier i)) (in_services i) (db, []))"

definition report_message :: "step list \<Rightarrow> cdd_message option \<Rightarrow> database \<Rightarrow> database" where
  "report_message path m db =
     (case m of
        None \<Rightarrow> db
      | Some msg \<Rightarrow>
          let db = report path DiagnosticMessage (ms_err msg) db in
          (case ms_record msg of
             None \<Rightarrow> db
           | Some rec \<Rightarrow> report path DiagnosticCodec (map CodecProblem (errors_of (CodecError (Some rec)))) db))"

definition report_service :: "step list \<Rightarrow> service \<Rightarrow> database \<Rightarrow> database" where
  "report_service path s db =
     (let db = (if \<not> sv_protocol s then report path DiagnosticReference (errors_of (sv_err s)) db
            else report (path @ [Part ''REQ'']) DiagnosticMessage (errors_of (sv_err s)) db);
          db = report path DiagnosticPrecondition (errors_of (pc_err (sv_requirements s))) db;
          db = report path DiagnosticTransition (errors_of (tr_err (sv_transitions s))) db;
          db = report_message (path @ [Part ''REQ'']) (sv_request s) db
      in report_message (path @ [Part ''POS'']) (sv_positiveResponse s) db)"

fun resolveInstance :: "resolver \<Rightarrow> step list \<Rightarrow> element \<Rightarrow> database \<Rightarrow> database \<times> catalog_instance" where
  "resolveInstance r path (Element name attrs items txt) db =
     (let node = Element name attrs items txt; template = reference r (attr (Some node) ''tmplref'') ''DCLTMPL'';
          ct = (case template of Inl _ \<Rightarrow> None | Inr t \<Rightarrow> Some t);
          db = report path DiagnosticReference (problem_of template) db;
          services = map (\<lambda>(k, n). resolveService r node ct n (Suc k)) (enumerate 0 (childrenNamed (Some node) ''SERVICE''));
          i = \<lparr>in_qualifier = childText (Some node) ''QUAL'', in_services = services,
               in_err = (case template of Inl e \<Rightarrow> Some e | Inr _ \<Rightarrow> None)\<rparr>;
          db = fold (\<lambda>s. report_service (path @ [Step ''SERVICE'' (sv_index s)]) s) services db
      in (collectDIDs path i db, i))"

fun resolve_instances :: "resolver \<Rightarrow> step list \<Rightarrow> nat \<Rightarrow> element list \<Rightarrow> database \<Rightarrow> database \<times> catalog_instance list" where
  "resolve_instances r path k [] db = (db, [])"
| "resolve_instances r path k (n # ns) db =
     (let (db, i) = resolveInstance r (path @ [Step ''DIAGINST'' k]) n db;
          (db, others) = resolve_instances r path (Suc k) ns db
      in (db, i # others))"

definition declared_states :: "element \<Rightarrow> state list" where
  "declared_states ecuDoc =
     (let groups = childrenNamed (child (Some ecuDoc) ''STATEGROUPS'') ''STATEGROUP'';
          raw = concat (map (\<lambda>(g, group). map (\<lambda>_. (Suc g, attr (Some group) ''spec'')) (childrenNamed (Some group) ''STATE''))
            (enumerate 0 groups))
      in map (\<lambda>(k, g, spec). \<lparr>st_index = Suc k, st_groupIndex = g, st_groupSpec = spec\<rparr>) (enumerate 0 raw))"

text \<open>One diagnostic child of the variant; the counters number classes and standalone instances.\<close>

definition resolve_entry :: "resolver \<Rightarrow> step list \<Rightarrow> element \<Rightarrow> database \<times> nat \<times> nat \<Rightarrow> database \<times> nat \<times> nat" where
  "resolve_entry r base node st = (case st of (db, classes, instances) \<Rightarrow>
     if el_name node = ''DIAGCLASS'' then
       let path = base @ [Step ''DIAGCLASS'' (Suc classes)];
           template = reference r (attr (Some node) ''tmplref'') ''DCLTMPL'';
           db = report path DiagnosticReference (problem_of template) db;
           (db, others) = resolve_instances r path 1 (childrenNamed (Some node) ''DIAGINST'') db
       in (db\<lparr>db_entries := db_entries db @ [ClassEntry \<lparr>cl_instances = others,
             cl_err = (case template of Inl e \<Rightarrow> Some e | Inr _ \<Rightarrow> None)\<rparr>]\<rparr>, Suc classes, instances)
     else if el_name node = ''DIAGINST'' then
       let (db, i) = resolveInstance r (base @ [Step ''DIAGINST'' (Suc instances)]) node db
       in (db\<lparr>db_entries := db_entries db @ [InstanceEntry i]\<rparr>, classes, Suc instances)
     else (db, classes, instances))"

definition resolve :: "resolver \<Rightarrow> element \<Rightarrow> nat \<Rightarrow> nat \<Rightarrow> database" where
  "resolve r variant e v =
     (let states = declared_states (rs_ecuDoc r);
          db = \<lparr>db_entries = [], db_dids = [], db_states = states,
                db_sessions = filter (\<lambda>s. st_groupSpec s = ''session'') states,
                db_securityLevels = filter (\<lambda>s. st_groupSpec s = ''security'') states, db_diagnostics = [],
                db_didsByName = [], db_didsByIdentifier = []\<rparr>
      in fst (fold (resolve_entry (r\<lparr>rs_states := states\<rparr>) [Step ''ECU'' e, Step ''VAR'' v]) (el_children variant) (db, 0, 0)))"

definition DIDByName :: "database option \<Rightarrow> string \<Rightarrow> did option" where
  "DIDByName db name = (case db of
       None \<Rightarrow> None
     | Some db \<Rightarrow> (case map_of (db_didsByName db) name of Some (Some k) \<Rightarrow> Some (db_dids db ! k) | _ \<Rightarrow> None))"

definition DIDByIdentifier :: "database option \<Rightarrow> u16 \<Rightarrow> did option" where
  "DIDByIdentifier db i = (case db of
       None \<Rightarrow> None
     | Some db \<Rightarrow> (case map_of (db_didsByIdentifier db) i of Some (Some k) \<Rightarrow> Some (db_dids db ! k) | _ \<Rightarrow> None))"

section \<open>Selection\<close>

definition selectIndex :: "string \<Rightarrow> int \<Rightarrow> nat \<Rightarrow> catalog_error + nat" where
  "selectIndex kind index count =
     (if count = 0 then Inl (SelectError (NoChoices kind))
      else if index = 0 \<and> count = 1 then Inr 0
      else if index = 0 then Inl (SelectError (ManyChoices kind count))
      else if index < 1 \<or> index > int count then Inl (SelectError (ChoiceIndex kind index count))
      else Inr (nat (index - 1)))"

text \<open>A parsed document is its resolver; the document that was never parsed is \<open>None\<close>.\<close>

definition Select :: "resolver option \<Rightarrow> int \<Rightarrow> int \<Rightarrow> catalog_error + database" where
  "Select document ecu variant =
     (case document of
        None \<Rightarrow> Inl (SelectError NotParsed)
      | Some r \<Rightarrow>
          let ecus = childrenNamed (Some (rs_ecuDoc r)) ''ECU'' in
          ebind (selectIndex ''ECU'' ecu (length ecus)) (\<lambda>e.
          let variants = childrenNamed (Some (ecus ! e)) ''VAR'' in
          ebind (selectIndex ''variant'' variant (length variants)) (\<lambda>v.
          Inr (resolve r (variants ! v) (Suc e) (Suc v)))))"

end
