(* ===== verification/Cdd_Placement.thy ===== *)
theory Cdd_Placement
  imports Cdd_Record Cdd_Resolver
begin

text \<open>
  The resolver places the fields of a record one behind the other: an invariant of the offsets
  it hands out, and that a record it resolves, if its codec can be used, is laid out as the
  round trip of the codec needs it.
\<close>

section \<open>Regions\<close>

definition bits_end :: "field \<Rightarrow> nat" where
  "bits_end f = unat (fd_offset f) + unat (fd_bits f) * unat (fd_count f)"

text \<open>The bits of the payload a field may touch: its container, for a packed field.\<close>

definition region_start :: "field \<Rightarrow> nat" where
  "region_start f = (case fd_bitfield f of Some b \<Rightarrow> unat (bf_offset b) | None \<Rightarrow> unat (fd_offset f))"

definition region_end :: "field \<Rightarrow> nat" where
  "region_end f = (case fd_bitfield f of Some b \<Rightarrow> unat (bf_offset b) + unat (bf_length b) | None \<Rightarrow> bits_end f)"

definition well_placed :: "field \<Rightarrow> bool" where
  "well_placed f \<longleftrightarrow> 0 < fd_bits f \<and> region_end f < 2 ^ 32 \<and>
     (case fd_bitfield f of
        Some b \<Rightarrow> unat (bf_offset b) mod 8 = 0 \<and> unat (bf_length b) mod 8 = 0 \<and> fd_variable f = None \<and>
          unat (fd_offset f) + unat (fd_bits f) \<le> unat (bf_length b)
      | None \<Rightarrow> (case fd_variable f of
            None \<Rightarrow> True
          | Some e \<Rightarrow> ex_min e = fd_count f \<and> ex_min e < ex_max e \<and> unat (fd_bits f) * unat (ex_max e) < 2 ^ 32))"

definition separate :: "field \<Rightarrow> field \<Rightarrow> bool" where
  "separate f g \<longleftrightarrow> region_end f \<le> region_start g \<or>
     fd_bitfield f \<noteq> None \<and> fd_bitfield f = fd_bitfield g \<and>
     unat (fd_offset f) + unat (fd_bits f) \<le> unat (fd_offset g)"

definition placed :: "field list \<times> nat \<Rightarrow> bool" where
  "placed st \<longleftrightarrow> (case st of (fs, offset) \<Rightarrow>
     offset < 2 ^ 32 \<and> list_all (\<lambda>f. well_placed f \<and> region_end f \<le> offset) fs \<and> sorted_wrt separate fs \<and>
     list_all (\<lambda>f. fd_variable f = None) (butlast fs) \<and>
     (fs \<noteq> [] \<and> fd_variable (last fs) \<noteq> None \<longrightarrow> fd_bitfield (last fs) = None \<and> bits_end (last fs) = offset))"

section \<open>From regions to a layout\<close>

lemma unat_word_of_nat: "n < 2 ^ 32 \<Longrightarrow> unat (word_of_nat n :: u32) = n"
  by (simp add: unsigned_of_nat take_bit_nat_eq_self)

lemma unat_BitSize: "unat (fd_bits f) * unat (fd_count f) < 2 ^ 32 \<Longrightarrow> unat (BitSize f) = unat (fd_bits f) * unat (fd_count f)"
  using unat_mult_lem [of "fd_bits f" "fd_count f"] by (simp add: BitSize_def)

lemma packed_at_nat:
  assumes "well_placed f" "fd_bitfield f = Some b" "i < unat (fd_bits f)"
  defines "p \<equiv> unat (fd_offset f) + i"
  shows "packed_at f b i = (unat (bf_offset b) div 8 +
      (if bf_order b = CddBig then unat (bf_length b) div 8 - 1 - p div 8 else p div 8), p mod 8)"
    and "p < unat (bf_length b)"
proof -
  have w: "unat (fd_offset f) + unat (fd_bits f) \<le> unat (bf_length b)"
    "unat (bf_offset b) + unat (bf_length b) < 2 ^ 32" "unat (bf_length b) mod 8 = 0"
    using assms(1,2) by (simp_all add: well_placed_def region_end_def)
  show p: "p < unat (bf_length b)" using w(1) assms(3) by (simp add: p_def)
  have pos: "unat (fd_offset f + word_of_nat i) = p"
  proof -
    have i: "unat (word_of_nat i :: u32) = i" using assms(3) unat_lt_u32 [of "fd_bits f"] by (intro unat_word_of_nat) simp
    have "unat (fd_offset f) + unat (word_of_nat i :: u32) < 2 ^ 32" using p w(2) i by (simp add: p_def)
    then show ?thesis using unat_add_lem [of "fd_offset f" "word_of_nat i"] i by (simp add: p_def)
  qed
  then have div8: "unat ((fd_offset f + word_of_nat i) div 8) = p div 8"
    "unat ((fd_offset f + word_of_nat i) mod 8) = p mod 8" by (simp_all add: unat_div unat_mod)
  have q: "p div 8 < unat (bf_length b) div 8" using p w(3) by (auto simp: less_mult_imp_div_less mod_eq_0_iff_dvd)
  have big: "unat (bf_length b div 8 - 1 - (fd_offset f + word_of_nat i) div 8) = unat (bf_length b) div 8 - 1 - p div 8"
  proof -
    have l: "unat (bf_length b div 8) = unat (bf_length b) div 8" by (simp add: unat_div)
    have "1 \<le> bf_length b div 8" using q l by (simp add: word_le_nat_alt)
    then have one: "unat (bf_length b div 8 - 1) = unat (bf_length b) div 8 - 1" using l by (simp add: unat_sub)
    moreover have "(fd_offset f + word_of_nat i) div 8 \<le> bf_length b div 8 - 1"
      using one div8(1) q by (simp add: word_le_nat_alt)
    ultimately show ?thesis using div8(1) by (simp add: unat_sub)
  qed
  have sum: "unat (bf_offset b div 8 + k) = unat (bf_offset b) div 8 + unat k" if "unat k \<le> unat (bf_length b) div 8" for k
  proof -
    have "unat (bf_offset b) div 8 + unat (bf_length b) div 8 < 2 ^ 32" using w(2) by simp
    then show ?thesis using that unat_add_lem [of "bf_offset b div 8" k] by (simp add: unat_div)
  qed
  show "packed_at f b i = (unat (bf_offset b) div 8 +
      (if bf_order b = CddBig then unat (bf_length b) div 8 - 1 - p div 8 else p div 8), p mod 8)"
    using q big div8 by (auto simp: packedBit_def Let_def sum)
qed

text \<open>With a usable codec every region ends at a byte.\<close>

lemma region_aligned:
  assumes "well_placed f" "usable_field f"
  shows "region_end f mod 8 = 0" "region_start f mod 8 = 0"
  using assms by (auto simp: well_placed_def usable_field_def region_end_def region_start_def bits_end_def
    mod_eq_0_iff_dvd split: option.splits)

lemma position_region:
  assumes "well_placed f" "usable_field f" "p \<in> set (positions f)"
  shows "region_start f div 8 \<le> fst p" "fst p < region_end f div 8"
proof -
  have "region_start f div 8 \<le> fst p \<and> fst p < region_end f div 8"
  proof (cases "fd_bitfield f")
    case (Some b)
    then obtain i where i: "i < unat (fd_bits f)" "p = packed_at f b i" using assms(3) by (auto simp: positions_def)
    have l: "unat (bf_length b) mod 8 = 0" "unat (bf_offset b) mod 8 = 0"
      using assms(1) Some by (simp_all add: well_placed_def)
    note at = packed_at_nat [OF assms(1) Some i(1)]
    have "(unat (fd_offset f) + i) div 8 < unat (bf_length b) div 8"
      using at(2) l(1) by (auto simp: less_mult_imp_div_less mod_eq_0_iff_dvd)
    moreover have "region_end f div 8 = unat (bf_offset b) div 8 + unat (bf_length b) div 8"
      using l Some by (auto simp: region_end_def mod_eq_0_iff_dvd)
    ultimately show ?thesis using Some by (auto simp: i(2) at(1) region_start_def)
  next
    case None
    have u: "unat (fd_bits f) mod 8 = 0" "unat (fd_offset f) mod 8 = 0" using assms(2) None by (simp_all add: usable_field_def)
    have "bits_end f < 2 ^ 32" using assms(1) None by (simp add: well_placed_def region_end_def)
    then have "unat (fd_bits f) * unat (fd_count f) < 2 ^ 32" by (simp add: bits_end_def)
    then have "occupied f = unat (fd_bits f) * unat (fd_count f) div 8"
      using unat_BitSize by (simp add: occupied_def unat_div)
    moreover have "(unat (fd_offset f) + unat (fd_bits f) * unat (fd_count f)) div 8 =
        unat (fd_offset f) div 8 + unat (fd_bits f) * unat (fd_count f) div 8"
      using u by (auto simp: mod_eq_0_iff_dvd)
    ultimately show ?thesis using assms(3) None
      by (auto simp: positions_def region_start_def region_end_def bits_end_def field_start_def unat_div)
  qed
  then show "region_start f div 8 \<le> fst p" "fst p < region_end f div 8" by auto
qed

lemma mirrored_eq: "x < l \<Longrightarrow> y < l \<Longrightarrow> l - 1 - x = l - 1 - y \<Longrightarrow> x = y" for x y l :: nat
  by simp

lemma separate_apart:
  assumes "separate f g" "well_placed f" "well_placed g" "usable_field f" "usable_field g"
  shows "fields_apart f g"
proof (cases "region_end f \<le> region_start g")
  case True
  then have "region_end f div 8 \<le> region_start g div 8" by (rule div_le_mono)
  then show ?thesis
    using position_region [OF assms(2,4)] position_region [OF assms(3,5)]
    unfolding fields_apart_def list_all_iff by fastforce
next
  case False
  then obtain b where b: "fd_bitfield f = Some b" "fd_bitfield g = Some b"
    "unat (fd_offset f) + unat (fd_bits f) \<le> unat (fd_offset g)"
    using assms(1) by (auto simp: separate_def)
  have "packed_at f b i \<noteq> packed_at g b j" if ij: "i < unat (fd_bits f)" "j < unat (fd_bits g)" for i j
  proof
    assume eq: "packed_at f b i = packed_at g b j"
    let ?p = "unat (fd_offset f) + i" and ?q = "unat (fd_offset g) + j" and ?l = "unat (bf_length b)"
    note p = packed_at_nat [OF assms(2) b(1) ij(1)] and q = packed_at_nat [OF assms(3) b(2) ij(2)]
    have "?l mod 8 = 0" using assms(2) b(1) by (simp add: well_placed_def)
    then have less: "?p div 8 < ?l div 8" "?q div 8 < ?l div 8"
      using p(2) q(2) by (auto simp: less_mult_imp_div_less mod_eq_0_iff_dvd)
    from eq have "?p mod 8 = ?q mod 8" and
      index: "(if bf_order b = CddBig then ?l div 8 - 1 - ?p div 8 else ?p div 8) =
        (if bf_order b = CddBig then ?l div 8 - 1 - ?q div 8 else ?q div 8)"
      unfolding p(1) q(1) prod.inject by (simp_all only: add_left_cancel)
    moreover have "?p div 8 = ?q div 8"
    proof (cases "bf_order b = CddBig")
      case True
      then show ?thesis using index by (intro mirrored_eq [OF less]) (simp only: refl if_True)
    qed (use index in \<open>simp only: if_False\<close>)
    ultimately have "?p div 8 * 8 + ?p mod 8 = ?q div 8 * 8 + ?q mod 8" by simp
    then have "?p = ?q" unfolding div_mult_mod_eq .
    with b(3) ij(1) show False by simp
  qed
  then show ?thesis using b by (auto simp: fields_apart_def positions_def list_all_iff)
qed

lemma plain_of_placed:
  assumes "well_placed f" "usable_field f" "region_end f div 8 \<le> n"
  shows "plain_field n f"
proof -
  have "occupied f = unat (fd_count f) * elementBytes f \<and> field_start f + occupied f \<le> n" if None: "fd_bitfield f = None"
  proof -
    have u: "unat (fd_bits f) mod 8 = 0" "unat (fd_offset f) mod 8 = 0" using assms(2) None by (simp_all add: usable_field_def)
    have "bits_end f < 2 ^ 32" using assms(1) None by (simp add: well_placed_def region_end_def)
    then have "unat (fd_bits f) * unat (fd_count f) < 2 ^ 32" by (simp add: bits_end_def)
    then have "occupied f = unat (fd_bits f) * unat (fd_count f) div 8"
      using unat_BitSize by (simp add: occupied_def unat_div)
    moreover have "(unat (fd_offset f) + unat (fd_bits f) * unat (fd_count f)) div 8 =
        unat (fd_offset f) div 8 + unat (fd_bits f) * unat (fd_count f) div 8"
      "unat (fd_bits f) * unat (fd_count f) div 8 = unat (fd_count f) * (unat (fd_bits f) div 8)"
      using u by (auto simp: mod_eq_0_iff_dvd)
    ultimately show ?thesis
      using assms(3) None by (simp add: region_end_def bits_end_def field_start_def elementBytes_def unat_div)
  qed
  moreover have "fst p < n" if "p \<in> set (positions f)" for p
    using position_region(2) [OF assms(1,2) that] assms(3) by simp
  ultimately show ?thesis using assms(1) by (auto simp: plain_field_def list_all_iff well_placed_def)
qed


section \<open>Fields the resolver reads\<close>

lemma coded_quantity_bounds:
  assumes "coded_quantity coded bits = Inr (count, ext)"
  shows "unat bits * unat count < 2 ^ 32" and "ext = None \<Longrightarrow> 0 < count"
    and "ext = Some e \<Longrightarrow> ex_min e = count \<and> ex_min e < ex_max e \<and> unat bits * unat (ex_max e) < 2 ^ 32"
proof -
  have bits: "unat bits < 2 ^ 32" using unat_lt_u32 [of bits] by simp
  have div: "4294967295 div uint bits < int m \<longleftrightarrow> 4294967295 div unat bits < m" for m
  proof -
    have "int (4294967295 div unat bits) = 4294967295 div uint bits" using zdiv_int [of 4294967295 "unat bits"] by simp
    then show ?thesis by (metis of_nat_less_iff)
  qed
  consider (one) "count = 1" "ext = None"
    | (many) minimum maximum where "minimum \<le> maximum" "0 < maximum" "maximum \<le> 4294967295 div unat bits" "maximum < 2 ^ 32"
      "count = word_of_nat minimum"
      "ext = (if minimum \<noteq> maximum then Some \<lparr>ex_min = word_of_nat minimum, ex_max = word_of_nat maximum\<rparr> else None)"
    using assms unfolding coded_quantity_def ParseUint_def Let_def div
    by (auto split: option.splits if_splits simp: not_le not_less)
  then have "unat bits * unat count < 2 ^ 32 \<and> (ext = None \<longrightarrow> 0 < count) \<and>
    (ext = Some e \<longrightarrow> ex_min e = count \<and> ex_min e < ex_max e \<and> unat bits * unat (ex_max e) < 2 ^ 32)"
  proof cases
    case many
    have u: "unat (word_of_nat minimum :: u32) = minimum" "unat (word_of_nat maximum :: u32) = maximum"
      using many(1,4) by (simp_all add: unat_word_of_nat)
    have "unat bits * maximum \<le> unat bits * (4294967295 div unat bits)" using many(3) by simp
    also have "\<dots> \<le> 4294967295" by simp
    finally have most: "unat bits * maximum < 2 ^ 32" by simp
    have "unat bits * minimum < 2 ^ 32"
      by (rule le_less_trans [OF mult_le_mono2 [OF many(1)] most])
    with most show ?thesis using many u by (auto simp: word_less_nat_alt split: if_splits)
  qed (use bits in simp)
  then show "unat bits * unat count < 2 ^ 32" "ext = None \<Longrightarrow> 0 < count"
    "ext = Some e \<Longrightarrow> ex_min e = count \<and> ex_min e < ex_max e \<and> unat bits * unat (ex_max e) < 2 ^ 32" by auto
qed

lemma field_of_datatype_facts:
  assumes "field_of_datatype d name offset = Inr f"
  shows "fd_offset f = word_of_nat offset" "0 < fd_bits f" "fd_bitfield f = None"
    "unat (fd_bits f) * unat (fd_count f) < 2 ^ 32" "fd_variable f = None \<Longrightarrow> 0 < fd_count f"
    "fd_variable f = Some e \<Longrightarrow> ex_min e = fd_count f \<and> ex_min e < ex_max e \<and> unat (fd_bits f) * unat (ex_max e) < 2 ^ 32"
proof -
  obtain coded n where c: "ParseUint (attr (Some coded) ''bl'') 32 = Some n" "n \<noteq> 0"
    "fd_bits f = word_of_nat n" "fd_offset f = word_of_nat offset" "fd_bitfield f = None"
    "coded_quantity coded (fd_bits f) = Inr (fd_count f, fd_variable f)"
    using assms by (auto simp: field_of_datatype_def Let_def ebind_Inr_iff split: option.splits if_splits)
  show "fd_offset f = word_of_nat offset" "fd_bitfield f = None" by (rule c)+
  have "n < 2 ^ 32" using c(1) by (auto simp: ParseUint_def split: if_splits option.splits)
  then show "0 < fd_bits f" using c(2,3) unat_word_of_nat [of n] by (simp add: word_less_nat_alt)
  show "unat (fd_bits f) * unat (fd_count f) < 2 ^ 32" "fd_variable f = None \<Longrightarrow> 0 < fd_count f"
    "fd_variable f = Some e \<Longrightarrow> ex_min e = fd_count f \<and> ex_min e < ex_max e \<and> unat (fd_bits f) * unat (ex_max e) < 2 ^ 32"
    using coded_quantity_bounds [OF c(6)] by auto
qed

lemma resolveFieldDatatype_field:
  assumes "resolveFieldDatatype r data name offset = Inr f"
  obtains d where "node_at (rs_datatypes r) (attr (Some data) ''dtref'') = Some d" "field_of_datatype d name offset = Inr f"
  using assms that by (auto simp: resolveFieldDatatype_def split: option.splits)

lemma resolveField_field:
  assumes "resolveField r data offset = Inr f"
  obtains d where "field_of_datatype d (childText (Some data) ''QUAL'') offset = Inr f"
  using assms that by (auto simp: resolveField_def Let_def elim: resolveFieldDatatype_field split: if_splits)

lemma efold_invariant:
  assumes "efold f xs s = Inr s'" "P s" "\<And>x s s'. x \<in> set xs \<Longrightarrow> f x s = Inr s' \<Longrightarrow> P s \<Longrightarrow> P s'"
  shows "P s'"
  using assms by (induction xs arbitrary: s) (auto simp: ebind_Inr_iff)

section \<open>The invariant of the offsets\<close>

definition struct_placed :: "bitfield \<Rightarrow> field list \<times> nat \<Rightarrow> bool" where
  "struct_placed b st \<longleftrightarrow> (case st of (fs, position) \<Rightarrow>
     position \<le> unat (bf_length b) \<and> sorted_wrt separate fs \<and>
     list_all (\<lambda>f. well_placed f \<and> fd_variable f = None \<and> region_end f \<le> unat (bf_offset b) + unat (bf_length b) \<and>
       (region_end f \<le> unat (bf_offset b) \<or>
        fd_bitfield f = Some b \<and> unat (fd_offset f) + unat (fd_bits f) \<le> position)) fs)"

lemma struct_child_placed:
  assumes "struct_child r b c st = Inr st'" "struct_placed b st"
    and "unat (bf_offset b) mod 8 = 0" "unat (bf_length b) mod 8 = 0" "unat (bf_offset b) + unat (bf_length b) < 2 ^ 32"
  shows "struct_placed b st'"
proof -
  obtain fs position where st: "st = (fs, position)" by fastforce
  have grown: "struct_placed b (fs, position')" if "position \<le> position'" "position' \<le> unat (bf_length b)" for position'
    using assms(2) that by (fastforce simp: struct_placed_def st list_all_iff)
  consider (same) position' where "st' = (fs, position')" "position \<le> position'" "position' \<le> unat (bf_length b)"
    | (new) f where "resolveField r c position = Inr f" "fd_variable f = None"
      "st' = (fs @ [f\<lparr>fd_bitfield := Some b\<rparr>], position + unat (fd_bits f))" "position + unat (fd_bits f) \<le> unat (bf_length b)"
    using assms(1) by (auto simp: struct_child_def st ebind_Inr_iff not_less split: option.splits if_splits)
  then show ?thesis
  proof cases
    case same
    then show ?thesis using grown by simp
  next
    case new
    obtain d where d: "field_of_datatype d (childText (Some c) ''QUAL'') position = Inr f"
      using new(1) by (rule resolveField_field)
    note f = field_of_datatype_facts [OF d]
    have offset: "unat (fd_offset f) = position"
      using f(1) new(4) unat_lt_u32 [of "bf_length b"] by (simp add: unat_word_of_nat)
    let ?f = "f\<lparr>fd_bitfield := Some b\<rparr>"
    have "well_placed ?f"
      using f new assms(3-5) offset by (simp add: well_placed_def region_end_def)
    moreover have "\<forall>g \<in> set fs. separate g ?f"
      using assms(2) offset by (fastforce simp: struct_placed_def st list_all_iff separate_def region_start_def)
    ultimately show ?thesis
      using grown [of "position + unat (fd_bits f)"] new offset
      by (simp add: struct_placed_def sorted_wrt_append region_end_def)
  qed
qed

lemma appendBitfield_placed:
  assumes "appendBitfield r node (fs, offset) = Inr (fs', offset')" "placed (fs, offset)"
    and "fs \<noteq> [] \<Longrightarrow> fd_variable (last fs) = None"
  shows "placed (fs', offset') \<and> (fs' \<noteq> [] \<longrightarrow> fd_variable (last fs') = None)"
proof -
  obtain container d where d: "resolveFieldDatatype r node ''STRUCT'' offset = Inr container"
    "node_at (rs_datatypes r) (attr (Some node) ''dtref'') = Some d"
    using assms(1) by (auto simp: appendBitfield_def ebind_Inr_iff split: option.splits)
  have "BitSize container mod 8 = 0 \<and> offset mod 8 = 0 \<and> offset + unat (BitSize container) \<le> 4294967295"
    using assms(1) d by (auto simp: appendBitfield_def beyond_u32_iff not_less split: if_splits)
  then obtain ord pos where c: "resolveFieldDatatype r node ''STRUCT'' offset = Inr container"
    "BitSize container mod 8 = 0" "offset mod 8 = 0" "offset + unat (BitSize container) \<le> 4294967295"
    "efold (struct_child r \<lparr>bf_offset = word_of_nat offset, bf_length = BitSize container, bf_order = ord\<rparr>)
       (el_children node) (fs, 0) = Inr (fs', pos)" "offset' = offset + unat (BitSize container)"
    using assms(1) d by (auto simp: appendBitfield_def Let_def ebind_Inr_iff split: if_splits)
  let ?b = "\<lparr>bf_offset = word_of_nat offset, bf_length = BitSize container, bf_order = ord\<rparr>"
  have o: "unat (bf_offset ?b) = offset" using c(4) by (simp add: unat_word_of_nat)
  have l: "unat (bf_length ?b) mod 8 = 0" using c(2) by (simp add: word_aligned_iff)
  have old: "fd_variable f = None" if "f \<in> set fs" for f
    using that assms(2,3) by (cases fs rule: rev_cases) (auto simp: placed_def list_all_iff)
  have "struct_placed ?b (fs, 0)"
    using assms(2) o old by (fastforce simp: struct_placed_def placed_def list_all_iff)
  from efold_invariant [of _ _ _ _ "struct_placed ?b", OF c(5) this]
  have s: "struct_placed ?b (fs', pos)"
    using struct_child_placed [of r ?b] o l c(3,4) by simp
  then have "list_all (\<lambda>f. fd_variable f = None) fs'" by (auto simp: struct_placed_def list_all_iff)
  then have "list_all (\<lambda>f. fd_variable f = None) (butlast fs')" "fs' \<noteq> [] \<Longrightarrow> fd_variable (last fs') = None"
    by (auto simp: list_all_iff dest: in_set_butlastD)
  with s o c(4,6) show ?thesis by (auto simp: placed_def struct_placed_def list_all_iff)
qed


lemma append_item_placed:
  assumes "append_item r nested active item st = Inr st'" "placed st"
    and "\<And>active items st st'. nested active items st = Inr st' \<Longrightarrow> placed st \<Longrightarrow> placed st'"
  shows "placed st'"
proof -
  obtain fs offset fs' offset' where st: "st = (fs, offset)" "st' = (fs', offset')" by fastforce
  have small: "offset' < 2 ^ 32"
    using assms(1) by (auto simp: append_item_def st ebind_Inr_iff beyond_u32_iff not_less split: if_splits)
  show ?thesis
  proof (cases "presentation (el_name item)")
    case True
    then show ?thesis using assms(1,2) by (auto simp: append_item_def st split: if_splits)
  next
    case False
    then have open_end: "fs \<noteq> [] \<Longrightarrow> fd_variable (last fs) = None"
      using assms(1) by (auto simp: append_item_def st split: if_splits)
    have old: "fd_variable f = None" if "f \<in> set fs" for f
      using that assms(2) open_end by (cases fs rule: rev_cases) (auto simp: placed_def st list_all_iff)
    have grown: "placed (fs, offset')" if "offset \<le> offset'"
      using assms(2) that small open_end by (fastforce simp: placed_def st list_all_iff)
    consider (grow) "fs' = fs" "offset \<le> offset'"
      | (struct) "appendBitfield r item (fs, offset) = Inr (fs', offset')"
      | (shared) a items where "nested a items (fs, offset) = Inr (fs', offset')"
      | (new) f where "resolveField r item offset = Inr f" "fs' = fs @ [f]" "offset' = offset + unat (BitSize f)"
      using assms(1) False
      by (auto simp: append_item_def st ebind_Inr_iff Let_def split: option.splits if_splits)
    then show ?thesis
    proof cases
      case grow
      then show ?thesis using grown st by simp
    next
      case struct
      then show ?thesis using appendBitfield_placed [OF _ _ open_end] assms(2) st by simp
    next
      case shared
      then show ?thesis using assms(3) [OF shared] assms(2) st by simp
    next
      case new
      obtain d where d: "field_of_datatype d (childText (Some item) ''QUAL'') offset = Inr f"
        using new(1) by (rule resolveField_field)
      note f = field_of_datatype_facts [OF d]
      have "offset < 2 ^ 32" using assms(2) by (simp add: placed_def st)
      then have o: "unat (fd_offset f) = offset" by (simp add: f(1) unat_word_of_nat)
      then have e: "bits_end f = offset'" using new(3) f(4) by (simp add: bits_end_def unat_BitSize)
      then have "well_placed f"
        using f(2,3,6) small by (auto simp: well_placed_def region_end_def split: option.splits)
      moreover have "\<forall>g \<in> set fs. separate g f"
        using assms(2) o f(3) by (auto simp: placed_def st list_all_iff separate_def region_start_def)
      moreover have "sorted_wrt separate fs" "list_all (\<lambda>f. well_placed f \<and> region_end f \<le> offset') fs"
        using grown new(3) by (simp_all add: placed_def)
      ultimately show ?thesis using small e f(3) old
        by (simp add: placed_def st new(2) sorted_wrt_append region_end_def list_all_iff)
    qed
  qed
qed

lemma append_fields_placed:
  "append_fields levels r active items st = Inr st' \<Longrightarrow> placed st \<Longrightarrow> placed st'"
proof (induction levels arbitrary: active items st st')
  case (Suc levels)
  show ?case
    by (rule efold_invariant [of "append_item r (append_fields levels r) active" items st])
       (use Suc in \<open>auto intro: append_item_placed\<close>)
qed simp

lemma resolveFields_placed:
  assumes "resolveFields r container = Inr (fs, bits, maxbits)"
  obtains offset where "placed (fs, offset)" "unat bits = offset"
    "unat maxbits = (if fs = [] then offset else offset + (unat (MaxBitSize (last fs)) - unat (BitSize (last fs))))"
proof -
  obtain offset where o: "append_fields (Suc maxRecordNesting) r [] (el_children container) ([], 0) = Inr (fs, offset)"
    "(if fs = [] then offset else offset + (unat (MaxBitSize (last fs)) - unat (BitSize (last fs)))) \<le> 4294967295"
    "bits = word_of_nat offset"
    "maxbits = word_of_nat (if fs = [] then offset else offset + (unat (MaxBitSize (last fs)) - unat (BitSize (last fs))))"
    using assms by (cases container) (auto simp: appendFields_def ebind_Inr_iff Let_def beyond_u32_iff not_less split: if_splits)
  have "placed (fs, offset)"
    by (rule append_fields_placed [OF o(1)]) (simp add: placed_def)
  moreover have "unat bits = offset" using calculation by (simp add: o(3) placed_def unat_word_of_nat)
  moreover have "unat maxbits = (if fs = [] then offset else offset + (unat (MaxBitSize (last fs)) - unat (BitSize (last fs))))"
    unfolding o(4) by (rule unat_word_of_nat) (use o(2) in simp)
  ultimately show ?thesis by (rule that)
qed

section \<open>Resolved records\<close>

text \<open>A record built as \<open>resolveRecord\<close> builds it from fields that are placed.\<close>

lemma resolved_laid_out:
  assumes "resolveFields r container = Inr (fs, bits, maxbits)" "list_all usable_field fs"
    and "rec = \<lparr>rc_name = name, rc_length = word_of_nat ((unat bits + 7) div 8),
      rc_maxLength = word_of_nat ((unat maxbits + 7) div 8), rc_fields = fs, rc_codec = c\<rparr>"
  shows "laid_out rec"
proof -
  obtain offset where o: "placed (fs, offset)" "unat bits = offset"
    "unat maxbits = (if fs = [] then offset else offset + (unat (MaxBitSize (last fs)) - unat (BitSize (last fs))))"
    using assms(1) by (rule resolveFields_placed)
  let ?n = "(offset + 7) div 8" and ?m = "(unat maxbits + 7) div 8"
  have off: "offset < 2 ^ 32" using o(1) by (simp add: placed_def)
  have n: "unat (rc_length rec) = ?n" "unat (rc_maxLength rec) = ?m"
    using off unat_lt_u32 [of maxbits] by (simp_all add: assms(3) o(2) unat_word_of_nat)
  have f: "well_placed f" "usable_field f" "region_end f \<le> offset" if "f \<in> set fs" for f
    using that o(1) assms(2) by (simp_all add: placed_def list_all_iff)
  have sorted: "sorted_wrt fields_apart fs"
    by (rule sorted_wrt_mono_rel [of fs separate]) (use f separate_apart o(1) in \<open>auto simp: placed_def\<close>)
  have plain: "list_all (plain_field ?n) fs"
  proof -
    have "plain_field ?n f" if "f \<in> set fs" for f
    proof (rule plain_of_placed [OF f(1,2) [OF that]])
      have "region_end f div 8 \<le> offset div 8" using f(3) [OF that] by (rule div_le_mono)
      also have "\<dots> \<le> ?n" by (rule div_le_mono) simp
      finally show "region_end f div 8 \<le> ?n" .
    qed
    then show ?thesis by (simp add: list_all_iff)
  qed
  have fixed: "list_all (\<lambda>f. fd_variable f = None) (butlast fs)" using o(1) by (simp add: placed_def)
  show ?thesis
  proof (cases "if fs = [] then None else fd_variable (last fs)")
    case None
    then have "?m = ?n" using o(3) by (auto simp: MaxBitSize_def split: if_splits)
    then show ?thesis using sorted plain fixed None n by (simp add: laid_out_def Let_def assms(3))
  next
    case (Some e)
    then obtain gs l where l: "fs = gs @ [l]" "fd_variable l = Some e" by (cases fs rule: rev_cases) auto
    have v: "fd_bitfield l = None" "bits_end l = offset" using o(1) l by (simp_all add: placed_def)
    have w: "ex_min e = fd_count l" "ex_min e < ex_max e" "unat (fd_bits l) * unat (ex_max e) < 2 ^ 32"
      using f(1) [of l] l v by (auto simp: well_placed_def)
    have a: "unat (fd_bits l) mod 8 = 0" "unat (fd_offset l) mod 8 = 0"
      using f(2) [of l] l(1) v(1) by (simp_all add: usable_field_def)
    have "offset = unat (fd_offset l) + unat (fd_bits l) * unat (fd_count l)" using v(2) by (simp add: bits_end_def)
    then have small: "unat (fd_bits l) * unat (fd_count l) < 2 ^ 32" using off by simp
    have sizes: "unat (BitSize l) = unat (fd_bits l) * unat (fd_count l)"
      "unat (MaxBitSize l) = unat (fd_bits l) * unat (ex_max e)"
      using unat_BitSize [OF small] w(3) unat_mult_lem [of "fd_bits l" "ex_max e"] l(2)
      by (simp_all add: MaxBitSize_def)
    obtain k s where ks: "unat (fd_bits l) = 8 * k" "unat (fd_offset l) = 8 * s"
      using a by (metis mod_0_imp_dvd dvdE)
    have "unat (ex_min e) \<le> unat (ex_max e)" using w(2) by (simp add: word_less_nat_alt)
    then have "k * unat (fd_count l) \<le> k * unat (ex_max e)" using w(1) by simp
    then have mx: "unat maxbits = 8 * (s + k * unat (ex_max e))" "offset = 8 * (s + k * unat (fd_count l))"
      using o(3) l v(2) sizes ks by (simp_all add: bits_end_def)
    have eb: "elementBytes l = k" "field_start l = s"
      using ks by (simp_all add: elementBytes_def field_start_def unat_div)
    have "(8 * x + 7) div 8 = x" for x :: nat by simp
    then have ends: "?n = s + k * unat (fd_count l)" "?m = s + k * unat (ex_max e)" by (simp_all only: mx)
    have others: "list_all (plain_field s) gs"
    proof -
      have "plain_field s g" if g: "g \<in> set gs" for g
      proof (rule plain_of_placed)
        show "well_placed g" "usable_field g" using f g l(1) by auto
        have "separate g l" using o(1) l(1) g by (auto simp: placed_def sorted_wrt_append)
        then have "region_end g \<le> unat (fd_offset l)" using v(1) by (auto simp: separate_def region_start_def)
        then show "region_end g div 8 \<le> s" using ks by (auto dest: div_le_mono [of _ _ 8])
      qed
      then show ?thesis by (simp add: list_all_iff)
    qed
    have "fs \<noteq> []" "last fs = l" "butlast fs = gs" using l(1) by simp_all
    then show ?thesis using sorted plain fixed l v w n eb ends others
      by (simp add: laid_out_def Let_def assms(3) mult.commute)
  qed
qed

lemma resolveRecord_ready:
  assumes "resolveRecord r name instance classTemplate component = Inr rec" "CodecError (Some rec) = None"
  shows "record_ready rec"
proof -
  obtain proxy where p: "dataProxy classTemplate component = Inr proxy"
    using assms(1) by (auto simp: resolveRecord_def Let_def ebind_Inr_iff)
  let ?built = "\<lambda>selected. ebind (resolveFields r selected) (\<lambda>(fs, bitLength, maxBitLength).
      let rec = \<lparr>rc_name = name, rc_length = word_of_nat ((unat bitLength + 7) div 8),
            rc_maxLength = word_of_nat ((unat maxBitLength + 7) div 8), rc_fields = fs, rc_codec = None\<rparr>
      in Inr (rec\<lparr>rc_codec := Some (compileRecordCodec rec)\<rparr>))"
  obtain selected where "?built selected = Inr rec"
  proof (cases "filter (\<lambda>c. attr (Some c) ''shproxyref'' = attr (Some proxy) ''id'')
      (childrenNamed (Some instance) ''SIMPLECOMPCONT'')" rule: remdups_adj.cases)
    case (2 selected)
    show ?thesis by (rule that [of selected]) (use assms(1) p 2 in \<open>simp add: resolveRecord_def Let_def ebind_Inr_iff\<close>)
  qed (use assms(1) p in \<open>simp_all add: resolveRecord_def Let_def ebind_Inr_iff\<close>)
  then obtain fs bits maxbits where s: "resolveFields r selected = Inr (fs, bits, maxbits)"
    "rec = (let rec = \<lparr>rc_name = name, rc_length = word_of_nat ((unat bits + 7) div 8),
      rc_maxLength = word_of_nat ((unat maxbits + 7) div 8), rc_fields = fs, rc_codec = None\<rparr>
      in rec\<lparr>rc_codec := Some (compileRecordCodec rec)\<rparr>)"
    by (auto simp: ebind_Inr_iff Let_def)
  have codec: "rc_codec rec = Some (compileRecordCodec rec)" "rc_fields rec = fs"
    by (simp_all add: s(2) Let_def compileRecordCodec_def)
  then have "cc_err (compileFields fs []) = None"
    using assms(2) by (auto simp: CodecError_def usableRecordCodec_def compileRecordCodec_def split: sum.splits option.splits)
  then have "list_all usable_field fs" using compileFields_usable by blast
  then have "laid_out rec"
    by (rule resolved_laid_out [OF s(1), where c = "rc_codec rec" and name = name]) (simp add: s(2) Let_def)
  with codec(1) show ?thesis by (simp add: record_ready_def)
qed

end
