(* ===== verification/Cdd_Selection.thy ===== *)
theory Cdd_Selection
  imports Cdd_Catalog Cdd_Placement
begin

text \<open>
  The catalog of a selected variant: its records have codecs that round trip or carry a reported
  error, and its lookup tables find a DID if and only if it is the only one.
\<close>

section \<open>The records of a catalog\<close>

definition message_records :: "cdd_message option \<Rightarrow> cdd_record list" where
  "message_records m = (case m of None \<Rightarrow> [] | Some msg \<Rightarrow> errors_of (ms_record msg))"

definition service_records :: "service \<Rightarrow> cdd_record list" where
  "service_records s = message_records (sv_request s) @ message_records (sv_positiveResponse s)"

definition instance_records :: "catalog_instance \<Rightarrow> cdd_record list" where
  "instance_records i = concat (map service_records (in_services i))"

definition entry_records :: "catalog_entry \<Rightarrow> cdd_record list" where
  "entry_records e = (case e of
       ClassEntry c \<Rightarrow> concat (map instance_records (cl_instances c)) | InstanceEntry i \<Rightarrow> instance_records i)"

definition db_records :: "database \<Rightarrow> cdd_record list" where
  "db_records db = concat (map entry_records (db_entries db))"

definition codec_reported :: "database \<Rightarrow> cdd_record \<Rightarrow> bool" where
  "codec_reported db rec \<longleftrightarrow> (\<exists>e. CodecError (Some rec) = Some e \<and>
     (\<exists>d \<in> set (db_diagnostics db). dg_kind d = DiagnosticCodec \<and> dg_errors d = [CodecProblem e]))"

definition served :: "database \<Rightarrow> cdd_record \<Rightarrow> bool" where
  "served db rec \<longleftrightarrow> record_ready rec \<and> CodecError (Some rec) = None \<or> codec_reported db rec"

section \<open>Diagnostics only grow\<close>

definition grows :: "database \<Rightarrow> database \<Rightarrow> bool" where
  "grows db db' \<longleftrightarrow> set (db_diagnostics db) \<subseteq> set (db_diagnostics db') \<and> db_entries db' = db_entries db"

lemma grows_refl [simp]: "grows db db"
  by (simp add: grows_def)

lemma grows_trans: "grows a b \<Longrightarrow> grows b c \<Longrightarrow> grows a c"
  by (auto simp: grows_def)

lemma grows_report [simp]: "grows db (report path kind errors db)"
  by (auto simp: grows_def report_def)

lemma grows_fields [simp]:
  "grows db (db'\<lparr>db_dids := ds\<rparr>) \<longleftrightarrow> grows db db'"
  "grows db (db'\<lparr>db_didsByName := m\<rparr>) \<longleftrightarrow> grows db db'"
  "grows db (db'\<lparr>db_didsByIdentifier := t\<rparr>) \<longleftrightarrow> grows db db'"
  by (simp_all add: grows_def)

lemma served_grows: "served db rec \<Longrightarrow> grows db db' \<Longrightarrow> served db' rec"
  by (auto simp: served_def codec_reported_def grows_def)

lemma grows_report_trans: "grows db db' \<Longrightarrow> grows db (report path kind errors db')"
  using grows_trans grows_report by blast

lemma grows_add_did: "grows db (add_did path name i db)"
  by (auto simp: add_did_def Let_def intro!: grows_report_trans)

lemma grows_collect: "grows db (fst (collect_service path name s (db, mine)))"
  using grows_add_did by (auto simp: collect_service_def Let_def split: sum.splits)

lemma grows_collectDIDs: "grows db (collectDIDs path i db)"
proof -
  have "grows db (fst (fold (collect_service path name) ss (db, mine)))" for name ss mine
  proof (induction ss arbitrary: db mine)
    case (Cons s ss)
    obtain db' mine' where s: "collect_service path name s (db, mine) = (db', mine')" by fastforce
    then have "grows db db'" using grows_collect [of db path name s mine] by simp
    with Cons s grows_trans show ?case by auto
  qed simp
  then show ?thesis by (simp add: collectDIDs_def)
qed

lemma grows_report_message: "grows db (report_message path m db)"
  by (auto simp: report_message_def Let_def intro!: grows_report_trans split: option.splits)

lemma grows_report_message_trans: "grows db db' \<Longrightarrow> grows db (report_message path m db')"
  using grows_trans grows_report_message by blast

lemma grows_report_service: "grows db (report_service path s db)"
  by (auto simp: report_service_def Let_def intro!: grows_report_message_trans grows_report_trans)

lemma grows_report_services: "grows db (fold (\<lambda>s. report_service (path s) s) ss db)"
  by (induction ss arbitrary: db) (auto intro: grows_trans grows_report_service)

section \<open>Every record is served\<close>

lemma resolveMessage_record:
  assumes "resolveMessage r instance ct node = m" "rec \<in> set (message_records m)"
  shows "CodecError (Some rec) = None \<Longrightarrow> record_ready rec"
proof -
  obtain c where "data_record r instance ct c = Inr rec"
    using assms
    by (cases node) (auto simp: message_records_def errors_of_def
      split: option.splits prod.splits list.splits sum.splits)
  then obtain i where "resolveRecord r (childText (Some instance) ''QUAL'') instance ct i = Inr rec"
    by (cases c) (auto simp: Let_def ebind_Inr_iff)
  then show "CodecError (Some rec) = None \<Longrightarrow> record_ready rec" by (rule resolveRecord_ready)
qed

lemma resolveService_record:
  assumes "rec \<in> set (service_records (resolveService r instance ct node k))" "CodecError (Some rec) = None"
  shows "record_ready rec"
  using assms resolveMessage_record
  by (cases node) (auto simp: service_records_def Let_def message_records_def [of None] simp del: resolveMessage.simps
    split: sum.splits prod.splits)

lemma report_message_served:
  assumes "rec \<in> set (message_records m)" "CodecError (Some rec) = Some e"
  shows "codec_reported (report_message path m db) rec"
  using assms
  by (auto simp: message_records_def report_message_def errors_of_def codec_reported_def report_def Let_def
    split: option.splits)

lemma codec_reported_grows: "codec_reported db rec \<Longrightarrow> grows db db' \<Longrightarrow> codec_reported db' rec"
  by (auto simp: codec_reported_def grows_def)

lemma report_service_served:
  assumes "rec \<in> set (service_records s)" "CodecError (Some rec) = Some e"
  shows "codec_reported (report_service path s db) rec"
  using assms report_message_served codec_reported_grows grows_report_message
  unfolding report_service_def service_records_def Let_def set_append Un_iff by blast

lemma report_services_served:
  assumes "s \<in> set ss" "rec \<in> set (service_records s)" "CodecError (Some rec) = Some e"
  shows "codec_reported (fold (\<lambda>s. report_service (path s) s) ss db) rec"
  using assms(1)
proof (induction ss arbitrary: db)
  case (Cons t ss)
  show ?case
  proof (cases "s \<in> set ss")
    case False
    then have "codec_reported (report_service (path t) t db) rec"
      using Cons.prems report_service_served [OF assms(2,3)] by auto
    then show ?thesis using codec_reported_grows grows_report_services by auto
  qed (use Cons.IH in simp)
qed simp

lemma resolveInstance_served:
  assumes "resolveInstance r path node db = (db', i)"
  shows "grows db db'" and "list_all (served db') (instance_records i)"
proof -
  let ?ct = "case reference r (attr (Some node) ''tmplref'') ''DCLTMPL'' of Inl _ \<Rightarrow> None | Inr t \<Rightarrow> Some t"
  let ?ss = "map (\<lambda>(k, n). resolveService r node ?ct n (Suc k)) (enumerate 0 (childrenNamed (Some node) ''SERVICE''))"
  let ?db1 = "report path DiagnosticReference (problem_of (reference r (attr (Some node) ''tmplref'') ''DCLTMPL'')) db"
  let ?db2 = "fold (\<lambda>s. report_service (path @ [Step ''SERVICE'' (sv_index s)]) s) ?ss ?db1"
  have i: "in_services i = ?ss" and db': "db' = collectDIDs path i ?db2"
    using assms by (cases node; auto simp: Let_def simp del: resolveService.simps)+
  show "grows db db'"
    unfolding db' using grows_report grows_report_services grows_collectDIDs grows_trans by meson
  have "served db' rec" if rec: "rec \<in> set (instance_records i)" for rec
  proof -
    obtain s where s: "s \<in> set ?ss" "rec \<in> set (service_records s)" using rec by (auto simp: instance_records_def i)
    show ?thesis
    proof (cases "CodecError (Some rec)")
      case None
      then show ?thesis using s resolveService_record by (auto simp: served_def)
    next
      case (Some e)
      then have "codec_reported ?db2 rec" using report_services_served [OF s] by simp
      then show ?thesis using codec_reported_grows grows_collectDIDs by (auto simp: served_def db')
    qed
  qed
  then show "list_all (served db') (instance_records i)" by (simp add: list_all_iff)
qed

lemma resolve_instances_served:
  assumes "resolve_instances r path k ns db = (db', found)"
  shows "grows db db' \<and> list_all (served db') (concat (map instance_records found))"
  using assms
proof (induction ns arbitrary: k db db' found)
  case (Cons n ns)
  obtain db1 i where i: "resolveInstance r (path @ [Step ''DIAGINST'' k]) n db = (db1, i)" by fastforce
  obtain others where o: "resolve_instances r path (Suc k) ns db1 = (db', others)" "found = i # others"
    using Cons.prems i by (auto split: prod.splits)
  note first = resolveInstance_served [OF i] and later = Cons.IH [OF o(1)]
  then show ?case
    using grows_trans served_grows by (auto simp: o(2) list_all_iff)
qed simp

definition entries_served :: "database \<Rightarrow> bool" where
  "entries_served db \<longleftrightarrow> list_all (served db) (db_records db)"

lemma entries_served_grows: "entries_served db \<Longrightarrow> grows db db' \<Longrightarrow> entries_served db'"
  using served_grows by (auto simp: entries_served_def list_all_iff db_records_def) (metis grows_def)

lemma served_entries [simp]: "served (db\<lparr>db_entries := es\<rparr>) rec = served db rec"
  by (simp add: served_def codec_reported_def)

lemma add_entry_served:
  assumes "entries_served db" "list_all (served db) (entry_records e)"
  shows "entries_served (db\<lparr>db_entries := db_entries db @ [e]\<rparr>)"
  using assms by (auto simp: entries_served_def db_records_def list_all_iff)

lemma resolve_entry_served:
  assumes "entries_served db"
  shows "entries_served (fst (resolve_entry r base node (db, classes, instances)))"
proof -
  consider (klass) "el_name node = ''DIAGCLASS''" | (inst) "el_name node = ''DIAGINST''"
    | (other) "el_name node \<noteq> ''DIAGCLASS''" "el_name node \<noteq> ''DIAGINST''" by blast
  then show ?thesis
  proof cases
    case klass
    let ?path = "base @ [Step ''DIAGCLASS'' (Suc classes)]"
    let ?db1 = "report ?path DiagnosticReference (problem_of (reference r (attr (Some node) ''tmplref'') ''DCLTMPL'')) db"
    obtain db2 found where f: "resolve_instances r ?path 1 (childrenNamed (Some node) ''DIAGINST'') ?db1 = (db2, found)"
      by fastforce
    note s = resolve_instances_served [OF f]
    have "entries_served db2" using assms s entries_served_grows grows_report grows_trans by blast
    then show ?thesis using klass f s by (auto simp: resolve_entry_def Let_def intro!: add_entry_served simp: entry_records_def)
  next
    case inst
    obtain db2 i where f: "resolveInstance r (base @ [Step ''DIAGINST'' (Suc instances)]) node db = (db2, i)" by fastforce
    note s = resolveInstance_served [OF f]
    have "entries_served db2" using assms s(1) entries_served_grows by blast
    then show ?thesis using inst f s(2) by (auto simp: resolve_entry_def Let_def intro!: add_entry_served simp: entry_records_def)
  qed (use assms in \<open>simp add: resolve_entry_def\<close>)
qed

lemma fold_fst_invariant:
  assumes "P (fst st)" "\<And>x st. P (fst st) \<Longrightarrow> P (fst (f x st))"
  shows "P (fst (fold f xs st))"
  using assms by (induction xs arbitrary: st) auto

lemma resolve_served: "entries_served (resolve r variant e v)"
  unfolding resolve_def Let_def
proof (rule fold_fst_invariant)
  show "entries_served (fst (resolve_entry r' base node st))" if "entries_served (fst st)" for r' base node st
    using resolve_entry_served that by (cases st) auto
qed (simp add: entries_served_def db_records_def)

section \<open>The lookup tables\<close>

text \<open>The entry of a table for the indices a key occurs at.\<close>

definition table_entry :: "'k list \<Rightarrow> 'k \<Rightarrow> nat option option" where
  "table_entry keys x = (case filter (\<lambda>k. keys ! k = x) [0..<length keys] of
       [] \<Rightarrow> None | [k] \<Rightarrow> Some (Some k) | _ \<Rightarrow> Some None)"

lemma table_entry_snoc:
  "table_entry (keys @ [y]) x =
    (if x = y then Some (if table_entry keys x = None then Some (length keys) else None) else table_entry keys x)"
proof -
  have "filter (\<lambda>k. (keys @ [y]) ! k = x) [0..<length keys] = filter (\<lambda>k. keys ! k = x) [0..<length keys]"
    by (intro filter_cong) (simp_all add: nth_append)
  then show ?thesis by (auto simp: table_entry_def split: list.splits)
qed

definition tables_ok :: "database \<Rightarrow> bool" where
  "tables_ok db \<longleftrightarrow>
     (\<forall>i. map_of (db_didsByIdentifier db) i = table_entry (map did_identifier (db_dids db)) i) \<and>
     (\<forall>n. map_of (db_didsByName db) n = (if n = [] then None else table_entry (map did_instance (db_dids db)) n))"

lemma report_fields [simp]:
  "db_dids (report path kind errors db) = db_dids db" "db_didsByName (report path kind errors db) = db_didsByName db"
  "db_didsByIdentifier (report path kind errors db) = db_didsByIdentifier db"
  "db_entries (report path kind errors db) = db_entries db"
  by (simp_all add: report_def)

lemma tables_ok_report [simp]: "tables_ok (report path kind errors db) = tables_ok db"
  by (simp add: tables_ok_def)

lemma add_did_tables:
  assumes "tables_ok db"
  shows "tables_ok (add_did path name i db)"
  using assms
  by (auto simp: tables_ok_def add_did_def Let_def table_entry_snoc)

lemma attach_keys:
  "map did_identifier (ds[k := attach s (ds ! k)]) = map did_identifier ds"
  "map did_instance (ds[k := attach s (ds ! k)]) = map did_instance ds"
  by (cases "k < length ds"; simp add: map_update attach_def list_update_beyond; metis list_update_id nth_map)+

lemma collect_service_tables:
  assumes "tables_ok (fst st)"
  shows "tables_ok (fst (collect_service path name s st))"
proof -
  obtain db mine where st: "st = (db, mine)" by fastforce
  have "tables_ok (db'\<lparr>db_dids := (db_dids db')[k := attach s (db_dids db' ! k)]\<rparr>)" if "tables_ok db'" for db' k
    using that by (simp add: tables_ok_def attach_keys)
  then show ?thesis using assms add_did_tables [of db path name]
    by (auto simp: collect_service_def st Let_def split: sum.splits)
qed

lemma collectDIDs_tables: "tables_ok db \<Longrightarrow> tables_ok (collectDIDs path i db)"
  unfolding collectDIDs_def by (rule fold_fst_invariant) (simp_all add: collect_service_tables)

lemma report_message_tables [simp]: "tables_ok (report_message path m db) = tables_ok db"
  by (simp add: report_message_def Let_def split: option.splits)

lemma report_service_tables [simp]: "tables_ok (report_service path s db) = tables_ok db"
  by (simp add: report_service_def Let_def)

lemma report_services_tables: "tables_ok db \<Longrightarrow> tables_ok (fold (\<lambda>s. report_service (path s) s) ss db)"
  by (induction ss arbitrary: db) simp_all

lemma resolveInstance_tables: "tables_ok db \<Longrightarrow> tables_ok (fst (resolveInstance r path node db))"
  by (cases node) (simp add: Let_def collectDIDs_tables report_services_tables)

lemma resolve_instances_tables: "tables_ok db \<Longrightarrow> tables_ok (fst (resolve_instances r path k ns db))"
proof (induction ns arbitrary: k db)
  case (Cons n ns)
  have "tables_ok (fst (resolveInstance r (path @ [Step ''DIAGINST'' k]) n db))"
    using Cons.prems by (rule resolveInstance_tables)
  with Cons.IH show ?case by (auto split: prod.splits) (metis fst_conv)
qed simp

lemma tables_ok_entries [simp]: "tables_ok (db\<lparr>db_entries := es\<rparr>) = tables_ok db"
  by (simp add: tables_ok_def)

lemma resolve_entry_tables:
  assumes "tables_ok (fst st)"
  shows "tables_ok (fst (resolve_entry r base node st))"
proof -
  obtain db classes instances where st: "st = (db, classes, instances)" by (metis surj_pair)
  have "tables_ok db" using assms by (simp add: st)
  then show ?thesis
    using resolveInstance_tables [of db r "base @ [Step ''DIAGINST'' (Suc instances)]" node]
      resolve_instances_tables [of "report (base @ [Step ''DIAGCLASS'' (Suc classes)]) DiagnosticReference
        (problem_of (reference r (attr (Some node) ''tmplref'') ''DCLTMPL'')) db" r
        "base @ [Step ''DIAGCLASS'' (Suc classes)]" 1 "childrenNamed (Some node) ''DIAGINST''"]
    by (auto simp: resolve_entry_def st Let_def split: prod.splits)
qed

lemma resolve_tables: "tables_ok (resolve r variant e v)"
  unfolding resolve_def Let_def
proof (rule fold_fst_invariant)
  show "tables_ok (fst (resolve_entry r' base node st))" if "tables_ok (fst st)" for r' base node st
    by (rule resolve_entry_tables [OF that])
qed (simp add: tables_ok_def table_entry_def)

end
