(* ===== verification/Cdd_Catalog_Theorems.thy ===== *)
theory Cdd_Catalog_Theorems
  imports Cdd_Theorems Cdd_Selection
begin

text \<open>
  What a selected CDD catalog promises: usable codecs for its records, or a diagnostic, and
  lookups of DIDs that answer exactly when the answer is unique.
\<close>

section \<open>Records\<close>

text \<open>C38 Every record of a selected catalog either has a codec, and then its fields are laid out apart
  within its length and every payload it encodes decodes to the values that were encoded, or its codec
  reports an error, which is among the catalog's diagnostics. No document makes the resolver hand
  out a record whose fields overlap, wrap around or leave the payload.\<close>
theorem catalog_records_have_codecs:
  assumes "Select document ecu variant = Inr db" and "rec \<in> set (db_records db)"
  shows "CodecError (Some rec) = None \<and> record_ready rec \<and>
      (\<forall>vs payload. CddEncode rec vs = Inr payload \<longrightarrow>
         CddDecode rec payload = emapM (read_back vs) (rc_fields rec) \<and> is_ok (CddDecode rec payload)) \<or>
    codec_reported db rec"
proof -
  have "entries_served db"
    using assms(1) resolve_served by (auto simp: Select_def Let_def ebind_Inr_iff split: option.splits)
  then have "served db rec" using assms(2) by (simp add: entries_served_def list_all_iff)
  then show ?thesis using ready_round_trip by (auto simp: served_def)
qed

section \<open>Lookups\<close>

definition only_one :: "'a list \<Rightarrow> 'a option" where
  "only_one xs = (case xs of [x] \<Rightarrow> Some x | _ \<Rightarrow> None)"

lemma filter_by_index: "filter (\<lambda>d. key d = x) ds = map (nth ds) (filter (\<lambda>k. map key ds ! k = x) [0..<length ds])"
proof -
  have "filter (\<lambda>d. key d = x) ds = filter (\<lambda>d. key d = x) (map (nth ds) [0..<length ds])" by (simp add: map_nth)
  also have "\<dots> = map (nth ds) (filter (\<lambda>k. key (ds ! k) = x) [0..<length ds])" by (simp add: filter_map comp_def)
  also have "filter (\<lambda>k. key (ds ! k) = x) [0..<length ds] = filter (\<lambda>k. map key ds ! k = x) [0..<length ds]"
    by (intro filter_cong) simp_all
  finally show ?thesis .
qed

lemma table_entry_only_one:
  "(case table_entry (map key ds) x of Some (Some k) \<Rightarrow> Some (ds ! k) | _ \<Rightarrow> None) = only_one (filter (\<lambda>d. key d = x) ds)"
  unfolding filter_by_index [of key x ds] by (auto simp: table_entry_def only_one_def split: list.splits)

text \<open>C39 The lookup tables of a selected catalog agree with a search of its DIDs: an identifier, or a
  qualifier that is not empty, is found if and only if exactly one DID of the catalog has it, and
  then that DID is returned.\<close>
theorem did_lookups_are_exact:
  assumes "Select document ecu variant = Inr db"
  shows "DIDByIdentifier (Some db) i = only_one (filter (\<lambda>d. did_identifier d = i) (db_dids db)) \<and>
    DIDByName (Some db) n = (if n = [] then None else only_one (filter (\<lambda>d. did_instance d = n) (db_dids db)))"
proof -
  have "tables_ok db"
    using assms resolve_tables by (auto simp: Select_def Let_def ebind_Inr_iff split: option.splits)
  then show ?thesis
    by (simp add: DIDByIdentifier_def DIDByName_def tables_ok_def table_entry_only_one)
qed

section \<open>An example document\<close>

definition leaf :: "string \<Rightarrow> (string \<times> string) list \<Rightarrow> element" where
  "leaf n as = Element n as [] []"

definition qual :: "string \<Rightarrow> element" where
  "qual t = Element ''QUAL'' [] [] t"

definition demo_document :: element where
  "demo_document = Element ''ECUDOC'' []
     [Element ''DATATYPES'' []
        [Element ''IDENT'' [(''id'', ''t8'')] [leaf ''CVALUETYPE'' [(''bl'', ''8''), (''enc'', ''uns''), (''bo'', ''21'')]] [],
         Element ''IDENT'' [(''id'', ''t3'')] [leaf ''CVALUETYPE'' [(''bl'', ''3''), (''enc'', ''uns''), (''bo'', ''21'')]] []] [],
      Element ''PROTOCOLSERVICE'' [(''id'', ''p'')]
        [Element ''REQ'' [] [leaf ''CONSTCOMP'' [(''spec'', ''sid''), (''bl'', ''8''), (''v'', ''34'')],
           leaf ''CONSTCOMP'' [(''spec'', ''id''), (''bl'', ''16''), (''v'', ''18'')]] [],
         Element ''POS'' [] [leaf ''SIMPLEPROXYCOMP'' [(''id'', ''c''), (''dest'', ''data'')]] []] [],
      Element ''DCLTMPL'' [(''id'', ''k'')]
        [leaf ''DCLSRVTMPL'' [(''id'', ''s''), (''tmplref'', ''p'')],
         Element ''SHPROXY'' [(''id'', ''x''), (''dest'', ''data'')] [leaf ''PROXYCOMPREF'' [(''idref'', ''c'')]] []] [],
      Element ''ECU'' [] [Element ''VAR'' []
        [Element ''DIAGINST'' [(''tmplref'', ''k'')]
           [qual ''Info'', leaf ''SERVICE'' [(''tmplref'', ''s'')],
            Element ''SIMPLECOMPCONT'' [(''shproxyref'', ''x'')]
              [Element ''DATAOBJ'' [(''dtref'', ''t8'')] [qual '' level ''] [],
               Element ''STRUCT'' [(''dtref'', ''t8'')]
                 [Element ''DATAOBJ'' [(''dtref'', ''t3'')] [qual ''low''] [],
                  leaf ''GAPDATAOBJ'' [(''bl'', ''1'')],
                  Element ''DATAOBJ'' [(''dtref'', ''t3'')] [qual ''high''] []] []] []] []] []] []] []"

definition demo_db :: database where
  "demo_db = projr (Select (Some (newResolver demo_document)) 0 0)"

lemma demo_selected: "Select (Some (newResolver demo_document)) 0 0 = Inr demo_db"
proof -
  have "is_ok (Select (Some (newResolver demo_document)) 0 0)" by code_simp
  then show ?thesis by (auto simp: demo_db_def is_ok_iff)
qed

lemma demo_record: "map (map fd_name \<circ> rc_fields) (db_records demo_db) = [[''level'', ''low'', ''high'']]"
  by code_simp

theorem catalog_records_have_codecs_witness:
  "\<exists>rec \<in> set (db_records demo_db). map fd_name (rc_fields rec) = [''level'', ''low'', ''high''] \<and>
     (record_ready rec \<or> codec_reported demo_db rec)"
proof -
  obtain rec where rec: "rec \<in> set (db_records demo_db)" "map fd_name (rc_fields rec) = [''level'', ''low'', ''high'']"
    using demo_record by (cases "db_records demo_db") auto
  with catalog_records_have_codecs [OF demo_selected rec(1)] show ?thesis by (intro bexI [of _ rec]) auto
qed

theorem did_lookups_are_exact_witness:
  "DIDByIdentifier (Some demo_db) 0x12 = only_one (filter (\<lambda>d. did_identifier d = 0x12) (db_dids demo_db)) \<and>
   map did_identifier (db_dids demo_db) = [0x12]"
  using did_lookups_are_exact [OF demo_selected] by (intro conjI) (blast, code_simp)

end
