(* ===== verification/Spec2Isabelle.thy ===== *)
theory Spec2Isabelle
  imports Capture_Theorems J1939_Theorems Dbc_Theorems Uds_Service_Theorems Xcp_Memory Cdd_Catalog_Theorems
begin

text \<open>
  A model of gocan, a Go module for CAN and CAN FD networks, and the theorems that make it correct.

  The program. A driver records the frames and events of its bus in a capture
  (\<open>capture.go\<close>): an append-only log in chunks that any number of readers follow with
  cursors, wait on for the next frame of a key, prune and clear. The protocol clients send
  through a bus and read the peer's answers from its capture: ISO-TP (\<open>isotp/\<close>) segments
  payloads with flow control; UDS (\<open>uds/\<close>) exchanges diagnostic requests over ISO-TP; J1939
  (\<open>j1939/\<close>) claims an address and moves large messages over its own transport. The codecs
  give frames their meaning: DBC (\<open>dbc/codec.go\<close>) maps signals to the bits of a payload.

  Theories and source.
  Prelude: results as sums, byte orders and facts on lists and words the components share.
  Frame, Capture_Record: \<open>frame.go\<close>, \<open>event.go\<close>, the records of \<open>capture.go\<close>.
  Capture_Chunk, Capture_Log, Capture_Store, Capture_Read, Capture, Capture_Next,
  Capture_Theorems: \<open>capture.go\<close> and \<open>capture_range.go\<close>. A chunk is a list of records with its
  indexes; the abstract content of a capture is the list of its records with their sequence
  numbers, and the reads are shown to be filters of that list. Next is split into the registration of
  a waiter, the wake by a write and the waiter's own end, and its theorem ranges over every
  interleaving of those.
  IsoTp_Frame, IsoTp_Link, IsoTp_Receive: \<open>isotp/\<close> and \<open>internal/transport/cursor.go\<close>.
  J1939_Header, J1939_Sessions, J1939_Arbitration, J1939_Decoder, J1939_Buses, J1939_Client,
  J1939_Delivery, J1939_Theorems: \<open>j1939/\<close>.
  Scalar, Go_Float, Field_Store, Dbc_Model, Dbc_Bits, Dbc_Layout, Dbc_Compiled, Dbc_Codec,
  Dbc_Values, Dbc_Theorems: \<open>internal/scalar/scalar.go\<close>, \<open>dbc/model.go\<close>, \<open>dbc/codec.go\<close>.
  Uds_Client, Uds_Services, Uds_Theorems, Uds_Service_Theorems: \<open>uds/\<close>.

  Effects. A method with a receiver is a function from the state record to its result and the
  new state; an error is a value of a sum type. Whatever a client cannot determine itself
  (the frames that arrive, the ends of waits, failed sends, clock readings) is a script in its
  state, so that a theorem about all scripts is a theorem about all peers. Machine integers keep their
  width; a Go \<open>int\<close> that only counts bytes of a slice is a natural number.

  Bounds and fuel. The loops of the senders and receivers are bounded by the length of the
  payload, of the script or of the capture; the theorems named \<open>\<dots>_ends\<close>, \<open>\<dots>_delivers\<close> and
  \<open>\<dots>_is_answered\<close> show that the fuel an operation is started with is enough.

  Interfaces. \<open>field_store\<close> is the contract of a bit-addressed store that the DBC codec's
  round trip needs, interpreted by the codec's own bit accessors; \<open>partial_codec\<close> is the
  contract of an encoder with a decoder, interpreted by every codec of the model.

  Not modelled. The scheduling of goroutines inside one operation and the cancellation of
  contexts other than through the scripts; the text of errors; the String methods; device
  drivers and discovery, which call the operating system and vendor libraries; the readers
  and writers of DBC, ASC, MF4 and CDD files.
\<close>

end
